(* ===== verification/Py_Time.thy ===== *)
theory Py_Time
  imports Prelude
begin

text \<open>
  Dates, timedeltas and datetimes of the Python standard library, as far as the program uses
  them.  A \<open>date\<close> is its proleptic Gregorian ordinal (\<open>date.toordinal()\<close>, 1 for 0001-01-01);
  arithmetic outside \<open>date.min .. date.max\<close> raises \<open>OverflowError\<close>.  A \<open>timedelta\<close> is a number
  of microseconds.  A \<open>datetime\<close> is a wall-clock reading in microseconds since 0001-01-01T00:00
  with its UTC offset, \<open>None\<close> for a naive one; an \<open>instant\<close> is a UTC reading.  The UTC offset of
  a named zone at a wall-clock time comes from the tz database and is a parameter of the
  definitions that use it.
\<close>

type_synonym date = int
type_synonym timedelta = int
type_synonym instant = int

definition max_ordinal :: int where "max_ordinal = 3652059"

definition day_us :: int where "day_us = 86400000000"

definition max_instant :: int where "max_instant = max_ordinal * day_us"

definition valid_date :: "date \<Rightarrow> bool" where
  "valid_date d \<longleftrightarrow> 1 \<le> d \<and> d \<le> max_ordinal"

definition valid_instant :: "instant \<Rightarrow> bool" where
  "valid_instant t \<longleftrightarrow> 0 \<le> t \<and> t < max_instant"

definition days :: "int \<Rightarrow> timedelta" where "days n = n * day_us"

definition timedelta_days :: "timedelta \<Rightarrow> int" where "timedelta_days t = t div day_us"

definition overflow_exn :: exn where "overflow_exn = OverflowError ''date value out of range''"

text \<open>\<open>d + timedelta\<close> on a date uses the whole days of the timedelta only.\<close>

definition date_plus :: "date \<Rightarrow> timedelta \<Rightarrow> date res" where
  "date_plus d t = (if valid_date (d + timedelta_days t) then Inr (d + timedelta_days t)
                    else Inl overflow_exn)"

definition add_days :: "date \<Rightarrow> int \<Rightarrow> date res" where
  "add_days d n = (if valid_date (d + n) then Inr (d + n) else Inl overflow_exn)"

text \<open>\<open>date.weekday()\<close>: Monday is 0.\<close>

definition weekday :: "date \<Rightarrow> int" where "weekday d = (d + 6) mod 7"

section \<open>Datetimes\<close>

datatype datetime = Datetime (wall: int) (utcoffset: "int option")

definition is_aware :: "datetime \<Rightarrow> bool" where "is_aware t \<longleftrightarrow> utcoffset t \<noteq> None"

text \<open>
  \<open>value.astimezone(timezone.utc)\<close> of an aware datetime, guarded by the awareness check that
  every \<open>_utc\<close> helper of the program makes first; \<open>e\<close> is the exception that check raises.
\<close>

definition to_utc :: "exn \<Rightarrow> datetime \<Rightarrow> instant res" where
  "to_utc e t = (case utcoffset t of
     None \<Rightarrow> Inl e
   | Some off \<Rightarrow> (if valid_instant (wall t - off) then Inr (wall t - off) else Inl overflow_exn))"

definition utc_datetime :: "instant \<Rightarrow> datetime" where
  "utc_datetime t = Datetime t (Some 0)"

definition instant_date :: "instant \<Rightarrow> date" where
  "instant_date t = t div day_us + 1"

lemma to_utc_utc_datetime [simp]: "valid_instant t \<Longrightarrow> to_utc e (utc_datetime t) = Inr t"
  by (simp add: to_utc_def utc_datetime_def)

lemma to_utc_valid: "to_utc e t = Inr u \<Longrightarrow> valid_instant u"
  by (auto simp: to_utc_def split: option.splits if_splits)

lemma to_utc_naive [simp]: "utcoffset t = None \<Longrightarrow> to_utc e t = Inl e"
  by (simp add: to_utc_def)

lemma to_utc_aware: "to_utc e t = Inr u \<Longrightarrow> is_aware t"
  by (auto simp: to_utc_def is_aware_def split: option.splits)

lemma day_us_pos [simp]: "0 < day_us"
  by (simp add: day_us_def)

lemma instant_date_mono: "s \<le> t \<Longrightarrow> instant_date s \<le> instant_date t"
  by (simp add: instant_date_def zdiv_mono1)

lemma valid_instant_date: "valid_instant t \<Longrightarrow> valid_date (instant_date t)"
proof -
  assume v: "valid_instant t"
  then have "0 \<le> t div day_us" by (simp add: valid_instant_def pos_imp_zdiv_nonneg_iff)
  moreover have "t div day_us < max_ordinal"
    using v unfolding valid_instant_def max_instant_def day_us_def max_ordinal_def by linarith
  ultimately show ?thesis by (simp add: valid_date_def instant_date_def)
qed

lemma timedelta_days_days [simp]: "timedelta_days (days n) = n"
  by (simp add: timedelta_days_def days_def day_us_def)

lemma weekday_range: "0 \<le> weekday d" "weekday d < 7"
  by (simp_all add: weekday_def)

lemma weekday_add_7: "weekday (d + 7) = weekday d"
proof -
  have "d + 7 + 6 = (d + 6) + 7" by simp
  then show ?thesis unfolding weekday_def by (metis mod_add_self2)
qed

section \<open>Calendar arithmetic\<close>

definition is_leap :: "int \<Rightarrow> bool" where
  "is_leap y \<longleftrightarrow> y mod 4 = 0 \<and> (y mod 100 \<noteq> 0 \<or> y mod 400 = 0)"

definition days_before_year :: "int \<Rightarrow> int" where
  "days_before_year y = (let p = y - 1 in p * 365 + p div 4 - p div 100 + p div 400)"

definition month_lengths :: "int \<Rightarrow> int list" where
  "month_lengths y = [31, if is_leap y then 29 else 28, 31, 30, 31, 30, 31, 31, 30, 31, 30, 31]"

definition valid_ymd :: "int \<Rightarrow> int \<Rightarrow> int \<Rightarrow> bool" where
  "valid_ymd y m d \<longleftrightarrow> 1 \<le> y \<and> y \<le> 9999 \<and> 1 \<le> m \<and> m \<le> 12 \<and>
     1 \<le> d \<and> d \<le> month_lengths y ! nat (m - 1)"

definition ymd2ord :: "int \<Rightarrow> int \<Rightarrow> int \<Rightarrow> date" where
  "ymd2ord y m d = days_before_year y + sum_list (take (nat (m - 1)) (month_lengths y)) + d"

fun split_months :: "int list \<Rightarrow> int \<Rightarrow> int \<Rightarrow> int \<times> int" where
  "split_months [] m u = (m, u + 1)"
| "split_months (l # ls) m u = (if u < l then (m, u + 1) else split_months ls (m + 1) (u - l))"

definition ord2ymd :: "date \<Rightarrow> int \<times> int \<times> int" where
  "ord2ymd d =
     (let n = d - 1;
          n400 = n div 146097; r400 = n mod 146097;
          n100 = r400 div 36524; r100 = r400 mod 36524;
          n4 = r100 div 1461; r4 = r100 mod 1461;
          n1 = r4 div 365; r1 = r4 mod 365;
          y = n400 * 400 + n100 * 100 + n4 * 4 + n1 + 1
      in if n1 = 4 \<or> n100 = 4 then (y - 1, 12, 31)
         else (y, split_months (month_lengths y) 1 r1))"

lemma month_lengths_sum: "sum_list (month_lengths y) = (if is_leap y then 366 else 365)"
  by (simp add: month_lengths_def)

lemma length_month_lengths [simp]: "length (month_lengths y) = 12"
  by (simp add: month_lengths_def)

lemma split_months_correct:
  assumes "0 \<le> u" and "u < sum_list ls" and "\<forall>l\<in>set ls. 0 < l"
  shows "case split_months ls m u of (m', d) \<Rightarrow>
           m \<le> m' \<and> m' < m + int (length ls) \<and> 1 \<le> d \<and> d \<le> ls ! nat (m' - m) \<and>
           sum_list (take (nat (m' - m)) ls) + d = u + 1"
  using assms
proof (induction ls arbitrary: m u)
  case Nil
  then show ?case by simp
next
  case (Cons l ls)
  show ?case
  proof (cases "u < l")
    case True
    then show ?thesis using Cons.prems by simp
  next
    case False
    obtain m' d where s: "split_months ls (m + 1) (u - l) = (m', d)" by fastforce
    have ih: "m + 1 \<le> m'" "m' < m + 1 + int (length ls)" "1 \<le> d" "d \<le> ls ! nat (m' - (m + 1))"
      "sum_list (take (nat (m' - (m + 1))) ls) + d = u - l + 1"
      using Cons.IH [of "u - l" "m + 1"] Cons.prems False by (simp_all add: s)
    have "nat (m' - m) = Suc (nat (m' - (m + 1)))" using ih(1) by simp
    with ih False s show ?thesis by simp
  qed
qed

text \<open>The four-level decomposition of an ordinal is exact in the leap-year cycles.\<close>

lemma mod_eq_0_top: "1 \<le> r \<Longrightarrow> r \<le> k \<Longrightarrow> (k * q + r) mod k = 0 \<longleftrightarrow> r = (k::int)"
proof -
  assume r: "1 \<le> r" "r \<le> k"
  have m: "(k * q + r) mod k = r mod k" by simp
  show ?thesis
  proof (cases "r = k")
    case False
    then show ?thesis using r m by (simp add: mod_pos_pos_trivial)
  qed simp
qed

lemma days_before_year_cycles:
  fixes a b c e :: int
  assumes "0 \<le> b" "b < 4" "0 \<le> c" "c < 25" "0 \<le> e" "e < 4"
  shows "days_before_year (400 * a + 100 * b + 4 * c + e + 1)
           = 146097 * a + 36524 * b + 1461 * c + 365 * e"
proof -
  let ?p = "400 * a + 100 * b + 4 * c + e"
  have "?p div 4 = 100 * a + 25 * b + c"
    by (rule int_div_pos_eq [where r = e]) (use assms in auto)
  moreover have "?p div 100 = 4 * a + b"
    by (rule int_div_pos_eq [where r = "4 * c + e"]) (use assms in auto)
  moreover have "?p div 400 = a"
    by (rule int_div_pos_eq [where r = "100 * b + 4 * c + e"]) (use assms in auto)
  ultimately show ?thesis by (simp add: days_before_year_def Let_def)
qed

lemma is_leap_cycles:
  fixes a b c e :: int
  assumes "0 \<le> b" "b < 4" "0 \<le> c" "c < 25" "0 \<le> e" "e < 4"
  shows "is_leap (400 * a + 100 * b + 4 * c + e + 1) \<longleftrightarrow> e = 3 \<and> (c \<noteq> 24 \<or> b = 3)"
proof -
  let ?y = "400 * a + 100 * b + 4 * c + e + 1"
  have "?y mod 4 = 0 \<longleftrightarrow> e + 1 = 4"
    using mod_eq_0_top [of "e + 1" 4 "100 * a + 25 * b + c"] assms by (simp add: algebra_simps)
  moreover have "?y mod 100 = 0 \<longleftrightarrow> 4 * c + e + 1 = 100"
    using mod_eq_0_top [of "4 * c + e + 1" 100 "4 * a + b"] assms by (simp add: algebra_simps)
  moreover have "?y mod 400 = 0 \<longleftrightarrow> 100 * b + 4 * c + e + 1 = 400"
    using mod_eq_0_top [of "100 * b + 4 * c + e + 1" 400 a] assms by (simp add: algebra_simps)
  ultimately show ?thesis unfolding is_leap_def using assms by auto
qed

text \<open>The components of \<open>ord2ymd\<close>, named for the proofs below.\<close>

lemma ord2ymd_parts:
  fixes n a r b s c t e u :: int
  assumes n: "0 \<le> n"
    and a_def: "a = n div 146097" and r_def: "r = n mod 146097"
    and b_def: "b = r div 36524" and s_def: "s = r mod 36524"
    and c_def: "c = s div 1461" and t_def: "t = s mod 1461"
    and e_def: "e = t div 365" and u_def: "u = t mod 365"
  shows "n = 146097 * a + 36524 * b + 1461 * c + 365 * e + u"
    and "0 \<le> a" "0 \<le> b" "b \<le> 4" "0 \<le> c" "c < 25" "0 \<le> e" "e \<le> 4" "0 \<le> u" "u < 365"
    and "b = 4 \<Longrightarrow> c = 0 \<and> e = 0 \<and> u = 0"
    and "e = 4 \<Longrightarrow> u = 0 \<and> c \<noteq> 24"
proof -
  have r: "0 \<le> r" "r < 146097" unfolding r_def by simp_all
  have s: "0 \<le> s" "s < 36524" unfolding s_def by simp_all
  have t: "0 \<le> t" "t < 1461" unfolding t_def by simp_all
  have rb: "r = 36524 * b + s" unfolding b_def s_def by simp
  have sc: "s = 1461 * c + t" unfolding c_def t_def by simp
  have te: "t = 365 * e + u" unfolding e_def u_def by simp
  have na: "n = 146097 * a + r" unfolding a_def r_def by simp
  show u: "0 \<le> u" "u < 365" unfolding u_def by simp_all
  show "0 \<le> a" unfolding a_def using n by (simp add: pos_imp_zdiv_nonneg_iff)
  show b0: "0 \<le> b" unfolding b_def using r by (simp add: pos_imp_zdiv_nonneg_iff)
  show b4: "b \<le> 4" using rb r s by linarith
  show c0: "0 \<le> c" unfolding c_def using s by (simp add: pos_imp_zdiv_nonneg_iff)
  show c25: "c < 25" using sc s t by linarith
  show e0: "0 \<le> e" unfolding e_def using t by (simp add: pos_imp_zdiv_nonneg_iff)
  show e4: "e \<le> 4" using te t u by linarith
  show "n = 146097 * a + 36524 * b + 1461 * c + 365 * e + u" using na rb sc te by linarith
  show "b = 4 \<Longrightarrow> c = 0 \<and> e = 0 \<and> u = 0" using rb sc te r s t u c0 e0 by linarith
  show "e = 4 \<Longrightarrow> u = 0 \<and> c \<noteq> 24" using te t sc s u by linarith
qed

lemma year_tail:
  assumes "n = days_before_year y + 364 + (if is_leap y then 1 else 0)"
  shows "ymd2ord y 12 31 = n + 1"
  using assms by (simp add: ymd2ord_def month_lengths_def take_Cons')

lemma month_lengths_pos: "\<forall>l\<in>set (month_lengths y). 0 < l"
  by (simp add: month_lengths_def)

lemma ord2ymd_correct:
  assumes "1 \<le> n"
  shows "case ord2ymd n of (y, m, d) \<Rightarrow>
    ymd2ord y m d = n \<and> 1 \<le> m \<and> m \<le> 12 \<and> 1 \<le> d \<and> d \<le> month_lengths y ! nat (m - 1) \<and>
    days_before_year y < n \<and> n \<le> days_before_year y + 366 \<and> 1 \<le> y"
proof -
  define a where "a = (n - 1) div 146097"
  define r where "r = (n - 1) mod 146097"
  define b where "b = r div 36524"
  define s where "s = r mod 36524"
  define c where "c = s div 1461"
  define t where "t = s mod 1461"
  define e where "e = t div 365"
  define u where "u = t mod 365"
  note defs = a_def r_def b_def s_def c_def t_def e_def u_def
  note P = ord2ymd_parts [OF _ a_def r_def b_def s_def c_def t_def e_def u_def]
  have n1: "0 \<le> n - 1" using assms by simp
  note P = P [OF n1]
  let ?y = "a * 400 + b * 100 + c * 4 + e + 1"
  have eq: "ord2ymd n = (if e = 4 \<or> b = 4 then (?y - 1, 12, 31)
      else (?y, split_months (month_lengths ?y) 1 u))"
    unfolding ord2ymd_def Let_def defs by simp
  have comm: "?y = 400 * a + 100 * b + 4 * c + e + 1" by simp
  show ?thesis
  proof (cases "e = 4 \<or> b = 4")
    case True
    have "days_before_year (?y - 1) + 365 = n - 1 \<and> is_leap (?y - 1)"
    proof (cases "b = 4")
      case True
      then show ?thesis
        using P days_before_year_cycles [of 3 24 3 a] is_leap_cycles [of 3 24 3 a] by (simp add: algebra_simps)
    next
      case False
      with \<open>e = 4 \<or> b = 4\<close> have e: "e = 4" by simp
      then have "b < 4" "c \<noteq> 24" "u = 0" using False P by auto
      then show ?thesis
        using P e days_before_year_cycles [of b c 3 a] is_leap_cycles [of b c 3 a] by (simp add: algebra_simps)
    qed
    then show ?thesis
      using True P year_tail [of "n - 1" "?y - 1"]
      by (auto simp: eq month_lengths_def)
  next
    case False
    then have lt: "b < 4" "e < 4" using P by auto
    have dby: "days_before_year ?y + u = n - 1"
      using P lt days_before_year_cycles [of b c e a] by (simp add: algebra_simps)
    obtain m d where sm: "split_months (month_lengths ?y) 1 u = (m, d)" by fastforce
    have "1 \<le> m \<and> m < 13 \<and> 1 \<le> d \<and> d \<le> month_lengths ?y ! nat (m - 1) \<and>
        sum_list (take (nat (m - 1)) (month_lengths ?y)) + d = u + 1"
      using split_months_correct [of u "month_lengths ?y" 1] P month_lengths_pos [of ?y]
      by (auto simp: sm month_lengths_sum split: if_splits)
    then show ?thesis
      using False dby P by (auto simp: eq sm ymd2ord_def)
  qed
qed

lemma days_before_year_10000: "10000 \<le> y \<Longrightarrow> max_ordinal \<le> days_before_year y"
proof -
  assume y: "10000 \<le> y"
  let ?p = "y - 1"
  have "?p div 100 \<le> ?p div 4" using y by (intro zdiv_mono2) auto
  moreover have "9999 div 400 \<le> ?p div 400" by (intro zdiv_mono1) (use y in auto)
  moreover have "?p div 4 - ?p div 100 \<ge> 2400"
  proof -
    have "4 * (?p div 4) \<ge> ?p - 3" by linarith
    moreover have "100 * (?p div 100) \<le> ?p" by linarith
    ultimately show ?thesis using y by linarith
  qed
  ultimately show ?thesis using y by (simp add: days_before_year_def Let_def max_ordinal_def)
qed

lemma ord2ymd_valid:
  assumes "valid_date n"
  shows "case ord2ymd n of (y, m, d) \<Rightarrow> valid_ymd y m d \<and> ymd2ord y m d = n"
proof -
  obtain y m d where o: "ord2ymd n = (y, m, d)" by (metis prod.exhaust)
  have "days_before_year y < n" using ord2ymd_correct [of n] assms by (auto simp: o valid_date_def)
  then have "y \<le> 9999" using days_before_year_10000 [of y] assms by (force simp: valid_date_def)
  then show ?thesis using ord2ymd_correct [of n] assms by (auto simp: o valid_date_def valid_ymd_def)
qed


section \<open>ISO 8601 text\<close>

definition iso_date :: "date \<Rightarrow> string" where
  "iso_date n = (case ord2ymd n of (y, m, d) \<Rightarrow>
     show_pad 4 (nat y) @ ''-'' @ show_pad 2 (nat m) @ ''-'' @ show_pad 2 (nat d))"

text \<open>\<open>t.isoformat().replace("+00:00", "Z")\<close> of a UTC datetime.\<close>

definition iso_instant :: "instant \<Rightarrow> string" where
  "iso_instant t =
     (let us = t mod day_us; secs = us div 1000000; frac = us mod 1000000 in
      iso_date (instant_date t) @ ''T'' @ show_pad 2 (nat (secs div 3600)) @ '':''
      @ show_pad 2 (nat (secs div 60 mod 60)) @ '':'' @ show_pad 2 (nat (secs mod 60))
      @ (if frac = 0 then [] else ''.'' @ show_pad 6 (nat frac)) @ ''Z'')"

text \<open>\<open>str(datetime)\<close>: the wall clock, with the UTC offset of an aware value.\<close>

definition offset_text :: "int \<Rightarrow> string" where
  "offset_text off =
     (let a = \<bar>off\<bar>; secs = a div 1000000; frac = a mod 1000000 in
      (if off < 0 then ''-'' else ''+'') @ show_pad 2 (nat (secs div 3600)) @ '':'' @ show_pad 2 (nat (secs div 60 mod 60))
      @ (if secs mod 60 = 0 \<and> frac = 0 then [] else '':'' @ show_pad 2 (nat (secs mod 60)))
      @ (if frac = 0 then [] else ''.'' @ show_pad 6 (nat frac)))"

definition datetime_str :: "datetime \<Rightarrow> string" where
  "datetime_str t =
     (let us = wall t mod day_us; secs = us div 1000000; frac = us mod 1000000 in
      iso_date (instant_date (wall t)) @ '' '' @ show_pad 2 (nat (secs div 3600)) @ '':''
      @ show_pad 2 (nat (secs div 60 mod 60)) @ '':'' @ show_pad 2 (nat (secs mod 60))
      @ (if frac = 0 then [] else ''.'' @ show_pad 6 (nat frac))
      @ (case utcoffset t of None \<Rightarrow> [] | Some off \<Rightarrow> offset_text off))"

definition take_digits :: "nat \<Rightarrow> string \<Rightarrow> (nat \<times> string) option" where
  "take_digits n s = (if n \<le> length s \<and> list_all is_digit (take n s)
     then Some (read_digits (take n s), drop n s) else None)"

definition ymd_to_date :: "nat \<Rightarrow> nat \<Rightarrow> nat \<Rightarrow> date option" where
  "ymd_to_date y m d = (if valid_ymd (int y) (int m) (int d)
     then Some (ymd2ord (int y) (int m) (int d)) else None)"

text \<open>The Monday of ISO week 1, and the date of an ISO year, week and weekday.\<close>

definition iso_week1_monday :: "int \<Rightarrow> date" where
  "iso_week1_monday y =
     (let first = ymd2ord y 1 1; w = weekday first in
      if w > 3 then first - w + 7 else first - w)"

definition iso_to_date :: "nat \<Rightarrow> nat \<Rightarrow> nat \<Rightarrow> date option" where
  "iso_to_date y w d =
     (let n = iso_week1_monday (int y) + (int w - 1) * 7 + int d - 1;
          first = weekday (ymd2ord (int y) 1 1) in
      if 1 \<le> y \<and> y \<le> 9999 \<and> 1 \<le> w
         \<and> (w < 53 \<or> w = 53 \<and> (first = 3 \<or> first = 2 \<and> is_leap (int y)))
         \<and> 1 \<le> d \<and> d \<le> 7 \<and> valid_date n
      then Some n else None)"

text \<open>
  \<open>date.fromisoformat\<close> of Python 3.11: \<open>YYYY-MM-DD\<close>, \<open>YYYYMMDD\<close>, and the ISO week forms.
  The C parser checks the length (7, 8 or 10) and then reads fields from the left; in the
  forms without separators it does not look at what follows the day, so ten characters whose
  first eight are a date are accepted.
\<close>

definition parse_iso_date :: "string \<Rightarrow> date option" where
  "parse_iso_date s =
     (if length s \<notin> {7, 8, 10} then None
      else case take_digits 4 s of None \<Rightarrow> None
      | Some (y, r) \<Rightarrow>
          let sep = prefix ''-'' r; r1 = (if sep then drop 1 r else r) in
          if prefix ''W'' r1 then
            (case take_digits 2 (drop 1 r1) of None \<Rightarrow> None
             | Some (w, r2) \<Rightarrow>
                 if r2 = [] then iso_to_date y w 1
                 else if sep \<and> \<not> prefix ''-'' r2 then None
                 else (case take_digits 1 (if sep then drop 1 r2 else r2) of None \<Rightarrow> None
                       | Some (d, r3) \<Rightarrow> iso_to_date y w d))
          else
            (case take_digits 2 r1 of None \<Rightarrow> None
             | Some (m, r2) \<Rightarrow>
                 if sep \<and> \<not> prefix ''-'' r2 then None
                 else (case take_digits 2 (if sep then drop 1 r2 else r2) of None \<Rightarrow> None
                       | Some (d, r3) \<Rightarrow> ymd_to_date y m d)))"

definition date_fromisoformat :: "string \<Rightarrow> date res" where
  "date_fromisoformat s = (case parse_iso_date s of
     None \<Rightarrow> Inl (ValueError (''Invalid isoformat string: '' @ s)) | Some d \<Rightarrow> Inr d)"

lemma take_digits_show_pad:
  "k < 10 ^ n \<Longrightarrow> take_digits n (show_pad n k @ r) = Some (k, r)"
  by (auto simp: take_digits_def list_all_iff read_digits_show_pad dest: show_pad_digits)

lemma ord2ymd_bounds:
  assumes "valid_date n" and "ord2ymd n = (y, m, d)"
  shows "1 \<le> y" "y \<le> 9999" "1 \<le> m" "m \<le> 12" "1 \<le> d" "d \<le> 31"
    and "ymd2ord y m d = n" "valid_ymd y m d"
proof -
  have v: "valid_ymd y m d" and o: "ymd2ord y m d = n" using ord2ymd_valid [OF assms(1)] assms(2) by auto
  show "1 \<le> y" "y \<le> 9999" "1 \<le> m" "m \<le> 12" "1 \<le> d" using v by (auto simp: valid_ymd_def)
  have "\<forall>l\<in>set (month_lengths y). l \<le> 31" by (simp add: month_lengths_def)
  moreover have "nat (m - 1) < length (month_lengths y)" using v by (auto simp: valid_ymd_def)
  ultimately have "month_lengths y ! nat (m - 1) \<le> 31" by (meson nth_mem)
  then show "d \<le> 31" using v by (auto simp: valid_ymd_def)
qed (use ord2ymd_valid [OF assms(1)] assms(2) in auto)

lemma length_iso_date: "length (iso_date n) = 10"
  by (simp add: iso_date_def split: prod.split)

lemma parse_iso_date_iso_date: "valid_date n \<Longrightarrow> parse_iso_date (iso_date n) = Some n"
proof -
  assume v: "valid_date n"
  obtain y m d where o: "ord2ymd n = (y, m, d)" by (metis prod.exhaust)
  note b = ord2ymd_bounds [OF v o]
  let ?r1 = "show_pad 2 (nat m) @ CHR ''-'' # show_pad 2 (nat d)"
  have iso: "iso_date n = show_pad 4 (nat y) @ CHR ''-'' # ?r1" by (simp add: iso_date_def o)
  have "is_digit c \<Longrightarrow> c \<noteq> CHR ''W''" for c by (auto simp: is_digit_def code_of_def)
  then have notW: "\<not> prefix ''W'' (show_pad 2 (nat m) @ x)" for x
    using show_pad_digits [of "CHR ''W''" 2 "nat m"]
    by (cases "show_pad 2 (nat m)") (auto dest: arg_cong [where f = length])
  have t1: "take_digits 4 (iso_date n) = Some (nat y, CHR ''-'' # ?r1)"
    unfolding iso using b by (intro take_digits_show_pad) simp
  have t2: "take_digits 2 ?r1 = Some (nat m, CHR ''-'' # show_pad 2 (nat d))"
    using b by (intro take_digits_show_pad) simp
  have t3: "take_digits 2 (show_pad 2 (nat d)) = Some (nat d, [])"
    using b take_digits_show_pad [of "nat d" 2 "[]"] by simp
  have "ymd_to_date (nat y) (nat m) (nat d) = Some n" using b by (simp add: ymd_to_date_def)
  then show ?thesis
    by (simp add: parse_iso_date_def length_iso_date t1 t2 t3 notW Let_def)
qed

lemma date_fromisoformat_iso_date [simp]: "valid_date n \<Longrightarrow> date_fromisoformat (iso_date n) = Inr n"
  by (simp add: date_fromisoformat_def parse_iso_date_iso_date)

lemma iso_date_inject: "valid_date m \<Longrightarrow> valid_date n \<Longrightarrow> iso_date m = iso_date n \<longleftrightarrow> m = n"
  by (metis parse_iso_date_iso_date option.inject)

lemma date_fromisoformat_errors: "date_fromisoformat s = Inl e \<Longrightarrow> is_value_error e"
  by (auto simp: date_fromisoformat_def split: option.splits)


text \<open>The rendering of an instant is injective: every field has its own columns.\<close>

lemma show_pad_inject: "m < 10 ^ w \<Longrightarrow> n < 10 ^ w \<Longrightarrow> show_pad w m = show_pad w n \<longleftrightarrow> m = n"
  by (metis read_digits_show_pad)

lemma show_pad_int_inject:
  assumes "show_pad w (nat a) = show_pad w (nat b)" "0 \<le> a" "a < 10 ^ w" "0 \<le> b" "b < 10 ^ w"
  shows "a = b"
proof -
  have "nat a < 10 ^ w" "nat b < 10 ^ w" using assms by (simp_all add: nat_less_iff)
  then have "nat a = nat b" using assms(1) show_pad_inject by blast
  then show ?thesis using assms by simp
qed

lemma fraction_inject:
  fixes f g :: int
  assumes "(if f = 0 then [] else ''.'' @ show_pad 6 (nat f)) @ ''Z'' = (if g = 0 then [] else ''.'' @ show_pad 6 (nat g)) @ ''Z''"
    and "0 \<le> f" "f < 1000000" "0 \<le> g" "g < 1000000"
  shows "f = g"
proof (cases "f = 0 \<or> g = 0")
  case True
  then show ?thesis using assms(1) by (auto split: if_splits)
next
  case False
  then have "show_pad 6 (nat f) = show_pad 6 (nat g)" using assms(1) by simp
  then show ?thesis by (rule show_pad_int_inject) (use assms in simp_all)
qed

lemma instant_parts:
  fixes t :: int
  defines "us \<equiv> t mod day_us" and "secs \<equiv> t mod day_us div 1000000"
  shows "t = t div day_us * day_us + (secs div 3600 * 3600 + secs div 60 mod 60 * 60 + secs mod 60) * 1000000
      + us mod 1000000"
    "0 \<le> secs div 3600" "secs div 3600 < 24" "0 \<le> us mod 1000000" "us mod 1000000 < 1000000"
proof -
  have us: "0 \<le> us" "us < 86400000000" by (simp_all add: us_def day_us_def)
  have secs: "secs = us div 1000000" by (simp add: secs_def us_def)
  then show "0 \<le> secs div 3600" "secs div 3600 < 24" using us by linarith+
  have "secs = secs div 3600 * 3600 + secs div 60 mod 60 * 60 + secs mod 60"
    using zdiv_zmult2_eq [of 60 secs 60] by (simp add: ) presburger
  moreover have "us = secs * 1000000 + us mod 1000000" unfolding secs by simp
  moreover have "t = t div day_us * day_us + us" by (simp add: us_def)
  ultimately show "t = t div day_us * day_us + (secs div 3600 * 3600 + secs div 60 mod 60 * 60 + secs mod 60) * 1000000
      + us mod 1000000" by simp
qed simp_all

lemma columns:
  assumes "length a = length a'" "length b = length b'" "length c = length c'" "length d = length d'"
    and "a @ [x] @ b @ [y] @ c @ [z] @ d @ r = a' @ [x] @ b' @ [y] @ c' @ [z] @ d' @ r'"
  shows "a = a'" "b = b'" "c = c'" "d = d'" "r = r'"
  using assms by simp_all

lemma iso_instant_inject:
  assumes v: "valid_instant t" "valid_instant u" and eq: "iso_instant t = iso_instant u"
  shows "t = u"
proof -
  let ?us = "\<lambda>t. t mod day_us" let ?secs = "\<lambda>t. t mod day_us div 1000000"
  let ?frac = "\<lambda>t. (if ?us t mod 1000000 = 0 then [] else ''.'' @ show_pad 6 (nat (?us t mod 1000000))) @ ''Z''"
  have shape: "iso_instant x = iso_date (instant_date x) @ ''T'' @ show_pad 2 (nat (?secs x div 3600)) @ '':''
      @ show_pad 2 (nat (?secs x div 60 mod 60)) @ '':'' @ show_pad 2 (nat (?secs x mod 60)) @ ?frac x" for x
    by (simp only: iso_instant_def Let_def append_assoc)
  note parts = columns [OF length_iso_date [THEN trans, OF length_iso_date [symmetric]] length_show_pad
      [THEN trans, OF length_show_pad [symmetric]] length_show_pad [THEN trans, OF length_show_pad [symmetric]]
      length_show_pad [THEN trans, OF length_show_pad [symmetric]] eq [unfolded shape]]
  have d: "t div day_us = u div day_us"
    using parts(1) iso_date_inject [OF valid_instant_date [OF v(1)] valid_instant_date [OF v(2)]]
    by (simp add: instant_date_def)
  have bound: "0 \<le> x mod 60" "x mod 60 < 10 ^ 2" for x :: int
    using pos_mod_bound [of 60 x] by simp_all
  have h: "?secs t div 3600 = ?secs u div 3600"
    using instant_parts(2,3) [of t] instant_parts(2,3) [of u] by (intro show_pad_int_inject [OF parts(2)]) simp_all
  have m: "?secs t div 60 mod 60 = ?secs u div 60 mod 60"
    by (rule show_pad_int_inject [OF parts(3) bound bound])
  have s: "?secs t mod 60 = ?secs u mod 60"
    by (rule show_pad_int_inject [OF parts(4) bound bound])
  have f: "?us t mod 1000000 = ?us u mod 1000000"
    by (rule fraction_inject [OF parts(5)]) simp_all
  note it = instant_parts(1) [of t] and iu = instant_parts(1) [of u]
  show ?thesis by (rule trans [OF it]) (simp only: d h m s f iu [symmetric])
qed

end
