(* ===== verification/Py_Decimal.thy ===== *)
theory Py_Decimal
  imports Complex_Main Prelude
begin

text \<open>
  Python's \<open>decimal.Decimal\<close>: a sign, a coefficient and an exponent, or an infinity or NaN.
  Comparison is exact; subtraction and division round to the 28 digits of the default context
  (half to even).  \<open>format_f\<close> is \<open>format(d, "f")\<close>, \<open>dec_str\<close> is \<open>str(d)\<close>, \<open>parse_decimal\<close> is
  the constructor on a string.  Exponent limits of the context (\<open>Emin\<close>, \<open>Emax\<close>) are not
  modelled.  \<open>dec_val\<close> is the rational number a finite decimal denotes.
\<close>

datatype decimal = Finite (dec_neg: bool) (dec_coeff: nat) (dec_exp: int) | Infinite bool | NaN bool

definition is_finite :: "decimal \<Rightarrow> bool" where
  "is_finite d = (case d of Finite s c e \<Rightarrow> True | _ \<Rightarrow> False)"

fun dec_val :: "decimal \<Rightarrow> rat" where
  "dec_val (Finite s c e) = (if s then - (of_nat c * 10 powi e) else of_nat c * 10 powi e)"
| "dec_val _ = 0"

definition dec_zero :: decimal where "dec_zero = Finite False 0 0"

text \<open>The signed coefficient of a finite decimal at an exponent not above its own.\<close>

fun scaled :: "int \<Rightarrow> decimal \<Rightarrow> int" where
  "scaled m (Finite s c e) = (if s then - (int c * 10 ^ nat (e - m)) else int c * 10 ^ nat (e - m))"
| "scaled m _ = 0"

definition common_exp :: "decimal \<Rightarrow> decimal \<Rightarrow> int" where
  "common_exp a b = min (dec_exp a) (dec_exp b)"

text \<open>Comparisons of finite decimals; every value the program compares has been checked finite.\<close>

definition dec_less :: "decimal \<Rightarrow> decimal \<Rightarrow> bool" where
  "dec_less a b \<longleftrightarrow> scaled (common_exp a b) a < scaled (common_exp a b) b"

definition dec_le :: "decimal \<Rightarrow> decimal \<Rightarrow> bool" where
  "dec_le a b \<longleftrightarrow> scaled (common_exp a b) a \<le> scaled (common_exp a b) b"

definition dec_eq :: "decimal \<Rightarrow> decimal \<Rightarrow> bool" where
  "dec_eq a b \<longleftrightarrow> scaled (common_exp a b) a = scaled (common_exp a b) b"

fun dec_abs :: "decimal \<Rightarrow> decimal" where
  "dec_abs (Finite s c e) = Finite False c e"
| "dec_abs (Infinite s) = Infinite False"
| "dec_abs (NaN b) = NaN b"

section \<open>Context arithmetic\<close>

definition context_prec :: nat where "context_prec = 28"

definition num_digits :: "nat \<Rightarrow> nat" where "num_digits c = length (show_nat c)"

text \<open>Rounding a coefficient to the context precision, half to even.\<close>

definition round_coeff :: "nat \<Rightarrow> int \<Rightarrow> nat \<times> int" where
  "round_coeff c e =
     (if num_digits c \<le> context_prec then (c, e)
      else let k = num_digits c - context_prec; q = c div 10 ^ k; r = c mod 10 ^ k;
               q' = (if 2 * r > 10 ^ k \<or> (2 * r = 10 ^ k \<and> odd q) then q + 1 else q)
           in if q' = 10 ^ context_prec then (q' div 10, e + int k + 1) else (q', e + int k))"

text \<open>\<open>abs(d)\<close>: the magnitude, rounded to the context.\<close>

fun py_abs :: "decimal \<Rightarrow> decimal" where
  "py_abs (Finite s c e) = (let (c', e') = round_coeff c e in Finite False c' e')"
| "py_abs d = dec_abs d"

definition dec_sub :: "decimal \<Rightarrow> decimal \<Rightarrow> decimal" where
  "dec_sub a b =
     (let m = common_exp a b; n = scaled m a - scaled m b;
          (c, e) = round_coeff (nat \<bar>n\<bar>) m
      in Finite (if n = 0 then dec_neg a \<and> \<not> dec_neg b else n < 0) c e)"

fun strip_ideal :: "nat \<Rightarrow> nat \<Rightarrow> int \<Rightarrow> int \<Rightarrow> nat \<times> int" where
  "strip_ideal 0 c e ideal = (c, e)"
| "strip_ideal (Suc n) c e ideal =
     (if e < ideal \<and> c mod 10 = 0 then strip_ideal n (c div 10) (e + 1) ideal else (c, e))"

text \<open>Division of a finite decimal by a nonzero one.\<close>

definition dec_div :: "decimal \<Rightarrow> decimal \<Rightarrow> decimal" where
  "dec_div a b =
     (let s = (dec_neg a \<noteq> dec_neg b); c1 = dec_coeff a; c2 = dec_coeff b;
          ideal = dec_exp a - dec_exp b in
      if c1 = 0 then Finite s 0 ideal
      else let shift = int (num_digits c2) - int (num_digits c1) + int context_prec + 1;
               ex = ideal - shift;
               n = (if shift \<ge> 0 then c1 * 10 ^ nat shift else c1);
               d = (if shift \<ge> 0 then c2 else c2 * 10 ^ nat (- shift));
               q = n div d;
               (q', ex') = (if n mod d \<noteq> 0 then (if q mod 5 = 0 then q + 1 else q, ex)
                            else strip_ideal (nat (ideal - ex)) q ex ideal);
               (c, e) = round_coeff q' ex'
           in Finite s c e)"

section \<open>Text\<close>

text \<open>Digits with a decimal point \<open>k\<close> places from the right.\<close>

definition with_point :: "nat \<Rightarrow> string \<Rightarrow> string" where
  "with_point k ds =
     (if k = 0 then ds
      else let p = replicate (Suc k - length ds) (CHR ''0'') @ ds
           in take (length p - k) p @ ''.'' @ drop (length p - k) p)"

fun format_f :: "decimal \<Rightarrow> string" where
  "format_f (Finite s c e) =
     (if s then ''-'' else []) @
     (if e \<ge> 0 then (if c = 0 then ''0'' else show_nat c @ replicate (nat e) (CHR ''0''))
      else with_point (nat (- e)) (show_nat c))"
| "format_f (Infinite s) = (if s then ''-Infinity'' else ''Infinity'')"
| "format_f (NaN b) = (if b then ''sNaN'' else ''NaN'')"

fun dec_str :: "decimal \<Rightarrow> string" where
  "dec_str (Finite s c e) =
     (let ds = show_nat c; adj = e + int (length ds) - 1 in
      (if s then ''-'' else []) @
      (if e \<le> 0 \<and> adj \<ge> - 6 then with_point (nat (- e)) ds
       else (if length ds = 1 then ds else take 1 ds @ ''.'' @ drop 1 ds)
            @ ''E'' @ (if adj \<ge> 0 then ''+'' else []) @ show_int adj))"
| "dec_str (Infinite s) = (if s then ''-Infinity'' else ''Infinity'')"
| "dec_str (NaN b) = (if b then ''sNaN'' else ''NaN'')"

definition parse_exponent :: "string \<Rightarrow> int option" where
  "parse_exponent r =
     (if r = [] then Some 0
      else if hd r = CHR ''e'' then
        (let t = tl r; neg = prefix ''-'' t; ds = (if neg \<or> prefix ''+'' t then drop 1 t else t) in
         if ds \<noteq> [] \<and> list_all is_digit ds
         then Some (if neg then - int (read_digits ds) else int (read_digits ds)) else None)
      else None)"

definition parse_number :: "bool \<Rightarrow> string \<Rightarrow> decimal option" where
  "parse_number neg l =
     (let ip = takeWhile is_digit l; r1 = dropWhile is_digit l;
          fp = (if prefix ''.'' r1 then takeWhile is_digit (drop 1 r1) else []);
          r2 = (if prefix ''.'' r1 then dropWhile is_digit (drop 1 r1) else r1)
      in if ip @ fp = [] then None
         else map_option (\<lambda>x. Finite neg (read_digits (ip @ fp)) (x - int (length fp)))
                (parse_exponent r2))"

definition parse_decimal :: "string \<Rightarrow> decimal option" where
  "parse_decimal s =
     (let t = filter (\<lambda>c. c \<noteq> CHR ''_'') (str_strip s);
          neg = prefix ''-'' t;
          l = str_lower (if neg \<or> prefix ''+'' t then drop 1 t else t)
      in if l = ''inf'' \<or> l = ''infinity'' then Some (Infinite neg)
         else if prefix ''nan'' l \<and> list_all is_digit (drop 3 l) then Some (NaN False)
         else if prefix ''snan'' l \<and> list_all is_digit (drop 4 l) then Some (NaN True)
         else parse_number neg l)"


section \<open>Comparison is comparison of values\<close>

named_theorems dec_simps

lemma is_finite_simps [simp]:
  "is_finite (Finite s c e)" "\<not> is_finite (Infinite b)" "\<not> is_finite (NaN b)"
  by (simp_all add: is_finite_def)

lemma is_finiteE: "is_finite d \<Longrightarrow> (\<And>s c e. d = Finite s c e \<Longrightarrow> P) \<Longrightarrow> P"
  by (cases d) auto

lemma powi_split: "m \<le> e \<Longrightarrow> (10::rat) powi e = 10 ^ nat (e - m) * 10 powi m"
proof -
  assume "m \<le> e"
  then have "(10::rat) powi e = 10 powi (int (nat (e - m)) + m)" by simp
  also have "\<dots> = 10 ^ nat (e - m) * 10 powi m"
    using \<open>m \<le> e\<close> by (subst power_int_add) (simp_all add: power_int_def)
  finally show ?thesis .
qed

lemma scaled_val:
  assumes "is_finite d" and "m \<le> dec_exp d"
  shows "of_int (scaled m d) * 10 powi m = dec_val d"
  using assms powi_split [of m "dec_exp d"] by (cases d) (auto simp: algebra_simps)

lemma common_exp_le: "common_exp a b \<le> dec_exp a" "common_exp a b \<le> dec_exp b"
  by (simp_all add: common_exp_def)

lemma dec_less_iff: "is_finite a \<Longrightarrow> is_finite b \<Longrightarrow> dec_less a b \<longleftrightarrow> dec_val a < dec_val b"
proof -
  assume f: "is_finite a" "is_finite b"
  let ?m = "common_exp a b"
  have pos: "(0::rat) < 10 powi ?m" by (simp add: zero_less_power_int)
  have "dec_val a < dec_val b \<longleftrightarrow>
      (of_int (scaled ?m a) * 10 powi ?m :: rat) < of_int (scaled ?m b) * 10 powi ?m"
    using f by (simp add: scaled_val common_exp_le)
  also have "\<dots> \<longleftrightarrow> scaled ?m a < scaled ?m b" using pos by simp
  finally show ?thesis by (simp add: dec_less_def)
qed

lemma dec_le_iff: "is_finite a \<Longrightarrow> is_finite b \<Longrightarrow> dec_le a b \<longleftrightarrow> dec_val a \<le> dec_val b"
  using dec_less_iff [of b a] by (simp add: dec_less_def dec_le_def common_exp_def min.commute linorder_not_less [symmetric])

lemma dec_eq_iff: "is_finite a \<Longrightarrow> is_finite b \<Longrightarrow> dec_eq a b \<longleftrightarrow> dec_val a = dec_val b"
  using dec_le_iff [of a b] dec_le_iff [of b a]
  by (auto simp: dec_eq_def dec_le_def common_exp_def min.commute)

lemma dec_val_abs [simp]: "dec_val (dec_abs d) = \<bar>dec_val d\<bar>"
  by (cases d) (simp_all add: abs_mult)

lemma is_finite_abs [simp]: "is_finite (dec_abs d) = is_finite d"
  by (cases d) auto

lemma is_finite_zero [simp]: "is_finite dec_zero"
  by (simp add: dec_zero_def)

lemma dec_val_zero [simp]: "dec_val dec_zero = 0"
  by (simp add: dec_zero_def)

lemma is_finite_sub [simp]: "is_finite (dec_sub a b)"
  by (simp add: dec_sub_def Let_def split: prod.split)

lemma is_finite_div [simp]: "is_finite (dec_div a b)"
  by (simp add: dec_div_def Let_def split: prod.split)

lemma is_finite_py_abs [simp]: "is_finite (py_abs d) = is_finite d"
  by (cases d) (simp_all add: split_def Let_def)

lemma powi_pred: "(10::rat) * 10 powi (e - 1) = 10 powi e"
  using power_int_add [of "10::rat" 1 "e - 1"] by simp

lemma strip_ideal_val:
  "strip_ideal n c e ideal = (c', e') \<Longrightarrow> (of_nat c' :: rat) * 10 powi e' = of_nat c * 10 powi e"
proof (induction n arbitrary: c e)
  case (Suc n)
  show ?case
  proof (cases "e < ideal \<and> c mod 10 = 0")
    case True
    then have "(of_nat c :: rat) = of_nat (c div 10) * 10"
      by (metis dvd_div_mult_self dvd_eq_mod_eq_0 of_nat_mult of_nat_numeral)
    then show ?thesis using True Suc powi_pred [of "e + 1"] by simp
  next
    case False
    then show ?thesis using Suc.prems by (simp only: strip_ideal.simps if_False prod.inject)
  qed
qed simp

text \<open>A difference of at most 28 digits is exact.\<close>

lemma dec_sub_exact:
  assumes "is_finite a" "is_finite b"
    and "num_digits (nat \<bar>scaled (common_exp a b) a - scaled (common_exp a b) b\<bar>) \<le> context_prec"
  shows "dec_val (dec_sub a b) = dec_val a - dec_val b"
proof -
  let ?m = "common_exp a b" let ?n = "scaled ?m a - scaled ?m b"
  have "dec_val (dec_sub a b) =
      (if ?n < 0 then - (of_nat (nat \<bar>?n\<bar>) * 10 powi ?m) else of_nat (nat \<bar>?n\<bar>) * 10 powi ?m)"
    using assms(3) by (cases "?n = 0") (auto simp: dec_sub_def round_coeff_def Let_def)
  also have "\<dots> = of_int ?n * 10 powi ?m" by (cases "?n < 0") (simp_all add: algebra_simps)
  also have "\<dots> = dec_val a - dec_val b"
    using scaled_val [OF assms(1) common_exp_le(1)] scaled_val [OF assms(2) common_exp_le(2)]
    by (simp add: algebra_simps)
  finally show ?thesis .
qed


section \<open>Reading back what was printed\<close>

lemma span_digits:
  "list_all is_digit ds \<Longrightarrow> (r = [] \<or> \<not> is_digit (hd r)) \<Longrightarrow>
     takeWhile is_digit (ds @ r) = ds \<and> dropWhile is_digit (ds @ r) = r"
  by (induction ds) (cases r, auto)+

lemma not_digit [simp]:
  "\<not> is_digit CHR ''.''" "\<not> is_digit CHR ''-''" "\<not> is_digit CHR ''+''" "\<not> is_digit CHR ''_''"
  "\<not> is_digit CHR ''e''" "\<not> is_digit CHR ''n''" "\<not> is_digit CHR ''s''" "\<not> is_digit CHR ''i''"
  by code_simp+

lemma digit_not_space: "is_digit c \<Longrightarrow> \<not> is_space c"
  by (auto simp: is_digit_def is_space_def Let_def)

lemma digit_to_lower: "is_digit c \<Longrightarrow> to_lower c = c"
  by (auto simp: is_digit_def to_lower_def is_upper_ascii_def)

definition plain_char :: "char \<Rightarrow> bool" where
  "plain_char c \<longleftrightarrow> is_digit c \<or> c = CHR ''.'' \<or> c = CHR ''-''"

lemma plain_char_props:
  "plain_char c \<Longrightarrow> \<not> is_space c \<and> to_lower c = c \<and> c \<noteq> CHR ''_''"
proof -
  have "\<not> is_space CHR ''.''" "\<not> is_space CHR ''-''" "to_lower CHR ''.'' = CHR ''.''"
    "to_lower CHR ''-'' = CHR ''-''" by code_simp+
  then show "plain_char c \<Longrightarrow> ?thesis"
    by (auto simp: plain_char_def digit_not_space digit_to_lower)
qed

lemma str_strip_plain: "list_all plain_char s \<Longrightarrow> str_strip s = s"
proof -
  assume p: "list_all plain_char s"
  have "dropWhile is_space t = t" if "list_all plain_char t" for t
    using that plain_char_props by (cases t) auto
  moreover have "list_all plain_char (rev s)" using p by (simp add: list_all_iff)
  ultimately show ?thesis using p by (simp add: str_strip_def)
qed

lemma parse_decimal_number:
  assumes u: "u = c # cs" "is_digit c" "list_all plain_char u"
  shows "parse_decimal ((if s then ''-'' else []) @ u) = parse_number s u"
proof -
  let ?t = "(if s then ''-'' else []) @ u"
  have plain: "list_all plain_char ?t" using u by (auto simp: plain_char_def)
  have strip: "str_strip ?t = ?t" using plain by (rule str_strip_plain)
  have filt: "filter (\<lambda>c. c \<noteq> CHR ''_'') ?t = ?t"
    using plain plain_char_props unfolding filter_id_conv list_all_iff by blast
  have low: "str_lower u = u"
    using u(3) plain_char_props unfolding str_lower_def list_all_iff by (metis map_idI)
  have ne: "c \<noteq> CHR ''-''" "c \<noteq> CHR ''+''" "c \<noteq> CHR ''n''" "c \<noteq> CHR ''s''" "c \<noteq> CHR ''i''"
    using u(2) by auto
  have neg: "prefix ''-'' ?t = s" using ne u(1) by (cases s) simp_all
  have rest: "(if s \<or> prefix ''+'' ?t then drop 1 ?t else ?t) = u"
    using ne u(1) by (cases s) simp_all
  show ?thesis
    unfolding parse_decimal_def Let_def strip filt neg rest low
    using ne u(1) by simp
qed

text \<open>A plain number: an optional minus, digits, and an optional fraction.\<close>

lemma parse_plain:
  assumes ip: "list_all is_digit ip" "ip \<noteq> []" and fp: "list_all is_digit fp"
  shows "parse_decimal ((if s then ''-'' else []) @ ip @ (if fp = [] then [] else ''.'' @ fp)) =
    Some (Finite s (read_digits (ip @ fp)) (- int (length fp)))"
proof -
  let ?u = "ip @ (if fp = [] then [] else ''.'' @ fp)"
  obtain c cs where c: "ip = c # cs" "is_digit c" using ip by (cases ip) auto
  have plain: "list_all plain_char ?u" using ip fp by (auto simp: list_all_iff plain_char_def)
  have sp1: "takeWhile is_digit ?u = ip" "dropWhile is_digit ?u = (if fp = [] then [] else ''.'' @ fp)"
    using span_digits [OF ip(1), of "if fp = [] then [] else ''.'' @ fp"] by auto
  have sp2: "takeWhile is_digit fp = fp" "dropWhile is_digit fp = []"
    using span_digits [OF fp, of "[]"] by auto
  have num: "parse_number s ?u = Some (Finite s (read_digits (ip @ fp)) (- int (length fp)))"
    unfolding parse_number_def Let_def sp1 sp2
    using ip(2) by (cases "fp = []") (simp_all add: sp2 parse_exponent_def)
  obtain ds where u: "?u = c # ds" using c(1) by simp
  show ?thesis using parse_decimal_number [OF u c(2) plain, of s] num by simp
qed

lemma read_digits_foldl: "foldl (\<lambda>n c. 10 * n + digit_val c) k ds = k * 10 ^ length ds + read_digits ds"
proof (induction ds rule: rev_induct)
  case Nil
  then show ?case by simp
next
  case (snoc d ds)
  then show ?case by (simp add: read_digits_snoc algebra_simps)
qed

lemma read_digits_append: "read_digits (s @ t) = read_digits s * 10 ^ length t + read_digits t"
proof -
  have "read_digits (s @ t) = foldl (\<lambda>n c. 10 * n + digit_val c) (read_digits s) t"
    by (simp only: read_digits_def foldl_append)
  then show ?thesis by (simp only: read_digits_foldl)
qed

lemma list_all_show_nat: "list_all is_digit (show_nat n)"
  using show_nat_digits by (auto simp: list_all_iff)

lemma read_digits_zeros [simp]: "read_digits (replicate n (CHR ''0'')) = 0"
proof (induction n)
  case (Suc n)
  have "digit_val CHR ''0'' = 0" by code_simp
  moreover have "replicate (Suc n) (CHR ''0'') = replicate n (CHR ''0'') @ [CHR ''0'']"
    by (simp only: replicate_append_same replicate_Suc)
  ultimately show ?case using Suc by (simp only: read_digits_snoc)
qed simp

lemma is_digit_0 [simp]: "is_digit CHR ''0''"
  by code_simp

end
