(* ===== verification/Domain_Model.thy ===== *)
theory Domain_Model
  imports Py_Time Py_Decimal
begin

text \<open>
  The provider-independent domain model: \<open>app/domain/enums.py\<close>, \<open>app/domain/provider.py\<close> and
  \<open>app/domain/candidates.py\<close>.  Enums are datatypes with a \<open>_value\<close> function giving the
  string value of each member; frozen dataclasses are records, and a \<open>__post_init__\<close> that
  checks or normalises its fields is a constructor function \<open>mk_\<dots>\<close> that may raise.  Dynamic
  values (\<open>JSONValue\<close>, provider attributes) are of type \<open>pyval\<close>; a float is kept as its
  \<open>repr\<close>.
\<close>

section \<open>Enums\<close>

datatype validation_severity = SevInfo | SevWarning | SevError

datatype validation_state = StValid | StValidWithWarnings | StInvalid

datatype quote_type = QuoteReference

datatype rate_type = RatePolicy

datatype canonical_rate_unit = PercentPerYear

datatype frequency = FreqDaily

datatype candidate_outcome = OutInserted | OutUnchanged | OutRevised | OutQuarantined | OutFailed

datatype quality_state = QComplete | QIncomplete | QStale | QNotDue | QUnknown

fun severity_value :: "validation_severity \<Rightarrow> string" where
  "severity_value SevInfo = ''info''"
| "severity_value SevWarning = ''warning''"
| "severity_value SevError = ''error''"

fun validation_state_value :: "validation_state \<Rightarrow> string" where
  "validation_state_value StValid = ''valid''"
| "validation_state_value StValidWithWarnings = ''valid_with_warnings''"
| "validation_state_value StInvalid = ''invalid''"

fun quote_type_value :: "quote_type \<Rightarrow> string" where
  "quote_type_value QuoteReference = ''reference''"

fun rate_type_value :: "rate_type \<Rightarrow> string" where
  "rate_type_value RatePolicy = ''policy_rate''"

fun rate_unit_value :: "canonical_rate_unit \<Rightarrow> string" where
  "rate_unit_value PercentPerYear = ''percent_per_year''"

fun frequency_value :: "frequency \<Rightarrow> string" where
  "frequency_value FreqDaily = ''daily''"

fun outcome_value :: "candidate_outcome \<Rightarrow> string" where
  "outcome_value OutInserted = ''inserted''"
| "outcome_value OutUnchanged = ''unchanged''"
| "outcome_value OutRevised = ''revised''"
| "outcome_value OutQuarantined = ''quarantined''"
| "outcome_value OutFailed = ''failed''"

fun quality_state_value :: "quality_state \<Rightarrow> string" where
  "quality_state_value QComplete = ''complete''"
| "quality_state_value QIncomplete = ''incomplete''"
| "quality_state_value QStale = ''stale''"
| "quality_state_value QNotDue = ''not_due''"
| "quality_state_value QUnknown = ''unknown''"

section \<open>Dynamic values\<close>

type_synonym uuid = "128 word"

text \<open>\<open>str(uuid)\<close>: 32 lower-case hexadecimal digits in groups of 8, 4, 4, 4 and 12.\<close>

fun hex_text :: "nat \<Rightarrow> nat \<Rightarrow> string" where
  "hex_text 0 n = []"
| "hex_text (Suc w) n = hex_text w (n div 16) @ [''0123456789abcdef'' ! (n mod 16)]"

definition uuid_str :: "uuid \<Rightarrow> string" where
  "uuid_str u = (let h = hex_text 32 (unat u) in
     take 8 h @ ''-'' @ take 4 (drop 8 h) @ ''-'' @ take 4 (drop 12 h) @ ''-'' @ take 4 (drop 16 h)
       @ ''-'' @ drop 20 h)"

text \<open>\<open>repr\<close> of a string of Latin-1 characters.\<close>

definition repr_char :: "char \<Rightarrow> char \<Rightarrow> string" where
  "repr_char q c =
     (let n = code_of c in
      if c = q \<or> c = CHR 0x5C then [CHR 0x5C, c]
      else if n = 9 then [CHR 0x5C, CHR ''t''] else if n = 10 then [CHR 0x5C, CHR ''n'']
      else if n = 13 then [CHR 0x5C, CHR ''r'']
      else if n < 32 \<or> (127 \<le> n \<and> n \<le> 160) \<or> n = 173 then [CHR 0x5C, CHR ''x''] @ hex_text 2 n
      else [c])"

definition repr_str :: "string \<Rightarrow> string" where
  "repr_str s =
     (let q = (if CHR 0x27 \<in> set s \<and> CHR 0x22 \<notin> set s then CHR 0x22 else CHR 0x27)
      in [q] @ concat (map (repr_char q) s) @ [q])"

datatype pyval =
    PNone
  | PBool bool
  | PInt int
  | PFloat string
  | PStr string
  | PDecimal decimal
  | PDatetime datetime
  | PDate date
  | PEnum string
  | PDict "(string \<times> pyval) list"
  | PList "pyval list"
  | PTuple "pyval list"

text \<open>\<open>_freeze\<close>: lists become tuples, mappings stay mappings, recursively.\<close>

fun freeze :: "pyval \<Rightarrow> pyval" where
  "freeze (PDict xs) = PDict (map (\<lambda>(k, v). (k, freeze v)) xs)"
| "freeze (PList xs) = PTuple (map freeze xs)"
| "freeze (PTuple xs) = PTuple (map freeze xs)"
| "freeze v = v"

definition immutable_attributes :: "pyval dict \<Rightarrow> pyval dict" where
  "immutable_attributes attrs = map (\<lambda>(k, v). (k, freeze v)) attrs"

section \<open>Provider types\<close>

record date_range =
  dr_start :: date
  dr_end :: date

definition mk_date_range :: "date \<Rightarrow> date \<Rightarrow> date_range res" where
  "mk_date_range s e =
     (if s > e then Inl (ValueError ''date range start must not be after end'')
      else Inr \<lparr>dr_start = s, dr_end = e\<rparr>)"

datatype param = Text string | Texts "string list"

record request_metadata =
  rm_method :: string
  rm_endpoint_name :: string
  rm_parameters :: "param dict"

definition mk_request_metadata :: "string \<Rightarrow> string \<Rightarrow> param dict \<Rightarrow> request_metadata" where
  "mk_request_metadata method name params =
     \<lparr>rm_method = str_upper method, rm_endpoint_name = name, rm_parameters = params\<rparr>"

type_synonym bytes = "8 word list"

record raw_payload =
  rp_body :: bytes
  rp_media_type :: string
  rp_status :: int
  rp_retrieved_at :: datetime
  rp_request :: request_metadata
  rp_metadata :: "string dict"

definition mk_raw_payload ::
  "bytes \<Rightarrow> string \<Rightarrow> int \<Rightarrow> datetime \<Rightarrow> request_metadata \<Rightarrow> string dict \<Rightarrow> raw_payload res" where
  "mk_raw_payload body media status ts req meta =
     (if \<not> is_aware ts then Inl (ValueError ''retrieved_at must be timezone-aware'')
      else Inr \<lparr>rp_body = body, rp_media_type = media, rp_status = status,
                rp_retrieved_at = ts, rp_request = req, rp_metadata = meta\<rparr>)"

record source_locator =
  sl_raw_response_id :: uuid
  sl_record_path :: string
  sl_record_checksum :: "string option"

record fetch_request =
  fr_dataset :: string
  fr_instruments :: "string list"
  fr_date_range :: date_range
  fr_endpoint_name :: string
  fr_path :: string
  fr_parameters :: "param dict"

text \<open>Python floats; a finite one is taken at its exact value.\<close>

datatype pyfloat = Num rat | PosInf | NegInf | NotANumber

record retry_metadata =
  rt_attempts :: nat
  rt_delays :: "pyfloat list"

record fetch_result =
  fe_payload :: raw_payload
  fe_retry :: retry_metadata

record 'r parsed_record =
  pr_value :: 'r
  pr_record_path :: string
  pr_record_checksum :: "string option"

record published_absence =
  pa_instrument :: string
  pa_observation_date :: date
  pa_reason :: string
  pa_attributes :: "pyval dict"

section \<open>Candidates\<close>

text \<open>Timestamps of a constructed candidate are UTC instants: \<open>__post_init__\<close> converted them.\<close>

definition candidate_utc :: "string \<Rightarrow> datetime \<Rightarrow> instant res" where
  "candidate_utc field t = to_utc (ValueError (field @ '' must be timezone-aware'')) t"

definition candidate_utc_opt :: "string \<Rightarrow> datetime option \<Rightarrow> instant option res" where
  "candidate_utc_opt field t = (case t of None \<Rightarrow> Inr None | Some x \<Rightarrow> rmap Some (candidate_utc field x))"

record fx_candidate =
  fc_series_id :: uuid
  fc_observation_date :: date
  fc_value :: decimal
  fc_quote_type :: quote_type
  fc_retrieved_at :: instant
  fc_source :: source_locator
  fc_publication :: "instant option"
  fc_attributes :: "pyval dict"

definition mk_fx_candidate ::
  "uuid \<Rightarrow> date \<Rightarrow> decimal \<Rightarrow> quote_type \<Rightarrow> datetime \<Rightarrow> source_locator \<Rightarrow> datetime option \<Rightarrow>
     pyval dict \<Rightarrow> fx_candidate res" where
  "mk_fx_candidate sid d v q ts src pub attrs =
     rbind (candidate_utc ''retrieved_at'' ts) (\<lambda>ts'.
     rbind (candidate_utc_opt ''provider_publication_timestamp'' pub) (\<lambda>pub'.
     Inr \<lparr>fc_series_id = sid, fc_observation_date = d, fc_value = v, fc_quote_type = q,
          fc_retrieved_at = ts', fc_source = src, fc_publication = pub',
          fc_attributes = immutable_attributes attrs\<rparr>))"

record policy_candidate =
  pc_series_id :: uuid
  pc_observation_date :: date
  pc_value :: decimal
  pc_unit :: canonical_rate_unit
  pc_frequency :: frequency
  pc_rate_type :: rate_type
  pc_retrieved_at :: instant
  pc_source :: source_locator
  pc_publication :: "instant option"
  pc_attributes :: "pyval dict"

text \<open>The \<open>tenor\<close> argument may only be \<open>None\<close>; a candidate therefore has no such field.\<close>

definition mk_policy_candidate ::
  "uuid \<Rightarrow> date \<Rightarrow> decimal \<Rightarrow> canonical_rate_unit \<Rightarrow> frequency \<Rightarrow> rate_type \<Rightarrow> datetime \<Rightarrow>
     source_locator \<Rightarrow> string option \<Rightarrow> datetime option \<Rightarrow> pyval dict \<Rightarrow> policy_candidate res" where
  "mk_policy_candidate sid d v u f r ts src tenor pub attrs =
     (if tenor \<noteq> None then Inl (ValueError ''Phase 1 policy rates have no tenor'')
      else rbind (candidate_utc ''retrieved_at'' ts) (\<lambda>ts'.
           rbind (candidate_utc_opt ''provider_publication_timestamp'' pub) (\<lambda>pub'.
           Inr \<lparr>pc_series_id = sid, pc_observation_date = d, pc_value = v, pc_unit = u,
                pc_frequency = f, pc_rate_type = r, pc_retrieved_at = ts', pc_source = src,
                pc_publication = pub', pc_attributes = immutable_attributes attrs\<rparr>)))"

section \<open>Facts\<close>

lemma quote_type_only: "q = QuoteReference"
  by (cases q) simp

lemma severity_value_inject: "severity_value a = severity_value b \<longleftrightarrow> a = b"
  by (cases a; cases b) simp_all

lemma validation_state_value_inject: "validation_state_value a = validation_state_value b \<longleftrightarrow> a = b"
  by (cases a; cases b) simp_all

lemma quality_state_value_inject: "quality_state_value a = quality_state_value b \<longleftrightarrow> a = b"
  by (cases a; cases b) simp_all

lemma freeze_idem: "freeze (freeze v) = freeze v"
proof (induction v)
  case (PDict xs)
  then show ?case by (auto simp: split_def)
qed (auto simp: o_def)

lemma mk_date_range_ok: "mk_date_range s e = Inr r \<longleftrightarrow> s \<le> e \<and> r = \<lparr>dr_start = s, dr_end = e\<rparr>"
  by (auto simp: mk_date_range_def)

lemma candidate_utc_valid: "candidate_utc f t = Inr u \<Longrightarrow> valid_instant u"
  by (simp add: candidate_utc_def to_utc_valid)

lemma candidate_utc_opt_valid: "candidate_utc_opt f t = Inr (Some u) \<Longrightarrow> valid_instant u"
  by (auto simp: candidate_utc_opt_def candidate_utc_valid rmap_eq_Inr split: option.splits)

lemma mk_fx_candidate_valid:
  "mk_fx_candidate sid d v q ts src pub attrs = Inr c \<Longrightarrow>
     valid_instant (fc_retrieved_at c) \<and> fc_series_id c = sid \<and> fc_observation_date c = d
     \<and> fc_value c = v \<and> fc_source c = src"
  by (auto simp: mk_fx_candidate_def rbind_eq_Inr candidate_utc_valid)

end
