(* ===== verification/Py_Datetime.thy ===== *)
theory Py_Datetime
  imports Py_Time
begin

text \<open>
  ISO 8601 datetimes of Python 3.11: \<open>datetime.isoformat\<close> and the parser of
  \<open>datetime.fromisoformat\<close>, which looks for the separator between date and time, then for
  the start of the UTC offset, and reads hours, minutes, seconds and a fraction on either side of it.
\<close>

section \<open>Formatting\<close>

definition iso_datetime :: "datetime \<Rightarrow> string" where
  "iso_datetime t =
     (let us = wall t mod day_us; secs = us div 1000000; frac = us mod 1000000 in
      iso_date (instant_date (wall t)) @ ''T'' @ show_pad 2 (nat (secs div 3600)) @ '':''
      @ show_pad 2 (nat (secs div 60 mod 60)) @ '':'' @ show_pad 2 (nat (secs mod 60))
      @ (if frac = 0 then [] else ''.'' @ show_pad 6 (nat frac))
      @ (case utcoffset t of None \<Rightarrow> [] | Some off \<Rightarrow> offset_text off))"

section \<open>Parsing\<close>

text \<open>Where the separator of a text of at least seven characters stands.\<close>

definition separator_at :: "string \<Rightarrow> nat" where
  "separator_at s =
     (let n = length s in
      if n = 7 then 7
      else if s ! 4 = CHR ''-'' then
        (if s ! 5 = CHR ''W'' then
           (if n > 8 \<and> s ! 8 = CHR ''-'' then (if n > 10 \<and> is_digit (s ! 10) then 8 else 10) else 8)
         else 10)
      else if s ! 4 = CHR ''W'' then
        (let digits = length (takeWhile is_digit (drop 7 s)); pos = 7 + digits
         in if pos < 9 then pos else if even pos then 8 else 7)
      else 8)"

text \<open>
  \<open>parse_hh_mm_ss_ff\<close>: the fields up to the end of the piece.  \<open>more\<close> says whether a character follows the
  piece; the flag of the result, whether something was left over or follows.
\<close>

type_synonym clock_fields = "nat list \<times> int \<times> bool"

definition read_micros :: "bool \<Rightarrow> string \<Rightarrow> (int \<times> bool) option" where
  "read_micros more s =
     (let k = min 6 (length s)
      in map_option (\<lambda>(v, r). (int v * 10 ^ (6 - k), more \<or> dropWhile is_digit r \<noteq> [])) (take_digits k s))"

fun read_clock :: "bool \<Rightarrow> nat \<Rightarrow> bool \<Rightarrow> nat list \<Rightarrow> string \<Rightarrow> clock_fields option" where
  "read_clock more 0 sep vs s = map_option (\<lambda>(us, left). (vs, us, left)) (read_micros more s)"
| "read_clock more (Suc k) sep vs s =
     (case take_digits 2 s of
        None \<Rightarrow> None
      | Some (v, r) \<Rightarrow>
          (case r of
             [] \<Rightarrow> Some (vs @ [v], 0, more)
           | c # cs \<Rightarrow>
               (let sep' = (if k = 2 then c = CHR '':'' else sep)
                in if cs = [] then Some (vs @ [v], 0, True)
                   else if sep' \<and> c = CHR '':'' then read_clock more k sep' (vs @ [v]) cs
                   else if c = CHR ''.'' \<or> c = CHR '','' then
                     map_option (\<lambda>(us, left). (vs @ [v], us, left)) (read_micros more cs)
                   else if \<not> sep' then read_clock more k sep' (vs @ [v]) r
                   else None)))"

definition clock_seconds :: "nat list \<Rightarrow> int" where
  "clock_seconds vs = (case map int vs of
     [h] \<Rightarrow> h * 3600 | [h, m] \<Rightarrow> h * 3600 + m * 60 | [h, m, s] \<Rightarrow> h * 3600 + m * 60 + s | _ \<Rightarrow> 0)"

definition clock_in_range :: "nat list \<Rightarrow> bool" where
  "clock_in_range vs \<longleftrightarrow> (case vs of [] \<Rightarrow> True | h # rest \<Rightarrow> h < 24 \<and> list_all (\<lambda>v. v < 60) rest)"

text \<open>The offset after its sign, in microseconds; \<open>timezone\<close> wants less than a day.\<close>

definition read_offset :: "char \<Rightarrow> string \<Rightarrow> int option" where
  "read_offset sign s =
     (if sign = CHR ''Z'' then (if s = [] then Some 0 else None)
      else (case read_clock False 3 True [] s of
              Some (vs, us, False) \<Rightarrow>
                (let off = (clock_seconds vs * 1000000 + us) * (if sign = CHR ''-'' then -1 else 1)
                 in if \<bar>off\<bar> < day_us then Some off else None)
            | _ \<Rightarrow> None))"

text \<open>The time after the separator: microseconds of the day and the offset.\<close>

definition read_time :: "string \<Rightarrow> (int \<times> int option) option" where
  "read_time s =
     (let clock = takeWhile (\<lambda>c. c \<notin> {CHR ''+'', CHR ''-'', CHR ''Z''}) s; zone = drop (length clock) s
      in case read_clock (zone \<noteq> []) 3 True [] clock of
           None \<Rightarrow> None
         | Some (vs, us, left) \<Rightarrow>
             (let t = clock_seconds vs * 1000000 + us
              in if \<not> clock_in_range vs then None
                 else case zone of
                        [] \<Rightarrow> (if left then None else Some (t, None))
                      | sign # rest \<Rightarrow> map_option (\<lambda>off. (t, Some off)) (read_offset sign rest)))"

definition parse_iso_datetime :: "string \<Rightarrow> datetime option" where
  "parse_iso_datetime s =
     (if length s < 7 then None
      else (let k = separator_at s
            in case parse_iso_date (take k s) of
                 None \<Rightarrow> None
               | Some d \<Rightarrow>
                   (if length s \<le> k + 1 then Some (Datetime ((d - 1) * day_us) None)
                    else map_option (\<lambda>(t, off). Datetime ((d - 1) * day_us + t) off) (read_time (drop (k + 1) s)))))"

section \<open>Examples\<close>

lemma parse_iso_datetime_examples:
  "parse_iso_datetime ''2024-01-02T03:04:05.5Z'' = Some (Datetime ((738887 - 1) * day_us + 11045500000) (Some 0))"
  "parse_iso_datetime ''20240102 0304-05:00'' = Some (Datetime ((738887 - 1) * day_us + 11040000000) (Some (- 18000000000)))"
  "parse_iso_datetime ''2024-01-02'' = Some (Datetime ((738887 - 1) * day_us) None)"
  "parse_iso_datetime ''2024-01-02T25:00Z'' = None" "parse_iso_datetime ''2024-01-02T12:00+24:00'' = None"
  by code_simp+

section \<open>Reading what was written\<close>

definition clock_text :: "nat \<Rightarrow> nat \<Rightarrow> nat \<Rightarrow> nat \<Rightarrow> string" where
  "clock_text h m s f = show_pad 2 h @ '':'' @ show_pad 2 m @ '':'' @ show_pad 2 s @ (if f = 0 then [] else ''.'' @ show_pad 6 f)"

lemma read_clock_step:
  "j = Suc k \<Longrightarrow> h < 100 \<Longrightarrow> cs \<noteq> [] \<Longrightarrow> sep \<or> k = 2 \<Longrightarrow>
     read_clock more j sep vs (show_pad 2 h @ '':'' @ cs) = read_clock more k True (vs @ [h]) cs"
  by (auto simp: take_digits_show_pad)

lemma read_clock_last: "j = Suc k \<Longrightarrow> h < 100 \<Longrightarrow> read_clock more j sep vs (show_pad 2 h) = Some (vs @ [h], 0, more)"
  using take_digits_show_pad [of h 2 "[]"] by simp

lemma read_clock_fraction:
  assumes "h < 100" "f < 1000000"
  shows "read_clock more 1 True vs (show_pad 2 h @ ''.'' @ show_pad 6 f) = Some (vs @ [h], int f, more)"
proof -
  have "read_micros more (show_pad 6 f) = Some (int f, more)"
    using take_digits_show_pad [of f 6 "[]"] assms(2) by (simp add: read_micros_def)
  moreover have "show_pad 6 f \<noteq> []" by (metis length_0_conv length_show_pad zero_neq_numeral)
  ultimately show ?thesis using assms(1) by (simp add: take_digits_show_pad)
qed

lemma show_pad_append_nonempty: "show_pad 2 h @ u \<noteq> []"
  by (metis append_is_Nil_conv length_0_conv length_show_pad zero_neq_numeral)

lemma read_clock_text:
  assumes "h < 100" "m < 100" "s < 100" "f < 1000000"
  shows "read_clock more 3 True [] (clock_text h m s f) = Some ([h, m, s], int f, more)"
proof -
  let ?frac = "if f = 0 then [] else ''.'' @ show_pad 6 f"
  let ?tail = "show_pad 2 s @ ?frac"
  have "read_clock more 3 True [] (clock_text h m s f) = read_clock more 2 True ([] @ [h]) (show_pad 2 m @ '':'' @ ?tail)"
    unfolding clock_text_def by (rule read_clock_step) (use assms show_pad_append_nonempty in auto)
  also have "\<dots> = read_clock more 1 True (([] @ [h]) @ [m]) ?tail"
    by (rule read_clock_step) (use assms show_pad_append_nonempty in auto)
  also have "\<dots> = Some ((([] @ [h]) @ [m]) @ [s], int f, more)"
  proof (cases "f = 0")
    case True
    then show ?thesis using read_clock_last [of 1 0 s more] assms(3) by simp
  qed (use read_clock_fraction [OF assms(3,4)] in simp)
  finally show ?thesis by simp
qed

lemma read_clock_short:
  assumes "h < 100" "m < 100"
  shows "read_clock more 3 True [] (show_pad 2 h @ '':'' @ show_pad 2 m) = Some ([h, m], 0, more)"
proof -
  have "read_clock more 3 True [] (show_pad 2 h @ '':'' @ show_pad 2 m) = read_clock more 2 True ([] @ [h]) (show_pad 2 m)"
    by (rule read_clock_step) (use assms show_pad_append_nonempty [of m "[]"] in auto)
  also have "\<dots> = Some (([] @ [h]) @ [m], 0, more)"
    by (rule read_clock_last) (use assms in auto)
  finally show ?thesis by simp
qed

lemma clock_text_chars: "c \<in> set (clock_text h m s f) \<Longrightarrow> c \<notin> {CHR ''+'', CHR ''-'', CHR ''Z''}"
proof -
  have "\<not> is_digit (CHR ''+'')" "\<not> is_digit (CHR ''-'')" "\<not> is_digit (CHR ''Z'')" by code_simp+
  then show "c \<in> set (clock_text h m s f) \<Longrightarrow> ?thesis"
    using show_pad_digits [of c 2 h] show_pad_digits [of c 2 m] show_pad_digits [of c 2 s] show_pad_digits [of c 6 f]
    by (auto simp: clock_text_def split: if_splits)
qed

lemma read_time_text:
  assumes "h < 24" "m < 60" "s < 60" "f < 1000000"
    and "zone = [] \<and> off = None \<or> (\<exists>sign rest. zone = sign # rest \<and> sign \<in> {CHR ''+'', CHR ''-'', CHR ''Z''} \<and> off = read_offset sign rest \<and> off \<noteq> None)"
  shows "read_time (clock_text h m s f @ zone) = Some ((int h * 3600 + int m * 60 + int s) * 1000000 + int f, off)"
proof -
  let ?P = "\<lambda>c. c \<notin> {CHR ''+'', CHR ''-'', CHR ''Z''}"
  have tw: "takeWhile ?P (clock_text h m s f @ zone) = clock_text h m s f"
    using assms(5) clock_text_chars [of _ h m s f] by (auto simp: takeWhile_append)
  have rc: "read_clock more 3 True [] (clock_text h m s f) = Some ([h, m, s], int f, more)" for more
    using assms by (intro read_clock_text) auto
  show ?thesis unfolding read_time_def tw Let_def rc using assms
    by (auto simp: clock_in_range_def clock_seconds_def)
qed

lemma read_offset_value:
  "sign \<in> {CHR ''+'', CHR ''-''} \<Longrightarrow> read_clock False 3 True [] rest = Some (vs, us, False) \<Longrightarrow>
     clock_seconds vs * 1000000 + us = a \<Longrightarrow> 0 \<le> a \<Longrightarrow> a < day_us \<Longrightarrow> read_offset sign rest = Some (if sign = CHR ''-'' then - a else a)"
  by (auto simp: read_offset_def Let_def)

lemma offset_text_read:
  assumes "\<bar>off\<bar> < day_us"
  obtains sign rest where "offset_text off = sign # rest" "sign \<in> {CHR ''+'', CHR ''-''}" "read_offset sign rest = Some off"
proof -
  define a where "a = \<bar>off\<bar>"
  let ?secs = "a div 1000000" let ?frac = "a mod 1000000"
  let ?h = "nat (?secs div 3600)" let ?m = "nat (?secs div 60 mod 60)" let ?s = "nat (?secs mod 60)" let ?f = "nat ?frac"
  have us: "a mod day_us = a" using assms by (simp add: a_def)
  have parts: "a = (?secs div 3600 * 3600 + ?secs div 60 mod 60 * 60 + ?secs mod 60) * 1000000 + ?frac" "?secs div 3600 < 24"
    using instant_parts(1,3) [of a] assms unfolding us by (simp_all add: a_def div_pos_pos_trivial)
  have b: "?h < 100" "?m < 100" "?s < 100" "?f < 1000000" using parts(2) by (auto simp: nat_less_iff)
  have z: "?frac = 0 \<longleftrightarrow> ?f = 0" using pos_mod_sign [of 1000000 a] by linarith
  let ?sign = "if off < 0 then CHR ''-'' else CHR ''+''"
  let ?rest = "if ?secs mod 60 = 0 \<and> ?frac = 0 then show_pad 2 ?h @ '':'' @ show_pad 2 ?m else clock_text ?h ?m ?s ?f"
  have shape: "offset_text off = ?sign # ?rest"
    unfolding offset_text_def Let_def clock_text_def a_def [symmetric] z by simp
  have rd: "read_clock False 3 True [] ?rest = Some (if ?secs mod 60 = 0 \<and> ?frac = 0 then [?h, ?m] else [?h, ?m, ?s], ?frac, False)"
    using read_clock_short [OF b(1,2), of False] read_clock_text [OF b, of False] by simp
  have cs: "clock_seconds (if ?secs mod 60 = 0 \<and> ?frac = 0 then [?h, ?m] else [?h, ?m, ?s]) * 1000000 + ?frac = a"
  proof -
    have "0 \<le> ?secs" by (simp add: a_def)
    then have "clock_seconds (if ?secs mod 60 = 0 \<and> ?frac = 0 then [?h, ?m] else [?h, ?m, ?s]) =
        ?secs div 3600 * 3600 + ?secs div 60 mod 60 * 60 + ?secs mod 60"
      by (simp add: clock_seconds_def pos_imp_zdiv_nonneg_iff)
    then show ?thesis by (simp only: parts(1) [symmetric])
  qed
  have "read_offset ?sign ?rest = Some (if ?sign = CHR ''-'' then - a else a)"
    by (rule read_offset_value [OF _ rd cs]) (use assms in \<open>simp_all add: a_def\<close>)
  moreover have "(if ?sign = CHR ''-'' then - a else a) = off" by (simp add: a_def)
  ultimately show thesis using that [OF shape] by simp
qed

lemma parse_iso_datetime_parts:
  "7 \<le> length s \<Longrightarrow> separator_at s = k \<Longrightarrow> parse_iso_date (take k s) = Some d \<Longrightarrow> k + 1 < length s \<Longrightarrow>
     read_time (drop (k + 1) s) = Some (t, off) \<Longrightarrow> parse_iso_datetime s = Some (Datetime ((d - 1) * day_us + t) off)"
  by (simp add: parse_iso_datetime_def)

text \<open>A date, a clock and a zone are read back from their text.\<close>

lemma parse_iso_text:
  assumes "valid_instant w"
    and "zone = [] \<and> off = None \<or> (\<exists>sign rest. zone = sign # rest \<and> sign \<in> {CHR ''+'', CHR ''-'', CHR ''Z''} \<and> off = read_offset sign rest \<and> off \<noteq> None)"
  shows "parse_iso_datetime (iso_date (instant_date w) @ ''T'' @
      (let us = w mod day_us; secs = us div 1000000; frac = us mod 1000000 in
       show_pad 2 (nat (secs div 3600)) @ '':'' @ show_pad 2 (nat (secs div 60 mod 60)) @ '':'' @ show_pad 2 (nat (secs mod 60))
       @ (if frac = 0 then [] else ''.'' @ show_pad 6 (nat frac))) @ zone) = Some (Datetime w off)"
proof -
  let ?us = "w mod day_us" let ?secs = "w mod day_us div 1000000"
  let ?h = "nat (?secs div 3600)" let ?m = "nat (?secs div 60 mod 60)" let ?s = "nat (?secs mod 60)" let ?f = "nat (?us mod 1000000)"
  let ?d = "instant_date w"
  note p = instant_parts [of w]
  have z: "?us mod 1000000 = 0 \<longleftrightarrow> ?f = 0" using p(4) by auto
  have b: "?h < 24" "?m < 60" "?s < 60" "?f < 1000000" using p(2-5) by (auto simp: nat_less_iff)
  note time = read_time_text [OF b assms(2)]
  have ints: "int ?h = ?secs div 3600" "int ?m = ?secs div 60 mod 60" "int ?s = ?secs mod 60" "int ?f = ?us mod 1000000"
    using p(2-5) by simp_all
  have us: "?us = (?secs div 3600 * 3600 + ?secs div 60 mod 60 * 60 + ?secs mod 60) * 1000000 + ?us mod 1000000"
    using p(1) div_mult_mod_eq [of w day_us] by linarith
  note time = time [unfolded ints, folded us]
  obtain y m d where o: "ord2ymd ?d = (y, m, d)" by (metis prod.exhaust)
  have nine: "iso_date ?d ! 4 = CHR ''-''" "iso_date ?d ! 5 \<noteq> CHR ''W''"
  proof -
    have "show_pad 2 (nat m) ! 0 \<in> set (show_pad 2 (nat m))" by (rule nth_mem) simp
    then have "is_digit (show_pad 2 (nat m) ! 0)" by (rule show_pad_digits)
    moreover have "\<not> is_digit (CHR ''W'')" by code_simp
    ultimately show "iso_date ?d ! 4 = CHR ''-''" "iso_date ?d ! 5 \<noteq> CHR ''W''"
      by (auto simp: iso_date_def o nth_append)
  qed
  let ?txt = "iso_date ?d @ ''T'' @ clock_text ?h ?m ?s ?f @ zone"
  have sep: "separator_at ?txt = 10" using nine by (simp add: separator_at_def Let_def length_iso_date nth_append)
  have date: "parse_iso_date (take 10 ?txt) = Some ?d"
    using parse_iso_date_iso_date [OF valid_instant_date [OF assms(1)]] by (simp add: length_iso_date)
  have "clock_text ?h ?m ?s ?f \<noteq> []" by (simp add: clock_text_def)
  then have len: "7 \<le> length ?txt" "10 + 1 < length ?txt" by (simp_all add: length_iso_date del: length_0_conv)
  have rest: "drop (10 + 1) ?txt = clock_text ?h ?m ?s ?f @ zone" by (simp add: length_iso_date)
  have "parse_iso_datetime ?txt = Some (Datetime ((?d - 1) * day_us + ?us) off)"
    by (rule parse_iso_datetime_parts [OF len(1) sep date len(2)]) (unfold rest, rule time)
  moreover have "(?d - 1) * day_us + ?us = w" unfolding instant_date_def by (simp add: div_mult_mod_eq)
  ultimately show ?thesis by (simp add: Let_def clock_text_def z)
qed

text \<open>An aware or naive datetime is read back from its ISO text, an instant from the text the service writes.\<close>

lemma parse_iso_datetime_iso:
  assumes "valid_instant w" "case off of None \<Rightarrow> True | Some x \<Rightarrow> \<bar>x\<bar> < day_us"
  shows "parse_iso_datetime (iso_datetime (Datetime w off)) = Some (Datetime w off)"
proof -
  let ?zone = "case off of None \<Rightarrow> [] | Some x \<Rightarrow> offset_text x"
  have "?zone = [] \<and> off = None \<or> (\<exists>sign rest. ?zone = sign # rest \<and> sign \<in> {CHR ''+'', CHR ''-'', CHR ''Z''} \<and> off = read_offset sign rest \<and> off \<noteq> None)"
    using assms(2) by (cases off) (auto elim: offset_text_read)
  from parse_iso_text [OF assms(1) this] show ?thesis by (simp add: iso_datetime_def Let_def)
qed

lemma parse_iso_instant: "valid_instant t \<Longrightarrow> parse_iso_datetime (iso_instant t) = Some (utc_datetime t)"
  using parse_iso_text [of t "''Z''" "Some 0"] by (simp add: iso_instant_def Let_def read_offset_def utc_datetime_def)

end
