(* ===== verification/Normalization.thy ===== *)
theory Normalization
  imports Domain_Model Py_Datetime
begin

text \<open>
  \<open>app/domain/normalization.py\<close>: provider text to canonical identifiers, dates, decimals and
  enum members.  Inputs are \<open>pyval\<close>s, since the parsers pass whatever the payload held; a
  failure is a \<open>NormalizationError\<close> with its code and field.  \<open>str(value)\<close> of a value that is
  neither text, integer, boolean, decimal nor date is a parameter \<open>to_str\<close>.
\<close>

datatype normalization_code =
    NMissingRequiredField | NInvalidIdentifier | NInvalidObservationDate | NInvalidNumericValue
  | NInvalidTimestamp | NUnsupportedRateUnit | NUnsupportedFrequency | NUnsupportedClassification

fun normalization_code_value :: "normalization_code \<Rightarrow> string" where
  "normalization_code_value NMissingRequiredField = ''MISSING_REQUIRED_FIELD''"
| "normalization_code_value NInvalidIdentifier = ''INVALID_IDENTIFIER''"
| "normalization_code_value NInvalidObservationDate = ''INVALID_OBSERVATION_DATE''"
| "normalization_code_value NInvalidNumericValue = ''INVALID_NUMERIC_VALUE''"
| "normalization_code_value NInvalidTimestamp = ''INVALID_TIMESTAMP''"
| "normalization_code_value NUnsupportedRateUnit = ''UNSUPPORTED_RATE_UNIT''"
| "normalization_code_value NUnsupportedFrequency = ''UNSUPPORTED_FREQUENCY''"
| "normalization_code_value NUnsupportedClassification = ''UNSUPPORTED_CLASSIFICATION''"

definition norm_error :: "normalization_code \<Rightarrow> string \<Rightarrow> string \<Rightarrow> exn" where
  "norm_error code field message = NormalizationError (normalization_code_value code) field message"

text \<open>\<open>str(value)\<close>.\<close>

fun py_str :: "(pyval \<Rightarrow> string) \<Rightarrow> pyval \<Rightarrow> string" where
  "py_str to_str PNone = ''None''"
| "py_str to_str (PBool b) = (if b then ''True'' else ''False'')"
| "py_str to_str (PInt i) = show_int i"
| "py_str to_str (PFloat r) = r"
| "py_str to_str (PStr s) = s"
| "py_str to_str (PDecimal d) = dec_str d"
| "py_str to_str (PDate d) = iso_date d"
| "py_str to_str v = to_str v"

definition normalize_identifier ::
  "(pyval \<Rightarrow> string) \<Rightarrow> pyval \<Rightarrow> string \<Rightarrow> bool \<Rightarrow> string res" where
  "normalize_identifier to_str v field uppercase =
     (if v = PNone \<or> str_strip (py_str to_str v) = []
      then Inl (norm_error NMissingRequiredField field (field @ '' is required''))
      else let result = str_strip (py_str to_str v)
           in Inr (if uppercase then str_upper result else result))"

text \<open>
  A \<open>NormalizationError\<close> raised by the nested \<open>normalize_identifier\<close> is itself a
  \<open>ValueError\<close>, so \<open>normalize_date\<close> turns a missing date into \<open>INVALID_OBSERVATION_DATE\<close>.
\<close>

definition normalize_date :: "(pyval \<Rightarrow> string) \<Rightarrow> pyval \<Rightarrow> string \<Rightarrow> date res" where
  "normalize_date to_str v field =
     (case v of
        PDatetime t \<Rightarrow> Inl (norm_error NInvalidObservationDate field ''datetime is not a date'')
      | PDate d \<Rightarrow> Inr d
      | _ \<Rightarrow>
        (case rbind (normalize_identifier to_str v field False) date_fromisoformat of
           Inl e \<Rightarrow> (if is_value_error e
                     then Inl (norm_error NInvalidObservationDate field ''invalid ISO date'')
                     else Inl e)
         | Inr d \<Rightarrow> Inr d))"

definition normalize_decimal :: "(pyval \<Rightarrow> string) \<Rightarrow> pyval \<Rightarrow> string \<Rightarrow> decimal res" where
  "normalize_decimal to_str v field =
     (case v of
        PNone \<Rightarrow> Inl (norm_error NMissingRequiredField field (field @ '' is required''))
      | PBool b \<Rightarrow> Inl (norm_error NMissingRequiredField field (field @ '' is required''))
      | _ \<Rightarrow>
        (case (case v of PDecimal d \<Rightarrow> Some d | _ \<Rightarrow> parse_decimal (str_strip (py_str to_str v))) of
           None \<Rightarrow> Inl (norm_error NInvalidNumericValue field ''invalid decimal'')
         | Some d \<Rightarrow> (if is_finite d then Inr d
                      else Inl (norm_error NInvalidNumericValue field ''decimal must be finite''))))"

text \<open>The instant in UTC and the text it was read from.\<close>

definition normalize_timestamp :: "(pyval \<Rightarrow> string) \<Rightarrow> pyval \<Rightarrow> string \<Rightarrow> (instant \<times> string) res" where
  "normalize_timestamp to_str v field =
     rbind (case v of PDatetime t \<Rightarrow> Inr (iso_datetime t, Some t)
            | _ \<Rightarrow> rmap (\<lambda>s. (s, parse_iso_datetime (replace_char (CHR ''Z'') ''+00:00'' s))) (normalize_identifier to_str v field False))
       (\<lambda>(original, parsed).
        (case parsed of
           None \<Rightarrow> Inl (norm_error NInvalidTimestamp field ''invalid ISO timestamp'')
         | Some t \<Rightarrow> rmap (\<lambda>u. (u, original)) (to_utc (norm_error NInvalidTimestamp field ''timestamp requires an offset'') t)))"

text \<open>\<open>_normalize_enum\<close>: the member whose value is the lowered identifier.\<close>

definition normalize_enum ::
  "(pyval \<Rightarrow> string) \<Rightarrow> (string \<Rightarrow> 'e option) \<Rightarrow> normalization_code \<Rightarrow> string \<Rightarrow> pyval \<Rightarrow> 'e res" where
  "normalize_enum to_str member code field v =
     rbind (rmap str_lower (normalize_identifier to_str v field False)) (\<lambda>normalized.
       case member normalized of
         None \<Rightarrow> Inl (norm_error code field (''unsupported '' @ field))
       | Some x \<Rightarrow> Inr x)"

definition rate_unit_member :: "string \<Rightarrow> canonical_rate_unit option" where
  "rate_unit_member s = (if s = ''percent_per_year'' then Some PercentPerYear else None)"

definition frequency_member :: "string \<Rightarrow> frequency option" where
  "frequency_member s = (if s = ''daily'' then Some FreqDaily else None)"

definition quote_type_member :: "string \<Rightarrow> quote_type option" where
  "quote_type_member s = (if s = ''reference'' then Some QuoteReference else None)"

definition rate_type_member :: "string \<Rightarrow> rate_type option" where
  "rate_type_member s = (if s = ''policy_rate'' then Some RatePolicy else None)"

definition rate_unit_aliases :: "string dict" where
  "rate_unit_aliases = [(''percent'', ''percent_per_year''), (''percent per annum'', ''percent_per_year''),
     (''% p.a.'', ''percent_per_year'')]"

definition frequency_aliases :: "string dict" where
  "frequency_aliases = [(''d'', ''daily'')]"

definition dict_get :: "'v dict \<Rightarrow> string \<Rightarrow> 'v \<Rightarrow> 'v" where
  "dict_get m k dflt = (case map_of m k of None \<Rightarrow> dflt | Some v \<Rightarrow> v)"

definition normalize_rate_unit :: "(pyval \<Rightarrow> string) \<Rightarrow> pyval \<Rightarrow> canonical_rate_unit res" where
  "normalize_rate_unit to_str v =
     rbind (rmap str_lower (normalize_identifier to_str v ''unit'' False)) (\<lambda>normalized.
       normalize_enum to_str rate_unit_member NUnsupportedRateUnit ''unit''
         (PStr (dict_get rate_unit_aliases normalized normalized)))"

definition normalize_frequency :: "(pyval \<Rightarrow> string) \<Rightarrow> pyval \<Rightarrow> frequency res" where
  "normalize_frequency to_str v =
     rbind (rmap str_lower (normalize_identifier to_str v ''frequency'' False)) (\<lambda>normalized.
       normalize_enum to_str frequency_member NUnsupportedFrequency ''frequency''
         (PStr (dict_get frequency_aliases normalized normalized)))"

definition normalize_quote_type :: "(pyval \<Rightarrow> string) \<Rightarrow> pyval \<Rightarrow> quote_type res" where
  "normalize_quote_type to_str v =
     normalize_enum to_str quote_type_member NUnsupportedClassification ''quote_type'' v"

definition normalize_rate_type :: "(pyval \<Rightarrow> string) \<Rightarrow> pyval \<Rightarrow> rate_type res" where
  "normalize_rate_type to_str v =
     normalize_enum to_str rate_type_member NUnsupportedClassification ''rate_type'' v"

section \<open>Facts\<close>

lemma normalize_identifier_stripped:
  "normalize_identifier to_str v field False = Inr s \<Longrightarrow> s \<noteq> [] \<and> s = str_strip (py_str to_str v)"
  by (auto simp: normalize_identifier_def split: if_splits)

lemma normalize_identifier_error:
  "normalize_identifier to_str v field u = Inl e \<Longrightarrow>
     e = norm_error NMissingRequiredField field (field @ '' is required'')"
  by (auto simp: normalize_identifier_def Let_def split: if_splits)

lemma norm_error_value_error [simp]: "is_value_error (norm_error c f m)"
  by (simp add: norm_error_def)

lemma normalize_date_error:
  "normalize_date to_str v field = Inl e \<Longrightarrow> \<exists>m. e = norm_error NInvalidObservationDate field m"
  by (auto simp: normalize_date_def rbind_eq_Inl
      dest: normalize_identifier_error date_fromisoformat_errors
      split: pyval.splits sum.splits if_splits)

lemma normalize_date_text:
  assumes "valid_date d" and "str_strip (iso_date d) = iso_date d"
  shows "normalize_date to_str (PStr (iso_date d)) field = Inr d"
proof -
  have "iso_date d \<noteq> []" using length_iso_date [of d] by auto
  then show ?thesis using assms by (simp add: normalize_date_def normalize_identifier_def Let_def)
qed

lemma normalize_decimal_finite: "normalize_decimal to_str v field = Inr d \<Longrightarrow> is_finite d"
  by (auto simp: normalize_decimal_def split: pyval.splits option.splits if_splits)

lemma normalize_decimal_error:
  "normalize_decimal to_str v field = Inl e \<Longrightarrow> is_value_error e"
  by (auto simp: normalize_decimal_def split: pyval.splits option.splits if_splits)

subsection \<open>Timestamps\<close>

definition stamp_char :: "char \<Rightarrow> bool" where
  "stamp_char c \<longleftrightarrow> is_digit c \<or> c \<in> {CHR ''-'', CHR ''T'', CHR '':'', CHR ''.'', CHR ''+''}"

lemma stamp_char_props: "stamp_char c \<Longrightarrow> \<not> is_space c \<and> c \<noteq> CHR ''Z''"
proof -
  have "\<not> is_space CHR ''-''" "\<not> is_space CHR ''T''" "\<not> is_space CHR '':''" "\<not> is_space CHR ''.''" "\<not> is_space CHR ''+''"
    "\<not> is_digit CHR ''Z''" by code_simp+
  then show "stamp_char c \<Longrightarrow> ?thesis" by (auto simp: stamp_char_def digit_not_space)
qed

lemma show_pad_stamp: "list_all stamp_char (show_pad w n)"
  using show_pad_digits [of _ w n] by (auto simp: list_all_iff stamp_char_def)

lemma iso_datetime_stamp: "list_all stamp_char (iso_datetime t)"
proof -
  have "list_all stamp_char (iso_date d)" for d by (simp add: iso_date_def show_pad_stamp stamp_char_def split: prod.split)
  moreover have "list_all stamp_char (offset_text off)" for off
    by (simp add: offset_text_def Let_def show_pad_stamp stamp_char_def)
  ultimately show ?thesis by (simp add: iso_datetime_def Let_def show_pad_stamp stamp_char_def split: option.split)
qed

lemma replace_char_absent: "c \<notin> set s \<Longrightarrow> replace_char c r s = s"
  by (induction s) (auto simp: replace_char_def)

text \<open>
  A timestamp survives its own ISO text: the text of a datetime with an offset is read back as the same
  instant in UTC, whatever the offset and the fraction of the second, and the text is kept.
\<close>

theorem timestamp_round_trip:
  assumes "valid_instant w" "\<bar>off\<bar> < day_us" "valid_instant (w - off)"
  shows "normalize_timestamp to_str (PStr (iso_datetime (Datetime w (Some off)))) field = Inr (w - off, iso_datetime (Datetime w (Some off)))"
proof -
  let ?s = "iso_datetime (Datetime w (Some off))"
  have "list_all (\<lambda>c. \<not> is_space c) ?s" "CHR ''Z'' \<notin> set ?s"
    using iso_datetime_stamp [of "Datetime w (Some off)"] stamp_char_props by (auto simp: list_all_iff)
  then have "str_strip ?s = ?s" "replace_char (CHR ''Z'') ''+00:00'' ?s = ?s"
    by (simp_all add: str_strip_no_space replace_char_absent)
  moreover have "?s \<noteq> []" by (simp add: iso_datetime_def Let_def)
  moreover have "parse_iso_datetime ?s = Some (Datetime w (Some off))" by (rule parse_iso_datetime_iso) (use assms in auto)
  ultimately show ?thesis using assms(3)
    by (simp add: normalize_timestamp_def normalize_identifier_def to_utc_def rbind_def rmap_def)
qed

lemma timestamp_round_trip_witness:
  "normalize_timestamp (\<lambda>v. []) (PStr (iso_datetime (Datetime 63839750400000001 (Some (- 18000000000))))) ''publication_timestamp'' =
     Inr (63839768400000001, iso_datetime (Datetime 63839750400000001 (Some (- 18000000000))))"
  using timestamp_round_trip [of 63839750400000001 "- 18000000000" "\<lambda>v. []" "''publication_timestamp''"]
  by (simp add: valid_instant_def max_instant_def max_ordinal_def day_us_def)

lemma normalize_timestamp_errors:
  "normalize_timestamp to_str v field = Inl e \<Longrightarrow> is_value_error e \<or> e = overflow_exn"
  by (auto simp: normalize_timestamp_def rbind_eq_Inl rmap_eq_Inl to_utc_def split: pyval.splits option.splits if_splits
      dest: normalize_identifier_error)

end
