(* ===== verification/Reference_Config.thy ===== *)
theory Reference_Config
  imports Domain_Model "HOL-Library.List_Lexorder" "HOL-Library.Char_ord"
begin

text \<open>
  \<open>app/config/reference.py\<close>: the declarative reference configuration and the checks it must pass
  before anything else uses it.  Each dataclass is a record; \<open>validate_config\<close> is \<open>_validate\<close>, check
  by check, in the order of the source.  Whether the tz database knows a zone is the parameter
  \<open>zone_known\<close>.  Reading the YAML file (\<open>load_reference_configuration\<close> and its helpers) and the
  configuration checksum are not modelled.
\<close>

section \<open>Configuration records\<close>

record currency_config =
  gc_code :: string
  gc_name :: string
  gc_minor_units :: "int option"
  gc_enabled :: bool

record economy_config =
  ge_code :: string
  ge_name :: string
  ge_time_zone :: string
  ge_economy_type :: string
  ge_iso_country_code :: "string option"
  ge_enabled :: bool

record economy_currency_config =
  gr_economy :: string
  gr_currency :: string
  gr_effective_from :: date
  gr_effective_to :: "date option"

record fx_pair_config =
  gp_symbol :: string
  gp_base_currency :: string
  gp_quote_currency :: string
  gp_enabled :: bool

record provider_settings =
  gs_base_url :: string
  gs_endpoint_template :: string
  gs_timeout_seconds :: rat
  gs_max_attempts :: int
  gs_max_range_days :: int

record dataset_config =
  gd_provider_code :: string
  gd_dataset_code :: string
  gd_display_name :: string
  gd_configuration_reference :: string
  gd_approval_state :: string
  gd_retention_permitted :: bool
  gd_redistribution_policy :: string
  gd_license_url :: "string option"
  gd_license_notes :: "string option"
  gd_attribution_text :: "string option"
  gd_enabled :: bool
  gd_settings :: "provider_settings option"

definition dataset_key :: "dataset_config \<Rightarrow> string" where
  "dataset_key d = gd_provider_code d @ '':'' @ gd_dataset_code d"

record fx_series_config =
  gf_stable_key :: string
  gf_dataset :: string
  gf_provider_symbol :: string
  gf_pair :: string
  gf_frequency :: string
  gf_quote_type :: string
  gf_enabled :: bool
  gf_source_metadata :: "pyval dict"

record rate_series_config =
  gi_stable_key :: string
  gi_dataset :: string
  gi_economy :: string
  gi_currency :: string
  gi_dataflow_key :: string
  gi_series_key :: string
  gi_collection_indicator :: string
  gi_title :: string
  gi_frequency :: string
  gi_unit :: string
  gi_rate_type :: string
  gi_enabled :: bool
  gi_notes :: "string option"
  gi_source_metadata :: "pyval dict"
  gi_publication_metadata :: "pyval dict"

record calendar_config =
  ca_code :: string
  ca_time_zone :: string
  ca_weekend_days :: "int list"
  ca_holidays :: "date list"
  ca_release_weekdays :: "int list"
  ca_version :: string
  ca_effective_from :: date
  ca_effective_to :: "date option"

text \<open>A publication time is a time of day in microseconds.\<close>

record expectation_config =
  ep_instrument_type :: string
  ep_instrument_key :: string
  ep_observation_frequency :: string
  ep_calendar :: string
  ep_publication_time_zone :: string
  ep_publication_time :: int
  ep_release_cadence :: string
  ep_release_weekdays :: "int list"
  ep_grace_period :: timedelta
  ep_stale_after :: timedelta
  ep_effective_from :: date
  ep_effective_to :: "date option"

record reference_config =
  cf_currencies :: "currency_config list"
  cf_economies :: "economy_config list"
  cf_economy_currencies :: "economy_currency_config list"
  cf_fx_pairs :: "fx_pair_config list"
  cf_datasets :: "dataset_config list"
  cf_fx_series :: "fx_series_config list"
  cf_rate_series :: "rate_series_config list"
  cf_calendars :: "calendar_config list"
  cf_expectations :: "expectation_config list"

definition all_stable_keys :: "reference_config \<Rightarrow> string list" where
  "all_stable_keys c = map gf_stable_key (cf_fx_series c) @ map gi_stable_key (cf_rate_series c)"

definition enabled_stable_keys :: "reference_config \<Rightarrow> string list" where
  "enabled_stable_keys c = map gf_stable_key (filter gf_enabled (cf_fx_series c))
     @ map gi_stable_key (filter gi_enabled (cf_rate_series c))"

section \<open>Ingestion gate\<close>

definition assert_ingestion_allowed :: "string \<Rightarrow> reference_config \<Rightarrow> unit res" where
  "assert_ingestion_allowed key c =
     (case find (\<lambda>d. dataset_key d = key) (cf_datasets c) of
        None \<Rightarrow> Inl (ConfigurationError (''unknown provider dataset: '' @ key))
      | Some d \<Rightarrow>
          rbind (rguard (gd_enabled d) (ConfigurationError (''provider dataset is disabled: '' @ key))) (\<lambda>_.
          rbind (rguard (gd_approval_state d = ''approved'')
                   (ConfigurationError (''license is not approved for dataset: '' @ key))) (\<lambda>_.
          rbind (rguard (gd_retention_permitted d)
                   (ConfigurationError (''raw-data retention is not permitted for dataset: '' @ key))) (\<lambda>_.
          rguard (str_strip (gd_redistribution_policy d) \<noteq> [])
            (ConfigurationError (''redistribution policy is missing for dataset: '' @ key))))))"

section \<open>Validation\<close>

definition reject :: "string \<Rightarrow> string \<Rightarrow> exn" where
  "reject what item = ConfigurationError (what @ '': '' @ item)"

definition check_unique :: "('a \<Rightarrow> string) \<Rightarrow> 'a list \<Rightarrow> string \<Rightarrow> unit res" where
  "check_unique show_item xs label =
     (case first_duplicate [] xs of None \<Rightarrow> Inr () | Some x \<Rightarrow> Inl (reject (''duplicate '' @ label) (show_item x)))"

text \<open>\<open>_add_unique\<close> as a step of a loop that carries the set of values seen.\<close>

definition add_unique :: "string list \<Rightarrow> string \<Rightarrow> string list list \<Rightarrow> string list list res" where
  "add_unique x label seen =
     (if x \<in> set seen then Inl (reject (''duplicate '' @ label) (join ''/'' x)) else Inr (x # seen))"

definition check_reference :: "string \<Rightarrow> string list \<Rightarrow> string \<Rightarrow> unit res" where
  "check_reference x valid label = rguard (x \<in> set valid) (reject (''unknown '' @ label) x)"

definition check_zone :: "(string \<Rightarrow> bool) \<Rightarrow> string \<Rightarrow> exn \<Rightarrow> unit res" where
  "check_zone zone_known tz e = rguard (zone_known tz) e"

definition is_weekday :: "int \<Rightarrow> bool" where
  "is_weekday n \<longleftrightarrow> 0 \<le> n \<and> n < 7"

definition ends_before :: "date option \<Rightarrow> date \<Rightarrow> bool" where
  "ends_before e s = (case e of None \<Rightarrow> False | Some t \<Rightarrow> t < s)"

definition check_currency :: "currency_config \<Rightarrow> unit res" where
  "check_currency x =
     rbind (rguard (length (gc_code x) = 3 \<and> list_all is_upper_ascii (gc_code x))
              (reject ''invalid ISO currency code'' (gc_code x))) (\<lambda>_.
     rguard (case gc_minor_units x of None \<Rightarrow> True | Some n \<Rightarrow> n \<ge> 0)
       (reject ''minor_units must be non-negative'' (gc_code x)))"

definition check_economy :: "(string \<Rightarrow> bool) \<Rightarrow> economy_config \<Rightarrow> unit res" where
  "check_economy zone_known x =
     rbind (rguard (str_strip (ge_code x) \<noteq> []) (reject ''invalid economy code'' (repr_str (ge_code x)))) (\<lambda>_.
     rbind (case ge_iso_country_code x of None \<Rightarrow> Inr ()
            | Some c \<Rightarrow> rguard (c = [] \<or> length c = 2 \<and> list_all is_upper_ascii c)
                         (reject ''invalid ISO country code'' c)) (\<lambda>_.
     rbind (rguard (ge_economy_type x \<in> {''country'', ''currency_union''})
              (reject ''invalid economy_type'' (ge_economy_type x))) (\<lambda>_.
     check_zone zone_known (ge_time_zone x) (reject ''invalid time zone'' (ge_time_zone x)))))"

definition check_economy_currency :: "string list \<Rightarrow> string list \<Rightarrow> economy_currency_config \<Rightarrow> unit res" where
  "check_economy_currency economies currencies x =
     rbind (check_reference (gr_economy x) economies ''economy'') (\<lambda>_.
     rbind (check_reference (gr_currency x) currencies ''currency'') (\<lambda>_.
     rguard (\<not> ends_before (gr_effective_to x) (gr_effective_from x))
       (reject ''invalid effective dates'' (gr_economy x @ ''/'' @ gr_currency x))))"

text \<open>\<open>_validate_no_overlaps\<close>: adjacent periods of each economy and currency, by start date.\<close>

fun check_adjacent :: "economy_currency_config list \<Rightarrow> unit res" where
  "check_adjacent (p # q # rest) =
     (if gr_effective_to p = None \<or> \<not> ends_before (gr_effective_to p) (gr_effective_from q)
      then Inl (reject ''overlapping effective dates'' (gr_economy p @ ''/'' @ gr_currency p))
      else check_adjacent (q # rest))"
| "check_adjacent _ = Inr ()"

definition relationship :: "economy_currency_config \<Rightarrow> string \<times> string" where
  "relationship x = (gr_economy x, gr_currency x)"

definition check_no_overlaps :: "economy_currency_config list \<Rightarrow> unit res" where
  "check_no_overlaps xs =
     each (\<lambda>k. check_adjacent (sort_key gr_effective_from (filter (\<lambda>x. relationship x = k) xs)))
       (dedupe (map relationship xs))"

definition check_fx_pair :: "string list \<Rightarrow> fx_pair_config \<Rightarrow> unit res" where
  "check_fx_pair currencies x =
     rbind (check_reference (gp_base_currency x) currencies ''base currency'') (\<lambda>_.
     rbind (check_reference (gp_quote_currency x) currencies ''quote currency'') (\<lambda>_.
     rbind (rguard (gp_base_currency x \<noteq> gp_quote_currency x)
              (reject ''FX pair currencies must differ'' (gp_symbol x))) (\<lambda>_.
     rguard (gp_symbol x = gp_base_currency x @ gp_quote_currency x)
       (reject ''FX pair symbol does not match orientation'' (gp_symbol x)))))"

definition check_dataset :: "dataset_config \<Rightarrow> unit res" where
  "check_dataset x =
     rbind (rguard (gd_approval_state x \<in> {''pending'', ''approved'', ''rejected''})
              (reject ''invalid approval state'' (dataset_key x))) (\<lambda>_.
     (case gd_settings x of
        None \<Rightarrow> Inl (reject ''provider settings are missing'' (dataset_key x))
      | Some s \<Rightarrow>
          rbind (rguard (prefix ''https://'' (gs_base_url s))
                   (reject ''provider base URL must use HTTPS'' (dataset_key x))) (\<lambda>_.
          rbind (rguard (str_strip (gs_endpoint_template s) \<noteq> [])
                   (reject ''provider endpoint template is empty'' (dataset_key x))) (\<lambda>_.
          rguard (gs_timeout_seconds s > 0 \<and> gs_max_attempts s > 0 \<and> gs_max_range_days s > 0)
            (reject ''provider request limits must be positive'' (dataset_key x))))))"

definition next_item :: "('a \<Rightarrow> bool) \<Rightarrow> 'a list \<Rightarrow> 'a res" where
  "next_item P xs = (case find P xs of None \<Rightarrow> Inl StopIteration | Some x \<Rightarrow> Inr x)"

definition check_fx_series :: "reference_config \<Rightarrow> fx_series_config \<Rightarrow> string list list \<Rightarrow> string list list res" where
  "check_fx_series c x seen =
     rbind (check_reference (gf_dataset x) (map dataset_key (cf_datasets c)) ''dataset'') (\<lambda>_.
     rbind (check_reference (gf_pair x) (map gp_symbol (cf_fx_pairs c)) ''FX pair'') (\<lambda>_.
     rbind (next_item (\<lambda>p. gp_symbol p = gf_pair x) (cf_fx_pairs c)) (\<lambda>pair.
     rbind (next_item (\<lambda>d. dataset_key d = gf_dataset x) (cf_datasets c)) (\<lambda>dataset.
     rbind (rguard (\<not> (gf_enabled x \<and> (\<not> gp_enabled pair \<or> \<not> gd_enabled dataset)))
              (reject ''enabled FX series references a disabled item'' (gf_stable_key x))) (\<lambda>_.
     rbind (rguard (\<not> (gf_enabled x \<and> gp_quote_currency pair \<noteq> ''CAD''))
              (reject ''enabled Bank of Canada pair must quote CAD'' (gf_pair x))) (\<lambda>_.
     rbind (rguard (gf_frequency x = ''daily'' \<and> gf_quote_type x = ''reference'')
              (reject ''invalid Phase 1 FX semantics'' (gf_stable_key x))) (\<lambda>_.
     add_unique [gf_dataset x, gf_provider_symbol x] ''provider symbol'' seen)))))))"

definition check_rate_series :: "reference_config \<Rightarrow> rate_series_config \<Rightarrow> string list list \<Rightarrow> string list list res" where
  "check_rate_series c x seen =
     rbind (check_reference (gi_dataset x) (map dataset_key (cf_datasets c)) ''dataset'') (\<lambda>_.
     rbind (check_reference (gi_economy x) (map ge_code (cf_economies c)) ''economy'') (\<lambda>_.
     rbind (check_reference (gi_currency x) (map gc_code (cf_currencies c)) ''currency'') (\<lambda>_.
     rbind (rguard ((gi_economy x, gi_currency x) \<in> relationship ` set (cf_economy_currencies c))
              (reject ''missing economy/currency relationship'' (gi_economy x @ ''/'' @ gi_currency x))) (\<lambda>_.
     rbind (next_item (\<lambda>d. dataset_key d = gi_dataset x) (cf_datasets c)) (\<lambda>dataset.
     rbind (next_item (\<lambda>e. ge_code e = gi_economy x) (cf_economies c)) (\<lambda>economy.
     rbind (next_item (\<lambda>e. gc_code e = gi_currency x) (cf_currencies c)) (\<lambda>currency.
     rbind (rguard (\<not> (gi_enabled x \<and> (\<not> gd_enabled dataset \<or> \<not> ge_enabled economy \<or> \<not> gc_enabled currency)))
              (reject ''enabled policy series references a disabled item'' (gi_stable_key x))) (\<lambda>_.
     rbind (rguard (gi_frequency x = ''daily'' \<and> gi_unit x = ''percent_per_year'' \<and> gi_rate_type x = ''policy_rate'')
              (reject ''invalid Phase 1 policy-rate semantics'' (gi_stable_key x))) (\<lambda>_.
     add_unique [gi_dataset x, gi_dataflow_key x, gi_series_key x] ''BIS series key'' seen)))))))))"

definition check_calendar :: "(string \<Rightarrow> bool) \<Rightarrow> calendar_config \<Rightarrow> unit res" where
  "check_calendar zone_known x =
     rbind (check_zone zone_known (ca_time_zone x) (reject ''invalid calendar time zone'' (ca_time_zone x))) (\<lambda>_.
     rbind (rguard (list_all is_weekday (ca_weekend_days x @ ca_release_weekdays x))
              (reject ''calendar weekdays must be between 0 and 6'' (ca_code x))) (\<lambda>_.
     rguard (\<not> ends_before (ca_effective_to x) (ca_effective_from x))
       (reject ''invalid calendar effective dates'' (ca_code x))))"

definition check_expectation :: "(string \<Rightarrow> bool) \<Rightarrow> string list \<Rightarrow> string list \<Rightarrow> expectation_config \<Rightarrow> unit res" where
  "check_expectation zone_known series calendars x =
     rbind (rguard (ep_instrument_type x \<in> {''fx_pair'', ''policy_rate_series''})
              (reject ''invalid expectation instrument type'' (ep_instrument_type x))) (\<lambda>_.
     rbind (check_reference (ep_instrument_key x) series ''expectation instrument'') (\<lambda>_.
     rbind (check_reference (ep_calendar x) calendars ''expectation calendar'') (\<lambda>_.
     rbind (rguard (ep_observation_frequency x = ''daily'' \<and> ep_release_cadence x \<in> {''daily_business'', ''weekly''})
              (reject ''invalid Phase 1 expectation cadence'' (ep_instrument_key x))) (\<lambda>_.
     rbind (rguard (\<not> (ep_release_cadence x = ''weekly'' \<and> ep_release_weekdays x = []))
              (reject ''weekly expectation has no release weekday'' (ep_instrument_key x))) (\<lambda>_.
     rbind (rguard (list_all is_weekday (ep_release_weekdays x))
              (reject ''expectation weekdays must be between 0 and 6'' (ep_instrument_key x))) (\<lambda>_.
     rbind (rguard (ep_grace_period x \<ge> 0 \<and> ep_stale_after x \<ge> 0)
              (reject ''expectation durations must be non-negative'' (ep_instrument_key x))) (\<lambda>_.
     rbind (rguard (\<not> ends_before (ep_effective_to x) (ep_effective_from x))
              (reject ''invalid expectation effective dates'' (ep_instrument_key x))) (\<lambda>_.
     check_zone zone_known (ep_publication_time_zone x)
       (reject ''invalid expectation time zone'' (ep_instrument_key x))))))))))"

definition check_coverage :: "reference_config \<Rightarrow> unit res" where
  "check_coverage c =
     (case filter (\<lambda>k. k \<notin> ep_instrument_key ` set (cf_expectations c)) (enabled_stable_keys c) of
        [] \<Rightarrow> Inr ()
      | missing \<Rightarrow> Inl (reject ''missing expectation policy for enabled series''
          (join '', '' (sort (remdups missing)))))"

definition validate_config :: "(string \<Rightarrow> bool) \<Rightarrow> reference_config \<Rightarrow> unit res" where
  "validate_config zone_known c =
     rbind (check_unique id (map gc_code (cf_currencies c)) ''currency code'') (\<lambda>_.
     rbind (check_unique id (map ge_code (cf_economies c)) ''economy code'') (\<lambda>_.
     rbind (check_unique id (map gp_symbol (cf_fx_pairs c)) ''FX pair symbol'') (\<lambda>_.
     rbind (check_unique id (map dataset_key (cf_datasets c)) ''provider dataset'') (\<lambda>_.
     rbind (check_unique id (all_stable_keys c) ''series stable key'') (\<lambda>_.
     rbind (check_unique id (map ca_code (cf_calendars c)) ''calendar code'') (\<lambda>_.
     rbind (check_unique (\<lambda>(t, k). ''('' @ repr_str t @ '', '' @ repr_str k @ '')'')
              (map (\<lambda>x. (ep_instrument_type x, ep_instrument_key x)) (cf_expectations c)) ''expectation policy'') (\<lambda>_.
     rbind (each check_currency (cf_currencies c)) (\<lambda>_.
     rbind (each (check_economy zone_known) (cf_economies c)) (\<lambda>_.
     rbind (each (check_economy_currency (map ge_code (cf_economies c)) (map gc_code (cf_currencies c)))
              (cf_economy_currencies c)) (\<lambda>_.
     rbind (check_no_overlaps (cf_economy_currencies c)) (\<lambda>_.
     rbind (each (check_fx_pair (map gc_code (cf_currencies c))) (cf_fx_pairs c)) (\<lambda>_.
     rbind (each check_dataset (cf_datasets c)) (\<lambda>_.
     rbind (rfold (check_fx_series c) (cf_fx_series c) []) (\<lambda>_.
     rbind (rfold (check_rate_series c) (cf_rate_series c) []) (\<lambda>_.
     rbind (each (check_calendar zone_known) (cf_calendars c)) (\<lambda>_.
     rbind (each (check_expectation zone_known (all_stable_keys c) (map ca_code (cf_calendars c)))
              (cf_expectations c)) (\<lambda>_.
     check_coverage c)))))))))))))))))"

section \<open>Facts\<close>

lemma check_unique_ok [res_simps]: "check_unique sh xs label = Inr u \<longleftrightarrow> distinct xs"
proof -
  have "first_duplicate [] xs = None \<longleftrightarrow> distinct xs" by (simp add: first_duplicate_None)
  then show ?thesis by (auto simp: check_unique_def split: option.splits)
qed

lemma check_reference_ok [res_simps]: "check_reference x valid label = Inr u \<longleftrightarrow> x \<in> set valid"
  by (simp add: check_reference_def)

lemma check_zone_ok [res_simps]: "check_zone zk tz e = Inr u \<longleftrightarrow> zk tz"
  by (simp add: check_zone_def)

lemma next_item_ok [res_simps]:
  "next_item P xs = Inr x \<longleftrightarrow> find P xs = Some x"
  by (simp add: next_item_def split: option.splits)

lemma find_SomeD: "find P xs = Some x \<Longrightarrow> x \<in> set xs \<and> P x"
  by (auto simp: find_Some_iff)

lemma rfold_each: "rfold f xs s = Inr s' \<Longrightarrow> x \<in> set xs \<Longrightarrow> \<exists>t t'. f x t = Inr t'"
  by (induction xs arbitrary: s) (auto split: sum.splits)

text \<open>The parts of a validated configuration the other components rely on.\<close>

lemma validate_configD:
  assumes "validate_config zk c = Inr u"
  shows "distinct (map gc_code (cf_currencies c))" "distinct (map gp_symbol (cf_fx_pairs c))"
    "distinct (map dataset_key (cf_datasets c))" "distinct (all_stable_keys c)"
    "distinct (map ca_code (cf_calendars c))"
    "distinct (map (\<lambda>x. (ep_instrument_type x, ep_instrument_key x)) (cf_expectations c))"
    "check_no_overlaps (cf_economy_currencies c) = Inr ()"
    "p \<in> set (cf_fx_pairs c) \<Longrightarrow> check_fx_pair (map gc_code (cf_currencies c)) p = Inr ()"
    "d \<in> set (cf_datasets c) \<Longrightarrow> check_dataset d = Inr ()"
    "x \<in> set (cf_fx_series c) \<Longrightarrow> \<exists>s s'. check_fx_series c x s = Inr s'"
    "y \<in> set (cf_rate_series c) \<Longrightarrow> \<exists>s s'. check_rate_series c y s = Inr s'"
    "cal \<in> set (cf_calendars c) \<Longrightarrow> check_calendar zk cal = Inr ()"
    "e \<in> set (cf_expectations c) \<Longrightarrow> check_expectation zk (all_stable_keys c) (map ca_code (cf_calendars c)) e = Inr ()"
    "k \<in> set (enabled_stable_keys c) \<Longrightarrow> k \<in> ep_instrument_key ` set (cf_expectations c)"
proof -
  have all: "distinct (map gc_code (cf_currencies c))" "distinct (map gp_symbol (cf_fx_pairs c))"
    "distinct (map dataset_key (cf_datasets c))" "distinct (all_stable_keys c)"
    "distinct (map ca_code (cf_calendars c))"
    "distinct (map (\<lambda>x. (ep_instrument_type x, ep_instrument_key x)) (cf_expectations c))"
    "check_no_overlaps (cf_economy_currencies c) = Inr ()"
    "\<forall>p\<in>set (cf_fx_pairs c). check_fx_pair (map gc_code (cf_currencies c)) p = Inr ()"
    "\<forall>d\<in>set (cf_datasets c). check_dataset d = Inr ()"
    "\<exists>s. rfold (check_fx_series c) (cf_fx_series c) [] = Inr s"
    "\<exists>s. rfold (check_rate_series c) (cf_rate_series c) [] = Inr s"
    "\<forall>cal\<in>set (cf_calendars c). check_calendar zk cal = Inr ()"
    "\<forall>e\<in>set (cf_expectations c). check_expectation zk (all_stable_keys c) (map ca_code (cf_calendars c)) e = Inr ()"
    "check_coverage c = Inr u"
    using assms unfolding validate_config_def by (simp_all add: res_simps)
  have cov: "filter (\<lambda>k. k \<notin> ep_instrument_key ` set (cf_expectations c)) (enabled_stable_keys c) = []"
    using all(14) by (simp add: check_coverage_def split: list.splits)
  obtain s1 where s1: "rfold (check_fx_series c) (cf_fx_series c) [] = Inr s1" using all(10) by blast
  obtain s2 where s2: "rfold (check_rate_series c) (cf_rate_series c) [] = Inr s2" using all(11) by blast
  show "x \<in> set (cf_fx_series c) \<Longrightarrow> \<exists>s s'. check_fx_series c x s = Inr s'" by (rule rfold_each [OF s1])
  show "y \<in> set (cf_rate_series c) \<Longrightarrow> \<exists>s s'. check_rate_series c y s = Inr s'" by (rule rfold_each [OF s2])
  show "k \<in> set (enabled_stable_keys c) \<Longrightarrow> k \<in> ep_instrument_key ` set (cf_expectations c)"
    using cov unfolding filter_empty_conv by blast
  show "distinct (map gc_code (cf_currencies c))" "distinct (map gp_symbol (cf_fx_pairs c))"
    "distinct (map dataset_key (cf_datasets c))" "distinct (all_stable_keys c)"
    "distinct (map ca_code (cf_calendars c))"
    "distinct (map (\<lambda>x. (ep_instrument_type x, ep_instrument_key x)) (cf_expectations c))"
    "check_no_overlaps (cf_economy_currencies c) = Inr ()"
    "p \<in> set (cf_fx_pairs c) \<Longrightarrow> check_fx_pair (map gc_code (cf_currencies c)) p = Inr ()"
    "d \<in> set (cf_datasets c) \<Longrightarrow> check_dataset d = Inr ()"
    "cal \<in> set (cf_calendars c) \<Longrightarrow> check_calendar zk cal = Inr ()"
    "e \<in> set (cf_expectations c) \<Longrightarrow> check_expectation zk (all_stable_keys c) (map ca_code (cf_calendars c)) e = Inr ()"
    using all by blast+
qed

text \<open>Dates a period covers, and the disjointness of the periods of one relationship.\<close>

definition covers :: "date \<Rightarrow> economy_currency_config \<Rightarrow> bool" where
  "covers d x \<longleftrightarrow> gr_effective_from x \<le> d \<and> (case gr_effective_to x of None \<Rightarrow> True | Some t \<Rightarrow> d \<le> t)"

lemma check_adjacent_covers:
  "check_adjacent xs = Inr u \<Longrightarrow> sorted (map gr_effective_from xs) \<Longrightarrow> length (filter (covers d) xs) \<le> 1"
proof (induction xs rule: check_adjacent.induct)
  case (1 p q rest)
  have ok: "check_adjacent (q # rest) = Inr u" "ends_before (gr_effective_to p) (gr_effective_from q)"
    using "1.prems"(1) by (auto split: if_splits)
  show ?case
  proof (cases "covers d p")
    case True
    obtain t where t: "gr_effective_to p = Some t" "t < gr_effective_from q"
      using ok(2) by (auto simp: ends_before_def split: option.splits)
    have "\<not> covers d x" if "x \<in> set (q # rest)" for x
      using True t that "1.prems"(2) by (auto simp: covers_def)
    then have "filter (covers d) (q # rest) = []" by (simp only: filter_empty_conv) blast
    then show ?thesis using True by simp
  next
    case False
    then show ?thesis using "1.IH" ok "1.prems" by (auto split: if_splits)
  qed
qed auto

lemma check_no_overlaps_covers:
  assumes "check_no_overlaps xs = Inr u"
  shows "length (filter (\<lambda>x. relationship x = k \<and> covers d x) xs) \<le> 1"
proof (cases "k \<in> relationship ` set xs")
  case True
  let ?ys = "filter (\<lambda>x. relationship x = k) xs"
  have "check_adjacent (sort_key gr_effective_from ?ys) = Inr ()"
    using assms True by (auto simp: check_no_overlaps_def each_ok)
  then have "length (filter (covers d) (sort_key gr_effective_from ?ys)) \<le> 1"
    by (rule check_adjacent_covers) simp
  then show ?thesis by (simp add: filter_sort conj_commute)
next
  case False
  then have "filter (\<lambda>x. relationship x = k \<and> covers d x) xs = []" by (auto simp: filter_empty_conv)
  then show ?thesis by simp
qed

text \<open>The pair and dataset of an enabled FX series.\<close>

definition usable_dataset :: "dataset_config \<Rightarrow> bool" where
  "usable_dataset d \<longleftrightarrow> gd_enabled d \<and> (\<exists>s. gd_settings d = Some s \<and> prefix ''https://'' (gs_base_url s) \<and>
     gs_timeout_seconds s > 0 \<and> gs_max_attempts s > 0 \<and> gs_max_range_days s > 0)"

lemma check_dataset_usable: "check_dataset d = Inr u \<Longrightarrow> gd_enabled d \<Longrightarrow> usable_dataset d"
  by (auto simp: check_dataset_def usable_dataset_def rbind_eq_Inr split: option.splits)

lemma enabled_fx_series:
  assumes v: "validate_config zk c = Inr u" and x: "x \<in> set (cf_fx_series c)" "gf_enabled x"
  shows "\<exists>p\<in>set (cf_fx_pairs c). \<exists>d\<in>set (cf_datasets c). gp_symbol p = gf_pair x \<and> dataset_key d = gf_dataset x \<and>
    gp_enabled p \<and> gp_quote_currency p = ''CAD'' \<and> gp_base_currency p \<noteq> ''CAD'' \<and>
    gf_pair x = gp_base_currency p @ ''CAD'' \<and> gp_base_currency p \<in> gc_code ` set (cf_currencies c) \<and> usable_dataset d"
proof -
  obtain s s' where "check_fx_series c x s = Inr s'" using validate_configD(10) [OF v x(1)] by blast
  then obtain p d where pd: "find (\<lambda>p. gp_symbol p = gf_pair x) (cf_fx_pairs c) = Some p"
    "find (\<lambda>d. dataset_key d = gf_dataset x) (cf_datasets c) = Some d" "gp_enabled p" "gd_enabled d"
    "gp_quote_currency p = ''CAD''"
    using x(2) by (auto simp: check_fx_series_def res_simps)
  note p = find_SomeD [OF pd(1)] and d = find_SomeD [OF pd(2)]
  have "check_fx_pair (map gc_code (cf_currencies c)) p = Inr ()" using validate_configD(8) [OF v] p by blast
  then have "gp_base_currency p \<noteq> gp_quote_currency p" "gp_symbol p = gp_base_currency p @ gp_quote_currency p"
    "gp_base_currency p \<in> set (map gc_code (cf_currencies c))"
    by (auto simp: check_fx_pair_def res_simps)
  moreover have "usable_dataset d" using check_dataset_usable validate_configD(9) [OF v] d pd(4) by blast
  ultimately show ?thesis using p d pd by auto
qed

text \<open>A small configuration for the applications below: USD/CAD from the Bank of Canada.\<close>

definition sample_expectation :: expectation_config where
  "sample_expectation = \<lparr>ep_instrument_type = ''fx_pair'', ep_instrument_key = ''boc:USDCAD'',
     ep_observation_frequency = ''daily'', ep_calendar = ''ca_bank'', ep_publication_time_zone = ''America/Toronto'',
     ep_publication_time = 59400000000, ep_release_cadence = ''daily_business'', ep_release_weekdays = [],
     ep_grace_period = 7200000000, ep_stale_after = days 5, ep_effective_from = 730120, ep_effective_to = None\<rparr>"

definition sample_dataset :: dataset_config where
  "sample_dataset = \<lparr>gd_provider_code = ''bank_of_canada'', gd_dataset_code = ''valet_daily_fx'',
     gd_display_name = ''Valet'', gd_configuration_reference = ''valet'', gd_approval_state = ''approved'',
     gd_retention_permitted = True, gd_redistribution_policy = ''attribution'', gd_license_url = None,
     gd_license_notes = None, gd_attribution_text = None, gd_enabled = True,
     gd_settings = Some \<lparr>gs_base_url = ''https://www.bankofcanada.ca'', gs_endpoint_template = ''/valet'',
       gs_timeout_seconds = 30, gs_max_attempts = 3, gs_max_range_days = 366\<rparr>\<rparr>"

definition sample_fx_series :: fx_series_config where
  "sample_fx_series = \<lparr>gf_stable_key = ''boc:USDCAD'', gf_dataset = ''bank_of_canada:valet_daily_fx'',
     gf_provider_symbol = ''FXUSDCAD'', gf_pair = ''USDCAD'', gf_frequency = ''daily'', gf_quote_type = ''reference'',
     gf_enabled = True, gf_source_metadata = []\<rparr>"

definition sample_config :: reference_config where
  "sample_config = \<lparr>
     cf_currencies = [\<lparr>gc_code = ''USD'', gc_name = ''US dollar'', gc_minor_units = Some 2, gc_enabled = True\<rparr>,
       \<lparr>gc_code = ''CAD'', gc_name = ''Canadian dollar'', gc_minor_units = Some 2, gc_enabled = True\<rparr>],
     cf_economies = [\<lparr>ge_code = ''CA'', ge_name = ''Canada'', ge_time_zone = ''America/Toronto'',
       ge_economy_type = ''country'', ge_iso_country_code = Some ''CA'', ge_enabled = True\<rparr>],
     cf_economy_currencies = [
       \<lparr>gr_economy = ''CA'', gr_currency = ''CAD'', gr_effective_from = 700000, gr_effective_to = None\<rparr>,
       \<lparr>gr_economy = ''CA'', gr_currency = ''CAD'', gr_effective_from = 600000, gr_effective_to = Some 699999\<rparr>],
     cf_fx_pairs = [\<lparr>gp_symbol = ''USDCAD'', gp_base_currency = ''USD'', gp_quote_currency = ''CAD'', gp_enabled = True\<rparr>],
     cf_datasets = [sample_dataset],
     cf_fx_series = [sample_fx_series], cf_rate_series = [],
     cf_calendars = [\<lparr>ca_code = ''ca_bank'', ca_time_zone = ''America/Toronto'', ca_weekend_days = [5, 6],
       ca_holidays = [], ca_release_weekdays = [], ca_version = ''1'', ca_effective_from = 693596, ca_effective_to = None\<rparr>],
     cf_expectations = [sample_expectation]\<rparr>"

lemma sample_config_valid: "validate_config (\<lambda>z. True) sample_config = Inr ()"
  by code_simp

section \<open>Properties\<close>

text \<open>
  In a validated configuration no date is covered by two periods of the same economy and
  currency: a policy rate always has at most one currency relationship in force.
\<close>

theorem validated_periods_disjoint:
  assumes "validate_config zk c = Inr ()"
  shows "length (filter (\<lambda>x. gr_economy x = e \<and> gr_currency x = k \<and> covers d x) (cf_economy_currencies c)) \<le> 1"
  using check_no_overlaps_covers [OF validate_configD(7) [OF assms], of "(e, k)" d]
  by (simp add: relationship_def conj_assoc)

lemma validated_periods_disjoint_witness:
  "length (filter (\<lambda>x. gr_economy x = ''CA'' \<and> gr_currency x = ''CAD'' \<and> covers 699999 x)
     (cf_economy_currencies sample_config)) \<le> 1"
  by (rule validated_periods_disjoint [OF sample_config_valid])

text \<open>
  Every enabled FX series of a validated configuration is quoted in CAD against another known
  currency by an enabled pair, and comes from an enabled dataset reached over HTTPS with positive
  request limits.
\<close>

theorem validated_fx_series_usable:
  assumes "validate_config zk c = Inr ()" "x \<in> set (cf_fx_series c)" "gf_enabled x"
  shows "\<exists>p\<in>set (cf_fx_pairs c). \<exists>d\<in>set (cf_datasets c). gp_symbol p = gf_pair x \<and> dataset_key d = gf_dataset x \<and>
    gp_enabled p \<and> gp_quote_currency p = ''CAD'' \<and> gp_base_currency p \<noteq> ''CAD'' \<and>
    gf_pair x = gp_base_currency p @ ''CAD'' \<and> gp_base_currency p \<in> gc_code ` set (cf_currencies c) \<and> usable_dataset d"
  using assms by (rule enabled_fx_series)

lemma validated_fx_series_usable_witness:
  "\<exists>p\<in>set (cf_fx_pairs sample_config). gp_symbol p = ''USDCAD'' \<and> gp_quote_currency p = ''CAD''"
  using validated_fx_series_usable [OF sample_config_valid, of sample_fx_series]
  by (simp add: sample_config_def sample_fx_series_def)

text \<open>
  Every enabled series of a validated configuration has an expectation policy; its calendar is
  configured, its time zone known, its durations are not negative and its release weekdays are
  weekdays, at least one for a weekly release.
\<close>

theorem validated_expectations_complete:
  assumes "validate_config zk c = Inr ()" "k \<in> set (enabled_stable_keys c)"
  shows "\<exists>e\<in>set (cf_expectations c). ep_instrument_key e = k \<and> ep_calendar e \<in> ca_code ` set (cf_calendars c) \<and>
    zk (ep_publication_time_zone e) \<and> ep_grace_period e \<ge> 0 \<and> ep_stale_after e \<ge> 0 \<and>
    list_all is_weekday (ep_release_weekdays e) \<and>
    (ep_release_cadence e = ''daily_business'' \<or> ep_release_cadence e = ''weekly'' \<and> ep_release_weekdays e \<noteq> [])"
proof -
  obtain e where e: "e \<in> set (cf_expectations c)" "ep_instrument_key e = k"
    using validate_configD(14) [OF assms] by blast
  have "check_expectation zk (all_stable_keys c) (map ca_code (cf_calendars c)) e = Inr ()"
    using validate_configD(13) [OF assms(1) e(1)] .
  then show ?thesis using e by (intro bexI [of _ e]) (auto simp: check_expectation_def res_simps)
qed

lemma validated_expectations_complete_witness:
  "\<exists>e\<in>set (cf_expectations sample_config). ep_instrument_key e = ''boc:USDCAD'' \<and> ep_grace_period e \<ge> 0"
  using validated_expectations_complete [OF sample_config_valid, of "''boc:USDCAD''"]
  by (simp add: sample_config_def sample_fx_series_def enabled_stable_keys_def)

end
