(* ===== verification/Expectations.thy ===== *)
theory Expectations
  imports Reference_Config
begin

text \<open>
  Publication expectations: \<open>app/application/quality/expectations.py\<close>.  A policy and a business
  calendar give, for a range of dates, the observations that are expected and the instant each is
  due.  A time zone is a parameter: \<open>zones name\<close> is \<open>None\<close> when \<open>ZoneInfo(name)\<close> raises, otherwise
  the UTC offset of a wall-clock reading (\<open>zn_of_local\<close>) and of an instant (\<open>zn_of_utc\<close>).
\<close>

section \<open>Zones, calendars and policies\<close>

record zone =
  zn_of_local :: "int \<Rightarrow> int"
  zn_of_utc :: "instant \<Rightarrow> int"

type_synonym zones = "string \<Rightarrow> zone option"

definition zone_info :: "zones \<Rightarrow> string \<Rightarrow> zone res" where
  "zone_info zones name =
     (case zones name of None \<Rightarrow> Inl (ZoneInfoNotFoundError (''No time zone found with key '' @ name)) | Some z \<Rightarrow> Inr z)"

datatype release_cadence = DailyBusiness | Weekly

fun cadence_value :: "release_cadence \<Rightarrow> string" where
  "cadence_value DailyBusiness = ''daily_business''"
| "cadence_value Weekly = ''weekly''"

definition mk_cadence :: "string \<Rightarrow> release_cadence res" where
  "mk_cadence s =
     (if s = ''daily_business'' then Inr DailyBusiness else if s = ''weekly'' then Inr Weekly
      else Inl (ValueError (repr_str s @ '' is not a valid ReleaseCadence'')))"

record business_calendar =
  bc_code :: string
  bc_version :: string
  bc_time_zone :: string
  bc_weekend_days :: "int list"
  bc_holidays :: "date list"
  bc_effective_from :: date
  bc_effective_to :: "date option"

definition in_period :: "date \<Rightarrow> date option \<Rightarrow> date \<Rightarrow> bool" where
  "in_period s e d \<longleftrightarrow> s \<le> d \<and> (case e of None \<Rightarrow> True | Some t \<Rightarrow> d \<le> t)"

definition calendar_covers :: "business_calendar \<Rightarrow> date \<Rightarrow> bool" where
  "calendar_covers b d = in_period (bc_effective_from b) (bc_effective_to b) d"

definition is_business_day :: "business_calendar \<Rightarrow> date \<Rightarrow> bool" where
  "is_business_day b d \<longleftrightarrow> calendar_covers b d \<and> weekday d \<notin> set (bc_weekend_days b) \<and> d \<notin> set (bc_holidays b)"

record expectation_policy =
  xp_instrument_id :: string
  xp_instrument_type :: string
  xp_observation_frequency :: string
  xp_calendar_id :: string
  xp_publication_time_zone :: string
  xp_publication_time :: timedelta
  xp_release_cadence :: release_cadence
  xp_release_weekdays :: "int list"
  xp_grace_period :: timedelta
  xp_stale_after :: timedelta
  xp_effective_from :: date
  xp_effective_to :: "date option"

definition applies_on :: "expectation_policy \<Rightarrow> date \<Rightarrow> bool" where
  "applies_on p d = in_period (xp_effective_from p) (xp_effective_to p) d"

record expected_observation =
  eo_date :: date
  eo_due_at :: instant

section \<open>Loading\<close>

definition mk_calendar :: "calendar_config \<Rightarrow> business_calendar" where
  "mk_calendar x = \<lparr>bc_code = ca_code x, bc_version = ca_version x, bc_time_zone = ca_time_zone x,
     bc_weekend_days = ca_weekend_days x, bc_holidays = ca_holidays x, bc_effective_from = ca_effective_from x,
     bc_effective_to = ca_effective_to x\<rparr>"

definition mk_policy :: "expectation_config \<Rightarrow> expectation_policy res" where
  "mk_policy x =
     rmap (\<lambda>cadence. \<lparr>xp_instrument_id = ep_instrument_key x, xp_instrument_type = ep_instrument_type x,
       xp_observation_frequency = ep_observation_frequency x, xp_calendar_id = ep_calendar x,
       xp_publication_time_zone = ep_publication_time_zone x, xp_publication_time = ep_publication_time x,
       xp_release_cadence = cadence, xp_release_weekdays = ep_release_weekdays x, xp_grace_period = ep_grace_period x,
       xp_stale_after = ep_stale_after x, xp_effective_from = ep_effective_from x, xp_effective_to = ep_effective_to x\<rparr>)
     (mk_cadence (ep_release_cadence x))"

text \<open>The calendars are a dict by code: a later entry of a code replaces an earlier one.\<close>

definition load_quality_configuration ::
  "reference_config \<Rightarrow> ((string \<Rightarrow> business_calendar option) \<times> expectation_policy list) res" where
  "load_quality_configuration c =
     rmap (Pair (map_of (rev (map (\<lambda>x. (ca_code x, mk_calendar x)) (cf_calendars c)))))
       (traverse mk_policy (cf_expectations c))"

section \<open>Release dates and due times\<close>

definition releases_on :: "expectation_policy \<Rightarrow> business_calendar \<Rightarrow> date \<Rightarrow> bool" where
  "releases_on p b d \<longleftrightarrow> weekday d \<in> set (xp_release_weekdays p) \<and> is_business_day b d"

fun release_loop :: "expectation_policy \<Rightarrow> business_calendar \<Rightarrow> nat \<Rightarrow> date \<Rightarrow> date res" where
  "release_loop p b 0 d = Inl (ValueError ''no valid release date found within two weeks'')"
| "release_loop p b (Suc n) d =
     (if releases_on p b d then Inr d else rbind (add_days d 1) (release_loop p b n))"

definition release_date :: "date \<Rightarrow> expectation_policy \<Rightarrow> business_calendar \<Rightarrow> date res" where
  "release_date d p b =
     (if xp_release_cadence p = DailyBusiness then Inr d
      else if xp_release_weekdays p = []
      then Inl (ValueError ''weekly release cadence requires at least one release weekday'')
      else release_loop p b 14 d)"

text \<open>
  \<open>datetime.combine\<close> at the publication time, plus the grace period on the wall clock, then to
  UTC.
\<close>

definition combine :: "date \<Rightarrow> timedelta \<Rightarrow> int" where
  "combine d t = (d - 1) * day_us + t"

definition wall_plus :: "int \<Rightarrow> timedelta \<Rightarrow> int res" where
  "wall_plus w t = (if valid_instant (w + t) then Inr (w + t) else Inl overflow_exn)"

definition wall_to_utc :: "zone \<Rightarrow> int \<Rightarrow> instant res" where
  "wall_to_utc z w = (let u = w - zn_of_local z w in if valid_instant u then Inr u else Inl overflow_exn)"

definition due_time :: "zone \<Rightarrow> expectation_policy \<Rightarrow> date \<Rightarrow> instant res" where
  "due_time z p release =
     rbind (wall_plus (combine release (xp_publication_time p)) (xp_grace_period p)) (wall_to_utc z)"

definition expectation_on ::
  "zone \<Rightarrow> expectation_policy \<Rightarrow> business_calendar \<Rightarrow> date \<Rightarrow> expected_observation res" where
  "expectation_on z p b d =
     rbind (release_date d p b) (\<lambda>release. rmap (\<lambda>due. \<lparr>eo_date = d, eo_due_at = due\<rparr>) (due_time z p release))"

definition expected_on :: "expectation_policy \<Rightarrow> business_calendar \<Rightarrow> date \<Rightarrow> bool" where
  "expected_on p b d \<longleftrightarrow> applies_on p d \<and> is_business_day b d"

text \<open>The loop over the days of the range; stepping past \<open>date.max\<close> raises \<open>OverflowError\<close>.\<close>

lemma add_days_eq [simp]: "add_days d n = Inr e \<longleftrightarrow> valid_date (d + n) \<and> e = d + n"
  by (auto simp: add_days_def)

function expectations_loop ::
  "zone \<Rightarrow> expectation_policy \<Rightarrow> business_calendar \<Rightarrow> date \<Rightarrow> date \<Rightarrow> expected_observation list res" where
  "expectations_loop z p b current until =
     (if current > until then Inr []
      else rbind (if expected_on p b current then rmap (\<lambda>x. [x]) (expectation_on z p b current) else Inr []) (\<lambda>xs.
           rbind (add_days current 1) (\<lambda>following.
           rmap ((@) xs) (expectations_loop z p b following until))))"
  by auto

termination expectations_loop
  by (relation "measure (\<lambda>(z, p, b, current, until). nat (until + 1 - current))") auto

declare expectations_loop.simps [simp del]

definition generate_expectations ::
  "zones \<Rightarrow> expectation_policy \<Rightarrow> business_calendar \<Rightarrow> date \<Rightarrow> date \<Rightarrow> expected_observation list res" where
  "generate_expectations zones p b start until =
     rbind (rguard (start \<le> until) (ValueError ''expectation start must not exceed end'')) (\<lambda>_.
     rbind (rguard (xp_observation_frequency p = ''daily'')
              (ValueError ''Phase 1 supports only daily observation expectations'')) (\<lambda>_.
     rbind (rguard (xp_calendar_id p = bc_code b)
              (ValueError ''expectation policy references a different calendar'')) (\<lambda>_.
     rbind (zone_info zones (xp_publication_time_zone p)) (\<lambda>z.
     expectations_loop z p b start until))))"

section \<open>Lemmas\<close>

text \<open>The search for a release date stops at the first one, and never looks past its bound.\<close>

lemma release_loop_Inr:
  "release_loop p b n d = Inr r \<longleftrightarrow> d \<le> r \<and> r < d + int n \<and> releases_on p b r \<and>
     (\<forall>x. d \<le> x \<and> x < r \<longrightarrow> \<not> releases_on p b x \<and> valid_date (x + 1))"
proof (induction n arbitrary: d)
  case (Suc n)
  show ?case
  proof (cases "releases_on p b d")
    case True
    then show ?thesis by force
  next
    case False
    have split: "(\<forall>x. d \<le> x \<and> x < r \<longrightarrow> P x) \<longleftrightarrow> (d < r \<longrightarrow> P d) \<and> (\<forall>x. d + 1 \<le> x \<and> x < r \<longrightarrow> P x)" for P
      by (metis add1_zle_eq order_le_less)
    have "d \<noteq> r" if "releases_on p b r" using that False by auto
    then show ?thesis using False by (auto simp: rbind_eq_Inr Suc.IH split)
  qed
qed auto

lemma expectations_loop_Inr:
  assumes "expectations_loop z p b s e = Inr xs"
  shows "map eo_date xs = filter (expected_on p b) [s..e] \<and>
    (\<forall>x\<in>set xs. expectation_on z p b (eo_date x) = Inr x)"
  using assms
proof (induction z p b s e arbitrary: xs rule: expectations_loop.induct)
  case (1 z p b s e)
  show ?case
  proof (cases "s > e")
    case False
    obtain ys zs where ys: "(if expected_on p b s then rmap (\<lambda>x. [x]) (expectation_on z p b s) else Inr []) = Inr ys"
      and zs: "valid_date (s + 1)" "expectations_loop z p b (s + 1) e = Inr zs" "xs = ys @ zs"
      using 1(2) False by (subst (asm) expectations_loop.simps) (auto simp: rbind_eq_Inr rmap_eq_Inr)
    note IH = 1(1) [OF False ys _ zs(2)]
    have y: "map eo_date ys = filter (expected_on p b) [s] \<and> (\<forall>x\<in>set ys. expectation_on z p b (eo_date x) = Inr x)"
      using ys by (auto simp: rmap_eq_Inr expectation_on_def rbind_eq_Inr split: if_splits)
    have "[s..e] = s # [s + 1..e]" using False by (subst upto.simps) simp
    then show ?thesis using IH y zs by (auto split: if_splits)
  qed (use 1(2) in \<open>simp add: expectations_loop.simps\<close>)
qed

lemma expectations_loop_ok:
  assumes "\<And>d. s \<le> d \<Longrightarrow> d \<le> e \<Longrightarrow> valid_date (d + 1)"
    "\<And>d. s \<le> d \<Longrightarrow> d \<le> e \<Longrightarrow> expected_on p b d \<Longrightarrow> is_ok (expectation_on z p b d)"
  shows "is_ok (expectations_loop z p b s e)"
  using assms
proof (induction z p b s e rule: expectations_loop.induct)
  case (1 z p b s e)
  show ?case
  proof (cases "s > e")
    case False
    then have v: "valid_date (s + 1)" using 1(2) [of s] by simp
    obtain ys where ys: "(if expected_on p b s then rmap (\<lambda>x. [x]) (expectation_on z p b s) else Inr []) = Inr ys"
      using 1(3) [of s] False by (cases "expected_on p b s") (auto simp: is_ok_iff)
    have "is_ok (expectations_loop z p b (s + 1) e)"
      using 1(1) [OF False ys, of "s + 1"] v 1(2,3) by simp
    then show ?thesis
      using False ys v by (subst expectations_loop.simps) (auto simp: is_ok_iff rbind_eq_Inr rmap_eq_Inr)
  qed (simp add: expectations_loop.simps)
qed

text \<open>With a release day in reach of every expected date, release dates exist and are close.\<close>

lemma release_date_ok:
  assumes "xp_release_cadence p = DailyBusiness \<or> (\<exists>r. d \<le> r \<and> r < d + 14 \<and> releases_on p b r)"
    "\<And>x. d \<le> x \<Longrightarrow> x < d + 14 \<Longrightarrow> valid_date (x + 1)"
  shows "\<exists>r. release_date d p b = Inr r \<and> d \<le> r \<and> r < d + 14"
proof (cases "xp_release_cadence p = DailyBusiness")
  case True
  then show ?thesis by (simp add: release_date_def)
next
  case False
  then obtain r where r: "d \<le> r" "r < d + 14" "releases_on p b r" using assms(1) by blast
  let ?P = "\<lambda>k. releases_on p b (d + int k)"
  have ex: "?P (nat (r - d))" using r by simp
  let ?k = "LEAST k. ?P k"
  have k: "?P ?k" "?k \<le> nat (r - d)" using LeastI [of ?P, OF ex] Least_le [of ?P, OF ex] by auto
  have no: "\<not> releases_on p b x" if "d \<le> x" "x < d + int ?k" for x
    using not_less_Least [of "nat (x - d)" ?P] that by auto
  have lt: "d + int ?k < d + 14" using k(2) r by linarith
  have "release_loop p b 14 d = Inr (d + int ?k)"
    unfolding release_loop_Inr
  proof (intro conjI allI impI)
    fix x assume x: "d \<le> x \<and> x < d + int ?k"
    show "\<not> releases_on p b x" using no x by blast
    show "valid_date (x + 1)" using assms(2) [of x] x lt by linarith
  qed (use k(1) lt in simp_all)
  moreover have "xp_release_weekdays p \<noteq> []" using r(3) by (auto simp: releases_on_def)
  ultimately show ?thesis using lt False by (simp add: release_date_def)
qed

lemma due_time_ok:
  assumes off: "\<And>w. \<bar>zn_of_local z w\<bar> < day_us" and t: "0 \<le> xp_publication_time p" "xp_publication_time p < day_us"
    and g: "0 \<le> xp_grace_period p" and r: "2 \<le> r" "(r + 1) * day_us + xp_grace_period p \<le> max_instant"
  shows "is_ok (due_time z p r)"
proof -
  let ?w = "combine r (xp_publication_time p) + xp_grace_period p"
  have "day_us \<le> (r - 1) * day_us" using mult_right_mono [of 1 "r - 1" day_us] r(1) by simp
  moreover have "(r + 1) * day_us = (r - 1) * day_us + 2 * day_us" by (simp add: algebra_simps)
  moreover have "- day_us < zn_of_local z ?w" "zn_of_local z ?w < day_us" using off [of ?w] by auto
  ultimately have "0 \<le> ?w - zn_of_local z ?w" "?w - zn_of_local z ?w < max_instant" "0 \<le> ?w" "?w < max_instant"
    using t g r(2) unfolding combine_def by linarith+
  then show ?thesis by (simp add: due_time_def wall_plus_def wall_to_utc_def valid_instant_def Let_def)
qed

section \<open>Properties\<close>


text \<open>
  A weekly release is the first release weekday that is a business day, on or after the
  observation date and less than two weeks later.
\<close>

theorem weekly_release_is_first:
  assumes "release_date d p b = Inr r" "xp_release_cadence p = Weekly"
  shows "d \<le> r \<and> r < d + 14 \<and> weekday r \<in> set (xp_release_weekdays p) \<and> is_business_day b r \<and>
    (\<forall>x. d \<le> x \<and> x < r \<longrightarrow> \<not> (weekday x \<in> set (xp_release_weekdays p) \<and> is_business_day b x))"
  using assms release_loop_Inr [of p b 14 d r] by (auto simp: release_date_def releases_on_def split: if_splits)

text \<open>
  Expectations can always be computed away from the ends of the calendar: for a daily policy of
  a known zone on its own calendar, with a release day within two weeks of every expected date, no
  date in the range raises.
\<close>

theorem expectations_computable:
  assumes "zones (xp_publication_time_zone p) = Some z" "\<And>w. \<bar>zn_of_local z w\<bar> < day_us"
    "xp_observation_frequency p = ''daily''" "xp_calendar_id p = bc_code b"
    "0 \<le> xp_publication_time p" "xp_publication_time p < day_us" "0 \<le> xp_grace_period p"
    "2 \<le> start" "start \<le> until" "(until + 14) * day_us + xp_grace_period p \<le> max_instant"
    "xp_release_cadence p = DailyBusiness \<or>
       (\<forall>d. start \<le> d \<longrightarrow> d \<le> until \<longrightarrow> (\<exists>r. d \<le> r \<and> r < d + 14 \<and> releases_on p b r))"
  shows "is_ok (generate_expectations zones p b start until)"
proof -
  have "(until + 14) * day_us \<le> max_ordinal * day_us" using assms(7,10) unfolding max_instant_def by linarith
  then have u: "until + 14 \<le> max_ordinal" by (simp add: day_us_def max_ordinal_def)
  have "is_ok (expectation_on z p b d)" if d: "start \<le> d" "d \<le> until" for d
  proof -
    obtain r where r: "release_date d p b = Inr r" "d \<le> r" "r < d + 14"
      using release_date_ok [of p d b] assms(8,11) d u by (auto simp: valid_date_def)
    have "(r + 1) * day_us \<le> (until + 14) * day_us" using r(3) d by (simp add: mult_right_mono day_us_def)
    then have "(r + 1) * day_us + xp_grace_period p \<le> max_instant" using assms(10) by linarith
    then have "is_ok (due_time z p r)" by (intro due_time_ok assms) (use assms(8) r(2) d in linarith)
    then show ?thesis using r by (auto simp: expectation_on_def is_ok_iff)
  qed
  moreover have "valid_date (d + 1)" if "start \<le> d" "d \<le> until" for d
    using that assms(8) u by (simp add: valid_date_def)
  ultimately have "is_ok (expectations_loop z p b start until)" by (intro expectations_loop_ok) auto
  then show ?thesis using assms(1,3,4,9) by (simp add: generate_expectations_def zone_info_def)
qed

text \<open>A calendar and policies for the applications: 738000 is a Thursday.\<close>

definition sample_zones :: zones where
  "sample_zones = (\<lambda>name. if name = ''America/Toronto''
     then Some \<lparr>zn_of_local = (\<lambda>w. -18000000000), zn_of_utc = (\<lambda>t. -18000000000)\<rparr> else None)"

definition sample_calendar :: business_calendar where
  "sample_calendar = \<lparr>bc_code = ''ca_bank'', bc_version = ''1'', bc_time_zone = ''America/Toronto'',
     bc_weekend_days = [5, 6], bc_holidays = [738001], bc_effective_from = 700000, bc_effective_to = None\<rparr>"

definition sample_expected :: expectation_policy where
  "sample_expected = \<lparr>xp_instrument_id = ''boc:USDCAD'', xp_instrument_type = ''fx_pair'',
     xp_observation_frequency = ''daily'', xp_calendar_id = ''ca_bank'', xp_publication_time_zone = ''America/Toronto'',
     xp_publication_time = 59400000000, xp_release_cadence = DailyBusiness, xp_release_weekdays = [],
     xp_grace_period = 7200000000, xp_stale_after = days 5, xp_effective_from = 700000, xp_effective_to = None\<rparr>"

lemma sample_expectations:
  "\<exists>xs. generate_expectations sample_zones sample_expected sample_calendar 738000 738006 = Inr xs \<and>
     map eo_date xs = [738000, 738004, 738005, 738006]"
proof -
  have "rmap (map eo_date) (generate_expectations sample_zones sample_expected sample_calendar 738000 738006)
      = Inr [738000, 738004, 738005, 738006]"
    by code_simp
  then show ?thesis by (auto simp: rmap_eq_Inr)
qed


lemma weekly_release_is_first_witness:
  "is_business_day sample_calendar 738005"
proof -
  have "release_date 738001 (sample_expected\<lparr>xp_release_cadence := Weekly, xp_release_weekdays := [1, 2]\<rparr>) sample_calendar
      = Inr 738005" by code_simp
  from weekly_release_is_first [OF this] show ?thesis by simp
qed

lemma expectations_computable_witness:
  "is_ok (generate_expectations sample_zones sample_expected sample_calendar 738000 738006)"
  by (rule expectations_computable [where z = "\<lparr>zn_of_local = (\<lambda>w. -18000000000), zn_of_utc = (\<lambda>t. -18000000000)\<rparr>"])
    (simp_all add: sample_zones_def sample_expected_def sample_calendar_def day_us_def max_instant_def max_ordinal_def)

end
