(* ===== verification/Py_Json.thy ===== *)
theory Py_Json
  imports Prelude "HOL-Library.List_Lexorder" "HOL-Library.Char_ord" "HOL-Library.Multiset"
begin

text \<open>
  JSON documents and \<open>json.dumps(value, sort_keys=True, separators=(",", ":"),
  ensure_ascii=False)\<close>, the compact canonical rendering the program hashes.  Numbers are
  integers: the values the program canonicalises hold no floats.  The rendering is uniquely
  readable (\<open>dumps_inject\<close>): equal texts come from equal documents up to the order of keys.
\<close>

datatype json =
    JNull
  | JBool bool
  | JInt int
  | JStr string
  | JArr "json list"
  | JObj "(string \<times> json) list"

definition hex_digit :: "nat \<Rightarrow> char" where
  "hex_digit n = ''0123456789abcdef'' ! n"

text \<open>The escapes of \<open>json.encoder\<close>: its table \<open>ESCAPE_DCT\<close>, then control characters.\<close>

definition short_escapes :: "(char \<times> char) list" where
  "short_escapes = [(CHR 0x22, CHR 0x22), (CHR 0x5C, CHR 0x5C), (CHR 0x0A, CHR ''n''),
     (CHR 0x0D, CHR ''r''), (CHR 0x09, CHR ''t''), (CHR 0x0C, CHR ''f''), (CHR 0x08, CHR ''b'')]"

definition escape_char :: "char \<Rightarrow> string" where
  "escape_char c =
     (case map_of short_escapes c of
        Some e \<Rightarrow> [CHR 0x5C, e]
      | None \<Rightarrow>
         (if code_of c < 32
          then [CHR 0x5C, CHR ''u'', CHR ''0'', CHR ''0'', hex_digit (code_of c div 16), hex_digit (code_of c mod 16)]
          else [c]))"

definition quote_str :: "string \<Rightarrow> string" where
  "quote_str s = [CHR 0x22] @ concat (map escape_char s) @ [CHR 0x22]"

fun dumps :: "json \<Rightarrow> string" where
  "dumps JNull = ''null''"
| "dumps (JBool b) = (if b then ''true'' else ''false'')"
| "dumps (JInt i) = show_int i"
| "dumps (JStr s) = quote_str s"
| "dumps (JArr xs) = ''['' @ join '','' (map dumps xs) @ '']''"
| "dumps (JObj ps) = ''{'' @ join '','' (map (\<lambda>(k, v). quote_str k @ '':'' @ dumps v) ps) @ ''}''"

text \<open>\<open>sort_keys=True\<close>: the items of every object by key, code point order.\<close>

fun sort_keys :: "json \<Rightarrow> json" where
  "sort_keys (JArr xs) = JArr (map sort_keys xs)"
| "sort_keys (JObj ps) = JObj (sort_key fst (map (\<lambda>(k, v). (k, sort_keys v)) ps))"
| "sort_keys j = j"

definition canonical_dumps :: "json \<Rightarrow> string" where
  "canonical_dumps j = dumps (sort_keys j)"

section \<open>Unique readability\<close>

text \<open>
  A text that ends a value: nothing, a comma, or a closing bracket.  No rendering of a value
  followed by such a text can also be read as another value.
\<close>

definition ends_value :: "string \<Rightarrow> bool" where
  "ends_value r \<longleftrightarrow> r = [] \<or> hd r = CHR '','' \<or> hd r = CHR '']'' \<or> hd r = CHR ''}''"

lemma hex_digit_inject: "m < 16 \<Longrightarrow> n < 16 \<Longrightarrow> hex_digit m = hex_digit n \<longleftrightarrow> m = n"
proof -
  have "distinct ''0123456789abcdef''" by simp
  then show "m < 16 \<Longrightarrow> n < 16 \<Longrightarrow> ?thesis" by (simp add: hex_digit_def nth_eq_iff_index_eq)
qed

lemma code_of_eq_divmod:
  "code_of c div 16 = code_of d div 16 \<Longrightarrow> code_of c mod 16 = code_of d mod 16 \<Longrightarrow> c = d"
  by (metis code_of_inject div_mult_mod_eq)

text \<open>Plain characters are their own escape; every other escape starts with a backslash.\<close>

lemma escape_char_cases:
  obtains (plain) "c \<noteq> CHR 0x22" "c \<noteq> CHR 0x5C" "escape_char c = [c]"
  | (short) e where "(c, e) \<in> set short_escapes" "escape_char c = [CHR 0x5C, e]"
  | (long) "code_of c < 32" "escape_char c =
      [CHR 0x5C, CHR ''u'', CHR ''0'', CHR ''0'', hex_digit (code_of c div 16), hex_digit (code_of c mod 16)]"
proof (cases "map_of short_escapes c")
  case (Some e)
  then show thesis using short map_of_SomeD [of short_escapes c e] by (simp add: escape_char_def)
next
  case None
  have "map_of short_escapes CHR 0x22 \<noteq> None" "map_of short_escapes CHR 0x5C \<noteq> None"
    by (simp_all add: short_escapes_def)
  then have "c \<noteq> CHR 0x22" "c \<noteq> CHR 0x5C" using None by auto
  then show thesis using None plain long by (cases "code_of c < 32") (simp_all add: escape_char_def)
qed

lemma escape_char_hd:
  "\<exists>x xs. escape_char c = x # xs \<and> x \<noteq> CHR 0x22"
  by (cases c rule: escape_char_cases) auto

lemma short_escapes_inject:
  "(c, e) \<in> set short_escapes \<Longrightarrow> (d, e) \<in> set short_escapes \<Longrightarrow> c = d"
  by (auto simp: short_escapes_def)

lemma short_escapes_not_u: "(c, e) \<in> set short_escapes \<Longrightarrow> e \<noteq> CHR ''u''"
  by (auto simp: short_escapes_def)

lemma escape_char_prefix_free:
  "escape_char c @ r = escape_char d @ s \<Longrightarrow> c = d \<and> r = s"
proof (cases c rule: escape_char_cases)
  case plain
  assume eq: "escape_char c @ r = escape_char d @ s"
  show ?thesis
    by (cases d rule: escape_char_cases) (use plain eq in auto)
next
  case (short e)
  assume eq: "escape_char c @ r = escape_char d @ s"
  show ?thesis
    by (cases d rule: escape_char_cases)
      (use short eq in \<open>auto dest: short_escapes_inject short_escapes_not_u\<close>)
next
  case long
  assume eq: "escape_char c @ r = escape_char d @ s"
  show ?thesis
  proof (cases d rule: escape_char_cases)
    case plain2: plain
    then show ?thesis using long eq by auto
  next
    case (short e)
    then show ?thesis using long eq by (auto dest: short_escapes_not_u)
  next
    case long2: long
    have "hex_digit (code_of c div 16) = hex_digit (code_of d div 16)"
      "hex_digit (code_of c mod 16) = hex_digit (code_of d mod 16)" "r = s"
      using long(2) long2(2) eq by auto
    moreover have "code_of c div 16 < 16" "code_of d div 16 < 16" "code_of c mod 16 < 16" "code_of d mod 16 < 16"
      using long(1) long2(1) by auto
    ultimately show ?thesis using hex_digit_inject code_of_eq_divmod by auto
  qed
qed

lemma quote_str_prefix_free: "quote_str s @ r = quote_str t @ u \<Longrightarrow> s = t \<and> r = u"
proof -
  have "concat (map escape_char s) @ CHR 0x22 # r = concat (map escape_char t) @ CHR 0x22 # u
        \<Longrightarrow> s = t \<and> r = u"
  proof (induction s arbitrary: t)
    case Nil
    then show ?case using escape_char_hd by (cases t) (auto, metis append_Cons list.inject)
  next
    case (Cons c s)
    show ?case
    proof (cases t)
      case Nil
      then show ?thesis using Cons.prems escape_char_hd [of c] by auto
    next
      case (Cons d t')
      then have "c = d \<and> concat (map escape_char s) @ CHR 0x22 # r = concat (map escape_char t') @ CHR 0x22 # u"
        using Cons.prems by (intro escape_char_prefix_free) simp
      then show ?thesis using Cons.IH [of t'] Cons by simp
    qed
  qed
  then show "quote_str s @ r = quote_str t @ u \<Longrightarrow> s = t \<and> r = u" by (simp add: quote_str_def)
qed


text \<open>Comma-separated items with a closing bracket, over any uniquely readable item text.\<close>

definition item_text :: "('a \<Rightarrow> string) \<Rightarrow> char \<Rightarrow> 'a list \<Rightarrow> string \<Rightarrow> string" where
  "item_text f c xs r = join '','' (map f xs) @ c # r"

lemma item_text_Nil [simp]: "item_text f c [] r = c # r"
  by (simp add: item_text_def)

lemma item_text_Cons:
  "item_text f c (x # xs) r = f x @ (if xs = [] then c # r else CHR '','' # item_text f c xs r)"
  by (cases xs) (simp_all add: item_text_def)

lemma item_text_prefix_free:
  assumes c: "c = CHR '']'' \<or> c = CHR ''}''"
    and pf: "\<And>x y R S. x \<in> set xs \<Longrightarrow> ends_value R \<Longrightarrow> ends_value S \<Longrightarrow> f x @ R = f y @ S \<Longrightarrow> x = y \<and> R = S"
    and ne: "\<And>x. \<exists>a as. f x = a # as \<and> a \<noteq> CHR '']'' \<and> a \<noteq> CHR ''}''"
    and eq: "item_text f c xs r = item_text f c ys u"
  shows "xs = ys \<and> r = u"
  using pf eq
proof (induction xs arbitrary: ys)
  case Nil
  then show ?case
  proof (cases ys)
    case (Cons y ys')
    then show ?thesis using Nil.prems(2) ne [of y] c by (auto simp: item_text_Cons)
  qed simp
next
  case (Cons x xs)
  show ?case
  proof (cases ys)
    case Nil
    then show ?thesis using Cons.prems(2) ne [of x] c by (auto simp: item_text_Cons)
  next
    case (Cons y ys')
    let ?R = "if xs = [] then c # r else CHR '','' # item_text f c xs r"
    let ?S = "if ys' = [] then c # u else CHR '','' # item_text f c ys' u"
    have "ends_value ?R" "ends_value ?S" using c by (auto simp: ends_value_def)
    then have xy: "x = y \<and> ?R = ?S"
      using Cons.prems Cons by (intro Cons.prems(1)) (auto simp: item_text_Cons)
    then have "item_text f c xs r = item_text f c ys' u"
      using c by (auto split: if_splits)
    then have "xs = ys' \<and> r = u" using Cons.prems(1) by (intro Cons.IH) auto
    then show ?thesis using xy Cons by simp
  qed
qed

lemma show_int_hd: "\<exists>x xs. show_int i = x # xs \<and> (is_digit x \<or> x = CHR ''-'')"
proof -
  obtain y ys where "show_nat (nat i) = y # ys" by (metis neq_Nil_conv show_nat_nonempty)
  moreover have "is_digit y" using show_nat_digits [of y "nat i"] calculation by simp
  ultimately show ?thesis by (simp add: show_int_def)
qed

lemma span_unique:
  assumes "\<forall>c\<in>set ds. is_digit c" "\<forall>c\<in>set es. is_digit c"
    and "r = [] \<or> \<not> is_digit (hd r)" "u = [] \<or> \<not> is_digit (hd u)" and "ds @ r = es @ u"
  shows "ds = es \<and> r = u"
proof -
  have "takeWhile is_digit (ds @ r) = ds" using assms(1,3) by (cases r) (auto simp: takeWhile_append2)
  moreover have "takeWhile is_digit (es @ u) = es" using assms(2,4) by (cases u) (auto simp: takeWhile_append2)
  ultimately show ?thesis using assms(5) by simp
qed

lemma ends_value_not_digit: "ends_value r \<Longrightarrow> r = [] \<or> \<not> is_digit (hd r)"
proof -
  have "\<not> is_digit CHR '',''" "\<not> is_digit CHR '']''" "\<not> is_digit CHR ''}''" by code_simp+
  then show "ends_value r \<Longrightarrow> ?thesis" by (auto simp: ends_value_def)
qed

lemma minus_not_digit: "\<not> is_digit CHR ''-''"
  by code_simp

lemma show_nat_not_minus: "show_nat n @ r \<noteq> CHR ''-'' # u"
  using show_nat_digits minus_not_digit by (metis append_is_Nil_conv hd_append list.sel(1) list.set_sel(1) show_nat_nonempty)

lemma show_int_prefix_free:
  assumes "ends_value r" "ends_value u" "show_int i @ r = show_int k @ u"
  shows "i = k \<and> r = u"
proof -
  note nd = ends_value_not_digit [OF assms(1)] ends_value_not_digit [OF assms(2)]
  have digits: "show_nat m @ r = show_nat n @ u \<Longrightarrow> m = n \<and> r = u" for m n
    using span_unique [of "show_nat m" "show_nat n" r u] nd show_nat_digits by auto
  consider "i < 0" "k < 0" | "i < 0" "\<not> k < 0" | "\<not> i < 0" "k < 0" | "\<not> i < 0" "\<not> k < 0" by blast
  then show ?thesis
  proof cases
    case 1
    then show ?thesis using assms(3) digits [of "nat (- i)" "nat (- k)"] by (auto simp: show_int_def)
  next
    case 2
    then show ?thesis using assms(3) show_nat_not_minus [of "nat k" u] by (simp add: show_int_def) metis
  next
    case 3
    then show ?thesis using assms(3) show_nat_not_minus [of "nat i" r] by (simp add: show_int_def)
  next
    case 4
    then show ?thesis using assms(3) digits [of "nat i" "nat k"] by (auto simp: show_int_def)
  qed
qed

fun starter :: "json \<Rightarrow> char \<Rightarrow> bool" where
  "starter JNull c = (c = CHR ''n'')"
| "starter (JBool b) c = (c = (if b then CHR ''t'' else CHR ''f''))"
| "starter (JInt i) c = (is_digit c \<or> c = CHR ''-'')"
| "starter (JStr s) c = (c = CHR 0x22)"
| "starter (JArr xs) c = (c = CHR ''['')"
| "starter (JObj ps) c = (c = CHR ''{'')"

lemma dumps_hd: "\<exists>x xs. dumps j = x # xs \<and> starter j x"
  using show_int_hd by (cases j) (auto simp: quote_str_def)

lemma starter_not_digit:
  "\<not> is_digit CHR ''n''" "\<not> is_digit CHR ''t''" "\<not> is_digit CHR ''f''" "\<not> is_digit CHR 0x22"
  "\<not> is_digit CHR ''[''" "\<not> is_digit CHR ''{''" "\<not> is_digit CHR '']''" "\<not> is_digit CHR ''}''"
  by code_simp+

lemma starter_closers: "starter j c \<Longrightarrow> c \<noteq> CHR '']'' \<and> c \<noteq> CHR ''}''"
  using starter_not_digit by (cases j) (auto split: if_splits)

definition member_text :: "string \<times> json \<Rightarrow> string" where
  "member_text p = quote_str (fst p) @ '':'' @ dumps (snd p)"

lemma dumps_JArr: "dumps (JArr xs) @ r = CHR ''['' # item_text dumps (CHR '']'') xs r"
  by (simp add: item_text_def)

lemma dumps_JObj: "dumps (JObj ps) @ r = CHR ''{'' # item_text member_text (CHR ''}'') ps r"
  by (simp add: item_text_def member_text_def [abs_def] split_def)

lemma dumps_prefix_free:
  "ends_value r \<Longrightarrow> ends_value u \<Longrightarrow> dumps j @ r = dumps k @ u \<Longrightarrow> j = k \<and> r = u"
proof (induction j arbitrary: k r u)
  case JNull
  then show ?case using dumps_hd [of k] starter_not_digit by (cases k) (auto split: if_splits)
next
  case (JBool b)
  then show ?case using dumps_hd [of k] starter_not_digit by (cases k) (auto split: if_splits)
next
  case (JInt i)
  then show ?case using dumps_hd [of k] show_int_hd [of i] show_int_prefix_free [OF JInt.prems(1,2), of i]
      starter_not_digit by (cases k) (auto split: if_splits)
next
  case (JStr s)
  then show ?case
    using dumps_hd [of k] quote_str_prefix_free [of s r _ u] starter_not_digit
    by (cases k) (auto simp: quote_str_def split: if_splits)
next
  case (JArr xs)
  show ?case
  proof (cases k)
    case (JArr ys)
    have "item_text dumps (CHR '']'') xs r = item_text dumps (CHR '']'') ys u"
      using JArr.prems(3) unfolding JArr dumps_JArr by simp
    moreover have "\<exists>a as. dumps x = a # as \<and> a \<noteq> CHR '']'' \<and> a \<noteq> CHR ''}''" for x
      using dumps_hd [of x] starter_closers by blast
    ultimately have "xs = ys \<and> r = u"
      using JArr.IH by (intro item_text_prefix_free [where f = dumps and c = "CHR '']''"]) auto
    then show ?thesis using JArr by simp
  qed (use JArr.prems dumps_hd [of k] starter_not_digit in \<open>auto split: if_splits\<close>)
next
  case (JObj ps)
  show ?case
  proof (cases k)
    case (JObj qs)
    have "item_text member_text (CHR ''}'') ps r = item_text member_text (CHR ''}'') qs u"
      using JObj.prems(3) unfolding JObj dumps_JObj by simp
    moreover have "\<exists>a as. member_text x = a # as \<and> a \<noteq> CHR '']'' \<and> a \<noteq> CHR ''}''" for x
      by (simp add: member_text_def quote_str_def)
    moreover have "p = q \<and> R = S"
      if "p \<in> set ps" "ends_value R" "ends_value S" "member_text p @ R = member_text q @ S" for p q R S
    proof -
      have "fst p = fst q" and v: "dumps (snd p) @ R = dumps (snd q) @ S"
        using that(4) quote_str_prefix_free [of "fst p" _ "fst q"] by (auto simp: member_text_def)
      moreover have "snd p = snd q \<and> R = S"
        using JObj.IH [of p "snd p"] that v by (simp add: snds.intros)
      ultimately show ?thesis by (simp add: prod_eq_iff)
    qed
    ultimately have "ps = qs \<and> r = u"
      by (intro item_text_prefix_free [where f = member_text and c = "CHR ''}''"]) auto
    then show ?thesis using JObj by simp
  qed (use JObj.prems dumps_hd [of k] starter_not_digit in \<open>auto split: if_splits\<close>)
qed

lemma dumps_inject: "dumps j = dumps k \<longleftrightarrow> j = k"
  using dumps_prefix_free [of "[]" "[]" j k] by (auto simp: ends_value_def)

lemma sort_keys_JObj_perm:
  assumes "mset ps = mset qs" and "distinct (map fst ps)"
  shows "sort_keys (JObj ps) = sort_keys (JObj qs)"
proof -
  let ?g = "\<lambda>(k, v). (k, sort_keys v)"
  have m: "mset (map ?g ps) = mset (map ?g qs)" using assms(1) by (metis mset_map)
  have d: "distinct (map fst (map ?g ps))" using assms(2) by (simp add: o_def split_def)
  have "inj_on fst (set (map ?g ps))" using d by (metis distinct_map)
  then have "sort_key fst (map ?g ps) = sort_key fst (map ?g qs)"
    using m by (intro sort_key_inj_key_eq) simp_all
  then show ?thesis by simp
qed

end
