(* ===== verification/Fingerprints.thy ===== *)
theory Fingerprints
  imports Domain_Model Py_Json
begin

text \<open>
  \<open>app/domain/fingerprints.py\<close>: canonical decimals, canonical JSON documents and the version
  fingerprints of FX and policy-rate candidates.  SHA-256 is a parameter \<open>sha\<close> of the
  definitions that hash; the facts below are about the document that is hashed, and about any
  \<open>sha\<close> that does not collide on the two documents compared.  The UTF-8 encoding of the
  document is left out: it is a bijection on the texts modelled.
\<close>

section \<open>Canonical decimals\<close>

text \<open>The rendering without trailing fraction zeros; a zero of either sign is \<open>0\<close>.\<close>

definition canonical_text :: "decimal \<Rightarrow> string" where
  "canonical_text v =
     (let rendered = format_f v;
          stripped = (if CHR ''.'' \<in> set rendered
                      then rstrip_char (CHR ''.'') (rstrip_char (CHR ''0'') rendered) else rendered)
      in if stripped = ''-0'' \<or> stripped = [] then ''0'' else stripped)"

definition canonical_decimal :: "decimal \<Rightarrow> string res" where
  "canonical_decimal v =
     (if \<not> is_finite v then Inl (ValueError ''fingerprints require finite decimals'')
      else Inr (canonical_text v))"

subsection \<open>The text denotes the value\<close>

lemma rstrip_char_append:
  "rstrip_char c (s @ t) = (if rstrip_char c t = [] then rstrip_char c s else s @ rstrip_char c t)"
  unfolding rstrip_char_def by (simp add: dropWhile_append)

lemma rstrip_char_none: "s = [] \<or> last s \<noteq> c \<Longrightarrow> rstrip_char c s = s"
  unfolding rstrip_char_def by (cases s rule: rev_cases) auto

lemma rstrip_char_split: "\<exists>n. s = rstrip_char c s @ replicate n c"
proof (induction s rule: rev_induct)
  case (snoc x xs)
  show ?case
  proof (cases "x = c")
    case True
    then have "rstrip_char c (xs @ [x]) = rstrip_char c xs" by (simp add: rstrip_char_def)
    moreover obtain n where "xs = rstrip_char c xs @ replicate n c" using snoc by blast
    ultimately have "xs @ [x] = rstrip_char c (xs @ [x]) @ replicate (Suc n) c"
      using True by (metis append_assoc replicate_append_same replicate_Suc)
    then show ?thesis by blast
  next
    case False
    then show ?thesis by (intro exI [of _ 0]) (simp add: rstrip_char_def)
  qed
qed (simp add: rstrip_char_def)

lemma with_point_parts:
  assumes "0 < k" and "list_all is_digit ds"
  obtains ip fp where "with_point k ds = ip @ ''.'' @ fp" "ip \<noteq> []" "list_all is_digit ip"
    "list_all is_digit fp" "length fp = k" "read_digits (ip @ fp) = read_digits ds"
proof -
  let ?p = "replicate (Suc k - length ds) (CHR ''0'') @ ds"
  have len: "k < length ?p" by simp
  have dig: "list_all is_digit ?p" using assms(2) by (auto simp: list_all_iff)
  show thesis
  proof (rule that [of "take (length ?p - k) ?p" "drop (length ?p - k) ?p"])
    show "with_point k ds = take (length ?p - k) ?p @ ''.'' @ drop (length ?p - k) ?p"
      using assms(1) by (simp only: with_point_def Let_def less_not_refl2 if_False)
    have "0 < length (take (length ?p - k) ?p)" using len by (simp only: length_take)
    then show "take (length ?p - k) ?p \<noteq> []" by (rule length_greater_0_conv [THEN iffD1])
    show "list_all is_digit (take (length ?p - k) ?p)" "list_all is_digit (drop (length ?p - k) ?p)"
      using dig unfolding list_all_iff by (meson in_set_takeD in_set_dropD)+
    show "length (drop (length ?p - k) ?p) = k" using len by simp
    show "read_digits (take (length ?p - k) ?p @ drop (length ?p - k) ?p) = read_digits ds"
      by (simp only: append_take_drop_id) (simp add: read_digits_append)
  qed
qed


text \<open>Every finite decimal is rendered as a sign, digits and an optional fraction.\<close>

lemma format_f_parts:
  obtains ip fp where
    "format_f (Finite s c e) = (if s then ''-'' else []) @ ip @ (if fp = [] then [] else ''.'' @ fp)"
    "ip \<noteq> []" "list_all is_digit ip" "list_all is_digit fp"
    "(of_nat (read_digits (ip @ fp)) :: rat) * 10 powi (- int (length fp)) = of_nat c * 10 powi e"
proof (cases "e \<ge> 0")
  case True
  let ?ip = "if c = 0 then ''0'' else show_nat c @ replicate (nat e) (CHR ''0'')"
  have "of_nat (read_digits ?ip) = (of_nat c :: rat) * 10 powi e"
    using True by (cases "c = 0") (simp_all add: read_digits_append power_int_def read_digits_def [of "''0''"]
        digit_val_def code_of_def)
  then show thesis
    using True list_all_show_nat [of c] by (intro that [of ?ip "[]"]) (auto simp: list_all_iff)
next
  case False
  obtain ip fp where p: "with_point (nat (- e)) (show_nat c) = ip @ ''.'' @ fp" "ip \<noteq> []"
    "list_all is_digit ip" "list_all is_digit fp" "length fp = nat (- e)"
    "read_digits (ip @ fp) = read_digits (show_nat c)"
    using with_point_parts [of "nat (- e)" "show_nat c"] False list_all_show_nat by auto
  have "fp \<noteq> []" using p(5) False by auto
  then show thesis using p False by (intro that [of ip fp]) auto
qed

lemma digit_not_point: "list_all is_digit ds \<Longrightarrow> CHR ''.'' \<notin> set ds"
  by (auto simp: list_all_iff)

lemma rstrip_fraction:
  assumes "list_all is_digit ip" "ip \<noteq> []" "list_all is_digit fp"
  shows "rstrip_char (CHR ''.'') (rstrip_char (CHR ''0'') (sg @ ip @ ''.'' @ fp)) =
    sg @ ip @ (if rstrip_char (CHR ''0'') fp = [] then [] else ''.'' @ rstrip_char (CHR ''0'') fp)"
proof -
  let ?fp = "rstrip_char (CHR ''0'') fp"
  have ip: "last ip \<noteq> CHR ''.''" "rstrip_char (CHR ''.'') ip = ip"
    using digit_not_point [OF assms(1)] assms(2) by (auto intro!: rstrip_char_none dest: last_in_set)
  have pt: "rstrip_char (CHR ''0'') ''.'' = ''.''" "rstrip_char (CHR ''.'') ''.'' = []"
    by (simp_all add: rstrip_char_def)
  show ?thesis
  proof (cases "?fp = []")
    case True
    then have "rstrip_char (CHR ''0'') (sg @ ip @ ''.'' @ fp) = sg @ ip @ ''.''"
      by (simp only: rstrip_char_append pt) simp
    then show ?thesis using True assms(2) by (simp only: rstrip_char_append pt ip) simp
  next
    case False
    have "rstrip_char (CHR ''0'') (sg @ ip @ ''.'' @ fp) = sg @ ip @ ''.'' @ ?fp"
      using False by (simp only: rstrip_char_append) simp
    moreover obtain n where "fp = ?fp @ replicate n (CHR ''0'')" using rstrip_char_split by blast
    then have "set ?fp \<subseteq> set fp" by (metis Un_iff set_append subsetI)
    then have "last ?fp \<noteq> CHR ''.''"
      using digit_not_point [OF assms(3)] last_in_set [OF False] by (metis subsetD)
    then have "rstrip_char (CHR ''.'') ?fp = ?fp" by (intro rstrip_char_none) simp
    ultimately show ?thesis using False by (simp only: rstrip_char_append) simp
  qed
qed

lemma dec_val_plain:
  "(of_nat (read_digits (ip @ fp @ replicate n (CHR ''0''))) :: rat) * 10 powi (- int (length (fp @ replicate n (CHR ''0''))))
     = of_nat (read_digits (ip @ fp)) * 10 powi (- int (length fp))"
proof -
  have "read_digits (ip @ fp @ replicate n (CHR ''0'')) = read_digits (ip @ fp) * 10 ^ n"
    using read_digits_append [of "ip @ fp" "replicate n (CHR ''0'')"] by simp
  moreover have "(10::rat) powi (- int (length fp)) = 10 ^ n * 10 powi (- int (length fp) - int n)"
    using powi_split [of "- int (length fp) - int n" "- int (length fp)"] by simp
  ultimately show ?thesis by (simp add: mult.assoc)
qed

lemma canonical_text_shape:
  obtains ip fp where
    "canonical_text (Finite s c e) = ''0'' \<and> c = 0 \<or>
     canonical_text (Finite s c e) = (if s then ''-'' else []) @ ip @ (if fp = [] then [] else ''.'' @ fp)"
    "ip \<noteq> []" "list_all is_digit ip" "list_all is_digit fp"
    "(of_nat (read_digits (ip @ fp)) :: rat) * 10 powi (- int (length fp)) = of_nat c * 10 powi e"
proof -
  obtain ip fp where p: "format_f (Finite s c e) = (if s then ''-'' else []) @ ip @ (if fp = [] then [] else ''.'' @ fp)"
    "ip \<noteq> []" "list_all is_digit ip" "list_all is_digit fp"
    "(of_nat (read_digits (ip @ fp)) :: rat) * 10 powi (- int (length fp)) = of_nat c * 10 powi e"
    by (rule format_f_parts)
  let ?fp = "rstrip_char (CHR ''0'') fp"
  let ?st = "(if s then ''-'' else []) @ ip @ (if ?fp = [] then [] else ''.'' @ ?fp)"
  obtain n where n: "fp = ?fp @ replicate n (CHR ''0'')" using rstrip_char_split by blast
  have val: "(of_nat (read_digits (ip @ ?fp)) :: rat) * 10 powi (- int (length ?fp)) = of_nat c * 10 powi e"
    using p(5) n dec_val_plain [of ip ?fp n] by simp
  have dig: "list_all is_digit ?fp" using p(4) n by (metis list_all_append)
  have point: "CHR ''.'' \<in> set (format_f (Finite s c e)) \<longleftrightarrow> fp \<noteq> []"
    using p(1) digit_not_point [OF p(3)] by auto
  have st: "(if CHR ''.'' \<in> set (format_f (Finite s c e))
      then rstrip_char (CHR ''.'') (rstrip_char (CHR ''0'') (format_f (Finite s c e)))
      else format_f (Finite s c e)) = ?st"
  proof (cases "fp = []")
    case True
    then show ?thesis using point p(1) by (simp add: rstrip_char_def)
  next
    case False
    then show ?thesis
      using point p(1) rstrip_fraction [OF p(3,2,4), of "if s then ''-'' else []"] by simp
  qed
  have ct: "canonical_text (Finite s c e) = (if ?st = ''-0'' \<or> ?st = [] then ''0'' else ?st)"
    unfolding canonical_text_def Let_def st by simp
  have zero: "?st = ''-0'' \<Longrightarrow> c = 0"
  proof -
    assume "?st = ''-0''"
    moreover have "hd ip \<noteq> CHR ''-''" using p(2,3) by (cases ip) auto
    ultimately have "ip @ ?fp = ''0''"
      using p(2) by (cases s; cases ip) (auto split: if_splits)
    then have "(of_nat c :: rat) * 10 powi e = 0" using val by (simp add: read_digits_def digit_val_def code_of_def)
    then show "c = 0" by simp
  qed
  have "?st \<noteq> []" using p(2) by simp
  then show thesis using that [of ip ?fp] p(2,3) dig val ct zero by (cases "?st = ''-0''") auto
qed

lemma parse_zero: "parse_decimal ''0'' = Some (Finite False 0 0)"
  using parse_plain [of "''0''" "[]" False] by (simp add: read_digits_def digit_val_def code_of_def)

lemma canonical_text_value:
  "\<exists>d. parse_decimal (canonical_text (Finite s c e)) = Some d \<and> is_finite d
     \<and> dec_val d = dec_val (Finite s c e)"
proof -
  obtain ip fp where p: "canonical_text (Finite s c e) = ''0'' \<and> c = 0 \<or>
     canonical_text (Finite s c e) = (if s then ''-'' else []) @ ip @ (if fp = [] then [] else ''.'' @ fp)"
    "ip \<noteq> []" "list_all is_digit ip" "list_all is_digit fp"
    "(of_nat (read_digits (ip @ fp)) :: rat) * 10 powi (- int (length fp)) = of_nat c * 10 powi e"
    by (rule canonical_text_shape)
  from p(1) show ?thesis
  proof
    assume "canonical_text (Finite s c e) = ''0'' \<and> c = 0"
    then show ?thesis using parse_zero by auto
  next
    assume t: "canonical_text (Finite s c e) = (if s then ''-'' else []) @ ip @ (if fp = [] then [] else ''.'' @ fp)"
    show ?thesis
      unfolding t parse_plain [OF p(3,2,4)] using p(5) by simp
  qed
qed


subsection \<open>Equal values have equal texts\<close>

lemma show_nat_10: "0 < c \<Longrightarrow> show_nat (10 * c) = show_nat c @ ''0''"
  by (subst show_nat.simps) (simp add: digit_char_literals)

lemma with_point_shift:
  assumes "0 < k" and "ds \<noteq> []"
  shows "with_point (Suc k) (ds @ ''0'') = with_point k ds @ ''0''"
  using assms by (simp add: with_point_def Let_def Suc_diff_le)

lemma with_point_has_point: "0 < k \<Longrightarrow> CHR ''.'' \<in> set (with_point k ds)"
  by (simp add: with_point_def Let_def)

lemma canonical_text_zero: "canonical_text (Finite s 0 e) = ''0''"
proof -
  have "show_nat 0 = ''0''" by (subst show_nat.simps) (simp add: digit_char_literals)
  moreover have "rstrip_char (CHR ''0'') (replicate n (CHR ''0'')) = []" for n
    by (induction n) (simp_all add: rstrip_char_def dropWhile_append replicate_append_same [symmetric]
        del: replicate_append_same)
  ultimately show ?thesis
  proof (cases "e \<ge> 0")
    case True
    then show ?thesis by (simp add: canonical_text_def Let_def)
  next
    case False
    let ?k = "nat (- e)"
    have k: "0 < ?k" using False by simp
    have "with_point ?k ''0'' = ''0'' @ ''.'' @ replicate ?k (CHR ''0'')"
    proof -
      have "replicate (Suc ?k - 1) (CHR ''0'') @ ''0'' = CHR ''0'' # replicate ?k (CHR ''0'')"
        by (simp add: replicate_append_same)
      then show ?thesis using k by (simp add: with_point_def Let_def)
    qed
    then have f: "format_f (Finite s 0 e) = (if s then ''-'' else []) @ ''0'' @ ''.'' @ replicate ?k (CHR ''0'')"
      using False \<open>show_nat 0 = ''0''\<close> by simp
    have "rstrip_char (CHR ''.'') (rstrip_char (CHR ''0'') (format_f (Finite s 0 e))) =
        (if s then ''-'' else []) @ ''0''"
      unfolding f using rstrip_fraction [of "''0''" "replicate ?k (CHR ''0'')" "if s then ''-'' else []"]
        \<open>\<And>n. rstrip_char (CHR ''0'') (replicate n (CHR ''0'')) = []\<close>
      by (simp add: list_all_iff)
    moreover have "CHR ''.'' \<in> set (format_f (Finite s 0 e))" unfolding f by simp
    ultimately show ?thesis by (simp add: canonical_text_def Let_def)
  qed
qed

lemma canonical_text_step:
  assumes "0 < c"
  shows "canonical_text (Finite s (10 * c) e) = canonical_text (Finite s c (e + 1))"
proof -
  let ?sg = "if s then ''-'' else []"
  let ?st = "\<lambda>t. if CHR ''.'' \<in> set t then rstrip_char (CHR ''.'') (rstrip_char (CHR ''0'') t) else t"
  have "?st (format_f (Finite s (10 * c) e)) = ?st (format_f (Finite s c (e + 1)))"
  proof -
    consider "e \<ge> 0" | "e = -1" | "e < -1" by linarith
    then show ?thesis
    proof cases
      case 1
      then have "format_f (Finite s (10 * c) e) = format_f (Finite s c (e + 1))"
        using assms show_nat_10 [OF assms] by (simp add: nat_add_distrib)
      then show ?thesis by simp
    next
      case 2
      have nd: "CHR ''.'' \<notin> set (show_nat c)" using digit_not_point list_all_show_nat by blast
      have wp: "with_point 1 (show_nat c @ ''0'') = show_nat c @ ''.'' @ ''0''"
        using show_nat_nonempty [of c] by (cases "show_nat c") (simp_all add: with_point_def Let_def)
      have strip: "rstrip_char (CHR ''.'') (rstrip_char (CHR ''0'') (?sg @ show_nat c @ ''.'' @ ''0'')) = ?sg @ show_nat c"
        using rstrip_fraction [of "show_nat c" "''0''" ?sg] list_all_show_nat [of c]
        by (simp add: rstrip_char_def)
      have f: "format_f (Finite s (10 * c) e) = ?sg @ show_nat c @ ''.'' @ ''0''"
        using 2 wp show_nat_10 [OF assms] by simp
      have g: "format_f (Finite s c (e + 1)) = ?sg @ show_nat c" using 2 assms by simp
      show ?thesis unfolding f g strip using nd by simp
    next
      case 3
      define k where "k = nat (- (e + 1))"
      have k: "nat (- e) = Suc k" "nat (- (e + 1)) = k" "0 < k" using 3 by (auto simp: k_def)
      have f: "format_f (Finite s (10 * c) e) = format_f (Finite s c (e + 1)) @ ''0''"
        using 3 k with_point_shift [OF k(3), of "show_nat c"] show_nat_10 [OF assms] by simp
      have "CHR ''.'' \<in> set (format_f (Finite s c (e + 1)))"
        using 3 k with_point_has_point [OF k(3)] by simp
      moreover have "?st (t @ ''0'') = ?st t" if "CHR ''.'' \<in> set t" for t
        using that by (simp add: rstrip_char_def)
      ultimately show ?thesis unfolding f by blast
    qed
  qed
  then show ?thesis unfolding canonical_text_def Let_def by simp
qed

lemma canonical_text_scale:
  "0 < c \<Longrightarrow> canonical_text (Finite s (c * 10 ^ n) e) = canonical_text (Finite s c (e + int n))"
proof (induction n arbitrary: e)
  case (Suc n)
  have "canonical_text (Finite s (c * 10 ^ Suc n) e) = canonical_text (Finite s (10 * (c * 10 ^ n)) e)"
    by (simp add: mult.left_commute)
  also have "\<dots> = canonical_text (Finite s (c * 10 ^ n) (e + 1))"
    using Suc.prems by (intro canonical_text_step) simp
  also have "\<dots> = canonical_text (Finite s c (e + 1 + int n))" using Suc by simp
  finally show ?case by (simp add: algebra_simps)
qed simp

lemma same_magnitude_text:
  assumes "0 < c" "0 < c'" "e \<le> e'" "(of_nat c :: rat) * 10 powi e = of_nat c' * 10 powi e'"
  shows "canonical_text (Finite s c e) = canonical_text (Finite s c' e')"
proof -
  have "(of_nat c :: rat) * 10 powi e = of_nat (c' * 10 ^ nat (e' - e)) * 10 powi e"
    using assms(4) powi_split [OF assms(3)] by (simp add: mult.assoc)
  moreover have "(10::rat) powi e \<noteq> 0" by simp
  ultimately have "(of_nat c :: rat) = of_nat (c' * 10 ^ nat (e' - e))"
    using mult_right_cancel by blast
  then have "c = c' * 10 ^ nat (e' - e)" by (simp only: of_nat_eq_iff)
  then show ?thesis using canonical_text_scale [OF assms(2), of s "nat (e' - e)" e] assms(3) by simp
qed

lemma dec_val_zero_iff: "dec_val (Finite s c e) = 0 \<longleftrightarrow> c = 0"
  by simp

lemma dec_val_sign: "0 < c \<Longrightarrow> dec_val (Finite s c e) < 0 \<longleftrightarrow> s"
proof -
  assume c: "0 < c"
  have "(0::rat) < of_nat c * 10 powi e" using c by (simp add: zero_less_power_int)
  then show ?thesis by simp
qed

lemma canonical_text_cong:
  assumes "dec_val (Finite s c e) = dec_val (Finite s' c' e')"
  shows "canonical_text (Finite s c e) = canonical_text (Finite s' c' e')"
proof (cases "c = 0")
  case True
  then have "c' = 0" using assms dec_val_zero_iff by metis
  then show ?thesis using True by (simp add: canonical_text_zero)
next
  case False
  then have c': "0 < c'" "0 < c" using assms dec_val_zero_iff by (metis gr0I)+
  then have s: "s = s'" using assms dec_val_sign by metis
  then have "(of_nat c :: rat) * 10 powi e = of_nat c' * 10 powi e'" using assms by (simp split: if_splits)
  then show ?thesis
    using same_magnitude_text [of c c' e e' s] same_magnitude_text [of c' c e' e s] c' s
    by (cases "e \<le> e'") auto
qed

lemma canonical_text_inject:
  assumes "canonical_text (Finite s c e) = canonical_text (Finite s' c' e')"
  shows "dec_val (Finite s c e) = dec_val (Finite s' c' e')"
proof -
  obtain d where "parse_decimal (canonical_text (Finite s c e)) = Some d"
    "dec_val d = dec_val (Finite s c e)"
    using canonical_text_value by blast
  moreover obtain d' where "parse_decimal (canonical_text (Finite s' c' e')) = Some d'"
    "dec_val d' = dec_val (Finite s' c' e')"
    using canonical_text_value by blast
  ultimately show ?thesis unfolding assms by (metis option.inject)
qed

lemma canonical_text_eq_iff:
  assumes "is_finite a" "is_finite b"
  shows "canonical_text a = canonical_text b \<longleftrightarrow> dec_val a = dec_val b"
proof -
  obtain s c e where a: "a = Finite s c e" using assms(1) by (rule is_finiteE)
  obtain s' c' e' where b: "b = Finite s' c' e'" using assms(2) by (rule is_finiteE)
  show ?thesis unfolding a b using canonical_text_inject canonical_text_cong by blast
qed


section \<open>Canonical documents\<close>

text \<open>
  \<open>_canonicalize\<close>: the JSON document of a value.  Items of a mapping are visited in key order,
  so the first unsupported value in that order decides the exception.
\<close>

function canonicalize :: "pyval \<Rightarrow> json res" where
  "canonicalize (PDecimal d) = rmap JStr (canonical_decimal d)"
| "canonicalize (PDatetime t) =
     rmap (\<lambda>u. JStr (iso_instant u))
       (to_utc (ValueError ''fingerprint timestamps must be timezone-aware'') t)"
| "canonicalize (PDate d) = Inr (JStr (iso_date d))"
| "canonicalize (PEnum v) = Inr (JStr v)"
| "canonicalize (PDict ps) =
     rmap JObj (traverse (\<lambda>p. rmap (Pair (fst p)) (canonicalize (snd p))) (sort_key fst ps))"
| "canonicalize (PList xs) = rmap JArr (traverse canonicalize xs)"
| "canonicalize (PTuple xs) = rmap JArr (traverse canonicalize xs)"
| "canonicalize PNone = Inr JNull"
| "canonicalize (PBool b) = Inr (JBool b)"
| "canonicalize (PInt i) = Inr (JInt i)"
| "canonicalize (PStr v) = Inr (JStr v)"
| "canonicalize (PFloat v) = Inl (TypeError ''unsupported canonical JSON value: float'')"
  by pat_completeness auto

lemma size_dict_item: "(k, v) \<in> set ps \<Longrightarrow> size v < Suc (size_list (size_prod (\<lambda>_. 0) size) ps)"
  by (induction ps) auto

termination canonicalize
  by (relation "measure size") (auto dest: size_dict_item simp: less_Suc_eq_le intro: size_list_estimation')

definition canonical_json :: "pyval \<Rightarrow> string res" where
  "canonical_json v = rmap canonical_dumps (canonicalize v)"

definition sha256_fingerprint :: "(string \<Rightarrow> string) \<Rightarrow> pyval \<Rightarrow> string res" where
  "sha256_fingerprint sha v = rmap sha (canonical_json v)"

text \<open>\<open>_selected\<close>: all attributes, or the named ones that are present, in the order named.\<close>

definition selected :: "pyval dict \<Rightarrow> string list option \<Rightarrow> pyval dict" where
  "selected attrs keys = (case keys of
     None \<Rightarrow> attrs
   | Some ks \<Rightarrow> map (\<lambda>k. (k, the (map_of attrs k)))
       (dedupe (filter (\<lambda>k. map_of attrs k \<noteq> None) ks)))"

definition opt_instant :: "instant option \<Rightarrow> pyval" where
  "opt_instant t = (case t of None \<Rightarrow> PNone | Some u \<Rightarrow> PDatetime (utc_datetime u))"

definition fx_document :: "fx_candidate \<Rightarrow> string \<Rightarrow> string list option \<Rightarrow> pyval" where
  "fx_document c stable_key attrs = PDict
     [(''series'', PStr stable_key),
      (''observation_date'', PDate (fc_observation_date c)),
      (''value'', PDecimal (fc_value c)),
      (''quote_type'', PEnum (quote_type_value (fc_quote_type c))),
      (''provider_publication_timestamp'', opt_instant (fc_publication c)),
      (''attributes'', PDict (selected (fc_attributes c) attrs))]"

definition fx_fingerprint ::
  "(string \<Rightarrow> string) \<Rightarrow> fx_candidate \<Rightarrow> string \<Rightarrow> string list option \<Rightarrow> string res" where
  "fx_fingerprint sha c stable_key attrs = sha256_fingerprint sha (fx_document c stable_key attrs)"

definition policy_rate_document :: "policy_candidate \<Rightarrow> string \<Rightarrow> string list option \<Rightarrow> pyval" where
  "policy_rate_document c stable_key attrs = PDict
     [(''series'', PStr stable_key),
      (''observation_date'', PDate (pc_observation_date c)),
      (''value'', PDecimal (pc_value c)),
      (''unit'', PEnum (rate_unit_value (pc_unit c))),
      (''frequency'', PEnum (frequency_value (pc_frequency c))),
      (''rate_type'', PEnum (rate_type_value (pc_rate_type c))),
      (''provider_publication_timestamp'', opt_instant (pc_publication c)),
      (''attributes'', PDict (selected (pc_attributes c) attrs))]"

definition policy_rate_fingerprint ::
  "(string \<Rightarrow> string) \<Rightarrow> policy_candidate \<Rightarrow> string \<Rightarrow> string list option \<Rightarrow> string res" where
  "policy_rate_fingerprint sha c stable_key attrs =
     sha256_fingerprint sha (policy_rate_document c stable_key attrs)"

subsection \<open>Canonical documents are sorted\<close>

lemma traverse_items_fst:
  "traverse (\<lambda>p. rmap (Pair (fst p)) (f (snd p))) ps = Inr qs \<Longrightarrow> map fst qs = map fst ps"
  by (induction ps arbitrary: qs) (auto split: sum.splits simp: rmap_eq_Inr)

lemma traverse_result: "traverse f xs = Inr ys \<Longrightarrow> y \<in> set ys \<Longrightarrow> \<exists>x\<in>set xs. f x = Inr y"
  by (induction xs arbitrary: ys) (auto split: sum.splits)

lemma sorted_items:
  "traverse f xs = Inr ys \<Longrightarrow> (\<And>x j. x \<in> set xs \<Longrightarrow> f x = Inr j \<Longrightarrow> sort_keys j = j) \<Longrightarrow>
     map sort_keys ys = ys"
  by (rule map_idI) (metis traverse_result)

lemma sort_keys_canonical: "canonicalize v = Inr j \<Longrightarrow> sort_keys j = j"
proof (induction v arbitrary: j rule: canonicalize.induct)
  case (5 ps)
  let ?f = "\<lambda>p :: string \<times> pyval. rmap (Pair (fst p)) (canonicalize (snd p))"
  obtain qs where qs: "traverse ?f (sort_key fst ps) = Inr qs" and j: "j = JObj qs"
    using "5.prems" by (auto simp: rmap_eq_Inr)
  have item: "sort_keys w = w" if mem: "(k, w) \<in> set qs" for k w
  proof -
    obtain p where "p \<in> set (sort_key fst ps)" "?f p = Inr (k, w)" using traverse_result [OF qs mem] by blast
    then show ?thesis using "5.IH" by (auto simp: rmap_eq_Inr)
  qed
  have "map (\<lambda>(k, v). (k, sort_keys v)) qs = qs"
    by (rule map_idI) (auto intro: item)
  moreover have "sorted (map fst qs)" using traverse_items_fst [OF qs] by simp
  ultimately show ?case unfolding j by (simp add: sorted_sort_id sort_key_id_if_sorted)
next
  case (6 xs)
  then obtain ys where ys: "traverse canonicalize xs = Inr ys" "j = JArr ys" by (auto simp: rmap_eq_Inr)
  have "map sort_keys ys = ys" by (rule sorted_items [OF ys(1)]) (rule "6.IH")
  then show ?case using ys(2) by simp
next
  case (7 xs)
  then obtain ys where ys: "traverse canonicalize xs = Inr ys" "j = JArr ys" by (auto simp: rmap_eq_Inr)
  have "map sort_keys ys = ys" by (rule sorted_items [OF ys(1)]) (rule "7.IH")
  then show ?case using ys(2) by simp
qed (auto simp: rmap_eq_Inr)

lemma canonical_json_inject:
  "canonical_json v = Inr s \<Longrightarrow> canonical_json w = Inr s \<Longrightarrow> canonicalize v = canonicalize w"
  by (auto simp: canonical_json_def rmap_eq_Inr canonical_dumps_def dumps_inject sort_keys_canonical)

subsection \<open>What a fingerprint determines\<close>

text \<open>Equal fingerprints: equal documents, or a collision of \<open>sha\<close> on two different texts.\<close>

definition collision :: "(string \<Rightarrow> string) \<Rightarrow> pyval \<Rightarrow> pyval \<Rightarrow> bool" where
  "collision sha v w \<longleftrightarrow> (case (canonical_json v, canonical_json w) of
     (Inr s, Inr t) \<Rightarrow> s \<noteq> t \<and> sha s = sha t | _ \<Rightarrow> False)"

lemma fingerprint_eq:
  assumes "sha256_fingerprint sha v = Inr h" "sha256_fingerprint sha w = Inr h"
  shows "(\<exists>j. canonicalize v = Inr j \<and> canonicalize w = Inr j) \<or> collision sha v w"
proof -
  obtain s t where st: "canonical_json v = Inr s" "canonical_json w = Inr t" "sha s = sha t"
    using assms by (auto simp: sha256_fingerprint_def rmap_eq_Inr)
  show ?thesis
  proof (cases "s = t")
    case True
    then have "canonicalize v = canonicalize w" using st canonical_json_inject by blast
    moreover obtain j where "canonicalize v = Inr j"
      using st(1) by (auto simp: canonical_json_def rmap_eq_Inr)
    ultimately show ?thesis by metis
  qed (simp add: collision_def st)
qed

lemma dict_order:
  assumes "mset ps = mset qs" "distinct (map fst ps)"
  shows "sort_key fst ps = sort_key fst (qs :: (string \<times> 'a) list)"
  using assms by (intro sort_key_inj_key_eq) (simp_all add: distinct_map)

lemma canonicalize_dict_order:
  "mset ps = mset qs \<Longrightarrow> distinct (map fst ps) \<Longrightarrow> canonicalize (PDict ps) = canonicalize (PDict qs)"
  using dict_order [of ps qs] by simp

lemma selected_distinct: "distinct (map fst attrs) \<Longrightarrow> distinct (map fst (selected attrs keys))"
  by (auto simp: selected_def o_def split: option.splits)

lemma canonicalize_opt_instant:
  "canonicalize (opt_instant t) = Inr j \<Longrightarrow>
     (case t of None \<Rightarrow> j = JNull | Some u \<Rightarrow> valid_instant u \<and> j = JStr (iso_instant u))"
  by (auto simp: opt_instant_def rmap_eq_Inr to_utc_def utc_datetime_def split: option.splits if_splits)

lemma opt_instant_inject:
  assumes "canonicalize (opt_instant t) = Inr j" "canonicalize (opt_instant u) = Inr j"
  shows "t = u"
  using assms [THEN canonicalize_opt_instant] iso_instant_inject by (auto split: option.splits)

lemma canonical_decimal_eq:
  "canonical_decimal a = Inr s \<Longrightarrow> canonical_decimal b = Inr s \<Longrightarrow> dec_val a = dec_val b"
  using canonical_text_eq_iff by (auto simp: canonical_decimal_def split: if_splits)

lemma canonical_decimal_cong:
  "is_finite a \<Longrightarrow> is_finite b \<Longrightarrow> dec_val a = dec_val b \<Longrightarrow> canonical_decimal a = canonical_decimal b"
  using canonical_text_eq_iff by (simp add: canonical_decimal_def)

text \<open>The fixed keys of the two documents, already in the order they are visited.\<close>

lemma fx_document_sorted:
  "sort_key fst [(''series'', a), (''observation_date'', b), (''value'', c), (''quote_type'', d),
      (''provider_publication_timestamp'', e), (''attributes'', f)] =
   [(''attributes'', f), (''observation_date'', b), (''provider_publication_timestamp'', e),
      (''quote_type'', d), (''series'', a), (''value'', c)]"
  by (simp add: sort_key_def insort_key_def less_eq_char_def)

definition fx_obj :: "json \<Rightarrow> json \<Rightarrow> string \<Rightarrow> string \<Rightarrow> fx_candidate \<Rightarrow> json" where
  "fx_obj as pub v k c =
     JObj [(''attributes'', as), (''observation_date'', JStr (iso_date (fc_observation_date c))),
       (''provider_publication_timestamp'', pub), (''quote_type'', JStr (quote_type_value (fc_quote_type c))),
       (''series'', JStr k), (''value'', JStr v)]"

lemma fx_obj_inject:
  "fx_obj as pub v k c = fx_obj as' pub' v' k' c' \<longleftrightarrow> as = as' \<and> pub = pub' \<and> v = v' \<and> k = k' \<and>
     iso_date (fc_observation_date c) = iso_date (fc_observation_date c')"
  by (cases "fc_quote_type c"; cases "fc_quote_type c'") (auto simp: fx_obj_def)

lemma canonicalize_fx_document:
  assumes "canonicalize (fx_document c k ks) = Inr j"
  obtains as pub v where "j = fx_obj as pub v k c"
    "canonicalize (PDict (selected (fc_attributes c) ks)) = Inr as"
    "canonicalize (opt_instant (fc_publication c)) = Inr pub"
    "canonical_decimal (fc_value c) = Inr v"
  using assms unfolding fx_document_def fx_obj_def
  by (simp del: canonicalize.simps(5) add: canonicalize.simps(5) [of "_ # _"] fx_document_sorted)
    (auto simp: rmap_eq_Inr simp del: canonicalize.simps(5) split: sum.splits)

lemma policy_document_sorted:
  "sort_key fst [(''series'', a), (''observation_date'', b), (''value'', c), (''unit'', d), (''frequency'', g),
      (''rate_type'', h), (''provider_publication_timestamp'', e), (''attributes'', f)] =
   [(''attributes'', f), (''frequency'', g), (''observation_date'', b),
      (''provider_publication_timestamp'', e), (''rate_type'', h), (''series'', a), (''unit'', d), (''value'', c)]"
  by (simp add: sort_key_def insort_key_def less_eq_char_def)

definition policy_obj :: "json \<Rightarrow> json \<Rightarrow> string \<Rightarrow> string \<Rightarrow> policy_candidate \<Rightarrow> json" where
  "policy_obj as pub v k c =
     JObj [(''attributes'', as), (''frequency'', JStr (frequency_value (pc_frequency c))),
       (''observation_date'', JStr (iso_date (pc_observation_date c))),
       (''provider_publication_timestamp'', pub), (''rate_type'', JStr (rate_type_value (pc_rate_type c))),
       (''series'', JStr k), (''unit'', JStr (rate_unit_value (pc_unit c))), (''value'', JStr v)]"

lemma policy_obj_inject:
  "policy_obj as pub v k c = policy_obj as' pub' v' k' c' \<longleftrightarrow>
     as = as' \<and> pub = pub' \<and> v = v' \<and> k = k' \<and>
     iso_date (pc_observation_date c) = iso_date (pc_observation_date c')"
  by (cases "pc_unit c"; cases "pc_unit c'"; cases "pc_frequency c"; cases "pc_frequency c'";
      cases "pc_rate_type c"; cases "pc_rate_type c'") (auto simp: policy_obj_def)

lemma canonicalize_policy_document:
  assumes "canonicalize (policy_rate_document c k ks) = Inr j"
  obtains as pub v where "j = policy_obj as pub v k c"
    "canonicalize (PDict (selected (pc_attributes c) ks)) = Inr as"
    "canonicalize (opt_instant (pc_publication c)) = Inr pub"
    "canonical_decimal (pc_value c) = Inr v"
  using assms unfolding policy_rate_document_def policy_obj_def
  by (simp del: canonicalize.simps(5) add: canonicalize.simps(5) [of "_ # _"] policy_document_sorted)
    (auto simp: rmap_eq_Inr simp del: canonicalize.simps(5) split: sum.splits)

lemma policy_rate_fingerprint_determines:
  assumes "policy_rate_fingerprint sha c k ks = Inr h" "policy_rate_fingerprint sha c' k' ks' = Inr h"
    and "valid_date (pc_observation_date c)" "valid_date (pc_observation_date c')"
  shows "collision sha (policy_rate_document c k ks) (policy_rate_document c' k' ks') \<or>
    (k = k' \<and> pc_observation_date c = pc_observation_date c' \<and>
     dec_val (pc_value c) = dec_val (pc_value c') \<and> pc_publication c = pc_publication c' \<and>
     canonicalize (PDict (selected (pc_attributes c) ks)) =
       canonicalize (PDict (selected (pc_attributes c') ks')))"
proof -
  let ?d = "policy_rate_document c k ks" and ?d' = "policy_rate_document c' k' ks'"
  consider "collision sha ?d ?d'" | j where "canonicalize ?d = Inr j" "canonicalize ?d' = Inr j"
    using fingerprint_eq assms(1,2) unfolding policy_rate_fingerprint_def by blast
  then show ?thesis
  proof cases
    case 2
    obtain as pub v where d: "j = policy_obj as pub v k c"
        "canonicalize (PDict (selected (pc_attributes c) ks)) = Inr as"
        "canonicalize (opt_instant (pc_publication c)) = Inr pub" "canonical_decimal (pc_value c) = Inr v"
      by (rule canonicalize_policy_document [OF 2(1)])
    obtain as' pub' v' where d': "j = policy_obj as' pub' v' k' c'"
        "canonicalize (PDict (selected (pc_attributes c') ks')) = Inr as'"
        "canonicalize (opt_instant (pc_publication c')) = Inr pub'" "canonical_decimal (pc_value c') = Inr v'"
      by (rule canonicalize_policy_document [OF 2(2)])
    have same: "as' = as" "pub' = pub" "v' = v" "k = k'"
      "iso_date (pc_observation_date c) = iso_date (pc_observation_date c')"
      using d(1) d'(1) by (simp_all add: fx_obj_inject policy_obj_inject)
    show ?thesis
      using same(4,5) assms(3,4) iso_date_inject opt_instant_inject [OF d(3) d'(3) [unfolded same]]
        canonical_decimal_eq [OF d(4) d'(4) [unfolded same]] d(2) d'(2) [unfolded same] by simp
  qed simp
qed

text \<open>Two candidates the applications below use: 1.10 and 1.1 CAD per USD.\<close>

definition sample_locator :: source_locator where
  "sample_locator = \<lparr>sl_raw_response_id = 1, sl_record_path = ''observations[0]'', sl_record_checksum = None\<rparr>"

definition sample_fx :: "decimal \<Rightarrow> fx_candidate" where
  "sample_fx v = \<lparr>fc_series_id = 7, fc_observation_date = 738000, fc_value = v,
     fc_quote_type = QuoteReference, fc_retrieved_at = 63763200000000000, fc_source = sample_locator,
     fc_publication = None, fc_attributes = []\<rparr>"

lemma sample_value: "canonical_decimal (Finite False 110 (-2)) = Inr ''1.1''" "canonical_decimal (Finite False 11 (-1)) = Inr ''1.1''"
  by code_simp+

lemma sample_fingerprint:
  assumes "canonical_decimal v = Inr t"
  shows "fx_fingerprint id (sample_fx v) ''fx:USD/CAD'' None = Inr (dumps (fx_obj (JObj []) JNull t ''fx:USD/CAD'' (sample_fx v)))"
proof -
  have "canonicalize (fx_document (sample_fx v) ''fx:USD/CAD'' None) = Inr (fx_obj (JObj []) JNull t ''fx:USD/CAD'' (sample_fx v))"
    unfolding fx_document_def canonicalize.simps(5) [of "_ # _"] fx_document_sorted fx_obj_def using assms
    by (simp add: sample_fx_def selected_def opt_instant_def)
  then show ?thesis
   by (simp add: fx_fingerprint_def sha256_fingerprint_def canonical_json_def canonical_dumps_def sort_keys_canonical)
qed

section \<open>Properties\<close>

text \<open>
  Two finite decimals get the same canonical text exactly when they are the same number:
  trailing zeros, the exponent and the sign of zero never distinguish two versions, and a
  change of value always does.
\<close>

theorem canonical_decimal_identifies_value:
  assumes "is_finite a" and "is_finite b"
  shows "canonical_decimal a = canonical_decimal b \<longleftrightarrow> dec_val a = dec_val b"
  using assms canonical_text_eq_iff by (simp add: canonical_decimal_def)

lemma canonical_decimal_identifies_value_witness:
  "canonical_decimal (Finite False 110 (-2)) = canonical_decimal (Finite False 11 (-1))"
  using canonical_decimal_identifies_value [of "Finite False 110 (-2)" "Finite False 11 (-1)"]
  by (simp add: power_int_def power2_eq_square)

text \<open>
  C18. Unless SHA-256 collides on the two documents, equal FX fingerprints come from the same
  series, date, value, publication time and interpretation attributes; so the \<open>unchanged\<close>
  branch of persistence never swallows a changed observation.
\<close>

theorem fx_fingerprint_determines:
  assumes "fx_fingerprint sha c k ks = Inr h" "fx_fingerprint sha c' k' ks' = Inr h"
    and "valid_date (fc_observation_date c)" "valid_date (fc_observation_date c')"
  shows "collision sha (fx_document c k ks) (fx_document c' k' ks') \<or>
    (k = k' \<and> fc_observation_date c = fc_observation_date c' \<and>
     dec_val (fc_value c) = dec_val (fc_value c') \<and> fc_publication c = fc_publication c' \<and>
     canonicalize (PDict (selected (fc_attributes c) ks)) =
       canonicalize (PDict (selected (fc_attributes c') ks')))"
proof -
  let ?d = "fx_document c k ks" and ?d' = "fx_document c' k' ks'"
  consider "collision sha ?d ?d'" | j where "canonicalize ?d = Inr j" "canonicalize ?d' = Inr j"
    using fingerprint_eq assms(1,2) unfolding fx_fingerprint_def by blast
  then show ?thesis
  proof cases
    case 2
    obtain as pub v where d: "j = fx_obj as pub v k c"
        "canonicalize (PDict (selected (fc_attributes c) ks)) = Inr as"
        "canonicalize (opt_instant (fc_publication c)) = Inr pub" "canonical_decimal (fc_value c) = Inr v"
      by (rule canonicalize_fx_document [OF 2(1)])
    obtain as' pub' v' where d': "j = fx_obj as' pub' v' k' c'"
        "canonicalize (PDict (selected (fc_attributes c') ks')) = Inr as'"
        "canonicalize (opt_instant (fc_publication c')) = Inr pub'" "canonical_decimal (fc_value c') = Inr v'"
      by (rule canonicalize_fx_document [OF 2(2)])
    have same: "as' = as" "pub' = pub" "v' = v" "k = k'"
      "iso_date (fc_observation_date c) = iso_date (fc_observation_date c')"
      using d(1) d'(1) by (simp_all add: fx_obj_inject policy_obj_inject)
    show ?thesis
      using same(4,5) assms(3,4) iso_date_inject opt_instant_inject [OF d(3) d'(3) [unfolded same]]
        canonical_decimal_eq [OF d(4) d'(4) [unfolded same]] d(2) d'(2) [unfolded same] by simp
  qed simp
qed

lemma fx_fingerprint_determines_witness:
  "collision id (fx_document (sample_fx (Finite False 110 (-2))) ''fx:USD/CAD'' None)
     (fx_document (sample_fx (Finite False 11 (-1))) ''fx:USD/CAD'' None) \<or>
   dec_val (Finite False 110 (-2)) = dec_val (Finite False 11 (-1))"
  using fx_fingerprint_determines [OF sample_fingerprint [OF sample_value(1)], of "sample_fx (Finite False 11 (-1))" "''fx:USD/CAD''" None]
   sample_fingerprint [OF sample_value(2)]
  by (auto simp: sample_fx_def fx_obj_def valid_date_def max_ordinal_def simp del: dec_val.simps)

text \<open>
  A policy-rate fingerprint is a function of what the observation means: it does not move
  with the retrieval time, the source locator, the decimal's exponent or the order of the
  provider attributes.
\<close>

theorem policy_rate_fingerprint_stable:
  assumes "pc_observation_date c = pc_observation_date c'" "pc_publication c = pc_publication c'"
    and "is_finite (pc_value c)" "is_finite (pc_value c')" "dec_val (pc_value c) = dec_val (pc_value c')"
    and "mset (pc_attributes c) = mset (pc_attributes c')" "distinct (map fst (pc_attributes c))"
  shows "policy_rate_fingerprint sha c k None = policy_rate_fingerprint sha c' k None"
proof -
  have enums: "pc_unit c = pc_unit c'" "pc_frequency c = pc_frequency c'" "pc_rate_type c = pc_rate_type c'"
    by (metis canonical_rate_unit.exhaust frequency.exhaust rate_type.exhaust)+
  have "canonicalize (PDict (pc_attributes c)) = canonicalize (PDict (pc_attributes c'))"
    by (rule canonicalize_dict_order) (use assms in auto)
  moreover have "canonical_decimal (pc_value c) = canonical_decimal (pc_value c')"
    by (rule canonical_decimal_cong) (use assms in auto)
  ultimately have "canonicalize (policy_rate_document c k None) = canonicalize (policy_rate_document c' k None)"
    unfolding policy_rate_document_def selected_def option.case canonicalize.simps(5) [of "_ # _"]
      policy_document_sorted
    by (intro arg_cong [of _ _ "rmap JObj"] traverse_map_cong) (simp add: assms enums)
  then show ?thesis
    by (simp add: policy_rate_fingerprint_def sha256_fingerprint_def canonical_json_def)
qed

lemma policy_rate_fingerprint_stable_witness:
  "policy_rate_fingerprint id \<lparr>pc_series_id = 9, pc_observation_date = 738000, pc_value = Finite False 500 (-2),
      pc_unit = PercentPerYear, pc_frequency = FreqDaily, pc_rate_type = RatePolicy, pc_retrieved_at = 1,
      pc_source = sample_locator, pc_publication = None,
      pc_attributes = [(''a'', PInt 1), (''b'', PNone)]\<rparr> ''policy:CA'' None =
   policy_rate_fingerprint id \<lparr>pc_series_id = 9, pc_observation_date = 738000, pc_value = Finite False 5 0,
      pc_unit = PercentPerYear, pc_frequency = FreqDaily, pc_rate_type = RatePolicy, pc_retrieved_at = 2,
      pc_source = sample_locator, pc_publication = None,
      pc_attributes = [(''b'', PNone), (''a'', PInt 1)]\<rparr> ''policy:CA'' None"
  by (rule policy_rate_fingerprint_stable) (simp_all add: power_int_def power2_eq_square)

end
