(* ===== verification/Validation.thy ===== *)
theory Validation
  imports Fingerprints
begin

text \<open>
  \<open>app/domain/validation.py\<close>: the issues a candidate raises, the state they add up to, and the
  duplicates inside a batch.  The facts say exactly which candidates are rejected, that
  knowledge after the retrieval never influences a result, and what is reported for repeated
  natural keys.
\<close>

section \<open>Issues and results\<close>

datatype validation_code =
    VMissingRequiredField | VInvalidNumericValue | VUnknownReference | VInvalidObservationDate
  | VRawNormalizedMismatch | VDuplicateInputIdentical | VDuplicateInputConflict | VFxNonPositive
  | VFxInvalidOrientation | VFxOutsidePlausibleRange | VFxMovementExceedsThreshold
  | VUnsupportedRateUnit | VPolicyRateOutsidePlausibleRange | VPolicyRateBreakExceedsThreshold
  | VObservationStale

fun validation_code_value :: "validation_code \<Rightarrow> string" where
  "validation_code_value VMissingRequiredField = ''MISSING_REQUIRED_FIELD''"
| "validation_code_value VInvalidNumericValue = ''INVALID_NUMERIC_VALUE''"
| "validation_code_value VUnknownReference = ''UNKNOWN_REFERENCE''"
| "validation_code_value VInvalidObservationDate = ''INVALID_OBSERVATION_DATE''"
| "validation_code_value VRawNormalizedMismatch = ''RAW_NORMALIZED_MISMATCH''"
| "validation_code_value VDuplicateInputIdentical = ''DUPLICATE_INPUT_IDENTICAL''"
| "validation_code_value VDuplicateInputConflict = ''DUPLICATE_INPUT_CONFLICT''"
| "validation_code_value VFxNonPositive = ''FX_NON_POSITIVE''"
| "validation_code_value VFxInvalidOrientation = ''FX_INVALID_ORIENTATION''"
| "validation_code_value VFxOutsidePlausibleRange = ''FX_OUTSIDE_PLAUSIBLE_RANGE''"
| "validation_code_value VFxMovementExceedsThreshold = ''FX_MOVEMENT_EXCEEDS_THRESHOLD''"
| "validation_code_value VUnsupportedRateUnit = ''UNSUPPORTED_RATE_UNIT''"
| "validation_code_value VPolicyRateOutsidePlausibleRange = ''POLICY_RATE_OUTSIDE_PLAUSIBLE_RANGE''"
| "validation_code_value VPolicyRateBreakExceedsThreshold = ''POLICY_RATE_BREAK_EXCEEDS_THRESHOLD''"
| "validation_code_value VObservationStale = ''OBSERVATION_STALE''"

record validation_issue =
  vi_code :: validation_code
  vi_severity :: validation_severity
  vi_field :: "string option"
  vi_details :: "pyval dict"

record validation_result =
  vr_state :: validation_state
  vr_issues :: "validation_issue list"

definition from_issues :: "validation_issue list \<Rightarrow> validation_result" where
  "from_issues issues =
     \<lparr>vr_state =
        (if list_ex (\<lambda>i. vi_severity i = SevError) issues then StInvalid
         else if list_ex (\<lambda>i. vi_severity i = SevWarning) issues then StValidWithWarnings
         else StValid),
      vr_issues = issues\<rparr>"

record validation_thresholds =
  vt_future_tolerance :: timedelta
  vt_stale_after :: "timedelta option"
  vt_minimum :: "decimal option"
  vt_maximum :: "decimal option"
  vt_maximum_absolute_change :: "decimal option"
  vt_maximum_percentage_change :: "decimal option"

definition default_thresholds :: validation_thresholds where
  "default_thresholds = \<lparr>vt_future_tolerance = days 1, vt_stale_after = None, vt_minimum = None,
     vt_maximum = None, vt_maximum_absolute_change = None, vt_maximum_percentage_change = None\<rparr>"

record prior_observation =
  po_value :: decimal
  po_known_at :: datetime

definition mk_prior_observation :: "decimal \<Rightarrow> datetime \<Rightarrow> prior_observation res" where
  "mk_prior_observation v t =
     (if \<not> is_aware t then Inl (ValueError ''known_at must be timezone-aware'')
      else Inr \<lparr>po_value = v, po_known_at = t\<rparr>)"

definition warning :: "validation_code \<Rightarrow> string \<Rightarrow> pyval dict \<Rightarrow> validation_issue" where
  "warning c f details = \<lparr>vi_code = c, vi_severity = SevWarning, vi_field = Some f, vi_details = details\<rparr>"

definition error_issue :: "validation_code \<Rightarrow> string option \<Rightarrow> pyval dict \<Rightarrow> validation_issue" where
  "error_issue c f details = \<lparr>vi_code = c, vi_severity = SevError, vi_field = f, vi_details = details\<rparr>"

section \<open>Checks\<close>

text \<open>The retrieval time of a candidate is a UTC instant, so its UTC date is \<open>instant_date\<close>.\<close>

definition temporal_issues ::
  "date \<Rightarrow> instant \<Rightarrow> validation_thresholds \<Rightarrow> validation_issue list res" where
  "temporal_issues d ts th =
     (let retrieval_date = instant_date ts in
      rbind (date_plus retrieval_date (vt_future_tolerance th)) (\<lambda>limit.
      Inr ((if d > limit
            then [error_issue VInvalidObservationDate (Some ''observation_date'')
                    [(''future_tolerance_days'', PInt (timedelta_days (vt_future_tolerance th)))]]
            else []) @
           (case vt_stale_after th of
              Some stale \<Rightarrow>
                (if days (retrieval_date - d) > stale
                 then [warning VObservationStale ''observation_date''
                         [(''stale_after_days'', PInt (timedelta_days stale))]]
                 else [])
            | None \<Rightarrow> []))))"

definition opt_str :: "decimal option \<Rightarrow> pyval" where
  "opt_str d = (case d of None \<Rightarrow> PNone | Some v \<Rightarrow> PStr (dec_str v))"

definition range_issues ::
  "decimal \<Rightarrow> validation_thresholds \<Rightarrow> validation_code \<Rightarrow> validation_issue list" where
  "range_issues v th code =
     (if (case vt_minimum th of Some m \<Rightarrow> dec_less v m | None \<Rightarrow> False) \<or>
         (case vt_maximum th of Some m \<Rightarrow> dec_less m v | None \<Rightarrow> False)
      then [warning code ''value'' [(''minimum'', opt_str (vt_minimum th)), (''maximum'', opt_str (vt_maximum th))]]
      else [])"

text \<open>\<open>max(xs, key=k)\<close> of a non-empty list: the first maximal element.\<close>

fun max_by :: "('a \<Rightarrow> int) \<Rightarrow> 'a \<Rightarrow> 'a list \<Rightarrow> 'a" where
  "max_by k m [] = m"
| "max_by k m (x # xs) = max_by k (if k m < k x then x else m) xs"

definition prior_instant :: "prior_observation \<Rightarrow> instant res" where
  "prior_instant p = to_utc (ValueError ''known_at must be timezone-aware'') (po_known_at p)"

text \<open>\<open>eligible\<close>: the prior observations known strictly before the retrieval, with their instants.\<close>

definition eligible_history ::
  "instant \<Rightarrow> prior_observation list \<Rightarrow> (prior_observation \<times> instant) list res" where
  "eligible_history ts history =
     rmap (filter (\<lambda>(p, t). t < ts)) (traverse (\<lambda>p. rmap (Pair p) (prior_instant p)) history)"

definition movement_against ::
  "decimal \<Rightarrow> decimal \<Rightarrow> validation_thresholds \<Rightarrow> validation_code \<Rightarrow> validation_issue list" where
  "movement_against v previous th code =
     (let absolute = py_abs (dec_sub v previous);
          percentage = (if dec_eq previous dec_zero then None else Some (dec_div absolute (py_abs previous)));
          breached = (case vt_maximum_absolute_change th of Some m \<Rightarrow> dec_less m absolute | None \<Rightarrow> False) \<or>
            (case (vt_maximum_percentage_change th, percentage) of
               (Some m, Some p) \<Rightarrow> dec_less m p | _ \<Rightarrow> False)
      in if \<not> breached then []
         else [warning code ''value''
                 [(''previous_value'', PStr (dec_str previous)), (''absolute_change'', PStr (dec_str absolute)),
                  (''percentage_change'', opt_str percentage)]])"

definition movement_issues ::
  "decimal \<Rightarrow> instant \<Rightarrow> prior_observation list \<Rightarrow> validation_thresholds \<Rightarrow> validation_code \<Rightarrow>
     validation_issue list res" where
  "movement_issues v ts history th code =
     rbind (eligible_history ts history) (\<lambda>eligible.
     (case eligible of
        [] \<Rightarrow> Inr []
      | x # xs \<Rightarrow> Inr (movement_against v (po_value (fst (max_by snd x xs))) th code)))"

definition when_issue :: "bool \<Rightarrow> validation_issue \<Rightarrow> validation_issue list" where
  "when_issue b i = (if b then [i] else [])"

definition validate_fx_candidate ::
  "fx_candidate \<Rightarrow> string \<Rightarrow> string \<Rightarrow> uuid list \<Rightarrow> validation_thresholds \<Rightarrow> prior_observation list \<Rightarrow>
     bool \<Rightarrow> validation_result res" where
  "validate_fx_candidate c base quote known th history raw_matches =
     rbind (temporal_issues (fc_observation_date c) (fc_retrieved_at c) th) (\<lambda>temporal.
     rbind (movement_issues (fc_value c) (fc_retrieved_at c) history th VFxMovementExceedsThreshold) (\<lambda>movement.
     Inr (from_issues (temporal
       @ when_issue (fc_series_id c \<notin> set known) (error_issue VUnknownReference (Some ''series_id'') [])
       @ when_issue (dec_le (fc_value c) dec_zero) (error_issue VFxNonPositive (Some ''value'') [])
       @ when_issue (base = quote \<or> quote \<noteq> ''CAD'')
           (error_issue VFxInvalidOrientation (Some ''quote_currency'') [(''expected'', PStr ''CAD'')])
       @ when_issue (\<not> raw_matches) (error_issue VRawNormalizedMismatch (Some ''value'') [])
       @ range_issues (fc_value c) th VFxOutsidePlausibleRange
       @ movement))))"

definition validate_policy_rate_candidate ::
  "policy_candidate \<Rightarrow> uuid list \<Rightarrow> validation_thresholds \<Rightarrow> prior_observation list \<Rightarrow> bool \<Rightarrow>
     validation_result res" where
  "validate_policy_rate_candidate c known th history raw_matches =
     rbind (temporal_issues (pc_observation_date c) (pc_retrieved_at c) th) (\<lambda>temporal.
     rbind (movement_issues (pc_value c) (pc_retrieved_at c) history th VPolicyRateBreakExceedsThreshold) (\<lambda>movement.
     Inr (from_issues (temporal
       @ when_issue (pc_series_id c \<notin> set known) (error_issue VUnknownReference (Some ''series_id'') [])
       @ when_issue (pc_unit c \<noteq> PercentPerYear) (error_issue VUnsupportedRateUnit (Some ''unit'') [])
       @ when_issue (\<not> raw_matches) (error_issue VRawNormalizedMismatch (Some ''value'') [])
       @ range_issues (pc_value c) th VPolicyRateOutsidePlausibleRange
       @ movement))))"

section \<open>Duplicates inside a batch\<close>

record 'c duplicate_finding =
  df_candidate :: 'c
  df_issue :: validation_issue

definition duplicate_issue :: "string \<Rightarrow> bool \<Rightarrow> validation_issue" where
  "duplicate_issue key_text identical =
     \<lparr>vi_code = (if identical then VDuplicateInputIdentical else VDuplicateInputConflict),
      vi_severity = (if identical then SevInfo else SevError), vi_field = None,
      vi_details = [(''natural_key'', PStr key_text)]\<rparr>"

fun duplicates_loop ::
  "('c \<Rightarrow> 'k) \<Rightarrow> ('c \<Rightarrow> string res) \<Rightarrow> ('k \<Rightarrow> string) \<Rightarrow> ('k \<rightharpoonup> string) \<Rightarrow> 'c list \<Rightarrow>
     'c duplicate_finding list res" where
  "duplicates_loop key fingerprint key_text seen [] = Inr []"
| "duplicates_loop key fingerprint key_text seen (c # cs) =
     (case fingerprint c of
        Inl e \<Rightarrow> Inl e
      | Inr digest \<Rightarrow>
          (case seen (key c) of
             Some first \<Rightarrow>
               rmap ((#) \<lparr>df_candidate = c, df_issue = duplicate_issue (key_text (key c)) (first = digest)\<rparr>)
                 (duplicates_loop key fingerprint key_text seen cs)
           | None \<Rightarrow> duplicates_loop key fingerprint key_text (seen(key c \<mapsto> digest)) cs))"

definition detect_batch_duplicates ::
  "('c \<Rightarrow> 'k) \<Rightarrow> ('c \<Rightarrow> string res) \<Rightarrow> ('k \<Rightarrow> string) \<Rightarrow> 'c list \<Rightarrow> 'c duplicate_finding list res" where
  "detect_batch_duplicates key fingerprint key_text cs =
     duplicates_loop key fingerprint key_text Map.empty cs"

text \<open>\<open>str((series_id, observation_date))\<close>.\<close>

definition natural_key_text :: "uuid \<times> date \<Rightarrow> string" where
  "natural_key_text k = (case ord2ymd (snd k) of (y, m, d) \<Rightarrow>
     ''(UUID('' @ [CHR 0x27] @ uuid_str (fst k) @ [CHR 0x27] @ ''), datetime.date('' @ show_int y @ '', ''
       @ show_int m @ '', '' @ show_int d @ ''))'')"

definition series_key :: "(uuid \<rightharpoonup> string) \<Rightarrow> uuid \<Rightarrow> string res" where
  "series_key keys sid = (case keys sid of None \<Rightarrow> Inl (KeyError (uuid_str sid)) | Some k \<Rightarrow> Inr k)"

definition detect_fx_duplicates ::
  "(string \<Rightarrow> string) \<Rightarrow> fx_candidate list \<Rightarrow> (uuid \<rightharpoonup> string) \<Rightarrow> fx_candidate duplicate_finding list res" where
  "detect_fx_duplicates sha cs keys =
     detect_batch_duplicates (\<lambda>c. (fc_series_id c, fc_observation_date c))
       (\<lambda>c. rbind (series_key keys (fc_series_id c)) (\<lambda>k. fx_fingerprint sha c k None)) natural_key_text cs"

definition detect_policy_rate_duplicates ::
  "(string \<Rightarrow> string) \<Rightarrow> policy_candidate list \<Rightarrow> (uuid \<rightharpoonup> string) \<Rightarrow>
     policy_candidate duplicate_finding list res" where
  "detect_policy_rate_duplicates sha cs keys =
     detect_batch_duplicates (\<lambda>c. (pc_series_id c, pc_observation_date c))
       (\<lambda>c. rbind (series_key keys (pc_series_id c)) (\<lambda>k. policy_rate_fingerprint sha c k None))
       natural_key_text cs"

section \<open>Facts\<close>

definition has_error :: "validation_issue list \<Rightarrow> bool" where
  "has_error issues = list_ex (\<lambda>i. vi_severity i = SevError) issues"

named_theorems error_simps

lemma has_error_simps [error_simps]:
  "has_error [] = False"
  "has_error (i # is) = (vi_severity i = SevError \<or> has_error is)"
  "has_error (xs @ ys) = (has_error xs \<or> has_error ys)"
  "has_error (when_issue b i) = (b \<and> vi_severity i = SevError)"
  "vi_severity (error_issue c f ds) = SevError"
  "vi_severity (warning c g ds) = SevWarning"
  by (auto simp: has_error_def when_issue_def error_issue_def warning_def)

lemma from_issues_state [error_simps]:
  "vr_state (from_issues issues) = StInvalid \<longleftrightarrow> has_error issues"
  "vr_state (from_issues issues) = StValid \<longleftrightarrow> (\<forall>i\<in>set issues. vi_severity i = SevInfo)"
proof -
  show "vr_state (from_issues issues) = StInvalid \<longleftrightarrow> has_error issues"
    by (simp add: from_issues_def has_error_def)
  have "vi_severity i = SevInfo \<longleftrightarrow> vi_severity i \<noteq> SevError \<and> vi_severity i \<noteq> SevWarning" for i :: validation_issue
    by (cases "vi_severity i") simp_all
  then show "vr_state (from_issues issues) = StValid \<longleftrightarrow> (\<forall>i\<in>set issues. vi_severity i = SevInfo)"
    by (auto simp: from_issues_def list_ex_iff)
qed

lemma has_error_range [error_simps]: "has_error (range_issues v th code) = False"
  by (simp add: range_issues_def error_simps)

lemma has_error_movement_against [error_simps]: "has_error (movement_against v p th code) = False"
  by (simp add: movement_against_def error_simps Let_def)

lemma has_error_movement: "movement_issues v ts h th code = Inr is \<Longrightarrow> has_error is = False"
proof -
  assume m: "movement_issues v ts h th code = Inr is"
  then obtain el where "eligible_history ts h = Inr el" by (auto simp: movement_issues_def rbind_eq_Inr)
  then show ?thesis using m by (cases el) (auto simp: movement_issues_def error_simps)
qed

lemma has_error_temporal:
  "temporal_issues d ts th = Inr is \<Longrightarrow>
     has_error is \<longleftrightarrow> d > instant_date ts + timedelta_days (vt_future_tolerance th)"
  by (auto simp: temporal_issues_def Let_def rbind_eq_Inr date_plus_def error_simps split: if_splits option.splits)

text \<open>Only what was known before the retrieval takes part in the movement check.\<close>

definition known_before :: "instant \<Rightarrow> prior_observation \<Rightarrow> bool" where
  "known_before ts p = (case prior_instant p of Inl e \<Rightarrow> True | Inr t \<Rightarrow> t < ts)"

lemma eligible_known_before:
  assumes "\<And>p. p \<in> set h \<Longrightarrow> is_ok (prior_instant p)"
  shows "eligible_history ts h = eligible_history ts (filter (known_before ts) h)"
  using assms
proof (induction h)
  case (Cons p h)
  have "is_ok (prior_instant p)" using Cons.prems by simp
  then obtain t where t: "prior_instant p = Inr t" by (cases "prior_instant p") auto
  have ok: "\<And>q. q \<in> set h \<Longrightarrow> is_ok (prior_instant q)" using Cons.prems by simp
  then show ?case
    using Cons.IH [OF ok] t by (cases "t < ts")
      (auto simp: eligible_history_def known_before_def rmap_def split: sum.splits)
qed simp

text \<open>What the batch scan reports, by position.\<close>

definition first_digest :: "('c \<Rightarrow> 'k) \<Rightarrow> ('c \<Rightarrow> string res) \<Rightarrow> 'c list \<Rightarrow> 'k \<Rightarrow> string option" where
  "first_digest key fingerprint cs k =
     (case find (\<lambda>c. key c = k) cs of None \<Rightarrow> None
      | Some c \<Rightarrow> (case fingerprint c of Inl e \<Rightarrow> None | Inr d \<Rightarrow> Some d))"

fun repeats :: "('c \<Rightarrow> 'k) \<Rightarrow> 'c list \<Rightarrow> 'c list \<Rightarrow> 'c list" where
  "repeats key before [] = []"
| "repeats key before (c # cs) =
     (if key c \<in> key ` set before then [c] else []) @ repeats key (before @ [c]) cs"

lemma find_append: "find P (xs @ ys) = (case find P xs of None \<Rightarrow> find P ys | Some x \<Rightarrow> Some x)"
  by (induction xs) auto

lemma first_digest_Cons:
  "fp c = Inr d \<Longrightarrow> first_digest key fp (c # cs) k = (if key c = k then Some d else first_digest key fp cs k)"
  by (simp add: first_digest_def)

lemma first_digest_None:
  "(\<And>c. c \<in> set cs \<Longrightarrow> is_ok (fp c)) \<Longrightarrow> first_digest key fp cs k = None \<longleftrightarrow> k \<notin> key ` set cs"
proof (induction cs)
  case (Cons c cs)
  then obtain d where "fp c = Inr d" by (auto simp: is_ok_iff)
  then show ?case using Cons by (auto simp: first_digest_Cons)
qed (simp add: first_digest_def)

lemma first_digest_append:
  "(\<And>c. c \<in> set xs \<Longrightarrow> is_ok (fp c)) \<Longrightarrow> first_digest key fp (xs @ ys) k =
     (case first_digest key fp xs k of None \<Rightarrow> first_digest key fp ys k | Some d \<Rightarrow> Some d)"
proof (induction xs)
  case (Cons c cs)
  then obtain d where "fp c = Inr d" by (auto simp: is_ok_iff)
  then show ?case using Cons by (simp add: first_digest_Cons)
qed (simp add: first_digest_def)

lemma duplicates_loop_spec:
  assumes "duplicates_loop key fp kt seen cs = Inr fs"
    and "\<And>k. seen k = first_digest key fp before k"
    and "\<And>c. c \<in> set before \<Longrightarrow> is_ok (fp c)"
  shows "map df_candidate fs = repeats key before cs \<and>
    (\<forall>f\<in>set fs. \<exists>d first. fp (df_candidate f) = Inr d \<and>
        first_digest key fp (before @ cs) (key (df_candidate f)) = Some first \<and>
        df_issue f = duplicate_issue (kt (key (df_candidate f))) (first = d))"
  using assms
proof (induction cs arbitrary: seen before fs)
  case (Cons c cs)
  obtain d where d: "fp c = Inr d" using Cons.prems(1) by (auto split: sum.splits)
  have ok: "\<And>x. x \<in> set (before @ [c]) \<Longrightarrow> is_ok (fp x)" using Cons.prems(3) d by auto
  have dom: "seen (key c) = None \<longleftrightarrow> key c \<notin> key ` set before"
    using Cons.prems(2,3) first_digest_None by metis
  have one: "first_digest key fp [c] k = (if key c = k then Some d else None)" for k
    using d by (simp add: first_digest_def)
  have snoc: "first_digest key fp (before @ [c]) k = (case seen k of None \<Rightarrow> (if key c = k then Some d else None)
      | Some e \<Rightarrow> Some e)" for k
    by (simp only: first_digest_append [OF Cons.prems(3)] one Cons.prems(2))
  show ?case
  proof (cases "seen (key c)")
    case (Some first)
    then obtain gs where gs: "duplicates_loop key fp kt seen cs = Inr gs"
      and fs: "fs = \<lparr>df_candidate = c, df_issue = duplicate_issue (kt (key c)) (first = d)\<rparr> # gs"
      using Cons.prems(1) d by (auto simp: rmap_eq_Inr)
    have "seen k = first_digest key fp (before @ [c]) k" for k
      using snoc Some by (auto split: option.splits)
    note IH = Cons.IH [OF gs this ok]
    have "first_digest key fp before (key c) = Some first" using Cons.prems(2) Some by (metis)
    then have "first_digest key fp (before @ c # cs) (key c) = Some first"
      by (simp only: first_digest_append [OF Cons.prems(3)] option.case)
    then show ?thesis using IH Some dom d by (simp add: fs)
  next
    case None
    have new: "(seen(key c \<mapsto> d)) k = first_digest key fp (before @ [c]) k" for k
      using snoc None by (auto split: option.splits)
    have "duplicates_loop key fp kt (seen(key c \<mapsto> d)) cs = Inr fs"
      using Cons.prems(1) None d by simp
    from Cons.IH [OF this new ok] show ?thesis using None dom by simp
  qed
qed simp

section \<open>Properties\<close>

text \<open>
  C31. An FX candidate is rejected exactly when it is dated too far in the future, belongs to an
  unknown series, is not positive, is not quoted in CAD against another currency or disagrees with
  its raw value; plausibility and movement limits only warn.
\<close>

theorem fx_candidate_accepted_iff:
  assumes "validate_fx_candidate c base quote known th history raw = Inr r" and "is_finite (fc_value c)"
  shows "vr_state r \<noteq> StInvalid \<longleftrightarrow>
    fc_observation_date c \<le> instant_date (fc_retrieved_at c) + timedelta_days (vt_future_tolerance th) \<and>
    fc_series_id c \<in> set known \<and> 0 < dec_val (fc_value c) \<and> quote = ''CAD'' \<and> base \<noteq> quote \<and> raw"
  using assms by (auto simp: validate_fx_candidate_def rbind_eq_Inr error_simps has_error_temporal
      has_error_movement dec_le_iff not_le not_less)

lemma fx_candidate_accepted_iff_witness:
  "vr_state (projr (validate_fx_candidate (sample_fx (Finite False 11 (-1))) ''USD'' ''CAD'' [7] default_thresholds [] True))
     \<noteq> StInvalid"
proof -
  obtain r where r: "validate_fx_candidate (sample_fx (Finite False 11 (-1))) ''USD'' ''CAD'' [7] default_thresholds [] True
      = Inr r"
    by (simp add: validate_fx_candidate_def temporal_issues_def movement_issues_def eligible_history_def
        sample_fx_def default_thresholds_def date_plus_def instant_date_def valid_date_def max_ordinal_def day_us_def)
  then show ?thesis
    using fx_candidate_accepted_iff [OF r]
    by (simp add: sample_fx_def default_thresholds_def instant_date_def day_us_def)
qed

text \<open>
  A policy rate is rejected exactly when it is dated too far in the future, belongs to an
  unknown series or disagrees with its raw value; any sign of the rate is accepted.
\<close>

theorem policy_rate_accepted_iff:
  assumes "validate_policy_rate_candidate c known th history raw = Inr r"
  shows "vr_state r \<noteq> StInvalid \<longleftrightarrow>
    pc_observation_date c \<le> instant_date (pc_retrieved_at c) + timedelta_days (vt_future_tolerance th) \<and>
    pc_series_id c \<in> set known \<and> raw"
  using assms by (cases "pc_unit c") (auto simp: validate_policy_rate_candidate_def rbind_eq_Inr error_simps
      has_error_temporal has_error_movement)

text \<open>A policy candidate the applications below use: 5.00 percent.\<close>

definition sample_policy :: policy_candidate where
  "sample_policy = \<lparr>pc_series_id = 9, pc_observation_date = 738000, pc_value = Finite False 500 (-2),
      pc_unit = PercentPerYear, pc_frequency = FreqDaily, pc_rate_type = RatePolicy,
      pc_retrieved_at = 63763200000000000, pc_source = sample_locator, pc_publication = None, pc_attributes = []\<rparr>"

lemma policy_rate_accepted_iff_witness:
  "vr_state (projr (validate_policy_rate_candidate sample_policy [8] default_thresholds [] True)) = StInvalid"
proof -
  obtain r where r: "validate_policy_rate_candidate sample_policy [8] default_thresholds [] True = Inr r"
    by (simp add: validate_policy_rate_candidate_def temporal_issues_def movement_issues_def eligible_history_def
        sample_policy_def default_thresholds_def date_plus_def instant_date_def valid_date_def max_ordinal_def day_us_def)
  then show ?thesis
    using policy_rate_accepted_iff [OF r] by (simp add: sample_policy_def)
qed

text \<open>
  C32. No look-ahead: prior observations learnt at or after the retrieval never change the
  validation result of a candidate.
\<close>

theorem validation_ignores_future_knowledge:
  assumes "\<And>p. p \<in> set history \<Longrightarrow> is_ok (prior_instant p)"
  shows "validate_fx_candidate c base quote known th history raw =
    validate_fx_candidate c base quote known th (filter (known_before (fc_retrieved_at c)) history) raw"
  using eligible_known_before [OF assms] by (simp add: validate_fx_candidate_def movement_issues_def)

lemma validation_ignores_future_knowledge_witness:
  "validate_fx_candidate (sample_fx (Finite False 11 (-1))) ''USD'' ''CAD'' [7] default_thresholds
       [\<lparr>po_value = Finite False 9 0, po_known_at = utc_datetime 63763200000000000\<rparr>] True =
   validate_fx_candidate (sample_fx (Finite False 11 (-1))) ''USD'' ''CAD'' [7] default_thresholds [] True"
  by (subst validation_ignores_future_knowledge)
    (simp_all add: prior_instant_def utc_datetime_def to_utc_def valid_instant_def max_instant_def
      max_ordinal_def day_us_def known_before_def sample_fx_def)

text \<open>
  The batch scan reports every candidate whose natural key occurred earlier in the batch, once
  and in order; it is a conflict exactly when its fingerprint differs from that of the first
  candidate with the key.
\<close>

theorem detect_batch_duplicates_spec:
  assumes "detect_batch_duplicates key fp kt cs = Inr fs"
  shows "map df_candidate fs = repeats key [] cs \<and>
    (\<forall>f\<in>set fs. \<exists>d first. fp (df_candidate f) = Inr d \<and>
       first_digest key fp cs (key (df_candidate f)) = Some first \<and>
       df_issue f = duplicate_issue (kt (key (df_candidate f))) (first = d))"
  using duplicates_loop_spec [of key fp kt Map.empty cs fs "[]"] assms
  by (simp add: detect_batch_duplicates_def first_digest_def)

lemma detect_batch_duplicates_spec_witness:
  "map df_candidate [\<lparr>df_candidate = (1::nat, ''b''), df_issue = duplicate_issue ''1'' False\<rparr>] =
     repeats fst [] [(1, ''a''), (2, ''a''), (1, ''b'')]"
  using detect_batch_duplicates_spec [of fst "\<lambda>c. Inr (snd c)" "\<lambda>k. ''1''" "[(1::nat, ''a''), (2, ''a''), (1, ''b'')]"
      "[\<lparr>df_candidate = (1::nat, ''b''), df_issue = duplicate_issue ''1'' False\<rparr>]"]
  by (simp add: detect_batch_duplicates_def)

end
