(* ===== verification/Database_Models.thy ===== *)
theory Database_Models
  imports Domain_Model "HOL-Library.Product_Lexorder"
begin

text \<open>
  \<open>app/database/models.py\<close>: one record per table, the CHECK constraints of each table as a list
  of named conditions, and the tables together as the record \<open>database\<close>.  A table is the list of
  its rows in insertion order.  A nullable column is an \<open>option\<close>, a JSON column a dynamic value,
  a timestamp a UTC instant; enumerated text columns stay text, as in the schema.  Primary keys
  drawn by \<open>uuid4\<close> are arguments of the operations that insert.  Length limits and the
  rounding of \<open>Numeric(24, 12)\<close> columns are not modelled.
\<close>

section \<open>Constraints\<close>

type_synonym checks = "(string \<times> bool) list"

text \<open>The database reports the first violated constraint by name.\<close>

definition enforce :: "checks \<Rightarrow> unit res" where
  "enforce cs = (case filter (\<lambda>c. \<not> snd c) cs of [] \<Rightarrow> Inr () | c # _ \<Rightarrow> Inl (IntegrityError (fst c)))"

definition all_hold :: "checks \<Rightarrow> bool" where
  "all_hold cs = list_all snd cs"

lemma enforce_ok: "enforce cs = Inr u \<longleftrightarrow> all_hold cs"
  by (induction cs) (auto simp: enforce_def all_hold_def)

lemma enforce_error: "enforce cs = Inl e \<Longrightarrow> \<exists>c\<in>set cs. \<not> snd c \<and> e = IntegrityError (fst c)"
  by (induction cs) (auto simp: enforce_def split: if_splits)

lemma all_hold_simps [simp]:
  "all_hold []" "all_hold (c # cs) \<longleftrightarrow> snd c \<and> all_hold cs"
  "all_hold (cs @ ds) \<longleftrightarrow> all_hold cs \<and> all_hold ds"
  by (simp_all add: all_hold_def)

text \<open>Rows are updated in place, by primary key.\<close>

definition update_where :: "('r \<Rightarrow> bool) \<Rightarrow> ('r \<Rightarrow> 'r) \<Rightarrow> 'r list \<Rightarrow> 'r list" where
  "update_where P f rows = map (\<lambda>r. if P r then f r else r) rows"

lemma update_where_simps [simp]:
  "update_where P f [] = []"
  "update_where P f (r # rs) = (if P r then f r else r) # update_where P f rs"
  "update_where P f (rs @ ss) = update_where P f rs @ update_where P f ss"
  "length (update_where P f rs) = length rs"
  by (simp_all add: update_where_def)

text \<open>Looking a row up by a unique key.\<close>

lemma distinct_find:
  "distinct (map g xs) \<Longrightarrow> x \<in> set xs \<Longrightarrow> (\<And>y. y \<in> set xs \<Longrightarrow> P y \<longleftrightarrow> g y = g x) \<Longrightarrow> find P xs = Some x"
  by (induction xs) (auto simp: rev_image_eqI)

lemma find_by_id: "distinct (map g xs) \<Longrightarrow> x \<in> set xs \<Longrightarrow> find (\<lambda>y. g y = g x) xs = Some x"
  by (rule distinct_find) simp_all

lemma update_where_id: "(\<And>r. r \<in> set rs \<Longrightarrow> \<not> P r) \<Longrightarrow> update_where P f rs = rs"
  by (induction rs) auto

lemma map_update_where: "(\<And>r. g (f r) = g r) \<Longrightarrow> map g (update_where P f rs) = map g rs"
  by (simp add: update_where_def)

lemma set_update_where: "r \<in> set (update_where P f rs) \<longleftrightarrow> (\<exists>s\<in>set rs. r = (if P s then f s else s))"
  by (auto simp: update_where_def)

lemma filter_update_where:
  "(\<And>r. Q (f r) = Q r) \<Longrightarrow> filter Q (update_where P f rs) = update_where P f (filter Q rs)"
  by (induction rs) auto

lemma find_filter: "find P rs = (case filter P rs of [] \<Rightarrow> None | r # _ \<Rightarrow> Some r)"
  by (induction rs) auto

lemma find_update_where:
  "(\<And>r. Q (f r) = Q r) \<Longrightarrow>
     find Q (update_where P f rs) = map_option (\<lambda>r. if P r then f r else r) (find Q rs)"
  by (induction rs) auto

section \<open>Reference tables\<close>

record currency =
  cu_id :: uuid
  cu_code :: string
  cu_name :: string
  cu_minor_units :: "int option"
  cu_is_active :: bool

definition currency_checks :: "currency \<Rightarrow> checks" where
  "currency_checks c =
     [(''ck_currency_code'', cu_code c = str_upper (cu_code c) \<and> length (cu_code c) = 3),
      (''ck_currency_name'', cu_name c \<noteq> []),
      (''ck_currency_minor_units'', case cu_minor_units c of None \<Rightarrow> True | Some n \<Rightarrow> n \<ge> 0)]"

record economy =
  ec_id :: uuid
  ec_code :: string
  ec_iso_country_code :: "string option"
  ec_name :: string
  ec_time_zone :: string
  ec_economy_type :: string
  ec_is_active :: bool

definition economy_checks :: "economy \<Rightarrow> checks" where
  "economy_checks e =
     [(''ck_economy_code'', ec_code e \<noteq> []),
      (''ck_economy_name'', ec_name e \<noteq> []),
      (''ck_economy_time_zone'', ec_time_zone e \<noteq> []),
      (''ck_economy_type'', ec_economy_type e \<in> {''country'', ''currency_union''}),
      (''ck_economy_iso_code'', case ec_iso_country_code e of None \<Rightarrow> True
         | Some c \<Rightarrow> c = str_upper c \<and> length c = 2)]"

record economy_currency =
  ey_economy_id :: uuid
  ey_currency_id :: uuid
  ey_effective_from :: date
  ey_effective_to :: "date option"

definition economy_currency_checks :: "economy_currency \<Rightarrow> checks" where
  "economy_currency_checks r =
     [(''ck_economy_currency_dates'',
        case ey_effective_to r of None \<Rightarrow> True | Some t \<Rightarrow> t \<ge> ey_effective_from r)]"

record fx_pair =
  fp_id :: uuid
  fp_base_currency_id :: uuid
  fp_quote_currency_id :: uuid
  fp_symbol :: string
  fp_is_active :: bool

definition fx_pair_checks :: "fx_pair \<Rightarrow> checks" where
  "fx_pair_checks p =
     [(''ck_fx_pair_distinct_currencies'', fp_base_currency_id p \<noteq> fp_quote_currency_id p),
      (''ck_fx_pair_symbol'', fp_symbol p \<noteq> [])]"

record provider_dataset =
  ds_id :: uuid
  ds_provider_code :: string
  ds_dataset_code :: string
  ds_display_name :: string
  ds_configuration_reference :: string
  ds_license_url :: "string option"
  ds_license_notes :: "string option"
  ds_attribution_text :: "string option"
  ds_redistribution_restrictions :: "string option"
  ds_approval_state :: string
  ds_is_active :: bool

definition provider_dataset_checks :: "provider_dataset \<Rightarrow> checks" where
  "provider_dataset_checks d =
     [(''ck_provider_dataset_provider_code'', ds_provider_code d \<in> {''bank_of_canada'', ''bis''}),
      (''ck_provider_dataset_dataset_code'',
         ds_dataset_code d \<in> {''valet_daily_fx'', ''bis_policy_rates_daily''}),
      (''ck_provider_dataset_display_name'', ds_display_name d \<noteq> []),
      (''ck_provider_dataset_approval'', ds_approval_state d \<in> {''pending'', ''approved'', ''rejected''})]"

record fx_series =
  fs_id :: uuid
  fs_provider_dataset_id :: uuid
  fs_provider_symbol :: string
  fs_fx_pair_id :: uuid
  fs_frequency :: string
  fs_quote_type :: string
  fs_source_metadata :: pyval
  fs_is_active :: bool

definition fx_series_checks :: "fx_series \<Rightarrow> checks" where
  "fx_series_checks s =
     [(''ck_fx_series_frequency'', fs_frequency s = ''daily''),
      (''ck_fx_series_quote_type'', fs_quote_type s = ''reference'')]"

record interest_rate_series =
  is_id :: uuid
  is_provider_dataset_id :: uuid
  is_economy_id :: uuid
  is_currency_id :: uuid
  is_dataflow_key :: string
  is_series_key :: string
  is_frequency :: string
  is_unit :: string
  is_rate_type :: string
  is_collection_indicator :: string
  is_title :: string
  is_notes :: "string option"
  is_source_metadata :: pyval
  is_publication_metadata :: pyval
  is_is_active :: bool

definition interest_rate_series_checks :: "interest_rate_series \<Rightarrow> checks" where
  "interest_rate_series_checks s =
     [(''ck_interest_rate_series_frequency'', is_frequency s = ''daily''),
      (''ck_interest_rate_series_unit'', is_unit s = ''percent_per_year''),
      (''ck_interest_rate_series_rate_type'', is_rate_type s = ''policy_rate''),
      (''ck_interest_rate_series_title'', is_title s \<noteq> [])]"

section \<open>Ingestion tables\<close>

text \<open>The six counters shared by runs and scopes (\<open>COUNTERS\<close>).\<close>

record counters =
  ct_fetched :: int
  ct_inserted :: int
  ct_unchanged :: int
  ct_revised :: int
  ct_quarantined :: int
  ct_failed :: int

definition empty_counts :: counters where
  "empty_counts = \<lparr>ct_fetched = 0, ct_inserted = 0, ct_unchanged = 0, ct_revised = 0,
     ct_quarantined = 0, ct_failed = 0\<rparr>"

definition counters_ok :: "counters \<Rightarrow> bool" where
  "counters_ok c \<longleftrightarrow> ct_fetched c \<ge> 0 \<and> ct_inserted c \<ge> 0 \<and> ct_unchanged c \<ge> 0 \<and> ct_revised c \<ge> 0 \<and>
     ct_quarantined c \<ge> 0 \<and> ct_failed c \<ge> 0"

record ingestion_run =
  run_id :: uuid
  run_parent :: "uuid option"
  run_trigger :: string
  run_dataset :: uuid
  run_start :: date
  run_end :: date
  run_status :: string
  run_config_checksum :: string
  run_code_version :: string
  run_requested_at :: instant
  run_started_at :: "instant option"
  run_finished_at :: "instant option"
  run_heartbeat_at :: "instant option"
  run_counts :: counters
  run_error_code :: "string option"
  run_error_summary :: "string option"

definition lifecycle_ok :: "ingestion_run \<Rightarrow> bool" where
  "lifecycle_ok r \<longleftrightarrow>
     run_status r = ''pending'' \<and> run_started_at r = None \<and> run_finished_at r = None \<or>
     run_status r = ''running'' \<and> run_started_at r \<noteq> None \<and> run_finished_at r = None \<or>
     run_status r \<in> {''succeeded'', ''partially_succeeded'', ''failed''} \<and>
       run_started_at r \<noteq> None \<and> run_finished_at r \<noteq> None"

definition ingestion_run_checks :: "ingestion_run \<Rightarrow> checks" where
  "ingestion_run_checks r =
     [(''ck_ingestion_run_trigger'', run_trigger r \<in> {''scheduled'', ''manual'', ''backfill'', ''retry''}),
      (''ck_ingestion_run_status'',
         run_status r \<in> {''pending'', ''running'', ''succeeded'', ''partially_succeeded'', ''failed''}),
      (''ck_ingestion_run_dates'', run_end r \<ge> run_start r),
      (''ck_ingestion_run_counts'', counters_ok (run_counts r)),
      (''ck_ingestion_run_lifecycle'', lifecycle_ok r)]"

record ingestion_scope =
  sc_id :: uuid
  sc_run :: uuid
  sc_type :: string
  sc_series :: uuid
  sc_start :: date
  sc_end :: date
  sc_attempt :: int
  sc_status :: string
  sc_started_at :: "instant option"
  sc_finished_at :: "instant option"
  sc_counts :: counters
  sc_last_http_status :: "int option"
  sc_retry_count :: int
  sc_error_code :: "string option"
  sc_error_details :: "pyval dict option"

definition ingestion_scope_checks :: "ingestion_scope \<Rightarrow> checks" where
  "ingestion_scope_checks s =
     [(''ck_ingestion_scope_type'', sc_type s \<in> {''fx'', ''policy_rate''}),
      (''ck_ingestion_scope_status'',
         sc_status s \<in> {''pending'', ''running'', ''succeeded'', ''failed'', ''skipped_conflict''}),
      (''ck_ingestion_scope_dates'', sc_end s \<ge> sc_start s),
      (''ck_ingestion_scope_attempts'', sc_attempt s > 0 \<and> sc_retry_count s \<ge> 0),
      (''ck_ingestion_scope_counts'', counters_ok (sc_counts s))]"

definition scope_key :: "ingestion_scope \<Rightarrow> uuid \<times> string \<times> uuid \<times> date \<times> date \<times> int" where
  "scope_key s = (sc_run s, sc_type s, sc_series s, sc_start s, sc_end s, sc_attempt s)"

record raw_response =
  rr_id :: uuid
  rr_run :: uuid
  rr_scope :: uuid
  rr_dataset :: uuid
  rr_method :: string
  rr_endpoint :: string
  rr_parameters :: "param dict"
  rr_status :: int
  rr_media_type :: string
  rr_retrieved_at :: instant
  rr_checksum :: string
  rr_body :: bytes
  rr_body_size :: int
  rr_content_encoding :: "string option"
  rr_metadata :: "string dict"

definition raw_response_checks :: "raw_response \<Rightarrow> checks" where
  "raw_response_checks r =
     [(''ck_raw_response_method'', rr_method r = ''GET''),
      (''ck_raw_response_status'', 100 \<le> rr_status r \<and> rr_status r \<le> 599),
      (''ck_raw_response_body_size'', 0 \<le> rr_body_size r \<and> rr_body_size r \<le> 52428800),
      (''ck_raw_response_checksum'', length (rr_checksum r) = 64)]"

record raw_record =
  rd_id :: uuid
  rd_response :: uuid
  rd_path :: string
  rd_natural_key :: "string option"
  rd_checksum :: "string option"
  rd_metadata :: "pyval dict"

definition raw_record_checks :: "raw_record \<Rightarrow> checks" where
  "raw_record_checks r =
     [(''ck_raw_record_checksum'', case rd_checksum r of None \<Rightarrow> True | Some c \<Rightarrow> length c = 64)]"

section \<open>Observation tables\<close>

text \<open>
  \<open>FxObservation\<close> and \<open>PolicyRateObservation\<close> have the same columns and share a record, as do
  the two lineage tables.  The version tables share most columns: \<open>fx_version\<close> and
  \<open>policy_version\<close> extend the common record, so that one definition serves both, the way the
  \<open>VersionT\<close> code does.
\<close>

record observation =
  ob_id :: uuid
  ob_series :: uuid
  ob_date :: date
  ob_current :: "uuid option"

record obs_version =
  ov_id :: uuid
  ov_observation :: uuid
  ov_number :: int
  ov_value :: decimal
  ov_fingerprint :: string
  ov_publication :: "instant option"
  ov_first_observed :: instant
  ov_last_observed :: instant
  ov_valid_from :: instant
  ov_valid_to :: "instant option"
  ov_state :: string
  ov_flags :: pyval
  ov_attributes :: pyval
  ov_raw_record :: uuid
  ov_run :: uuid

record fx_version = obs_version +
  fv_quote_type :: string

record policy_version = obs_version +
  pv_unit :: string
  pv_frequency :: string
  pv_rate_type :: string
  pv_collection_indicator :: string
  pv_dataset_version :: "string option"

record version_run =
  vn_version :: uuid
  vn_run :: uuid
  vn_raw_record :: uuid
  vn_observed_at :: instant

definition valid_states :: "string set" where
  "valid_states = {''valid'', ''valid_with_warnings'', ''invalid''}"

text \<open>The checks both version tables make, under the name prefix of the table.\<close>

definition common_version_checks :: "string \<Rightarrow> 'a obs_version_scheme \<Rightarrow> checks" where
  "common_version_checks p v =
     [(''ck_'' @ p @ ''_version_number'', ov_number v > 0),
      (''ck_'' @ p @ ''_version_fingerprint'', length (ov_fingerprint v) = 64),
      (''ck_'' @ p @ ''_version_observed_interval'', ov_last_observed v \<ge> ov_first_observed v),
      (''ck_'' @ p @ ''_version_valid_interval'',
         case ov_valid_to v of None \<Rightarrow> True | Some t \<Rightarrow> t > ov_valid_from v),
      (''ck_'' @ p @ ''_version_validation_state'', ov_state v \<in> valid_states)]"

definition fx_version_checks :: "fx_version \<Rightarrow> checks" where
  "fx_version_checks v = common_version_checks ''fx'' v @
     [(''ck_fx_version_value'', dec_less dec_zero (ov_value v)),
      (''ck_fx_version_quote_type'', fv_quote_type v = ''reference'')]"

definition policy_version_checks :: "policy_version \<Rightarrow> checks" where
  "policy_version_checks v = common_version_checks ''policy'' v @
     [(''ck_policy_version_unit'', pv_unit v = ''percent_per_year''),
      (''ck_policy_version_frequency'', pv_frequency v = ''daily''),
      (''ck_policy_version_rate_type'', pv_rate_type v = ''policy_rate'')]"

text \<open>The tables of one observation family.\<close>

record 'v obs_tables =
  ot_observations :: "observation list"
  ot_versions :: "'v list"
  ot_lineage :: "version_run list"

text \<open>
  The constraints over several rows of a version table: its primary key and unique constraints,
  the partial unique index on open versions, and the foreign key from a current version.
\<close>

definition version_table_checks :: "string \<Rightarrow> ('a obs_version_scheme) list \<Rightarrow> checks" where
  "version_table_checks p vs =
     [(p @ ''_observation_version_pkey'', distinct (map ov_id vs)),
      (''uq_'' @ p @ ''_version_number'', distinct (map (\<lambda>v. (ov_observation v, ov_number v)) vs)),
      (''uq_'' @ p @ ''_version_observation_id'', distinct (map (\<lambda>v. (ov_observation v, ov_id v)) vs)),
      (''uq_'' @ p @ ''_version_fingerprint_from'',
         distinct (map (\<lambda>v. (ov_observation v, ov_fingerprint v, ov_valid_from v)) vs)),
      (''uq_'' @ p @ ''_version_open'', distinct (map ov_observation (filter (\<lambda>v. ov_valid_to v = None) vs)))]"

definition current_version_fk :: "observation list \<Rightarrow> ('a obs_version_scheme) list \<Rightarrow> bool" where
  "current_version_fk obs vs =
     list_all (\<lambda>o1. case ob_current o1 of None \<Rightarrow> True
                 | Some i \<Rightarrow> list_ex (\<lambda>v. ov_observation v = ob_id o1 \<and> ov_id v = i) vs) obs"

definition flush_versions ::
  "string \<Rightarrow> ('a obs_version_scheme \<Rightarrow> checks) \<Rightarrow> ('a obs_version_scheme) list \<Rightarrow> unit res" where
  "flush_versions p checks vs = enforce (concat (map checks vs) @ version_table_checks p vs)"

section \<open>Quarantine and quality tables\<close>

record quarantined_record =
  qr_id :: uuid
  qr_run :: uuid
  qr_scope :: uuid
  qr_raw_record :: uuid
  qr_natural_key :: "string option"
  qr_reason_code :: string
  qr_stage :: string
  qr_details :: "pyval dict"
  qr_created_at :: instant
  qr_updated_at :: instant
  qr_resolution_state :: string

definition quarantined_record_checks :: "quarantined_record \<Rightarrow> checks" where
  "quarantined_record_checks q =
     [(''ck_quarantine_stage'', qr_stage q \<in> {''parse'', ''map'', ''normalize'', ''validate'', ''conflict''}),
      (''ck_quarantine_resolution'', qr_resolution_state q \<in> {''unresolved'', ''resolved'', ''ignored''})]"

record quality_result =
  ql_id :: uuid
  ql_run :: "uuid option"
  ql_instrument_type :: string
  ql_instrument_id :: uuid
  ql_rule_code :: string
  ql_quality_state :: string
  ql_severity :: string
  ql_affected_start :: date
  ql_affected_end :: date
  ql_evaluated_at :: instant
  ql_details :: "pyval dict"

definition quality_result_checks :: "quality_result \<Rightarrow> checks" where
  "quality_result_checks q =
     [(''ck_quality_instrument_type'', ql_instrument_type q \<in> {''fx_pair'', ''policy_rate_series''}),
      (''ck_quality_state'', ql_quality_state q \<in> {''complete'', ''incomplete'', ''stale'', ''not_due'', ''unknown''}),
      (''ck_quality_severity'', ql_severity q \<in> {''info'', ''warning'', ''error''}),
      (''ck_quality_dates'', ql_affected_end q \<ge> ql_affected_start q)]"

section \<open>The database\<close>

record database =
  db_currencies :: "currency list"
  db_economies :: "economy list"
  db_economy_currencies :: "economy_currency list"
  db_fx_pairs :: "fx_pair list"
  db_datasets :: "provider_dataset list"
  db_fx_series :: "fx_series list"
  db_rate_series :: "interest_rate_series list"
  db_runs :: "ingestion_run list"
  db_scopes :: "ingestion_scope list"
  db_raw_responses :: "raw_response list"
  db_raw_records :: "raw_record list"
  db_fx :: "fx_version obs_tables"
  db_policy :: "policy_version obs_tables"
  db_quarantine :: "quarantined_record list"
  db_quality :: "quality_result list"

definition empty_tables :: "'v obs_tables" where
  "empty_tables = \<lparr>ot_observations = [], ot_versions = [], ot_lineage = []\<rparr>"

definition empty_database :: database where
  "empty_database = \<lparr>db_currencies = [], db_economies = [], db_economy_currencies = [], db_fx_pairs = [],
     db_datasets = [], db_fx_series = [], db_rate_series = [], db_runs = [], db_scopes = [],
     db_raw_responses = [], db_raw_records = [], db_fx = empty_tables, db_policy = empty_tables,
     db_quarantine = [], db_quality = []\<rparr>"

end
