(* ===== verification/Versioning.thy ===== *)
theory Versioning
  imports Validation Database_Models
begin

text \<open>
  \<open>app/repositories/observations.py\<close>: the bitemporal version store.  \<open>apply_revision\<close> is
  \<open>ObservationRevisionService._apply\<close>, generic in the version table as in the source; \<open>persist_fx\<close>
  and \<open>persist_policy_rate\<close> are the two entry points on the database; \<open>obs_current\<close>, \<open>obs_as_of\<close>
  and \<open>obs_list_history\<close> are the queries of the two repositories.  Row locks are not modelled: an
  operation runs in one transaction, and an exception leaves the database as it was.
  The invariant of these tables and the facts about them are in \<open>Timelines\<close>.
\<close>

section \<open>Operations\<close>

record persisted_revision =
  rv_outcome :: candidate_outcome
  rv_observation_id :: uuid
  rv_version_id :: uuid
  rv_version_number :: int

definition require_valid :: "validation_result \<Rightarrow> unit res" where
  "require_valid v =
     rguard (vr_state v \<noteq> StInvalid)
       (InvalidObservationError ''invalid candidates must be quarantined, not versioned'')"

text \<open>\<open>_json\<close>: cols as they are stored in a JSON column.\<close>

fun json_value :: "pyval \<Rightarrow> pyval" where
  "json_value (PEnum v) = PStr v"
| "json_value (PDict ps) = PDict (map (\<lambda>(k, v). (k, json_value v)) ps)"
| "json_value (PList xs) = PList (map json_value xs)"
| "json_value (PTuple xs) = PList (map json_value xs)"
| "json_value (PDecimal d) = PStr (dec_str d)"
| "json_value (PDatetime t) = PStr (datetime_str t)"
| "json_value (PDate d) = PStr (iso_date d)"
| "json_value v = v"

definition flags :: "validation_issue list \<Rightarrow> pyval" where
  "flags issues = PList (map (\<lambda>i. PDict
     [(''code'', PStr (validation_code_value (vi_code i))),
      (''severity'', PStr (severity_value (vi_severity i))),
      (''field'', case vi_field i of None \<Rightarrow> PNone | Some f \<Rightarrow> PStr f),
      (''details'', json_value (PDict (vi_details i)))]) issues)"

text \<open>\<open>lock_or_create\<close>: insert on conflict do nothing, then select the row.\<close>

definition natural_key_of :: "uuid \<Rightarrow> date \<Rightarrow> observation \<Rightarrow> bool" where
  "natural_key_of sid d o1 \<longleftrightarrow> ob_series o1 = sid \<and> ob_date o1 = d"

definition lock_or_create ::
  "string \<Rightarrow> uuid \<Rightarrow> uuid \<Rightarrow> date \<Rightarrow> 'v obs_tables \<Rightarrow> (observation \<times> 'v obs_tables) res" where
  "lock_or_create what fresh sid d t =
     rbind
       (if list_ex (natural_key_of sid d) (ot_observations t) then Inr t
        else rmap (\<lambda>_. t\<lparr>ot_observations := ot_observations t @
                 [\<lparr>ob_id = fresh, ob_series = sid, ob_date = d, ob_current = None\<rparr>]\<rparr>)
               (enforce [(''observation_pkey'', fresh \<notin> ob_id ` set (ot_observations t))]))
       (\<lambda>t'. case find (natural_key_of sid d) (ot_observations t') of
          None \<Rightarrow> Inl (RuntimeError (''failed to create or lock '' @ what @ '' observation''))
        | Some o1 \<Rightarrow> Inr (o1, t'))"

definition lock_version :: "uuid option \<Rightarrow> ('a obs_version_scheme) list \<Rightarrow> 'a obs_version_scheme option" where
  "lock_version vid vs = (case vid of None \<Rightarrow> None | Some i \<Rightarrow> find (\<lambda>v. ov_id v = i) vs)"

text \<open>
  The record updates of \<open>_apply\<close>: the new version (the columns of \<open>version_values\<close> come in
  \<open>cols\<close>), the sighting of an unchanged one, the end of a superseded one, the new current one.
\<close>

definition new_version ::
  "uuid \<Rightarrow> observation \<Rightarrow> int \<Rightarrow> string \<Rightarrow> instant \<Rightarrow> 'a obs_version_scheme \<Rightarrow> 'a obs_version_scheme" where
  "new_version fresh o1 n fp ts cols =
     cols\<lparr>ov_id := fresh, ov_observation := ob_id o1, ov_number := n, ov_fingerprint := fp,
       ov_first_observed := ts, ov_last_observed := ts, ov_valid_from := ts, ov_valid_to := None\<rparr>"

definition touch :: "instant \<Rightarrow> 'a obs_version_scheme \<Rightarrow> 'a obs_version_scheme" where
  "touch ts v = v\<lparr>ov_last_observed := max (ov_last_observed v) ts\<rparr>"

definition close_at :: "instant \<Rightarrow> 'a obs_version_scheme \<Rightarrow> 'a obs_version_scheme" where
  "close_at ts v = v\<lparr>ov_valid_to := Some ts\<rparr>"

definition set_current :: "observation \<Rightarrow> uuid \<Rightarrow> observation list \<Rightarrow> observation list" where
  "set_current o1 i obs = update_where (\<lambda>x. ob_id x = ob_id o1) (\<lambda>x. x\<lparr>ob_current := Some i\<rparr>) obs"

text \<open>
  \<open>_apply\<close>.  \<open>fresh\<close> is the key of a new version; \<open>p\<close> and \<open>checks\<close> identify the version table,
  whose constraints every flush enforces.
\<close>

definition apply_revision ::
  "string \<Rightarrow> ('a obs_version_scheme \<Rightarrow> checks) \<Rightarrow> uuid \<Rightarrow> observation \<Rightarrow> 'a obs_version_scheme option \<Rightarrow>
     string \<Rightarrow> instant \<Rightarrow> 'a obs_version_scheme \<Rightarrow> 'a obs_version_scheme obs_tables \<Rightarrow>
     ('a obs_version_scheme \<times> candidate_outcome \<times> 'a obs_version_scheme obs_tables) res" where
  "apply_revision p checks fresh o1 current fingerprint observed_at cols t =
     (case current of
        Some c \<Rightarrow>
          if observed_at < ov_valid_from c
          then Inl (OutOfOrderObservationError ''retrieval time precedes the current knowledge interval'')
          else if ov_fingerprint c = fingerprint
          then let vs = update_where (\<lambda>v. ov_id v = ov_id c) (touch observed_at) (ot_versions t)
               in rmap (\<lambda>_. (touch observed_at c, OutUnchanged, t\<lparr>ot_versions := vs\<rparr>))
                    (flush_versions p checks vs)
          else if observed_at = ov_valid_from c
          then Inl (OutOfOrderObservationError ''a conflicting version cannot share a knowledge timestamp'')
          else let version = new_version fresh o1 (ov_number c + 1) fingerprint observed_at cols;
                   vs = update_where (\<lambda>v. ov_id v = ov_id c) (close_at observed_at) (ot_versions t) @ [version]
               in rmap (\<lambda>_. (version, OutRevised,
                      t\<lparr>ot_versions := vs, ot_observations := set_current o1 fresh (ot_observations t)\<rparr>))
                    (flush_versions p checks vs)
      | None \<Rightarrow>
          let version = new_version fresh o1 1 fingerprint observed_at cols;
              vs = ot_versions t @ [version]
          in rmap (\<lambda>_. (version, OutInserted,
                 t\<lparr>ot_versions := vs, ot_observations := set_current o1 fresh (ot_observations t)\<rparr>))
               (flush_versions p checks vs))"

definition find_raw_record :: "uuid \<Rightarrow> string \<Rightarrow> raw_record list \<Rightarrow> uuid res" where
  "find_raw_record response_id path records =
     (case find (\<lambda>r. rd_response r = response_id \<and> rd_path r = path) records of
        None \<Rightarrow> Inl (ValueError ''candidate source does not identify a persisted raw record'')
      | Some r \<Rightarrow> Inr (rd_id r))"

definition lineage_key :: "version_run \<Rightarrow> uuid \<times> uuid \<times> uuid" where
  "lineage_key n = (vn_version n, vn_run n, vn_raw_record n)"

definition lineage ::
  "uuid \<Rightarrow> uuid \<Rightarrow> uuid \<Rightarrow> instant \<Rightarrow> version_run list \<Rightarrow> version_run list" where
  "lineage version run raw observed_at rows =
     (if list_ex (\<lambda>n. lineage_key n = (version, run, raw)) rows
      then update_where (\<lambda>n. lineage_key n = (version, run, raw))
             (\<lambda>n. n\<lparr>vn_observed_at := max (vn_observed_at n) observed_at\<rparr>) rows
      else rows @ [\<lparr>vn_version = version, vn_run = run, vn_raw_record = raw, vn_observed_at = observed_at\<rparr>])"

text \<open>
  The steps \<open>persist_fx\<close> and \<open>persist_policy_rate\<close> share, on one family of tables:
  lock the observation and its current version, compute the fingerprint, find the raw record,
  apply the candidate and note the lineage.
\<close>

definition persist_in ::
  "string \<Rightarrow> string \<Rightarrow> ('a obs_version_scheme \<Rightarrow> checks) \<Rightarrow> uuid \<Rightarrow> uuid \<Rightarrow> uuid \<Rightarrow> date \<Rightarrow> string res \<Rightarrow>
     uuid res \<Rightarrow> instant \<Rightarrow> uuid \<Rightarrow> (uuid \<Rightarrow> 'a obs_version_scheme) \<Rightarrow> 'a obs_version_scheme obs_tables \<Rightarrow>
     (persisted_revision \<times> 'a obs_version_scheme obs_tables) res" where
  "persist_in what p checks fresh_o fresh_v sid d fingerprint raw_id observed_at run cols t =
     rbind (lock_or_create what fresh_o sid d t) (\<lambda>(o1, t1).
     rbind fingerprint (\<lambda>fp.
     rbind raw_id (\<lambda>raw.
     rbind (apply_revision p checks fresh_v o1 (lock_version (ob_current o1) (ot_versions t1)) fp observed_at
              (cols raw) t1) (\<lambda>(version, outcome, t2).
     Inr (\<lparr>rv_outcome = outcome, rv_observation_id = ob_id o1, rv_version_id = ov_id version,
            rv_version_number = ov_number version\<rparr>,
          t2\<lparr>ot_lineage := lineage (ov_id version) run raw observed_at (ot_lineage t2)\<rparr>)))))"

definition fx_values :: "fx_candidate \<Rightarrow> validation_result \<Rightarrow> uuid \<Rightarrow> uuid \<Rightarrow> fx_version" where
  "fx_values c v run raw =
     \<lparr>ov_id = 0, ov_observation = 0, ov_number = 0, ov_value = fc_value c, ov_fingerprint = [],
      ov_publication = fc_publication c, ov_first_observed = 0, ov_last_observed = 0, ov_valid_from = 0,
      ov_valid_to = None, ov_state = validation_state_value (vr_state v), ov_flags = flags (vr_issues v),
      ov_attributes = json_value (PDict (fc_attributes c)), ov_raw_record = raw, ov_run = run,
      fv_quote_type = quote_type_value (fc_quote_type c)\<rparr>"

definition persist_fx ::
  "(string \<Rightarrow> string) \<Rightarrow> uuid \<Rightarrow> uuid \<Rightarrow> fx_candidate \<Rightarrow> validation_result \<Rightarrow> string \<Rightarrow> uuid \<Rightarrow> database \<Rightarrow>
     (persisted_revision \<times> database) res" where
  "persist_fx sha fresh_o fresh_v c v stable_key run db =
     rbind (require_valid v) (\<lambda>_.
     rmap (\<lambda>(r, t). (r, db\<lparr>db_fx := t\<rparr>))
       (persist_in ''FX'' ''fx'' fx_version_checks fresh_o fresh_v (fc_series_id c) (fc_observation_date c)
          (fx_fingerprint sha c stable_key None)
          (find_raw_record (sl_raw_response_id (fc_source c)) (sl_record_path (fc_source c)) (db_raw_records db))
          (fc_retrieved_at c) run (fx_values c v run) (db_fx db)))"

text \<open>\<open>str(attributes.get(key) or "unknown")\<close> and the optional \<open>dataset_version\<close>, on stored attributes.\<close>

definition attribute :: "string \<Rightarrow> pyval \<Rightarrow> pyval" where
  "attribute k attrs = (case attrs of PDict ps \<Rightarrow> (case map_of ps k of None \<Rightarrow> PNone | Some v \<Rightarrow> v) | _ \<Rightarrow> PNone)"

text \<open>
  \<open>str(value)\<close> of a stored JSON value.  After \<open>_json\<close> a value holds no decimal, time, enum or
  tuple (\<open>json_value_stored\<close>), so the last equation of \<open>py_repr\<close> is never used.
\<close>

fun py_repr :: "pyval \<Rightarrow> string" where
  "py_repr PNone = ''None''"
| "py_repr (PBool b) = (if b then ''True'' else ''False'')"
| "py_repr (PInt i) = show_int i"
| "py_repr (PFloat r) = r"
| "py_repr (PStr v) = repr_str v"
| "py_repr (PDict ps) = ''{'' @ join '', '' (map (\<lambda>(k, v). repr_str k @ '': '' @ py_repr v) ps) @ ''}''"
| "py_repr (PList xs) = ''['' @ join '', '' (map py_repr xs) @ '']''"
| "py_repr v = []"

definition stored_text :: "pyval \<Rightarrow> string" where
  "stored_text v = (case v of PStr s \<Rightarrow> s | _ \<Rightarrow> py_repr v)"

fun stored :: "pyval \<Rightarrow> bool" where
  "stored (PDict ps) = list_all (\<lambda>(k, v). stored v) ps"
| "stored (PList xs) = list_all stored xs"
| "stored (PTuple xs) = False"
| "stored (PDecimal d) = False"
| "stored (PDatetime t) = False"
| "stored (PDate d) = False"
| "stored (PEnum v) = False"
| "stored v = True"

lemma json_value_stored: "stored (json_value v)"
proof (induction v rule: json_value.induct)
  case (2 ps)
  then show ?case by (auto simp: list_all_iff)
qed (auto simp: list_all_iff)

fun falsy :: "pyval \<Rightarrow> bool" where
  "falsy PNone = True"
| "falsy (PBool b) = (\<not> b)"
| "falsy (PInt i) = (i = 0)"
| "falsy (PFloat r) = (r \<in> {''0.0'', ''-0.0''})"
| "falsy (PStr v) = (v = [])"
| "falsy (PDict ps) = (ps = [])"
| "falsy (PList xs) = (xs = [])"
| "falsy (PTuple xs) = (xs = [])"
| "falsy v = False"

definition policy_values :: "policy_candidate \<Rightarrow> validation_result \<Rightarrow> uuid \<Rightarrow> uuid \<Rightarrow> policy_version" where
  "policy_values c v run raw =
     (let attrs = json_value (PDict (pc_attributes c)) in
     \<lparr>ov_id = 0, ov_observation = 0, ov_number = 0, ov_value = pc_value c, ov_fingerprint = [],
      ov_publication = pc_publication c, ov_first_observed = 0, ov_last_observed = 0, ov_valid_from = 0,
      ov_valid_to = None, ov_state = validation_state_value (vr_state v), ov_flags = flags (vr_issues v),
      ov_attributes = attrs, ov_raw_record = raw, ov_run = run,
      pv_unit = rate_unit_value (pc_unit c), pv_frequency = frequency_value (pc_frequency c),
      pv_rate_type = rate_type_value (pc_rate_type c),
      pv_collection_indicator =
        (let a = attribute ''collection_indicator'' attrs in if falsy a then ''unknown'' else stored_text a),
      pv_dataset_version =
        (let a = attribute ''dataset_version'' attrs in if a = PNone then None else Some (stored_text a))\<rparr>)"

definition persist_policy_rate ::
  "(string \<Rightarrow> string) \<Rightarrow> uuid \<Rightarrow> uuid \<Rightarrow> policy_candidate \<Rightarrow> validation_result \<Rightarrow> string \<Rightarrow> uuid \<Rightarrow> database \<Rightarrow>
     (persisted_revision \<times> database) res" where
  "persist_policy_rate sha fresh_o fresh_v c v stable_key run db =
     rbind (require_valid v) (\<lambda>_.
     rmap (\<lambda>(r, t). (r, db\<lparr>db_policy := t\<rparr>))
       (persist_in ''policy-rate'' ''policy'' policy_version_checks fresh_o fresh_v (pc_series_id c)
          (pc_observation_date c) (policy_rate_fingerprint sha c stable_key None)
          (find_raw_record (sl_raw_response_id (pc_source c)) (sl_record_path (pc_source c)) (db_raw_records db))
          (pc_retrieved_at c) run (policy_values c v run) (db_policy db)))"

section \<open>Queries\<close>

definition obs_current :: "uuid \<Rightarrow> date \<Rightarrow> ('a obs_version_scheme) obs_tables \<Rightarrow> 'a obs_version_scheme option" where
  "obs_current sid d t =
     find (\<lambda>v. list_ex (\<lambda>o1. natural_key_of sid d o1 \<and> ob_current o1 = Some (ov_id v)) (ot_observations t))
       (ot_versions t)"

text \<open>Known at an instant: valid from then or before, and not yet superseded.\<close>

definition known_at :: "instant \<Rightarrow> 'a obs_version_scheme \<Rightarrow> bool" where
  "known_at ts v \<longleftrightarrow> ov_valid_from v \<le> ts \<and> (case ov_valid_to v of None \<Rightarrow> True | Some e \<Rightarrow> e > ts)"

definition visible :: "instant option \<Rightarrow> observation \<Rightarrow> 'a obs_version_scheme \<Rightarrow> bool" where
  "visible as_of o1 v = (case as_of of
     None \<Rightarrow> ov_valid_to v = None
   | Some ts \<Rightarrow> ob_date o1 \<le> instant_date ts \<and> known_at ts v)"

definition versions_of :: "uuid \<Rightarrow> ('a obs_version_scheme) list \<Rightarrow> ('a obs_version_scheme) list" where
  "versions_of i vs = filter (\<lambda>v. ov_observation v = i) vs"

text \<open>\<open>ORDER BY observation_date, id\<close>; versions of one observation in insertion order.\<close>

definition history_query ::
  "uuid \<Rightarrow> date \<Rightarrow> date \<Rightarrow> instant option \<Rightarrow> ('a obs_version_scheme) obs_tables \<Rightarrow> ('a obs_version_scheme) list" where
  "history_query sid s e as_of t =
     concat (map (\<lambda>o1. filter (visible as_of o1) (versions_of (ob_id o1) (ot_versions t)))
       (sort_key (\<lambda>o1. (ob_date o1, unat (ob_id o1)))
          (filter (\<lambda>o1. ob_series o1 = sid \<and> s \<le> ob_date o1 \<and> ob_date o1 \<le> e) (ot_observations t))))"

definition knowledge_utc :: "datetime \<Rightarrow> instant res" where
  "knowledge_utc t = to_utc (ValueError ''knowledge timestamps must be timezone-aware'') t"

definition obs_as_of ::
  "uuid \<Rightarrow> date \<Rightarrow> datetime \<Rightarrow> ('a obs_version_scheme) obs_tables \<Rightarrow> 'a obs_version_scheme option res" where
  "obs_as_of sid d as_of t =
     rmap (\<lambda>ts. case history_query sid d d (Some ts) t of [] \<Rightarrow> None | v # _ \<Rightarrow> Some v) (knowledge_utc as_of)"

definition obs_list_history ::
  "uuid \<Rightarrow> date \<Rightarrow> date \<Rightarrow> datetime option \<Rightarrow> ('a obs_version_scheme) obs_tables \<Rightarrow>
     ('a obs_version_scheme) list res" where
  "obs_list_history sid s e as_of t = (case as_of of
     None \<Rightarrow> Inr (history_query sid s e None t)
   | Some a \<Rightarrow> rmap (\<lambda>ts. history_query sid s e (Some ts) t) (knowledge_utc a))"

text \<open>The two repositories, over the tables of their family.\<close>

definition fx_current :: "uuid \<Rightarrow> date \<Rightarrow> database \<Rightarrow> fx_version option" where
  "fx_current sid d db = obs_current sid d (db_fx db)"

definition fx_as_of :: "uuid \<Rightarrow> date \<Rightarrow> datetime \<Rightarrow> database \<Rightarrow> fx_version option res" where
  "fx_as_of sid d ts db = obs_as_of sid d ts (db_fx db)"

definition fx_list_history :: "uuid \<Rightarrow> date \<Rightarrow> date \<Rightarrow> datetime option \<Rightarrow> database \<Rightarrow> fx_version list res" where
  "fx_list_history sid s e ts db = obs_list_history sid s e ts (db_fx db)"

definition policy_current :: "uuid \<Rightarrow> date \<Rightarrow> database \<Rightarrow> policy_version option" where
  "policy_current sid d db = obs_current sid d (db_policy db)"

definition policy_as_of :: "uuid \<Rightarrow> date \<Rightarrow> datetime \<Rightarrow> database \<Rightarrow> policy_version option res" where
  "policy_as_of sid d ts db = obs_as_of sid d ts (db_policy db)"

definition policy_list_history ::
  "uuid \<Rightarrow> date \<Rightarrow> date \<Rightarrow> datetime option \<Rightarrow> database \<Rightarrow> policy_version list res" where
  "policy_list_history sid s e ts db = obs_list_history sid s e ts (db_policy db)"

end
