(* ===== verification/Transactions.thy ===== *)
theory Transactions
  imports Py_Time
begin

text \<open>
  The interface between the operations of the service and the database they run in: an operation
  either raises, and its transaction is rolled back, or moves the state.  A provider of
  \<open>guarded_store\<close> promises that its operations keep an invariant; the client gets that every
  sequence of transactions keeps it.  \<open>bitemporal_store\<close> adds the promise that an operation
  stamped with an instant does not change what is seen at an earlier one.
\<close>

locale guarded_store =
  fixes inv :: "'s \<Rightarrow> bool"
    and step :: "'i \<Rightarrow> 's \<Rightarrow> 's res"
  assumes step_inv: "inv s \<Longrightarrow> step i s = Inr s' \<Longrightarrow> inv s'"
begin

definition attempt :: "'i \<Rightarrow> 's \<Rightarrow> 's" where
  "attempt i s = (case step i s of Inl e \<Rightarrow> s | Inr s' \<Rightarrow> s')"

lemma attempt_inv: "inv s \<Longrightarrow> inv (attempt i s)"
  using step_inv by (auto simp: attempt_def split: sum.splits)

lemma run_inv: "inv s \<Longrightarrow> inv (fold attempt is s)"
  by (induction "is" arbitrary: s) (simp_all add: attempt_inv)

end

locale bitemporal_store = guarded_store inv step
  for inv :: "'s \<Rightarrow> bool" and step :: "'i \<Rightarrow> 's \<Rightarrow> 's res" +
  fixes stamp :: "'i \<Rightarrow> instant"
    and view :: "instant \<Rightarrow> 's \<Rightarrow> 'w"
  assumes step_view: "inv s \<Longrightarrow> step i s = Inr s' \<Longrightarrow> ts < stamp i \<Longrightarrow> view ts s' = view ts s"
begin

lemma attempt_view: "inv s \<Longrightarrow> ts < stamp i \<Longrightarrow> view ts (attempt i s) = view ts s"
  using step_view by (auto simp: attempt_def split: sum.splits)

lemma run_view:
  "inv s \<Longrightarrow> (\<And>i. i \<in> set is \<Longrightarrow> ts < stamp i) \<Longrightarrow> view ts (fold attempt is s) = view ts s"
  by (induction "is" arbitrary: s) (simp_all add: attempt_inv attempt_view)

end

text \<open>
  \<open>append_only_store\<close>: an order \<open>le\<close> on states that no operation goes back on, such as the rows that
  are never rewritten.
\<close>

locale append_only_store = guarded_store inv step
  for inv :: "'s \<Rightarrow> bool" and step :: "'i \<Rightarrow> 's \<Rightarrow> 's res" +
  fixes le :: "'s \<Rightarrow> 's \<Rightarrow> bool"
  assumes le_refl: "le s s"
    and le_trans: "le s t \<Longrightarrow> le t u \<Longrightarrow> le s u"
    and step_le: "inv s \<Longrightarrow> step i s = Inr s' \<Longrightarrow> le s s'"
begin

lemma attempt_le: "inv s \<Longrightarrow> le s (attempt i s)"
  using step_le le_refl by (auto simp: attempt_def split: sum.splits)

lemma run_le: "inv s \<Longrightarrow> le s (fold attempt is s)"
proof (induction "is" arbitrary: s)
  case (Cons i "is")
  have "le (attempt i s) (fold attempt is (attempt i s))" using Cons attempt_inv by blast
  then show ?case using le_trans [OF attempt_le [OF Cons.prems]] by simp
qed (simp add: le_refl)

end

end
