(* ===== verification/Timelines.thy ===== *)
theory Timelines
  imports Versioning Transactions
begin

text \<open>
  Facts about the version store of \<open>Versioning\<close>.  The invariant \<open>timelines_ok\<close> says that the
  versions of an observation are numbered from one, follow each other without gap or overlap in
  knowledge time, and that exactly the last one is open and current.  Every operation preserves
  it; it implies the unique constraints of the version tables, so that a candidate that is in
  order is always stored; and what was known at an earlier instant never changes.  Both observation
  families interpret the locale \<open>bitemporal_store\<close> of \<open>Transactions\<close>, which carries these facts to
  any sequence of transactions.
\<close>

section \<open>The timeline invariant\<close>

definition version_seen :: "'a obs_version_scheme \<Rightarrow> bool" where
  "version_seen v \<longleftrightarrow> ov_first_observed v = ov_valid_from v \<and> ov_first_observed v \<le> ov_last_observed v"

fun timeline :: "int \<Rightarrow> ('a obs_version_scheme) list \<Rightarrow> bool" where
  "timeline n [] = True"
| "timeline n [v] = (ov_number v = n \<and> ov_valid_to v = None \<and> version_seen v)"
| "timeline n (v # w # vs) =
     (ov_number v = n \<and> ov_valid_to v = Some (ov_valid_from w) \<and> ov_valid_from v < ov_valid_from w \<and>
      version_seen v \<and> timeline (n + 1) (w # vs))"

definition current_id :: "('a obs_version_scheme) list \<Rightarrow> uuid option" where
  "current_id vs = (if vs = [] then None else Some (ov_id (last vs)))"

definition timelines_ok :: "('a obs_version_scheme) obs_tables \<Rightarrow> bool" where
  "timelines_ok t \<longleftrightarrow>
     distinct (map ob_id (ot_observations t)) \<and>
     distinct (map (\<lambda>o1. (ob_series o1, ob_date o1)) (ot_observations t)) \<and>
     distinct (map ov_id (ot_versions t)) \<and>
     (\<forall>v\<in>set (ot_versions t). ov_observation v \<in> ob_id ` set (ot_observations t)) \<and>
     (\<forall>o1\<in>set (ot_observations t). timeline 1 (versions_of (ob_id o1) (ot_versions t)) \<and>
        ob_current o1 = current_id (versions_of (ob_id o1) (ot_versions t)))"

lemma timelines_okD:
  assumes "timelines_ok t"
  shows "distinct (map ob_id (ot_observations t))"
    "distinct (map (\<lambda>o1. (ob_series o1, ob_date o1)) (ot_observations t))"
    "distinct (map ov_id (ot_versions t))"
    "v \<in> set (ot_versions t) \<Longrightarrow> ov_observation v \<in> ob_id ` set (ot_observations t)"
    "o1 \<in> set (ot_observations t) \<Longrightarrow> timeline 1 (versions_of (ob_id o1) (ot_versions t))"
    "o1 \<in> set (ot_observations t) \<Longrightarrow> ob_current o1 = current_id (versions_of (ob_id o1) (ot_versions t))"
  using assms by (auto simp: timelines_ok_def)

lemma timelines_ok_empty: "timelines_ok empty_tables"
  by (simp add: timelines_ok_def empty_tables_def)

subsection \<open>Timelines\<close>

lemma timeline_Cons:
  "timeline n (v # vs) \<longleftrightarrow> ov_number v = n \<and> version_seen v \<and> timeline (n + 1) vs \<and>
     ov_valid_to v = (if vs = [] then None else Some (ov_valid_from (hd vs))) \<and>
     (vs \<noteq> [] \<longrightarrow> ov_valid_from v < ov_valid_from (hd vs))"
  by (cases vs) auto

lemma timeline_single: "timeline n [v] \<longleftrightarrow> ov_number v = n \<and> ov_valid_to v = None \<and> version_seen v"
  by simp

lemma timeline_last:
  "timeline n (vs @ [c]) \<Longrightarrow> ov_valid_to c = None \<and> ov_number c = n + int (length vs) \<and> version_seen c"
  by (induction vs arbitrary: n) (fastforce simp: timeline_Cons simp del: timeline.simps(3))+

lemma timeline_replace_last:
  assumes "timeline n (vs @ [c])" "ov_number c' = ov_number c" "ov_valid_from c' = ov_valid_from c"
    "ov_valid_to c' = None" "version_seen c'"
  shows "timeline n (vs @ [c'])"
  using assms(1)
proof (induction vs arbitrary: n)
  case Nil
  then show ?case using assms(2-) by simp
next
  case (Cons v vs)
  then show ?case using assms(3) by (simp add: timeline_Cons hd_append del: timeline.simps(2,3) split: if_splits)
qed

lemma timeline_extend:
  assumes "timeline n (vs @ [c])" "ov_valid_from c < ov_valid_from w" "ov_number w = ov_number c + 1"
    "ov_valid_to w = None" "version_seen w"
    "ov_number c' = ov_number c" "ov_valid_from c' = ov_valid_from c"
    "ov_valid_to c' = Some (ov_valid_from w)" "version_seen c'"
  shows "timeline n (vs @ [c', w])"
  using assms(1)
proof (induction vs arbitrary: n)
  case Nil
  then show ?case using assms(2-) by simp
next
  case (Cons v vs)
  then show ?case using assms(7) by (simp add: timeline_Cons hd_append del: timeline.simps(2,3) split: if_splits)
qed

lemma timeline_mono: "timeline n (v # vs) \<Longrightarrow> w \<in> set vs \<Longrightarrow> ov_valid_from v < ov_valid_from w"
proof (induction vs arbitrary: v n)
  case (Cons x xs)
  then have "timeline (n + 1) (x # xs)" "ov_valid_from v < ov_valid_from x" by simp_all
  then show ?case using Cons.IH [of "n + 1" x] Cons.prems(2) by fastforce
qed simp

lemma known_at_unique: "timeline n vs \<Longrightarrow> length (filter (known_at ts) vs) \<le> 1"
proof (induction vs arbitrary: n)
  case (Cons v vs)
  have tl: "timeline (n + 1) vs" using Cons.prems by (simp add: timeline_Cons del: timeline.simps(2,3))
  show ?case
  proof (cases "known_at ts v")
    case True
    have "\<not> known_at ts w" if mem: "w \<in> set vs" for w
    proof -
      obtain x xs where vs: "vs = x # xs" using mem by (cases vs) auto
      have "ts < ov_valid_from x" using True Cons.prems by (simp add: vs known_at_def)
      moreover have "ov_valid_from x \<le> ov_valid_from w"
        using timeline_mono [of "n + 1" x xs w] tl mem by (auto simp: vs)
      ultimately show ?thesis by (simp add: known_at_def)
    qed
    then show ?thesis by (simp add: filter_False)
  next
    case False
    then show ?thesis using Cons.IH [OF tl] by simp
  qed
qed simp

lemma known_at_exists:
  assumes "timeline n (v # vs)" "ov_valid_from v \<le> ts"
  shows "\<exists>w\<in>set (v # vs). known_at ts w"
  using assms
proof (induction vs arbitrary: v n)
  case Nil
  then show ?case by (simp add: known_at_def)
next
  case (Cons x xs)
  show ?case
  proof (cases "ov_valid_from x \<le> ts")
    case True
    then show ?thesis using Cons.IH [of "n + 1" x] Cons.prems by auto
  next
    case False
    then show ?thesis using Cons.prems by (auto simp: known_at_def)
  qed
qed

subsection \<open>Preservation\<close>

lemma versions_of_update:
  "(\<And>v. ov_observation (f v) = ov_observation v) \<Longrightarrow>
     versions_of i (update_where P f vs) = update_where P f (versions_of i vs)"
  by (simp add: versions_of_def filter_update_where)

lemma versions_of_snoc: "versions_of i (vs @ [v]) = versions_of i vs @ (if ov_observation v = i then [v] else [])"
  by (simp add: versions_of_def)

lemma versions_of_none: "(\<And>v. v \<in> set vs \<Longrightarrow> ov_observation v \<noteq> i) \<Longrightarrow> versions_of i vs = []"
  by (simp add: versions_of_def filter_empty_conv)

lemma lock_or_create_cases:
  assumes "lock_or_create what fresh sid d t = Inr (o1, t')"
  shows "o1 \<in> set (ot_observations t') \<and> natural_key_of sid d o1 \<and>
    (t' = t \<or> fresh \<notin> ob_id ` set (ot_observations t) \<and> \<not> list_ex (natural_key_of sid d) (ot_observations t) \<and>
      t' = t\<lparr>ot_observations := ot_observations t @ [\<lparr>ob_id = fresh, ob_series = sid, ob_date = d, ob_current = None\<rparr>]\<rparr>)"
proof -
  have found: "find P xs = Some x \<Longrightarrow> x \<in> set xs \<and> P x" for P :: "observation \<Rightarrow> bool" and xs x
    by (auto simp: find_Some_iff)
  show ?thesis
    using assms unfolding lock_or_create_def
    by (auto simp: rbind_eq_Inr rmap_eq_Inr enforce_ok split: if_splits option.splits dest!: found)
qed

lemma lock_or_create_never_fails:
  assumes "fresh \<notin> ob_id ` set (ot_observations t)"
  shows "is_ok (lock_or_create what fresh sid d t)"
proof (cases "list_ex (natural_key_of sid d) (ot_observations t)")
  case True
  then obtain o1 where "find (natural_key_of sid d) (ot_observations t) = Some o1"
    by (metis find_None_iff list_ex_iff not_None_eq)
  then show ?thesis using True by (simp add: lock_or_create_def)
next
  case False
  then have "find (natural_key_of sid d) (ot_observations t) = None" by (auto simp: find_None_iff list_ex_iff)
  moreover have "enforce [(''observation_pkey'', fresh \<notin> ob_id ` set (ot_observations t))] = Inr ()"
    using assms by (simp add: enforce_def)
  moreover have "find P (xs @ ys) = (case find P xs of None \<Rightarrow> find P ys | Some x \<Rightarrow> Some x)" for P :: "observation \<Rightarrow> bool" and xs ys
    by (rule find_append)
  ultimately show ?thesis using False by (simp add: lock_or_create_def natural_key_of_def)
qed

lemma lock_or_create_ok:
  assumes "timelines_ok t" "lock_or_create what fresh sid d t = Inr (o1, t')"
  shows "timelines_ok t' \<and> o1 \<in> set (ot_observations t') \<and> ot_versions t' = ot_versions t"
proof -
  note c = lock_or_create_cases [OF assms(2)]
  show ?thesis
  proof (cases "t' = t")
    case False
    let ?new = "\<lparr>ob_id = fresh, ob_series = sid, ob_date = d, ob_current = None\<rparr>"
    have f: "fresh \<notin> ob_id ` set (ot_observations t)" and n: "\<not> list_ex (natural_key_of sid d) (ot_observations t)"
      and t': "t' = t\<lparr>ot_observations := ot_observations t @ [?new]\<rparr>" using c False by auto
    have "versions_of fresh (ot_versions t) = []"
      by (rule versions_of_none) (use timelines_okD(4) [OF assms(1)] f in auto)
    moreover have "(sid, d) \<notin> (\<lambda>o1. (ob_series o1, ob_date o1)) ` set (ot_observations t)"
      using n by (auto simp: list_ex_iff natural_key_of_def)
    ultimately show ?thesis
      using assms(1) c f unfolding timelines_ok_def t' by (auto simp: current_id_def)
  qed (use c assms in auto)
qed

lemma lock_version_Some:
  assumes "timelines_ok t" "o1 \<in> set (ot_observations t)" "lock_version (ob_current o1) (ot_versions t) = Some c"
  obtains ws where "versions_of (ob_id o1) (ot_versions t) = ws @ [c]" "c \<in> set (ot_versions t)"
    "ov_observation c = ob_id o1"
proof -
  let ?ws = "versions_of (ob_id o1) (ot_versions t)"
  have cur: "ob_current o1 = current_id ?ws" using timelines_okD(6) assms by blast
  then have ne: "?ws \<noteq> []" using assms(3) by (auto simp: lock_version_def current_id_def)
  then have last: "last ?ws \<in> set (ot_versions t)" "ov_observation (last ?ws) = ob_id o1"
    using last_in_set [OF ne] by (auto simp: versions_of_def)
  then have "find (\<lambda>v. ov_id v = ov_id (last ?ws)) (ot_versions t) = Some (last ?ws)"
    by (intro find_by_id [OF timelines_okD(3) [OF assms(1)]])
  then have "c = last ?ws" using assms(3) cur ne by (simp add: lock_version_def current_id_def)
  then show thesis using that [of "butlast ?ws"] ne last by simp
qed

lemma lock_version_None:
  assumes "timelines_ok t" "o1 \<in> set (ot_observations t)" "lock_version (ob_current o1) (ot_versions t) = None"
  shows "versions_of (ob_id o1) (ot_versions t) = []"
proof (rule ccontr)
  let ?ws = "versions_of (ob_id o1) (ot_versions t)"
  assume ne: "?ws \<noteq> []"
  then have "last ?ws \<in> set (ot_versions t)" using last_in_set [OF ne] by (auto simp: versions_of_def)
  then have "find (\<lambda>v. ov_id v = ov_id (last ?ws)) (ot_versions t) = Some (last ?ws)"
    by (intro find_by_id [OF timelines_okD(3) [OF assms(1)]])
  moreover have "ob_current o1 = current_id ?ws" using timelines_okD(6) assms by blast
  ultimately show False using assms(3) ne by (simp add: lock_version_def current_id_def)
qed

text \<open>Updating the version \<open>c\<close> touches one observation's versions only, at their end.\<close>

lemma versions_of_update_last:
  assumes d: "distinct (map ov_id vs)" and c: "c \<in> set vs"
    and f: "\<And>v. ov_observation (f v) = ov_observation v"
    and ws: "versions_of (ov_observation c) vs = ws @ [c]"
  shows "versions_of i (update_where (\<lambda>v. ov_id v = ov_id c) f vs) =
    (if i = ov_observation c then ws @ [f c] else versions_of i vs)"
proof -
  let ?P = "\<lambda>v. ov_id v = ov_id c"
  have only: "v = c" if "v \<in> set vs" "ov_id v = ov_id c" for v
    using that c d by (meson inj_onD distinct_map)
  show ?thesis
  proof (cases "i = ov_observation c")
    case True
    have dws: "distinct (map ov_id (ws @ [c]))"
      unfolding ws [symmetric] versions_of_def using d by (rule distinct_map_filter)
    then have "update_where ?P f ws = ws" by (intro update_where_id) (auto simp: rev_image_eqI)
    then show ?thesis using True ws by (simp add: versions_of_update [OF f])
  next
    case False
    have "update_where ?P f (versions_of i vs) = versions_of i vs"
      by (rule update_where_id) (use only False in \<open>auto simp: versions_of_def\<close>)
    then show ?thesis using False by (simp add: versions_of_update [OF f])
  qed
qed

lemma flush_versions_ok:
  "flush_versions p checks vs = Inr u \<longleftrightarrow> (\<forall>v\<in>set vs. all_hold (checks v)) \<and> all_hold (version_table_checks p vs)"
  unfolding flush_versions_def enforce_ok by (induction vs) (auto simp: all_hold_def list_all_iff)

lemma flush_versions_distinct:
  "flush_versions p checks vs = Inr u \<Longrightarrow> distinct (map ov_id vs)"
  by (simp add: flush_versions_ok version_table_checks_def)

text \<open>The three successful outcomes of \<open>_apply\<close>.\<close>

lemma apply_revision_cases:
  assumes "apply_revision p checks fresh o1 current fp ts cols t = Inr (v, out, t')"
  obtains (unchanged) c where "current = Some c" "ov_fingerprint c = fp" "ov_valid_from c \<le> ts" "out = OutUnchanged"
      "v = touch ts c" "t' = t\<lparr>ot_versions := update_where (\<lambda>v. ov_id v = ov_id c) (touch ts) (ot_versions t)\<rparr>"
      "flush_versions p checks (ot_versions t') = Inr ()"
  | (revised) c where "current = Some c" "ov_fingerprint c \<noteq> fp" "ov_valid_from c < ts" "out = OutRevised"
      "v = new_version fresh o1 (ov_number c + 1) fp ts cols"
      "t' = t\<lparr>ot_versions := update_where (\<lambda>v. ov_id v = ov_id c) (close_at ts) (ot_versions t) @ [v],
              ot_observations := set_current o1 fresh (ot_observations t)\<rparr>"
      "flush_versions p checks (ot_versions t') = Inr ()"
  | (inserted) "current = None" "out = OutInserted" "v = new_version fresh o1 1 fp ts cols"
      "t' = t\<lparr>ot_versions := ot_versions t @ [v], ot_observations := set_current o1 fresh (ot_observations t)\<rparr>"
      "flush_versions p checks (ot_versions t') = Inr ()"
proof (cases current)
  case None
  then show thesis using assms inserted
    by (auto simp: apply_revision_def Let_def rmap_eq_Inr)
next
  case (Some c)
  then show thesis using assms unchanged [of c] revised [of c]
    by (auto simp: apply_revision_def Let_def rmap_eq_Inr split: if_splits)
qed

subsection \<open>Every operation preserves the invariant\<close>

lemma helper_simps [simp]:
  "ov_id (touch ts v) = ov_id v" "ov_observation (touch ts v) = ov_observation v"
  "ov_number (touch ts v) = ov_number v" "ov_valid_from (touch ts v) = ov_valid_from v"
  "ov_valid_to (touch ts v) = ov_valid_to v" "ov_fingerprint (touch ts v) = ov_fingerprint v"
  "ov_id (close_at ts v) = ov_id v" "ov_observation (close_at ts v) = ov_observation v"
  "ov_number (close_at ts v) = ov_number v" "ov_valid_from (close_at ts v) = ov_valid_from v"
  "ov_valid_to (close_at ts v) = Some ts" "version_seen (close_at ts v) = version_seen v"
  "ov_id (new_version i o1 n fp ts cols) = i" "ov_observation (new_version i o1 n fp ts cols) = ob_id o1"
  "ov_number (new_version i o1 n fp ts cols) = n" "ov_valid_from (new_version i o1 n fp ts cols) = ts"
  "ov_valid_to (new_version i o1 n fp ts cols) = None" "version_seen (new_version i o1 n fp ts cols)"
  "ov_fingerprint (new_version i o1 n fp ts cols) = fp"
  by (simp_all add: touch_def close_at_def new_version_def version_seen_def)

lemma version_seen_touch: "version_seen v \<Longrightarrow> version_seen (touch ts v)"
  by (auto simp: version_seen_def touch_def le_max_iff_disj)

lemma set_current_simps [simp]:
  "map ob_id (set_current o1 i obs) = map ob_id obs"
  "map (\<lambda>x. (ob_series x, ob_date x)) (set_current o1 i obs) = map (\<lambda>x. (ob_series x, ob_date x)) obs"
  by (simp_all add: set_current_def map_update_where)

lemma set_current_ids [simp]: "ob_id ` set (set_current o1 i obs) = ob_id ` set obs"
  by (metis set_current_simps(1) set_map)

text \<open>Only the observation \<open>o1\<close> moves; the rest of the invariant is about rows that do not change.\<close>

lemma timelines_ok_step:
  assumes ok: "timelines_ok t" and o1: "o1 \<in> set (ot_observations t)"
    and ids: "distinct (map ov_id vs)"
    and mem: "\<And>v. v \<in> set vs \<Longrightarrow> ov_observation v \<in> ob_id ` set (ot_observations t)"
    and other: "\<And>i. i \<noteq> ob_id o1 \<Longrightarrow> versions_of i vs = versions_of i (ot_versions t)"
    and tl: "timeline 1 (versions_of (ob_id o1) vs)"
    and last: "current_id (versions_of (ob_id o1) vs) = Some j"
  shows "timelines_ok (t\<lparr>ot_versions := vs, ot_observations := set_current o1 j (ot_observations t)\<rparr>)"
proof -
  have "timeline 1 (versions_of (ob_id x) vs) \<and> ob_current x = current_id (versions_of (ob_id x) vs)"
    if x: "x \<in> set (set_current o1 j (ot_observations t))" for x
  proof -
    obtain y where y: "y \<in> set (ot_observations t)" "x = (if ob_id y = ob_id o1 then y\<lparr>ob_current := Some j\<rparr> else y)"
      using x by (auto simp: set_current_def set_update_where)
    show ?thesis
      using y tl last other timelines_okD(5,6) [OF ok y(1)] by (cases "ob_id y = ob_id o1") auto
  qed
  then show ?thesis using ok ids mem by (simp add: timelines_ok_def)
qed

lemma set_current_same:
  assumes "timelines_ok t" "o1 \<in> set (ot_observations t)" "ob_current o1 = Some j"
  shows "set_current o1 j (ot_observations t) = ot_observations t"
proof -
  have "y = o1" if "y \<in> set (ot_observations t)" "ob_id y = ob_id o1" for y
    using that assms(2) timelines_okD(1) [OF assms(1)] by (meson inj_onD distinct_map)
  moreover have "o1\<lparr>ob_current := Some j\<rparr> = o1" using assms(3) by (cases o1) simp
  ultimately show ?thesis unfolding set_current_def update_where_def by (intro map_idI) metis
qed

lemma unchanged_ok:
  assumes ok: "timelines_ok t" and o1: "o1 \<in> set (ot_observations t)"
    and c: "lock_version (ob_current o1) (ot_versions t) = Some c"
  shows "timelines_ok (t\<lparr>ot_versions := update_where (\<lambda>v. ov_id v = ov_id c) (touch ts) (ot_versions t)\<rparr>)"
proof -
  obtain ws where ws: "versions_of (ob_id o1) (ot_versions t) = ws @ [c]" "c \<in> set (ot_versions t)"
    "ov_observation c = ob_id o1" by (rule lock_version_Some [OF ok o1 c])
  let ?vs = "update_where (\<lambda>v. ov_id v = ov_id c) (touch ts) (ot_versions t)"
  note upd = versions_of_update_last [OF timelines_okD(3) [OF ok] ws(2) helper_simps(2) [of ts], unfolded ws(3), OF ws(1)]
  have tl: "timeline 1 (ws @ [c])" using timelines_okD(5) [OF ok o1] ws by simp
  have "timelines_ok (t\<lparr>ot_versions := ?vs, ot_observations := set_current o1 (ov_id c) (ot_observations t)\<rparr>)"
  proof (rule timelines_ok_step [OF ok o1])
    show "distinct (map ov_id ?vs)" using timelines_okD(3) [OF ok] by (simp add: map_update_where)
    show "ov_observation v \<in> ob_id ` set (ot_observations t)" if "v \<in> set ?vs" for v
      using that timelines_okD(4) [OF ok] by (auto simp: set_update_where)
    have "timeline 1 (ws @ [touch ts c])"
      by (rule timeline_replace_last [OF tl]) (use timeline_last [OF tl] version_seen_touch in auto)
    then show "timeline 1 (versions_of (ob_id o1) ?vs)" using upd by simp
  qed (use ws upd in \<open>auto simp: current_id_def\<close>)
  moreover have "ob_current o1 = Some (ov_id c)"
    using timelines_okD(6) [OF ok o1] ws by (simp add: current_id_def)
  ultimately show ?thesis using set_current_same [OF ok o1] by simp
qed

lemma revised_ok:
  assumes ok: "timelines_ok t" and o1: "o1 \<in> set (ot_observations t)"
    and c: "lock_version (ob_current o1) (ot_versions t) = Some c" and ts: "ov_valid_from c < ts"
    and vs: "vs = update_where (\<lambda>v. ov_id v = ov_id c) (close_at ts) (ot_versions t)
               @ [new_version fresh o1 (ov_number c + 1) fp ts cols]"
    and ids: "distinct (map ov_id vs)"
  shows "timelines_ok (t\<lparr>ot_versions := vs, ot_observations := set_current o1 fresh (ot_observations t)\<rparr>)"
proof -
  obtain ws where ws: "versions_of (ob_id o1) (ot_versions t) = ws @ [c]" "c \<in> set (ot_versions t)"
    "ov_observation c = ob_id o1" by (rule lock_version_Some [OF ok o1 c])
  note upd = versions_of_update_last [OF timelines_okD(3) [OF ok] ws(2) helper_simps(8) [of ts], unfolded ws(3), OF ws(1)]
  have tl: "timeline 1 (ws @ [c])" using timelines_okD(5) [OF ok o1] ws by simp
  have "timeline 1 (ws @ [close_at ts c, new_version fresh o1 (ov_number c + 1) fp ts cols])"
    by (rule timeline_extend [OF tl]) (use ts timeline_last [OF tl] in auto)
  then show ?thesis
    by (intro timelines_ok_step [OF ok o1 ids])
      (use upd o1 timelines_okD(4) [OF ok] in \<open>auto simp: vs versions_of_snoc current_id_def set_update_where\<close>)
qed

lemma inserted_ok:
  assumes ok: "timelines_ok t" and o1: "o1 \<in> set (ot_observations t)"
    and none: "lock_version (ob_current o1) (ot_versions t) = None"
    and vs: "vs = ot_versions t @ [new_version fresh o1 1 fp ts cols]" and ids: "distinct (map ov_id vs)"
  shows "timelines_ok (t\<lparr>ot_versions := vs, ot_observations := set_current o1 fresh (ot_observations t)\<rparr>)"
  by (intro timelines_ok_step [OF ok o1 ids])
    (use lock_version_None [OF ok o1 none] o1 timelines_okD(4) [OF ok] in
      \<open>auto simp: vs versions_of_snoc current_id_def\<close>)

lemma apply_revision_ok:
  assumes ok: "timelines_ok t" and o1: "o1 \<in> set (ot_observations t)"
    and ap: "apply_revision p checks fresh o1 (lock_version (ob_current o1) (ot_versions t)) fp ts cols t
      = Inr (v, out, t')"
  shows "timelines_ok t'"
  using ap
proof (cases rule: apply_revision_cases)
  case (unchanged c)
  then show ?thesis using unchanged_ok [OF ok o1] by simp
next
  case (revised c)
  have "distinct (map ov_id (ot_versions t'))" using flush_versions_distinct revised by blast
  then show ?thesis using revised revised_ok [OF ok o1 revised(1,3) refl] by simp
next
  case inserted
  have "distinct (map ov_id (ot_versions t'))" using flush_versions_distinct inserted by blast
  then show ?thesis using inserted inserted_ok [OF ok o1 inserted(1) refl] by simp
qed

lemma persist_in_cases:
  assumes "persist_in what p checks fresh_o fresh_v sid d fingerprint raw_id ts run cols t = Inr (r, t')"
  obtains o1 t1 fp raw v out t2 where
    "lock_or_create what fresh_o sid d t = Inr (o1, t1)" "fingerprint = Inr fp" "raw_id = Inr raw"
    "apply_revision p checks fresh_v o1 (lock_version (ob_current o1) (ot_versions t1)) fp ts (cols raw) t1
       = Inr (v, out, t2)"
    "r = \<lparr>rv_outcome = out, rv_observation_id = ob_id o1, rv_version_id = ov_id v, rv_version_number = ov_number v\<rparr>"
    "t' = t2\<lparr>ot_lineage := lineage (ov_id v) run raw ts (ot_lineage t2)\<rparr>"
  using assms by (auto simp: persist_in_def rbind_eq_Inr)

lemma timelines_ok_lineage [simp]: "timelines_ok (t\<lparr>ot_lineage := l\<rparr>) = timelines_ok t"
  by (simp add: timelines_ok_def)

lemma persist_in_ok:
  assumes "timelines_ok t"
    "persist_in what p checks fresh_o fresh_v sid d fingerprint raw_id ts run cols t = Inr (r, t')"
  shows "timelines_ok t'"
  using assms(2)
proof (cases rule: persist_in_cases)
  case (1 o1 t1 fp raw v out t2)
  then have "timelines_ok t1" "o1 \<in> set (ot_observations t1)" using lock_or_create_ok assms(1) by blast+
  then show ?thesis using apply_revision_ok 1 by simp blast
qed

subsection \<open>What is known at an earlier instant does not change\<close>

text \<open>A version without its two columns that later sightings and revisions move.\<close>

definition payload :: "'a obs_version_scheme \<Rightarrow> 'a obs_version_scheme" where
  "payload v = v\<lparr>ov_valid_to := None, ov_last_observed := 0\<rparr>"

definition shown :: "instant \<Rightarrow> ('a obs_version_scheme) list \<Rightarrow> observation \<Rightarrow> ('a obs_version_scheme) list" where
  "shown ts vs o1 = map payload (filter (visible (Some ts) o1) (versions_of (ob_id o1) vs))"

lemma concat_map_nonempty: "concat (map g xs) = concat (map g (filter (\<lambda>x. g x \<noteq> []) xs))"
  by (induction xs) auto

lemma insort_key_map: "insort_key k (h x) (map h xs) = map h (insort_key (\<lambda>x. k (h x)) x xs)"
  by (induction xs) auto

lemma sort_key_map: "sort_key k (map h xs) = map h (sort_key (\<lambda>x. k (h x)) xs)"
  by (induction xs) (simp_all add: insort_key_map [of k h])

lemma history_payload:
  "map payload (history_query sid s e (Some ts) t) =
     concat (map (shown ts (ot_versions t))
       (sort_key (\<lambda>o1. (ob_date o1, unat (ob_id o1)))
          (filter (\<lambda>o1. shown ts (ot_versions t) o1 \<noteq> [])
            (filter (\<lambda>o1. ob_series o1 = sid \<and> s \<le> ob_date o1 \<and> ob_date o1 \<le> e) (ot_observations t)))))"
  by (subst filter_sort [symmetric], subst concat_map_nonempty [symmetric])
    (simp add: history_query_def map_concat o_def shown_def [abs_def])

lemma history_unchanged:
  assumes obs: "ot_observations t' = map h (ot_observations t) @ extra"
    and h: "\<And>o1. ob_id (h o1) = ob_id o1" "\<And>o1. ob_series (h o1) = ob_series o1" "\<And>o1. ob_date (h o1) = ob_date o1"
    and same: "\<And>o1. o1 \<in> set (ot_observations t) \<Longrightarrow> shown ts (ot_versions t') o1 = shown ts (ot_versions t) o1"
    and none: "\<And>o1. o1 \<in> set extra \<Longrightarrow> shown ts (ot_versions t') o1 = []"
  shows "map payload (history_query sid s e (Some ts) t') = map payload (history_query sid s e (Some ts) t)"
proof -
  let ?P = "\<lambda>o1. ob_series o1 = sid \<and> s \<le> ob_date o1 \<and> ob_date o1 \<le> e"
  let ?k = "\<lambda>o1. (ob_date o1, unat (ob_id o1))"
  let ?g = "shown ts (ot_versions t)" and ?g' = "shown ts (ot_versions t')"
  have gh: "?g' (h o1) = ?g' o1" for o1 using h by (simp add: shown_def visible_def [abs_def])
  have "filter (\<lambda>o1. ?g' o1 \<noteq> []) (filter ?P (ot_observations t')) =
      map h (filter (\<lambda>o1. ?g o1 \<noteq> []) (filter ?P (ot_observations t)))"
    using same none by (auto simp: obs filter_map o_def h gh filter_empty_conv intro!: arg_cong [of _ _ "map h"] filter_cong)
  then have "map payload (history_query sid s e (Some ts) t') =
      concat (map ?g' (map h (sort_key ?k (filter (\<lambda>o1. ?g o1 \<noteq> []) (filter ?P (ot_observations t))))))"
    unfolding history_payload by (simp add: sort_key_map h)
  also have "map ?g' (map h xs) = map ?g xs" if "set xs \<subseteq> set (ot_observations t)" for xs
    using that same gh by auto
  then have "concat (map ?g' (map h (sort_key ?k (filter (\<lambda>o1. ?g o1 \<noteq> []) (filter ?P (ot_observations t)))))) =
      map payload (history_query sid s e (Some ts) t)"
    unfolding history_payload by (metis (no_types, lifting) filter_is_subset set_sort subset_trans)
  finally show ?thesis .
qed

lemma shown_map:
  assumes "\<And>v. v \<in> set (versions_of (ob_id o1) vs) \<Longrightarrow> known_at ts (f v) = known_at ts v"
    "\<And>v. payload (f v) = payload v" "versions_of (ob_id o1) vs' = map f (versions_of (ob_id o1) vs)"
  shows "shown ts vs' o1 = shown ts vs o1"
proof -
  have "filter (visible (Some ts) o1) (map f ws) = map f (filter (visible (Some ts) o1) ws)"
    if "set ws \<subseteq> set (versions_of (ob_id o1) vs)" for ws
    using that assms(1) by (induction ws) (auto simp: visible_def)
  then show ?thesis using assms(2) by (simp add: shown_def assms(3) o_def)
qed

lemma known_at_new: "ts < t \<Longrightarrow> known_at ts (new_version i o1 n fp t cols) = False"
  by (simp add: known_at_def)

lemma apply_revision_history:
  assumes ok: "timelines_ok t" and o1: "o1 \<in> set (ot_observations t)"
    and ap: "apply_revision p checks fresh o1 (lock_version (ob_current o1) (ot_versions t)) fp r cols t
      = Inr (v, out, t')"
    and ts: "ts < r"
  shows "map payload (history_query sid s e (Some ts) t') = map payload (history_query sid s e (Some ts) t)"
  using ap
proof (cases rule: apply_revision_cases)
  case (unchanged c)
  let ?f = "\<lambda>v. if ov_id v = ov_id c then touch r v else v"
  have "shown ts (ot_versions t') x = shown ts (ot_versions t) x" for x
    by (rule shown_map [of _ _ _ ?f])
      (auto simp: unchanged(6) update_where_def versions_of_def filter_map o_def known_at_def payload_def touch_def
        intro!: arg_cong2 [of _ _ _ _ map] filter_cong)
  then show ?thesis
    by (intro history_unchanged [of _ "\<lambda>x. x" _ "[]"]) (simp_all add: unchanged(6))
next
  case (revised c)
  obtain ws where ws: "versions_of (ob_id o1) (ot_versions t) = ws @ [c]" "c \<in> set (ot_versions t)"
    "ov_observation c = ob_id o1" by (rule lock_version_Some [OF ok o1 revised(1)])
  have open_c: "ov_valid_to c = None"
    using timelines_okD(5) [OF ok o1] ws timeline_last by fastforce
  have only: "v = c" if "v \<in> set (ot_versions t)" "ov_id v = ov_id c" for v
    using that ws timelines_okD(3) [OF ok] by (meson inj_onD distinct_map)
  let ?f = "\<lambda>v. if ov_id v = ov_id c then close_at r v else v"
  let ?mid = "update_where (\<lambda>v. ov_id v = ov_id c) (close_at r) (ot_versions t)"
  have "shown ts ?mid x = shown ts (ot_versions t) x" for x
  proof (rule shown_map [of _ _ _ ?f])
    show "versions_of (ob_id x) ?mid = map ?f (versions_of (ob_id x) (ot_versions t))"
      by (subst versions_of_update) (simp_all add: update_where_def)
    show "known_at ts (?f v) = known_at ts v" if "v \<in> set (versions_of (ob_id x) (ot_versions t))" for v
    proof (cases "ov_id v = ov_id c")
      case True
      then have "v = c" using that only by (simp add: versions_of_def)
      then show ?thesis using open_c ts by (simp add: known_at_def)
    qed simp
  qed (simp add: payload_def close_at_def)
  moreover have "shown ts (?mid @ [v]) x = shown ts ?mid x" for x
    by (simp add: shown_def versions_of_snoc visible_def revised(5) known_at_new [OF ts])
  ultimately show ?thesis
    by (intro history_unchanged [of _ "\<lambda>x. if ob_id x = ob_id o1 then x\<lparr>ob_current := Some fresh\<rparr> else x" _ "[]"])
      (simp_all add: revised(6) set_current_def update_where_def)
next
  case inserted
  have "shown ts (ot_versions t @ [v]) x = shown ts (ot_versions t) x" for x
    by (simp add: shown_def versions_of_snoc visible_def inserted(3) known_at_new [OF ts])
  then show ?thesis
    by (intro history_unchanged [of _ "\<lambda>x. if ob_id x = ob_id o1 then x\<lparr>ob_current := Some fresh\<rparr> else x" _ "[]"])
      (simp_all add: inserted(4) set_current_def update_where_def)
qed

lemma history_lineage [simp]: "history_query sid s e a (t\<lparr>ot_lineage := l\<rparr>) = history_query sid s e a t"
  by (simp add: history_query_def)

lemma lock_or_create_history:
  assumes ok: "timelines_ok t" and l: "lock_or_create what fresh sid' d t = Inr (o1, t')"
  shows "map payload (history_query sid s e (Some ts) t') = map payload (history_query sid s e (Some ts) t)"
proof (cases "t' = t")
  case False
  let ?new = "\<lparr>ob_id = fresh, ob_series = sid', ob_date = d, ob_current = None\<rparr>"
  have f: "fresh \<notin> ob_id ` set (ot_observations t)" and t': "t' = t\<lparr>ot_observations := ot_observations t @ [?new]\<rparr>"
    using lock_or_create_cases [OF l] False by auto
  have "versions_of fresh (ot_versions t) = []"
    by (rule versions_of_none) (use timelines_okD(4) [OF ok] f in auto)
  then have "shown ts (ot_versions t') ?new = []" by (simp add: shown_def t')
  then show ?thesis by (intro history_unchanged [of _ "\<lambda>x. x" _ "[?new]"]) (simp_all add: t')
qed simp

lemma persist_in_history:
  assumes "timelines_ok t"
    "persist_in what p checks fresh_o fresh_v sid' d fingerprint raw_id r run cols t = Inr (pr, t')" "ts < r"
  shows "map payload (history_query sid s e (Some ts) t') = map payload (history_query sid s e (Some ts) t)"
  using assms(2)
proof (cases rule: persist_in_cases)
  case (1 o1 t1 fp raw v out t2)
  have "timelines_ok t1" "o1 \<in> set (ot_observations t1)" using lock_or_create_ok [OF assms(1) 1(1)] by auto
  then show ?thesis
    using apply_revision_history [OF _ _ 1(4) assms(3), of sid s e] lock_or_create_history [OF assms(1) 1(1), of sid s e ts] 1(6)
    by simp
qed

text \<open>At most one version of an observation is known at any instant.\<close>

lemma history_single:
  assumes ok: "timelines_ok t"
  shows "length (history_query sid d d (Some ts) t) \<le> 1"
proof -
  let ?P = "\<lambda>o1. ob_series o1 = sid \<and> d \<le> ob_date o1 \<and> ob_date o1 \<le> d"
  have dn: "distinct (map (\<lambda>o1. (ob_series o1, ob_date o1)) (filter ?P (ot_observations t)))"
    using timelines_okD(2) [OF ok] by (rule distinct_map_filter)
  have "filter ?P (ot_observations t) = [] \<or> (\<exists>x. filter ?P (ot_observations t) = [x])"
  proof (cases "filter ?P (ot_observations t)")
    case (Cons x xs)
    have "xs = []"
    proof (rule ccontr)
      assume "xs \<noteq> []"
      then obtain y zs where xy: "filter ?P (ot_observations t) = x # y # zs" using Cons by (cases xs) auto
      then have "x \<in> set (filter ?P (ot_observations t))" "y \<in> set (filter ?P (ot_observations t))"
        by (simp_all only: xy) simp_all
      then have "?P x" "?P y" by simp_all
      then show False using dn unfolding xy by simp
    qed
    then show ?thesis using Cons by simp
  qed simp
  then consider "filter ?P (ot_observations t) = []" | x where "filter ?P (ot_observations t) = [x]" by blast
  then show ?thesis
  proof cases
    case 2
    then have "x \<in> set (filter ?P (ot_observations t))" by simp
    then have "x \<in> set (ot_observations t)" by simp
    then have "length (filter (known_at ts) (versions_of (ob_id x) (ot_versions t))) \<le> 1"
      using timelines_okD(5) [OF ok] known_at_unique by blast
    moreover have "length (filter (visible (Some ts) x) ws) \<le> length (filter (known_at ts) ws)"
      for ws :: "('a obs_version_scheme) list"
      by (induction ws) (auto simp: visible_def)
    ultimately have "length (filter (visible (Some ts) x) (versions_of (ob_id x) (ot_versions t))) \<le> 1"
      using order_trans by blast
    then show ?thesis using 2 by (simp add: history_query_def)
  qed (simp add: history_query_def)
qed

subsection \<open>The constraints of the version table follow from the invariant\<close>

lemma distinct_by_observation:
  "(\<And>i. distinct (map f (versions_of i vs))) \<Longrightarrow> distinct (map (\<lambda>v. (ov_observation v, f v)) vs)"
proof (induction vs)
  case (Cons v vs)
  have "distinct (map f (versions_of i vs))" for i
    using Cons.prems [of i] by (simp add: versions_of_def split: if_splits)
  moreover have "f v \<notin> f ` set (versions_of (ov_observation v) vs)"
    using Cons.prems [of "ov_observation v"] by (simp add: versions_of_def)
  ultimately show ?case using Cons.IH by (auto simp: versions_of_def)
qed simp

lemma timeline_numbers: "timeline n vs \<Longrightarrow> v \<in> set vs \<Longrightarrow> n \<le> ov_number v"
proof (induction vs arbitrary: n)
  case (Cons x xs)
  then have "timeline (n + 1) xs" "ov_number x = n" by (simp_all add: timeline_Cons del: timeline.simps(2,3))
  then show ?case using Cons.IH [of "n + 1"] Cons.prems(2) by fastforce
qed simp

lemma timeline_distinct_numbers: "timeline n vs \<Longrightarrow> distinct (map ov_number vs)"
proof (induction vs arbitrary: n)
  case (Cons x xs)
  have tl: "timeline (n + 1) xs" "ov_number x = n" using Cons.prems by (simp_all add: timeline_Cons del: timeline.simps(2,3))
  then show ?case using Cons.IH [OF tl(1)] timeline_numbers [OF tl(1)] by fastforce
qed simp

lemma timeline_distinct_starts: "timeline n vs \<Longrightarrow> distinct (map (\<lambda>v. (ov_fingerprint v, ov_valid_from v)) vs)"
proof (induction vs arbitrary: n)
  case (Cons x xs)
  have tl: "timeline (n + 1) xs" using Cons.prems by (simp add: timeline_Cons del: timeline.simps(2,3))
  then show ?case using Cons.IH [OF tl] timeline_mono [OF Cons.prems] by fastforce
qed simp

lemma timeline_open: "timeline n vs \<Longrightarrow> length (filter (\<lambda>v. ov_valid_to v = None) vs) \<le> 1"
proof (induction vs arbitrary: n)
  case (Cons x xs)
  then show ?case using Cons.IH [of "n + 1"] by (cases xs) auto
qed simp

lemma filter_versions_of: "filter P (versions_of i vs) = versions_of i (filter P vs)"
  by (simp add: versions_of_def conj_commute)

lemma versions_of_timeline:
  assumes "timelines_ok t"
  shows "timeline 1 (versions_of i (ot_versions t))"
proof (cases "i \<in> ob_id ` set (ot_observations t)")
  case True
  then show ?thesis using timelines_okD(5) [OF assms] by auto
next
  case False
  then have "versions_of i (ot_versions t) = []"
    using timelines_okD(4) [OF assms] by (intro versions_of_none) auto
  then show ?thesis by simp
qed

lemma timelines_ok_table_checks:
  assumes ok: "timelines_ok t"
  shows "all_hold (version_table_checks p (ot_versions t))"
proof -
  note tl = versions_of_timeline [OF ok]
  have "distinct (map ov_observation (filter (\<lambda>v. ov_valid_to v = None) (ot_versions t)))"
  proof -
    let ?os = "filter (\<lambda>v. ov_valid_to v = None) (ot_versions t)"
    have "length (versions_of i ?os) \<le> 1" for i
      using timeline_open [OF tl, of i] by (simp add: filter_versions_of)
    then have "distinct (map (\<lambda>v. ()) (versions_of i ?os))" for i
      by (metis (no_types, lifting) One_nat_def distinct_singleton distinct.simps(1) le_Suc_eq le_zero_eq
          length_0_conv length_Suc_conv list.simps(8,9))
    then have "distinct (map (\<lambda>v. (ov_observation v, ())) ?os)" by (rule distinct_by_observation)
    then show ?thesis by (simp add: distinct_map inj_on_def)
  qed
  moreover have "distinct (map (\<lambda>v. (ov_observation v, ov_number v)) (ot_versions t))"
    by (rule distinct_by_observation) (rule timeline_distinct_numbers [OF tl])
  moreover have "distinct (map (\<lambda>v. (ov_observation v, ov_fingerprint v, ov_valid_from v)) (ot_versions t))"
    by (rule distinct_by_observation) (rule timeline_distinct_starts [OF tl])
  moreover have "distinct (map (\<lambda>v. (ov_observation v, ov_id v)) (ot_versions t))"
    using timelines_okD(3) [OF ok] by (simp add: distinct_map inj_on_def)
  ultimately show ?thesis using timelines_okD(3) [OF ok] by (simp add: version_table_checks_def)
qed

lemma flush_versions_intro:
  assumes "timelines_ok t" "\<And>v. v \<in> set (ot_versions t) \<Longrightarrow> all_hold (checks v)"
  shows "flush_versions p checks (ot_versions t) = Inr ()"
  using assms timelines_ok_table_checks by (simp add: flush_versions_ok)

text \<open>
  Columns \<open>_apply\<close> may change without breaking a row check: a check is \<open>stable\<close> when a later
  sighting and a later end of validity keep it.
\<close>

definition stable_checks :: "('a obs_version_scheme \<Rightarrow> checks) \<Rightarrow> bool" where
  "stable_checks checks \<longleftrightarrow> (\<forall>v ts. all_hold (checks v) \<longrightarrow>
     all_hold (checks (touch ts v)) \<and> (ov_valid_from v < ts \<longrightarrow> all_hold (checks (close_at ts v))))"

lemma stable_fx_checks: "stable_checks fx_version_checks"
  by (auto simp: stable_checks_def fx_version_checks_def common_version_checks_def touch_def close_at_def le_max_iff_disj split: option.splits)

lemma stable_policy_checks: "stable_checks policy_version_checks"
  by (auto simp: stable_checks_def policy_version_checks_def common_version_checks_def touch_def close_at_def le_max_iff_disj split: option.splits)

definition rows_ok :: "('a obs_version_scheme \<Rightarrow> checks) \<Rightarrow> 'a obs_version_scheme obs_tables \<Rightarrow> bool" where
  "rows_ok checks t \<longleftrightarrow> (\<forall>v\<in>set (ot_versions t). all_hold (checks v))"

text \<open>When \<open>_apply\<close> succeeds: the retrieval is not older than the current version, nor as old and different.\<close>

definition in_order :: "'a obs_version_scheme option \<Rightarrow> string \<Rightarrow> instant \<Rightarrow> bool" where
  "in_order current fp ts \<longleftrightarrow> (case current of None \<Rightarrow> True
     | Some c \<Rightarrow> ov_valid_from c < ts \<or> ov_valid_from c = ts \<and> ov_fingerprint c = fp)"

lemma apply_revision_succeeds:
  fixes p :: string and fp :: string
  assumes ok: "timelines_ok t" and o1: "o1 \<in> set (ot_observations t)" and rows: "rows_ok checks t"
    and st: "stable_checks checks" and fresh: "fresh \<notin> ov_id ` set (ot_versions t)"
    and ord: "in_order (lock_version (ob_current o1) (ot_versions t)) fp ts"
    and new: "\<And>n. n > 0 \<Longrightarrow> all_hold (checks (new_version fresh o1 n fp ts cols))"
  shows "\<exists>v out t'. apply_revision p checks fresh o1 (lock_version (ob_current o1) (ot_versions t)) fp ts cols t = Inr (v, out, t')
    \<and> rows_ok checks t'"
proof -
  have st': "all_hold (checks v) \<Longrightarrow> all_hold (checks (touch ts v))"
    "all_hold (checks v) \<Longrightarrow> ov_valid_from v < ts \<Longrightarrow> all_hold (checks (close_at ts v))" for v
    using st by (auto simp: stable_checks_def)
  have ids: "distinct (map ov_id (update_where P (close_at ts) (ot_versions t) @ [new_version fresh o1 n fp ts cols]))" for P n
    using timelines_okD(3) [OF ok] fresh by (simp add: map_update_where set_update_where image_iff)
  show ?thesis
  proof (cases "lock_version (ob_current o1) (ot_versions t)")
    case None
    let ?v = "new_version fresh o1 1 fp ts cols"
    let ?t = "t\<lparr>ot_versions := ot_versions t @ [?v], ot_observations := set_current o1 fresh (ot_observations t)\<rparr>"
    have "distinct (map ov_id (ot_versions t @ [?v]))" using timelines_okD(3) [OF ok] fresh by simp
    then have "timelines_ok ?t" by (intro inserted_ok [OF ok o1 None]) simp_all
    moreover have "rows_ok checks ?t" using rows new [of 1] by (auto simp: rows_ok_def)
    ultimately have "flush_versions p checks (ot_versions ?t) = Inr ()"
      by (intro flush_versions_intro) (auto simp: rows_ok_def)
    then show ?thesis
      using None \<open>rows_ok checks ?t\<close> by (simp add: apply_revision_def Let_def)
  next
    case (Some c)
    obtain ws where ws: "versions_of (ob_id o1) (ot_versions t) = ws @ [c]" "c \<in> set (ot_versions t)"
      "ov_observation c = ob_id o1" by (rule lock_version_Some [OF ok o1 Some])
    show ?thesis
    proof (cases "ov_fingerprint c = fp")
      case True
      let ?t = "t\<lparr>ot_versions := update_where (\<lambda>v. ov_id v = ov_id c) (touch ts) (ot_versions t)\<rparr>"
      have "rows_ok checks ?t" using rows st' by (auto simp: rows_ok_def set_update_where)
      then show ?thesis
        using True Some ord flush_versions_intro [OF unchanged_ok [OF ok o1 Some, of ts], of checks p]
        by (auto simp: apply_revision_def in_order_def rows_ok_def Let_def)
    next
      case False
      then have lt: "ov_valid_from c < ts" using ord Some by (simp add: in_order_def)
      have pos: "ov_number c + 1 > 0"
        using timeline_last [of 1 ws c] timelines_okD(5) [OF ok o1] ws by simp
      let ?v = "new_version fresh o1 (ov_number c + 1) fp ts cols"
      let ?vs = "update_where (\<lambda>v. ov_id v = ov_id c) (close_at ts) (ot_versions t) @ [?v]"
      let ?t = "t\<lparr>ot_versions := ?vs, ot_observations := set_current o1 fresh (ot_observations t)\<rparr>"
      have tok: "timelines_ok ?t" by (rule revised_ok [OF ok o1 Some lt refl ids])
      have only: "v = c" if "v \<in> set (ot_versions t)" "ov_id v = ov_id c" for v
        using that ws timelines_okD(3) [OF ok] by (meson inj_onD distinct_map)
      then have "ov_valid_from v < ts" if "v \<in> set (ot_versions t)" "ov_id v = ov_id c" for v
        using that lt by metis
      then have "rows_ok checks ?t"
        using rows st' new [OF pos] by (auto simp: rows_ok_def set_update_where)
      moreover from this have "flush_versions p checks (ot_versions ?t) = Inr ()"
        by (intro flush_versions_intro [OF tok]) (auto simp: rows_ok_def)
      ultimately show ?thesis using False Some lt by (simp add: apply_revision_def Let_def)
    qed
  qed
qed

subsection \<open>Reading back what was written\<close>

lemma obs_current_eq:
  assumes ok: "timelines_ok t" and o1: "o1 \<in> set (ot_observations t)" "natural_key_of sid d o1"
    and v: "v \<in> set (ot_versions t)" "ob_current o1 = Some (ov_id v)"
  shows "obs_current sid d t = Some v"
proof -
  have "o2 = o1" if "o2 \<in> set (ot_observations t)" "natural_key_of sid d o2" for o2
  proof -
    have "inj_on (\<lambda>o1. (ob_series o1, ob_date o1)) (set (ot_observations t))"
      using timelines_okD(2) [OF ok] by (simp add: distinct_map)
    then show ?thesis by (rule inj_onD) (use that o1 in \<open>auto simp: natural_key_of_def\<close>)
  qed
  then have "list_ex (\<lambda>x. natural_key_of sid d x \<and> ob_current x = Some (ov_id w)) (ot_observations t) \<longleftrightarrow> ov_id w = ov_id v" for w
    using o1 v(2) unfolding list_ex_iff by (metis option.inject)
  then show ?thesis
    unfolding obs_current_def by (rule distinct_find [OF timelines_okD(3) [OF ok] v(1)])
qed

text \<open>After \<open>_apply\<close> the returned version is a row of the table and the observation's current one.\<close>

lemma apply_revision_current:
  assumes ok: "timelines_ok t" and o1: "o1 \<in> set (ot_observations t)"
    and ap: "apply_revision p checks fresh o1 (lock_version (ob_current o1) (ot_versions t)) fp ts cols t
      = Inr (v, out, t')"
  shows "v \<in> set (ot_versions t') \<and> ov_fingerprint v = fp \<and> ov_valid_from v \<le> ts \<and> ov_valid_to v = None \<and>
    ov_observation v = ob_id o1 \<and>
    (\<exists>o2\<in>set (ot_observations t'). ob_id o2 = ob_id o1 \<and> ob_series o2 = ob_series o1 \<and> ob_date o2 = ob_date o1 \<and>
       ob_current o2 = Some (ov_id v))"
  using ap
proof (cases rule: apply_revision_cases)
  case (unchanged c)
  obtain ws where ws: "versions_of (ob_id o1) (ot_versions t) = ws @ [c]" "c \<in> set (ot_versions t)"
    "ov_observation c = ob_id o1" by (rule lock_version_Some [OF ok o1 unchanged(1)])
  have "ov_valid_to c = None" using timelines_okD(5) [OF ok o1] ws timeline_last by fastforce
  moreover have "ob_current o1 = Some (ov_id c)" using timelines_okD(6) [OF ok o1] ws by (simp add: current_id_def)
  ultimately show ?thesis using unchanged ws o1 by (auto simp: set_update_where)
next
  case (revised c)
  have "o1\<lparr>ob_current := Some fresh\<rparr> \<in> set (set_current o1 fresh (ot_observations t))"
    using o1 by (auto simp: set_current_def set_update_where)
  then show ?thesis using revised by (auto intro!: bexI [of _ "o1\<lparr>ob_current := Some fresh\<rparr>"])
next
  case inserted
  have "o1\<lparr>ob_current := Some fresh\<rparr> \<in> set (set_current o1 fresh (ot_observations t))"
    using o1 by (auto simp: set_current_def set_update_where)
  then show ?thesis using inserted by (auto intro!: bexI [of _ "o1\<lparr>ob_current := Some fresh\<rparr>"])
qed

lemma obs_current_lineage [simp]: "obs_current sid d (t\<lparr>ot_lineage := l\<rparr>) = obs_current sid d t"
  by (simp add: obs_current_def)

lemma persist_in_current:
  assumes ok: "timelines_ok t"
    and pe: "persist_in what p checks fresh_o fresh_v sid d (Inr fp) raw_id ts run cols t = Inr (r, t')"
  shows "\<exists>v. obs_current sid d t' = Some v \<and> ov_id v = rv_version_id r \<and> ov_number v = rv_version_number r \<and>
    ov_fingerprint v = fp \<and> ov_valid_from v \<le> ts"
  using pe
proof (cases rule: persist_in_cases)
  case (1 o1 t1 fp' raw v out t2)
  have t1: "timelines_ok t1" "o1 \<in> set (ot_observations t1)" "natural_key_of sid d o1"
    using lock_or_create_ok [OF ok 1(1)] lock_or_create_cases [OF 1(1)] by auto
  note ap = apply_revision_current [OF t1(1,2) 1(4)]
  obtain o2 where o2: "o2 \<in> set (ot_observations t2)" "ob_series o2 = ob_series o1" "ob_date o2 = ob_date o1"
    "ob_current o2 = Some (ov_id v)" using ap by blast
  have "obs_current sid d t2 = Some v"
    by (rule obs_current_eq [OF apply_revision_ok [OF t1(1,2) 1(4)] o2(1)])
      (use ap o2 t1(3) in \<open>auto simp: natural_key_of_def\<close>)
  then show ?thesis using ap 1 by auto
qed

text \<open>Persisting the same fingerprint again, not earlier, finds the version unchanged.\<close>

lemma lock_or_create_existing:
  assumes ok: "timelines_ok t" and o1: "o1 \<in> set (ot_observations t)" "natural_key_of sid d o1"
  shows "lock_or_create what fresh sid d t = Inr (o1, t)"
proof -
  have "natural_key_of sid d o2 \<longleftrightarrow> (ob_series o2, ob_date o2) = (ob_series o1, ob_date o1)" for o2
    using o1(2) by (auto simp: natural_key_of_def)
  then have "find (natural_key_of sid d) (ot_observations t) = Some o1"
    using distinct_find [OF timelines_okD(2) [OF ok] o1(1)] by blast
  moreover have "list_ex (natural_key_of sid d) (ot_observations t)" using o1 by (auto simp: list_ex_iff)
  ultimately show ?thesis by (simp add: lock_or_create_def)
qed

lemma persist_in_again:
  assumes ok: "timelines_ok t" and st: "stable_checks checks"
    and pe: "persist_in what p checks fresh_o fresh_v sid d (Inr fp) (Inr raw) ts run cols t = Inr (r, t')"
    and later: "ts \<le> ts'"
  shows "\<exists>r' t''. persist_in what p checks fresh_o' fresh_v' sid d (Inr fp) (Inr raw') ts' run' cols' t' = Inr (r', t'')
    \<and> rv_outcome r' = OutUnchanged \<and> rv_version_id r' = rv_version_id r \<and> rv_version_number r' = rv_version_number r"
  using pe
proof (cases rule: persist_in_cases)
  case (1 o1 t1 fp' raw0 v out t2)
  have t1: "timelines_ok t1" "o1 \<in> set (ot_observations t1)" "natural_key_of sid d o1"
    using lock_or_create_ok [OF ok 1(1)] lock_or_create_cases [OF 1(1)] by auto
  note ap = apply_revision_current [OF t1(1,2) 1(4)]
  have ok2: "timelines_ok t2" by (rule apply_revision_ok [OF t1(1,2) 1(4)])
  have rows: "\<forall>v\<in>set (ot_versions t2). all_hold (checks v)"
    using 1(4) by (cases rule: apply_revision_cases) (simp_all add: flush_versions_ok)
  obtain o2 where o2: "o2 \<in> set (ot_observations t2)" "natural_key_of sid d o2" "ob_current o2 = Some (ov_id v)"
    using ap t1(3) by (auto simp: natural_key_of_def)
  have ok': "timelines_ok t'" using ok2 1(6) by simp
  have lock: "lock_or_create what fresh_o' sid d t' = Inr (o2, t')"
    by (rule lock_or_create_existing [OF ok']) (use o2 1(6) in auto)
  have cur: "lock_version (ob_current o2) (ot_versions t') = Some v"
    using find_by_id [OF timelines_okD(3) [OF ok2], of v] ap o2(3) 1(6) by (simp add: lock_version_def)
  have "rows_ok checks (t'\<lparr>ot_versions := update_where (\<lambda>w. ov_id w = ov_id v) (touch ts') (ot_versions t')\<rparr>)"
    using rows st 1(6) by (auto simp: rows_ok_def stable_checks_def set_update_where)
  then have flush: "flush_versions p checks (update_where (\<lambda>w. ov_id w = ov_id v) (touch ts') (ot_versions t')) = Inr ()"
    using flush_versions_intro [OF unchanged_ok [OF ok' _ cur, of ts'], of checks p] o2(1) 1(6) by (simp add: rows_ok_def)
  have "ov_fingerprint v = fp" "\<not> ts' < ov_valid_from v" using ap 1(2) later by auto
  then show ?thesis
    using flush 1(5) by (simp add: persist_in_def lock cur apply_revision_def)
qed

section \<open>Both families are bitemporal stores\<close>

text \<open>The inputs of one call of \<open>persist_fx\<close> or \<open>persist_policy_rate\<close>, with the keys it may draw.\<close>

record 'c persist_call =
  cl_fresh_observation :: uuid
  cl_fresh_version :: uuid
  cl_candidate :: 'c
  cl_validation :: validation_result
  cl_stable_key :: string
  cl_run :: uuid

definition fx_step :: "(string \<Rightarrow> string) \<Rightarrow> fx_candidate persist_call \<Rightarrow> database \<Rightarrow> database res" where
  "fx_step sha i db = rmap snd (persist_fx sha (cl_fresh_observation i) (cl_fresh_version i) (cl_candidate i)
     (cl_validation i) (cl_stable_key i) (cl_run i) db)"

definition policy_step :: "(string \<Rightarrow> string) \<Rightarrow> policy_candidate persist_call \<Rightarrow> database \<Rightarrow> database res" where
  "policy_step sha i db = rmap snd (persist_policy_rate sha (cl_fresh_observation i) (cl_fresh_version i)
     (cl_candidate i) (cl_validation i) (cl_stable_key i) (cl_run i) db)"

text \<open>What a reader sees at \<open>ts\<close>, over every series and range of dates.\<close>

definition past_view ::
  "instant \<Rightarrow> ('a obs_version_scheme) obs_tables \<Rightarrow> uuid \<times> date \<times> date \<Rightarrow> ('a obs_version_scheme) list" where
  "past_view ts t = (\<lambda>(sid, s, e). map payload (history_query sid s e (Some ts) t))"

lemma persist_fx_cases:
  assumes "persist_fx sha fo fv c v k run db = Inr (r, db')"
  obtains t where "vr_state v \<noteq> StInvalid" "db' = db\<lparr>db_fx := t\<rparr>"
    "persist_in ''FX'' ''fx'' fx_version_checks fo fv (fc_series_id c) (fc_observation_date c)
       (fx_fingerprint sha c k None)
       (find_raw_record (sl_raw_response_id (fc_source c)) (sl_record_path (fc_source c)) (db_raw_records db))
       (fc_retrieved_at c) run (fx_values c v run) (db_fx db) = Inr (r, t)"
  using assms by (auto simp: persist_fx_def rbind_eq_Inr rmap_eq_Inr require_valid_def)

lemma persist_policy_cases:
  assumes "persist_policy_rate sha fo fv c v k run db = Inr (r, db')"
  obtains t where "vr_state v \<noteq> StInvalid" "db' = db\<lparr>db_policy := t\<rparr>"
    "persist_in ''policy-rate'' ''policy'' policy_version_checks fo fv (pc_series_id c) (pc_observation_date c)
       (policy_rate_fingerprint sha c k None)
       (find_raw_record (sl_raw_response_id (pc_source c)) (sl_record_path (pc_source c)) (db_raw_records db))
       (pc_retrieved_at c) run (policy_values c v run) (db_policy db) = Inr (r, t)"
  using assms by (auto simp: persist_policy_rate_def rbind_eq_Inr rmap_eq_Inr require_valid_def)

interpretation fx_store: bitemporal_store
  "\<lambda>db. timelines_ok (db_fx db)" "fx_step sha" "\<lambda>i. fc_retrieved_at (cl_candidate i)"
  "\<lambda>ts db. past_view ts (db_fx db)" for sha
proof
  fix db :: database and i db' and ts :: instant
  assume ok: "timelines_ok (db_fx db)" and st: "fx_step sha i db = Inr db'"
  then obtain r where pe: "persist_fx sha (cl_fresh_observation i) (cl_fresh_version i) (cl_candidate i)
     (cl_validation i) (cl_stable_key i) (cl_run i) db = Inr (r, db')" by (auto simp: fx_step_def rmap_eq_Inr)
  show "timelines_ok (db_fx db')"
  proof (cases rule: persist_fx_cases [OF pe])
    case (1 t)
    then show ?thesis using persist_in_ok [OF ok 1(3)] by simp
  qed
  assume "ts < fc_retrieved_at (cl_candidate i)"
  then show "past_view ts (db_fx db') = past_view ts (db_fx db)"
    by (cases rule: persist_fx_cases [OF pe]) (simp add: past_view_def fun_eq_iff persist_in_history [OF ok])
qed

interpretation policy_store: bitemporal_store
  "\<lambda>db. timelines_ok (db_policy db)" "policy_step sha" "\<lambda>i. pc_retrieved_at (cl_candidate i)"
  "\<lambda>ts db. past_view ts (db_policy db)" for sha
proof
  fix db :: database and i db' and ts :: instant
  assume ok: "timelines_ok (db_policy db)" and st: "policy_step sha i db = Inr db'"
  then obtain r where pe: "persist_policy_rate sha (cl_fresh_observation i) (cl_fresh_version i) (cl_candidate i)
     (cl_validation i) (cl_stable_key i) (cl_run i) db = Inr (r, db')" by (auto simp: policy_step_def rmap_eq_Inr)
  show "timelines_ok (db_policy db')"
  proof (cases rule: persist_policy_cases [OF pe])
    case (1 t)
    then show ?thesis using persist_in_ok [OF ok 1(3)] by simp
  qed
  assume "ts < pc_retrieved_at (cl_candidate i)"
  then show "past_view ts (db_policy db') = past_view ts (db_policy db)"
    by (cases rule: persist_policy_cases [OF pe]) (simp add: past_view_def fun_eq_iff persist_in_history [OF ok])
qed

section \<open>Sequences of transactions\<close>

text \<open>Each call commits or rolls back; the runs of the two families from any database.\<close>

fun fx_replay :: "(string \<Rightarrow> string) \<Rightarrow> fx_candidate persist_call list \<Rightarrow> database \<Rightarrow> database" where
  "fx_replay sha [] db = db"
| "fx_replay sha (i # is) db = fx_replay sha is (case fx_step sha i db of Inl e \<Rightarrow> db | Inr db' \<Rightarrow> db')"

fun policy_replay :: "(string \<Rightarrow> string) \<Rightarrow> policy_candidate persist_call list \<Rightarrow> database \<Rightarrow> database" where
  "policy_replay sha [] db = db"
| "policy_replay sha (i # is) db = policy_replay sha is (case policy_step sha i db of Inl e \<Rightarrow> db | Inr db' \<Rightarrow> db')"

lemma fx_replay_fold: "fx_replay sha calls db = fold (fx_store.attempt sha) calls db"
  by (induction calls arbitrary: db) (simp_all add: fx_store.attempt_def)

lemma policy_replay_fold: "policy_replay sha calls db = fold (policy_store.attempt sha) calls db"
  by (induction calls arbitrary: db) (simp_all add: policy_store.attempt_def)

lemma fx_replay_ok: "db_fx db = empty_tables \<Longrightarrow> timelines_ok (db_fx (fx_replay sha calls db))"
  unfolding fx_replay_fold by (rule fx_store.run_inv) (simp add: timelines_ok_empty)

lemma policy_replay_ok: "db_policy db = empty_tables \<Longrightarrow> timelines_ok (db_policy (policy_replay sha calls db))"
  unfolding policy_replay_fold by (rule policy_store.run_inv) (simp add: timelines_ok_empty)

lemma fx_past_view:
  assumes "timelines_ok (db_fx db)" "\<And>i. i \<in> set later \<Longrightarrow> ts < fc_retrieved_at (cl_candidate i)"
  shows "past_view ts (db_fx (fx_replay sha later db)) = past_view ts (db_fx db)"
  unfolding fx_replay_fold by (rule fx_store.run_view [OF assms(1)]) (rule assms(2))

lemma policy_past_view:
  assumes "timelines_ok (db_policy db)" "\<And>i. i \<in> set later \<Longrightarrow> ts < pc_retrieved_at (cl_candidate i)"
  shows "past_view ts (db_policy (policy_replay sha later db)) = past_view ts (db_policy db)"
  unfolding policy_replay_fold by (rule policy_store.run_view [OF assms(1)]) (rule assms(2))

lemma locked_is_current:
  assumes ok: "timelines_ok t" and l: "lock_or_create what fresh sid d t = Inr (o1, t1)"
    and c: "lock_version (ob_current o1) (ot_versions t1) = Some c"
  shows "obs_current sid d t = Some c"
proof -
  note lc = lock_or_create_cases [OF l]
  have t1: "timelines_ok t1" "o1 \<in> set (ot_observations t1)" using lock_or_create_ok [OF ok l] by auto
  obtain ws where ws: "versions_of (ob_id o1) (ot_versions t1) = ws @ [c]" "c \<in> set (ot_versions t1)"
    "ov_observation c = ob_id o1" by (rule lock_version_Some [OF t1 c])
  have cur: "ob_current o1 = Some (ov_id c)" using timelines_okD(6) [OF t1] ws by (simp add: current_id_def)
  show ?thesis
  proof (cases "t1 = t")
    case True
    show ?thesis using obs_current_eq [OF t1(1,2) _ ws(2) cur] lc True by simp
  next
    case False
    then have new: "t1 = t\<lparr>ot_observations := ot_observations t @
        [\<lparr>ob_id = fresh, ob_series = sid, ob_date = d, ob_current = None\<rparr>]\<rparr>"
      and none: "\<not> list_ex (natural_key_of sid d) (ot_observations t)" using lc by auto
    have "o1 \<notin> set (ot_observations t)" using none lc by (auto simp: list_ex_iff)
    then have "ob_current o1 = None" using t1(2) new by auto
    then show ?thesis using cur by simp
  qed
qed

lemma fx_new_version_ok:
  assumes "n > 0" "length fp = 64" "dec_less dec_zero (fc_value c)"
  shows "all_hold (fx_version_checks (new_version fresh o1 n fp ts (fx_values c v run raw)))"
  using assms by (cases "vr_state v"; cases "fc_quote_type c")
    (simp_all add: fx_version_checks_def common_version_checks_def new_version_def fx_values_def valid_states_def)

lemma persist_in_succeeds:
  assumes ok: "timelines_ok t" and rows: "rows_ok checks t" and st: "stable_checks checks"
    and fresh: "fo \<notin> ob_id ` set (ot_observations t)" "fv \<notin> ov_id ` set (ot_versions t)"
    and ord: "in_order (obs_current sid d t) fp ts"
    and new: "\<And>n o1. n > 0 \<Longrightarrow> all_hold (checks (new_version fv o1 n fp ts (cols raw)))"
  shows "is_ok (persist_in what p checks fo fv sid d (Inr fp) (Inr raw) ts run cols t)"
proof -
  obtain o1 t1 where l: "lock_or_create what fo sid d t = Inr (o1, t1)"
    using lock_or_create_never_fails [OF fresh(1), of what sid d] by (auto simp: is_ok_iff)
  note t1 = lock_or_create_ok [OF ok l]
  have "in_order (lock_version (ob_current o1) (ot_versions t1)) fp ts"
    using locked_is_current [OF ok l] ord
    by (cases "lock_version (ob_current o1) (ot_versions t1)") (auto simp: in_order_def)
  then obtain v out t2 where "apply_revision p checks fv o1 (lock_version (ob_current o1) (ot_versions t1)) fp ts
      (cols raw) t1 = Inr (v, out, t2)"
    using apply_revision_succeeds [of t1 o1 checks fv fp ts "cols raw" p] t1 rows st fresh new
    by (auto simp: rows_ok_def)
  then show ?thesis by (simp add: persist_in_def l)
qed

lemma persist_fx_ok:
  assumes "timelines_ok (db_fx db)" "rows_ok fx_version_checks (db_fx db)"
    and "fo \<notin> ob_id ` set (ot_observations (db_fx db))" "fv \<notin> ov_id ` set (ot_versions (db_fx db))"
    and "vr_state v \<noteq> StInvalid" "dec_less dec_zero (fc_value c)"
    and "fx_fingerprint sha c k None = Inr fp" "length fp = 64"
    and "is_ok (find_raw_record (sl_raw_response_id (fc_source c)) (sl_record_path (fc_source c)) (db_raw_records db))"
    and "in_order (obs_current (fc_series_id c) (fc_observation_date c) (db_fx db)) fp (fc_retrieved_at c)"
  shows "is_ok (persist_fx sha fo fv c v k run db)"
proof -
  obtain raw where raw: "find_raw_record (sl_raw_response_id (fc_source c)) (sl_record_path (fc_source c)) (db_raw_records db)
      = Inr raw" using assms(9) by (auto simp: is_ok_iff)
  show ?thesis
    using persist_in_succeeds [where ?cols = "fx_values c v run" and ?raw = raw and ?what = "''FX''" and ?p = "''fx''"
        and ?run = run, OF assms(1,2) stable_fx_checks assms(3,4,10) fx_new_version_ok [OF _ assms(8,6)]] assms(5)
    by (auto simp: persist_fx_def require_valid_def assms(7) raw is_ok_iff rmap_eq_Inr)
qed

section \<open>Properties\<close>

text \<open>
  C3. Starting from a database without FX observations, whatever FX candidates are persisted, in whatever order and
  however many transactions are rolled back, the versions of every observation form a timeline:
  numbered from one, each ending where the next begins, exactly the last one open and current.
\<close>

theorem fx_timelines_invariant:
  "db_fx db = empty_tables \<Longrightarrow> timelines_ok (db_fx (fx_replay sha calls db))"
  by (rule fx_replay_ok)


text \<open>
  At any instant at most one version of a policy rate is known for a series and a date, after any
  sequence of transactions.
\<close>

theorem policy_as_of_unique:
  "db_policy db = empty_tables \<Longrightarrow> length (history_query sid d d (Some ts) (db_policy (policy_replay sha calls db))) \<le> 1"
  by (rule history_single, rule policy_replay_ok)

text \<open>
  Read your writes: after \<open>persist_fx\<close> the current version of the candidate's series and date is
  the one reported, and carries the candidate's fingerprint.
\<close>

theorem persist_fx_current:
  assumes "timelines_ok (db_fx db)" and "persist_fx sha fo fv c v k run db = Inr (r, db')"
  shows "\<exists>w. obs_current (fc_series_id c) (fc_observation_date c) (db_fx db') = Some w \<and>
    ov_id w = rv_version_id r \<and> ov_number w = rv_version_number r \<and>
    fx_fingerprint sha c k None = Inr (ov_fingerprint w) \<and> ov_valid_from w \<le> fc_retrieved_at c"
proof (cases rule: persist_fx_cases [OF assms(2)])
  case (1 t)
  then obtain fp where fp: "fx_fingerprint sha c k None = Inr fp" by (auto elim: persist_in_cases)
  show ?thesis using persist_in_current [OF assms(1) 1(3) [unfolded fp]] 1(2) fp by auto
qed

text \<open>
  C20. Idempotence: persisting the same observation again at the same or a later retrieval time always
  succeeds, reports \<open>unchanged\<close> and the same version.
\<close>

theorem persist_fx_idempotent:
  assumes "timelines_ok (db_fx db)" and "persist_fx sha fo fv c v k run db = Inr (r, db')"
    and "c' = c\<lparr>fc_retrieved_at := ts\<rparr>" "fc_retrieved_at c \<le> ts"
  shows "\<exists>r' db''. persist_fx sha fo' fv' c' v k run' db' = Inr (r', db'') \<and>
    rv_outcome r' = OutUnchanged \<and> rv_version_id r' = rv_version_id r \<and> rv_version_number r' = rv_version_number r"
proof (cases rule: persist_fx_cases [OF assms(2)])
  case (1 t)
  then obtain fp raw where fp: "fx_fingerprint sha c k None = Inr fp" and
    raw: "find_raw_record (sl_raw_response_id (fc_source c)) (sl_record_path (fc_source c)) (db_raw_records db) = Inr raw"
    by (auto elim: persist_in_cases)
  have fp': "fx_fingerprint sha c' k None = Inr fp" using fp by (simp add: assms(3) fx_fingerprint_def fx_document_def)
  show ?thesis
    using persist_in_again [OF assms(1) stable_fx_checks 1(3) [unfolded fp raw] assms(4), of fo' fv' raw run' "fx_values c' v run'"]
      1(1,2) fp' raw by (auto simp: persist_fx_def require_valid_def assms(3) rmap_eq_Inr)
qed


text \<open>
  A policy rate retrieved before the current version became known is refused as out of order, and
  the database is left alone.
\<close>

theorem persist_policy_rate_out_of_order:
  assumes "timelines_ok (db_policy db)"
    and "obs_current (pc_series_id c) (pc_observation_date c) (db_policy db) = Some w" "pc_retrieved_at c < ov_valid_from w"
    and "vr_state v \<noteq> StInvalid" "policy_rate_fingerprint sha c k None = Inr fp"
    and "find_raw_record (sl_raw_response_id (pc_source c)) (sl_record_path (pc_source c)) (db_raw_records db) = Inr raw"
  shows "persist_policy_rate sha fo fv c v k run db =
    Inl (OutOfOrderObservationError ''retrieval time precedes the current knowledge interval'')"
proof -
  let ?t = "db_policy db"
  have w: "w \<in> set (ot_versions ?t)"
    "\<exists>o1\<in>set (ot_observations ?t). natural_key_of (pc_series_id c) (pc_observation_date c) o1 \<and> ob_current o1 = Some (ov_id w)"
    using assms(2) by (auto simp: obs_current_def find_Some_iff list_ex_iff)
  then obtain o1 where o1: "o1 \<in> set (ot_observations ?t)"
    "natural_key_of (pc_series_id c) (pc_observation_date c) o1" "ob_current o1 = Some (ov_id w)" by blast
  have "lock_version (ob_current o1) (ot_versions ?t) = Some w"
    using find_by_id [OF timelines_okD(3) [OF assms(1)] w(1)] o1(3) by (simp add: lock_version_def)
  then show ?thesis
    using lock_or_create_existing [OF assms(1) o1(1,2)] assms(3-6)
    by (simp add: persist_policy_rate_def require_valid_def persist_in_def apply_revision_def)
qed

text \<open>A database with one raw record, and a digest function, for the applications below.\<close>

definition sample_sha :: "string \<Rightarrow> string" where
  "sample_sha s = replicate 64 (CHR ''a'')"

definition sample_db :: database where
  "sample_db = empty_database\<lparr>db_raw_records := [\<lparr>rd_id = 3, rd_response = 1, rd_path = ''observations[0]'',
     rd_natural_key = None, rd_checksum = None, rd_metadata = []\<rparr>]\<rparr>"

definition sample_valid :: validation_result where
  "sample_valid = \<lparr>vr_state = StValid, vr_issues = []\<rparr>"

definition sample_call :: "instant \<Rightarrow> fx_candidate persist_call" where
  "sample_call ts = \<lparr>cl_fresh_observation = 11, cl_fresh_version = 12,
     cl_candidate = (sample_fx (Finite False 11 (-1)))\<lparr>fc_retrieved_at := ts\<rparr>, cl_validation = sample_valid,
     cl_stable_key = ''fx:USD/CAD'', cl_run = 5\<rparr>"

lemma sample_sha_fingerprint: "fx_fingerprint sample_sha (sample_fx (Finite False 11 (-1))) ''fx:USD/CAD'' None = Inr (replicate 64 (CHR ''a''))"
  using sample_fingerprint [OF sample_value(2)]
  by (auto simp: fx_fingerprint_def sha256_fingerprint_def rmap_eq_Inr sample_sha_def)

lemma sample_fx_simps [simp]:
  "fc_series_id (sample_fx d) = 7" "fc_observation_date (sample_fx d) = 738000" "fc_value (sample_fx d) = d"
  "fc_retrieved_at (sample_fx d) = 63763200000000000" "fc_source (sample_fx d) = sample_locator"
  by (simp_all add: sample_fx_def)

lemma sample_raw: "find_raw_record (sl_raw_response_id sample_locator) (sl_record_path sample_locator) (db_raw_records sample_db)
    = Inr 3"
  by (simp add: find_raw_record_def sample_locator_def sample_db_def)

lemma sample_db_ok: "timelines_ok (db_fx sample_db)" "timelines_ok (db_policy sample_db)"
    "rows_ok fx_version_checks (db_fx sample_db)"
    "ot_observations (db_fx sample_db) = []" "ot_versions (db_fx sample_db) = []"
  using timelines_ok_empty
  by (simp_all add: sample_db_def empty_database_def rows_ok_def empty_tables_def)

lemma sample_value_positive: "dec_less dec_zero (Finite False 11 (-1))"
  by (simp add: dec_less_def common_exp_def dec_zero_def)

lemma sample_in_order: "in_order (obs_current sid d (db_fx sample_db)) fp ts"
  by (simp add: obs_current_def sample_db_ok in_order_def)

lemma sample_persist: "\<exists>r db'. persist_fx sample_sha 11 12 (sample_fx (Finite False 11 (-1))) sample_valid ''fx:USD/CAD'' 5 sample_db
    = Inr (r, db')"
  using persist_fx_ok [OF sample_db_ok(1,3) _ _ _ _ sample_sha_fingerprint _ _ sample_in_order, of 11 12 sample_valid 5]
  by (simp add: sample_db_ok sample_raw sample_valid_def sample_value_positive is_ok_iff)


lemma persist_fx_current_witness:
  "\<exists>r db' w. persist_fx sample_sha 11 12 (sample_fx (Finite False 11 (-1))) sample_valid ''fx:USD/CAD'' 5 sample_db = Inr (r, db')
     \<and> obs_current 7 738000 (db_fx db') = Some w \<and> ov_id w = rv_version_id r"
proof -
  obtain r db' where p: "persist_fx sample_sha 11 12 (sample_fx (Finite False 11 (-1))) sample_valid ''fx:USD/CAD'' 5 sample_db
    = Inr (r, db')" using sample_persist by blast
  show ?thesis using persist_fx_current [OF sample_db_ok(1) p] p by auto
qed

lemma persist_fx_idempotent_witness:
  "\<exists>r db' r' db''. persist_fx sample_sha 11 12 (sample_fx (Finite False 11 (-1))) sample_valid ''fx:USD/CAD'' 5 sample_db = Inr (r, db')
     \<and> persist_fx sample_sha 13 14 ((sample_fx (Finite False 11 (-1)))\<lparr>fc_retrieved_at := 63763200000000001\<rparr>) sample_valid
         ''fx:USD/CAD'' 6 db' = Inr (r', db'') \<and> rv_outcome r' = OutUnchanged"
proof -
  obtain r db' where p: "persist_fx sample_sha 11 12 (sample_fx (Finite False 11 (-1))) sample_valid ''fx:USD/CAD'' 5 sample_db
    = Inr (r, db')" using sample_persist by blast
  show ?thesis using persist_fx_idempotent [OF sample_db_ok(1) p refl, of 63763200000000001 13 14 6] p by auto
qed

text \<open>Two retrievals of the same value: one version is stored, and later sightings do not change it.\<close>

lemma sample_replay:
  "map (\<lambda>v. (ov_number v, ov_valid_from v, ov_valid_to v))
     (ot_versions (db_fx (fx_replay sample_sha [sample_call 63763200000000000, sample_call 63763300000000000] sample_db)))
     = [(1, 63763200000000000, None)]"
  by code_simp

lemma fx_timelines_invariant_witness:
  "timelines_ok (db_fx (fx_replay sample_sha [sample_call 63763200000000000, sample_call 63763300000000000] sample_db)) \<and>
   ot_versions (db_fx (fx_replay sample_sha [sample_call 63763200000000000, sample_call 63763300000000000] sample_db)) \<noteq> []"
  using fx_timelines_invariant [of sample_db sample_sha "[sample_call 63763200000000000, sample_call 63763300000000000]"]
    sample_replay by (auto simp: sample_db_def empty_database_def)


text \<open>A policy observation whose current version became known at 63763300 seconds.\<close>

definition sample_policy_db :: database where
  "sample_policy_db = sample_db\<lparr>db_policy :=
     \<lparr>ot_observations = [\<lparr>ob_id = 21, ob_series = 9, ob_date = 738000, ob_current = Some 22\<rparr>],
      ot_versions = [new_version 22 \<lparr>ob_id = 21, ob_series = 9, ob_date = 738000, ob_current = None\<rparr> 1
        (replicate 64 (CHR ''b'')) 63763300000000000 (policy_values sample_policy sample_valid 5 3)],
      ot_lineage = []\<rparr>\<rparr>"

lemma persist_policy_rate_out_of_order_witness:
  "persist_policy_rate sample_sha 31 32 sample_policy sample_valid ''policy:CA'' 6 sample_policy_db =
    Inl (OutOfOrderObservationError ''retrieval time precedes the current knowledge interval'')"
proof -
  have ok: "timelines_ok (db_policy sample_policy_db)"
    by (simp add: sample_policy_db_def timelines_ok_def versions_of_def current_id_def)
  obtain w where w: "obs_current (pc_series_id sample_policy) (pc_observation_date sample_policy) (db_policy sample_policy_db) = Some w"
    "pc_retrieved_at sample_policy < ov_valid_from w"
    by (simp add: sample_policy_db_def obs_current_def natural_key_of_def sample_policy_def)
  have "canonicalize (policy_rate_document sample_policy ''policy:CA'' None) =
     Inr (policy_obj (JObj []) JNull (canonical_text (Finite False 500 (-2))) ''policy:CA'' sample_policy)"
    unfolding policy_rate_document_def canonicalize.simps(5) [of "_ # _"] policy_document_sorted policy_obj_def
    by (simp add: sample_policy_def selected_def opt_instant_def canonical_decimal_def)
  then have fp: "policy_rate_fingerprint sample_sha sample_policy ''policy:CA'' None = Inr (replicate 64 (CHR ''a''))"
    by (simp add: policy_rate_fingerprint_def sha256_fingerprint_def canonical_json_def sample_sha_def)
  have raw: "find_raw_record (sl_raw_response_id (pc_source sample_policy)) (sl_record_path (pc_source sample_policy))
      (db_raw_records sample_policy_db) = Inr 3"
    using sample_raw by (simp add: sample_policy_def sample_policy_db_def)
  show ?thesis
    by (rule persist_policy_rate_out_of_order [OF ok w _ fp raw]) (simp add: sample_valid_def)
qed

lemma policy_as_of_unique_witness:
  "length (history_query 9 738000 738000 (Some 63763400000000000)
     (db_policy (policy_replay sample_sha
       [\<lparr>cl_fresh_observation = 21, cl_fresh_version = 22, cl_candidate = sample_policy, cl_validation = sample_valid,
          cl_stable_key = ''policy:CA'', cl_run = 5\<rparr>] sample_db))) \<le> 1"
  by (rule policy_as_of_unique) (simp add: sample_db_def empty_database_def)

end
