(* ===== verification/Quality.thy ===== *)
theory Quality
  imports Expectations Timelines
begin

text \<open>
  Completeness and freshness: \<open>app/application/quality/service.py\<close> (the assessment of one instrument
  over a range of dates) and \<open>app/repositories/quality.py\<close> (its results, and the dates for which
  evidence was known at an instant).  Metrics and logging are not modelled.  A set of dates is a list
  used through \<open>set\<close>.
\<close>

section \<open>Assessments\<close>

record quality_assessment =
  qa_run :: "uuid option"
  qa_instrument_type :: string
  qa_instrument_id :: uuid
  qa_rule_code :: string
  qa_state :: quality_state
  qa_severity :: validation_severity
  qa_affected_start :: date
  qa_affected_end :: date
  qa_evaluated_at :: instant
  qa_details :: "pyval dict"

definition evaluation_utc :: "datetime \<Rightarrow> instant res" where
  "evaluation_utc t = to_utc (ValueError ''evaluation timestamp must be timezone-aware'') t"

definition newest :: "date list \<Rightarrow> pyval" where
  "newest ds = (if ds = [] then PNone else PStr (iso_date (Max (set ds))))"

definition assessment ::
  "expectation_policy \<Rightarrow> uuid \<Rightarrow> date \<Rightarrow> date \<Rightarrow> instant \<Rightarrow> uuid option \<Rightarrow> quality_state \<Rightarrow> validation_severity \<Rightarrow>
     expected_observation list \<Rightarrow> expected_observation list \<Rightarrow> date list \<Rightarrow> pyval dict \<Rightarrow> quality_assessment" where
  "assessment p instrument s e evaluated_at run state severity missing expected available extra =
     (let dates = map eo_date expected in
      \<lparr>qa_run = run, qa_instrument_type = xp_instrument_type p, qa_instrument_id = instrument,
       qa_rule_code = ''completeness_freshness'', qa_state = state, qa_severity = severity,
       qa_affected_start = s, qa_affected_end = e, qa_evaluated_at = evaluated_at,
       qa_details =
         [(''calendar_id'', PStr (xp_calendar_id p)),
          (''release_cadence'', PStr (cadence_value (xp_release_cadence p))),
          (''expected_count'', PInt (int (length dates))),
          (''missing_count'', PInt (int (length missing))),
          (''missing_dates'', PList (map (\<lambda>x. PStr (iso_date (eo_date x))) missing)),
          (''newest_expected_date'', newest dates),
          (''newest_available_date'', newest (filter (\<lambda>d. d \<in> set available) dates))] @ extra\<rparr>)"

definition unknown_assessment ::
  "expectation_policy \<Rightarrow> uuid \<Rightarrow> date \<Rightarrow> date \<Rightarrow> instant \<Rightarrow> uuid option \<Rightarrow> string \<Rightarrow> pyval dict \<Rightarrow> quality_assessment" where
  "unknown_assessment p instrument s e evaluated_at run reason details =
     assessment p instrument s e evaluated_at run QUnknown SevWarning [] [] [] ((''reason'', PStr reason) # details)"

definition last_due :: "expected_observation list \<Rightarrow> instant" where
  "last_due xs = Max (set (map eo_due_at xs))"

text \<open>The decision once the expectations are known.\<close>

definition judge ::
  "expectation_policy \<Rightarrow> uuid \<Rightarrow> date \<Rightarrow> date \<Rightarrow> instant \<Rightarrow> date list \<Rightarrow> bool \<Rightarrow> uuid option \<Rightarrow>
     expected_observation list \<Rightarrow> quality_assessment res" where
  "judge p instrument s e now available evidence run expected =
     (let due = filter (\<lambda>x. eo_due_at x \<le> now) expected;
          missing = filter (\<lambda>x. eo_date x \<notin> set available) due
      in if due = []
         then Inr (assessment p instrument s e now run QNotDue SevInfo [] expected available
                [(''reason'', PStr ''no_expected_observation_is_due'')])
         else if missing \<noteq> [] \<and> \<not> evidence
         then Inr (assessment p instrument s e now run QUnknown SevWarning missing due available
                [(''reason'', PStr ''successful_fetch_evidence_missing'')])
         else if missing = []
         then Inr (assessment p instrument s e now run QComplete SevInfo missing due available [])
         else rbind (wall_plus (last_due due) (xp_stale_after p)) (\<lambda>stale_at.
           if now > stale_at
           then Inr (assessment p instrument s e now run QStale SevError missing due available [])
           else Inr (assessment p instrument s e now run QIncomplete SevWarning missing due available [])))"

definition evaluate ::
  "zones \<Rightarrow> expectation_policy \<Rightarrow> business_calendar option \<Rightarrow> uuid \<Rightarrow> date \<Rightarrow> date \<Rightarrow> datetime \<Rightarrow> date list \<Rightarrow> bool \<Rightarrow>
     uuid option \<Rightarrow> quality_assessment res" where
  "evaluate zones p calendar instrument s e evaluated_at available evidence run =
     rbind (evaluation_utc evaluated_at) (\<lambda>now.
     (case calendar of
        None \<Rightarrow> Inr (unknown_assessment p instrument s e now run ''calendar_configuration_missing'' [])
      | Some b \<Rightarrow>
          (if \<not> calendar_covers b s \<or> \<not> calendar_covers b e
           then Inr (unknown_assessment p instrument s e now run ''calendar_configuration_missing'' [])
           else rbind (generate_expectations zones p b s e)
                  (judge p instrument s e now available evidence run))))"

text \<open>Any exception becomes an \<open>unknown\<close> assessment, if the timestamp itself can be read.\<close>

definition evaluate_safely ::
  "zones \<Rightarrow> expectation_policy \<Rightarrow> business_calendar option \<Rightarrow> uuid \<Rightarrow> date \<Rightarrow> date \<Rightarrow> datetime \<Rightarrow> date list \<Rightarrow> bool \<Rightarrow>
     uuid option \<Rightarrow> quality_assessment res" where
  "evaluate_safely zones p calendar instrument s e evaluated_at available evidence run =
     (case evaluate zones p calendar instrument s e evaluated_at available evidence run of
        Inr a \<Rightarrow> Inr a
      | Inl exc \<Rightarrow>
          rmap (\<lambda>now. unknown_assessment p instrument s e now run ''quality_evaluation_failed''
                 [(''error_type'', PStr (exn_name exc))])
            (evaluation_utc evaluated_at))"

section \<open>The repository\<close>

definition result_row :: "uuid \<Rightarrow> quality_assessment \<Rightarrow> quality_result" where
  "result_row i a = \<lparr>ql_id = i, ql_run = qa_run a, ql_instrument_type = qa_instrument_type a,
     ql_instrument_id = qa_instrument_id a, ql_rule_code = qa_rule_code a,
     ql_quality_state = quality_state_value (qa_state a), ql_severity = severity_value (qa_severity a),
     ql_affected_start = qa_affected_start a, ql_affected_end = qa_affected_end a,
     ql_evaluated_at = qa_evaluated_at a, ql_details = qa_details a\<rparr>"

definition quality_checks :: "quality_result list \<Rightarrow> checks" where
  "quality_checks rows =
     concat (map quality_result_checks rows) @ [(''quality_result_pkey'', distinct (map ql_id rows))]"

text \<open>\<open>fresh n\<close> is the key of the \<open>n\<close>-th result.\<close>

definition append_results :: "(nat \<Rightarrow> uuid) \<Rightarrow> quality_assessment list \<Rightarrow> database \<Rightarrow> database res" where
  "append_results fresh results db =
     (let rows = db_quality db @ map (\<lambda>(n, a). result_row (fresh n) a) (enumerate 0 results)
      in rmap (\<lambda>_. db\<lparr>db_quality := rows\<rparr>) (enforce (quality_checks rows)))"

definition evaluate_and_append ::
  "uuid \<Rightarrow> zones \<Rightarrow> expectation_policy \<Rightarrow> business_calendar option \<Rightarrow> uuid \<Rightarrow> date \<Rightarrow> date \<Rightarrow> datetime \<Rightarrow> date list \<Rightarrow> bool \<Rightarrow>
     uuid option \<Rightarrow> database \<Rightarrow> (quality_assessment \<times> database) res" where
  "evaluate_and_append fresh zones p calendar instrument s e evaluated_at available evidence run db =
     rbind (evaluate_safely zones p calendar instrument s e evaluated_at available evidence run) (\<lambda>a.
     rmap (Pair a) (append_results (\<lambda>_. fresh) [a] db))"

text \<open>\<open>dict.setdefault\<close> over the rows in descending order keeps the first row of each key.\<close>

definition result_key :: "quality_result \<Rightarrow> string \<times> uuid \<times> string" where
  "result_key r = (ql_instrument_type r, ql_instrument_id r, ql_rule_code r)"

definition result_order :: "quality_result \<Rightarrow> instant \<times> nat" where
  "result_order r = (ql_evaluated_at r, unat (ql_id r))"

fun first_per_key :: "('a \<Rightarrow> 'k) \<Rightarrow> 'k list \<Rightarrow> 'a list \<Rightarrow> 'a list" where
  "first_per_key k seen [] = []"
| "first_per_key k seen (x # xs) =
     (if k x \<in> set seen then first_per_key k seen xs else x # first_per_key k (k x # seen) xs)"

definition matches :: "'a option \<Rightarrow> 'a \<Rightarrow> bool" where
  "matches f x = (case f of None \<Rightarrow> True | Some y \<Rightarrow> x = y)"

definition latest_by_instrument :: "string option \<Rightarrow> uuid option \<Rightarrow> database \<Rightarrow> quality_result list" where
  "latest_by_instrument type_filter id_filter db =
     first_per_key result_key [] (rev (sort_key result_order
       (filter (\<lambda>r. matches type_filter (ql_instrument_type r) \<and> matches id_filter (ql_instrument_id r))
          (db_quality db))))"

text \<open>The dates with a valid version known at \<open>as_of\<close>; the two queries differ in the tables only.\<close>

definition quality_utc :: "datetime \<Rightarrow> instant res" where
  "quality_utc t = to_utc (ValueError ''as_of must be timezone-aware'') t"

definition usable_state :: "'a obs_version_scheme \<Rightarrow> bool" where
  "usable_state v \<longleftrightarrow> ov_state v \<in> {''valid'', ''valid_with_warnings''}"

definition valid_dates :: "uuid \<Rightarrow> date \<Rightarrow> date \<Rightarrow> instant \<Rightarrow> ('a obs_version_scheme) obs_tables \<Rightarrow> date list" where
  "valid_dates sid s e ts t =
     remdups (map (\<lambda>(o1, v). ob_date o1)
       (filter (\<lambda>(o1, v). ov_observation v = ob_id o1 \<and> ob_series o1 = sid \<and> s \<le> ob_date o1 \<and> ob_date o1 \<le> e \<and>
            ob_date o1 \<le> instant_date ts \<and> known_at ts v \<and> usable_state v)
          (List.product (ot_observations t) (ot_versions t))))"

definition valid_fx_dates :: "uuid \<Rightarrow> date \<Rightarrow> date \<Rightarrow> datetime \<Rightarrow> database \<Rightarrow> date list res" where
  "valid_fx_dates sid s e as_of db = rmap (\<lambda>ts. valid_dates sid s e ts (db_fx db)) (quality_utc as_of)"

definition valid_policy_rate_dates :: "uuid \<Rightarrow> date \<Rightarrow> date \<Rightarrow> datetime \<Rightarrow> database \<Rightarrow> date list res" where
  "valid_policy_rate_dates sid s e as_of db = rmap (\<lambda>ts. valid_dates sid s e ts (db_policy db)) (quality_utc as_of)"

section \<open>Lemmas\<close>

lemma assessment_simps [simp]:
  "qa_state (assessment p i s e ts run st sev m x av ex) = st"
  "qa_severity (assessment p i s e ts run st sev m x av ex) = sev"
  "qa_state (unknown_assessment p i s e ts run reason ds) = QUnknown"
  "qa_instrument_type (assessment p i s e ts run st sev m x av ex) = xp_instrument_type p"
  "qa_affected_start (assessment p i s e ts run st sev m x av ex) = s"
  "qa_affected_end (assessment p i s e ts run st sev m x av ex) = e"
  by (simp_all add: assessment_def unknown_assessment_def Let_def)

text \<open>What \<open>judge\<close> decides, as conditions on the due and the available dates.\<close>

lemma judge_state:
  assumes "judge p i s e now av ev run xs = Inr a"
  shows "qa_state a = QNotDue \<longleftrightarrow> (\<forall>x\<in>set xs. now < eo_due_at x)"
    "qa_state a = QComplete \<longleftrightarrow> (\<exists>x\<in>set xs. eo_due_at x \<le> now) \<and> (\<forall>x\<in>set xs. eo_due_at x \<le> now \<longrightarrow> eo_date x \<in> set av)"
    "qa_state a \<in> {QIncomplete, QStale} \<longleftrightarrow> ev \<and> (\<exists>x\<in>set xs. eo_due_at x \<le> now \<and> eo_date x \<notin> set av)"
  using assms by (auto simp: judge_def Let_def rbind_eq_Inr filter_empty_conv not_le not_less split: if_splits)

lemma judge_stale:
  assumes "judge p i s e now av ev run xs = Inr a" "qa_state a = QStale"
  shows "\<forall>x\<in>set xs. eo_due_at x \<le> now \<longrightarrow> eo_due_at x + xp_stale_after p < now"
proof -
  let ?due = "filter (\<lambda>x. eo_due_at x \<le> now) xs"
  have "last_due ?due + xp_stale_after p < now"
    using assms by (auto simp: judge_def Let_def rbind_eq_Inr wall_plus_def split: if_splits)
  moreover have "eo_due_at x \<le> last_due ?due" if "x \<in> set ?due" for x
    unfolding last_due_def using that by (intro Max_ge) auto
  ultimately show ?thesis by fastforce
qed

lemma evaluate_cases:
  assumes "evaluate zones p cal i s e t av ev run = Inr a"
  obtains now where "evaluation_utc t = Inr now" "qa_state a = QUnknown"
    | now b xs where "evaluation_utc t = Inr now" "cal = Some b" "calendar_covers b s" "calendar_covers b e"
        "generate_expectations zones p b s e = Inr xs" "judge p i s e now av ev run xs = Inr a"
  using assms by (fastforce simp: evaluate_def rbind_eq_Inr split: option.splits if_splits)

lemma set_first_per_key: "set (first_per_key k seen xs) \<subseteq> {x \<in> set xs. k x \<notin> set seen}"
  by (induction k seen xs rule: first_per_key.induct) auto

lemma distinct_first_per_key: "distinct (map k (first_per_key k seen xs))"
  using set_first_per_key by (induction k seen xs rule: first_per_key.induct) (auto, fastforce)

lemma keys_first_per_key: "k ` set (first_per_key k seen xs) = k ` set xs - set seen"
  by (induction k seen xs rule: first_per_key.induct) auto

lemma first_per_key_first:
  "x \<in> set (first_per_key k seen xs) \<Longrightarrow> \<exists>ys zs. xs = ys @ x # zs \<and> (\<forall>y\<in>set ys. k y \<noteq> k x)"
proof (induction k seen xs rule: first_per_key.induct)
  case (2 k seen x' xs)
  show ?case
  proof (cases "k x' \<in> set seen")
    case True
    then obtain ys zs where "xs = ys @ x # zs" "\<forall>y\<in>set ys. k y \<noteq> k x" using 2 by auto
    moreover have "k x \<notin> set seen" using True 2(3) set_first_per_key by fastforce
    ultimately show ?thesis using True by (intro exI [of _ "x' # ys"] exI [of _ zs]) auto
  next
    case False
    show ?thesis
    proof (cases "x = x'")
      case True
      then show ?thesis by (intro exI [of _ "[]"] exI [of _ xs]) simp
    next
      case ne: False
      then have "x \<in> set (first_per_key k (k x' # seen) xs)" using False 2(3) by simp
      moreover from this have "k x \<noteq> k x'" using set_first_per_key by fastforce
      moreover obtain ys zs where "xs = ys @ x # zs" "\<forall>y\<in>set ys. k y \<noteq> k x" using 2(2) False calculation(1) by auto
      ultimately show ?thesis by (intro exI [of _ "x' # ys"] exI [of _ zs]) auto
    qed
  qed
qed simp

text \<open>The evidence dates are those at which the as-of history shows a usable version.\<close>

lemma set_valid_dates:
  "set (valid_dates sid s e ts t) = {d. s \<le> d \<and> d \<le> e \<and> list_ex usable_state (history_query sid d d (Some ts) t)}"
  by (fastforce simp: valid_dates_def history_query_def visible_def versions_of_def list_ex_iff)

lemma list_ex_payload: "list_ex usable_state xs = list_ex usable_state (map payload xs)"
  by (induction xs) (simp_all add: usable_state_def payload_def)

lemma valid_dates_view:
  assumes "past_view ts t' = past_view ts t"
  shows "set (valid_dates sid s e ts t') = set (valid_dates sid s e ts t)"
proof -
  have "map payload (history_query sid d d (Some ts) t') = map payload (history_query sid d d (Some ts) t)" for d
    using fun_cong [OF assms, of "(sid, d, d)"] by (simp add: past_view_def)
  then have "list_ex usable_state (history_query sid d d (Some ts) t') =
      list_ex usable_state (history_query sid d d (Some ts) t)" for d
    by (metis list_ex_payload)
  then show ?thesis by (simp add: set_valid_dates)
qed

section \<open>Properties\<close>

text \<open>
  C34. An assessment says \<open>complete\<close> exactly when some expected observation is due and every due one
  is available, for a range the calendar covers.
\<close>

theorem quality_complete_iff:
  assumes "evaluate zones p (Some b) i s e t av ev run = Inr a" "evaluation_utc t = Inr now"
    "calendar_covers b s" "calendar_covers b e"
  shows "qa_state a = QComplete \<longleftrightarrow>
    (\<exists>xs. generate_expectations zones p b s e = Inr xs \<and> (\<exists>x\<in>set xs. eo_due_at x \<le> now) \<and>
       (\<forall>x\<in>set xs. eo_due_at x \<le> now \<longrightarrow> eo_date x \<in> set av))"
proof -
  obtain xs where xs: "generate_expectations zones p b s e = Inr xs" "judge p i s e now av ev run xs = Inr a"
    using assms by (auto simp: evaluate_def rbind_eq_Inr)
  then show ?thesis using judge_state(2) [OF xs(2)] by simp
qed

text \<open>
  A provider is never blamed without evidence: \<open>incomplete\<close> and \<open>stale\<close> need a successful fetch and
  a due date that is missing, and \<open>stale\<close> only when every due time lies more than \<open>stale_after\<close> back.
\<close>

theorem quality_blame_needs_evidence:
  assumes "evaluate zones p cal i s e t av ev run = Inr a" "qa_state a \<in> {QIncomplete, QStale}"
  shows "ev \<and> (\<exists>now b xs. evaluation_utc t = Inr now \<and> cal = Some b \<and> generate_expectations zones p b s e = Inr xs \<and>
    (\<exists>x\<in>set xs. eo_due_at x \<le> now \<and> eo_date x \<notin> set av) \<and>
    (qa_state a = QStale \<longrightarrow> (\<forall>x\<in>set xs. eo_due_at x \<le> now \<longrightarrow> eo_due_at x + xp_stale_after p < now)))"
proof (cases rule: evaluate_cases [OF assms(1)])
  case (1 now)
  then show ?thesis using assms(2) by simp
next
  case (2 now b xs)
  have "ev \<and> (\<exists>x\<in>set xs. eo_due_at x \<le> now \<and> eo_date x \<notin> set av)" using judge_state(3) [OF 2(6)] assms(2) by blast
  then show ?thesis using judge_stale [OF 2(6)] 2 by blast
qed

text \<open>
  The safe evaluation is total up to its own timestamp: whatever goes wrong inside becomes an
  \<open>unknown\<close> assessment, and it raises exactly when the evaluation timestamp is naive or out of range.
\<close>

theorem evaluate_safely_total:
  "is_ok (evaluate_safely zones p cal i s e t av ev run) \<longleftrightarrow> is_ok (evaluation_utc t)"
  by (cases "evaluation_utc t")
    (auto simp: evaluate_safely_def evaluate_def is_ok_def rmap_def split: sum.splits)

text \<open>
  The latest results are one per instrument and rule, for every instrument and rule that passes
  the filters, and no stored result of the same instrument and rule is later.
\<close>

theorem latest_results_are_latest:
  "distinct (map result_key (latest_by_instrument tf idf db)) \<and>
   result_key ` set (latest_by_instrument tf idf db) =
     result_key ` {r \<in> set (db_quality db). matches tf (ql_instrument_type r) \<and> matches idf (ql_instrument_id r)} \<and>
   (\<forall>r\<in>set (latest_by_instrument tf idf db). r \<in> set (db_quality db) \<and>
      (\<forall>x\<in>set (db_quality db). result_key x = result_key r \<longrightarrow> result_order x \<le> result_order r))"
proof -
  let ?rows = "filter (\<lambda>r. matches tf (ql_instrument_type r) \<and> matches idf (ql_instrument_id r)) (db_quality db)"
  let ?l = "rev (sort_key result_order ?rows)"
  have latest: "result_order x \<le> result_order r"
    if r: "r \<in> set (first_per_key result_key [] ?l)" and x: "x \<in> set (db_quality db)" "result_key x = result_key r" for r x
  proof -
    obtain ys zs where l: "?l = ys @ r # zs" "\<forall>y\<in>set ys. result_key y \<noteq> result_key r"
      using first_per_key_first [OF r] by blast
    have "r \<in> set ?l" unfolding l(1) by simp
    then have "matches tf (ql_instrument_type r) \<and> matches idf (ql_instrument_id r)" by simp
    then have "x \<in> set ?l" using x by (auto simp: result_key_def)
    then have "x \<in> set (r # zs)" unfolding l(1) using l(2) x(2) by auto
    moreover have "sorted (map result_order (rev ?l))" by (simp only: rev_rev_ident sorted_sort_key)
    ultimately show ?thesis unfolding l(1) by (auto simp: sorted_append)
  qed
  have "set (first_per_key result_key [] ?l) \<subseteq> set (db_quality db)"
    using set_first_per_key [of result_key "[]" ?l] by auto
  then show ?thesis
    unfolding latest_by_instrument_def using latest distinct_first_per_key [of result_key "[]" ?l]
      keys_first_per_key [of result_key "[]" ?l] by auto
qed

text \<open>
  Quality evidence is reproducible: the dates for which a valid FX value was known at an instant
  do not change by any later retrieval.
\<close>

theorem fx_evidence_reproducible:
  assumes "db_fx db = empty_tables" "quality_utc as_of = Inr ts"
    "\<And>c. c \<in> set later \<Longrightarrow> ts < fc_retrieved_at (cl_candidate c)"
  shows "\<exists>ds ds'. valid_fx_dates sid s e as_of (fx_replay sha calls db) = Inr ds \<and>
    valid_fx_dates sid s e as_of (fx_replay sha later (fx_replay sha calls db)) = Inr ds' \<and> set ds' = set ds"
proof -
  have "past_view ts (db_fx (fx_replay sha later (fx_replay sha calls db))) = past_view ts (db_fx (fx_replay sha calls db))"
    by (rule fx_past_view [OF fx_replay_ok [OF assms(1)]]) (rule assms(3))
  from valid_dates_view [OF this] show ?thesis using assms(2) by (simp add: valid_fx_dates_def)
qed

lemma evaluation_utc_ok: "valid_instant ts \<Longrightarrow> evaluation_utc (utc_datetime ts) = Inr ts"
  by (simp add: evaluation_utc_def)

lemma sample_covers: "calendar_covers sample_calendar 738000" "calendar_covers sample_calendar 738006"
  by (simp_all add: calendar_covers_def in_period_def sample_calendar_def)

lemma quality_complete_iff_witness:
  "\<exists>a. evaluate sample_zones sample_expected (Some sample_calendar) 7 738000 738006 (utc_datetime 63763500000000000)
     [738000, 738004, 738005, 738006] False None = Inr a \<and>
     (qa_state a = QComplete \<longleftrightarrow> (\<exists>xs. generate_expectations sample_zones sample_expected sample_calendar 738000 738006 = Inr xs \<and>
        (\<exists>x\<in>set xs. eo_due_at x \<le> 63763500000000000) \<and>
        (\<forall>x\<in>set xs. eo_due_at x \<le> 63763500000000000 \<longrightarrow> eo_date x \<in> set [738000, 738004, 738005, 738006])))"
proof -
  have "is_ok (evaluate sample_zones sample_expected (Some sample_calendar) 7 738000 738006 (utc_datetime 63763500000000000)
     [738000, 738004, 738005, 738006] False None)" by code_simp
  then obtain a where a: "evaluate sample_zones sample_expected (Some sample_calendar) 7 738000 738006
      (utc_datetime 63763500000000000) [738000, 738004, 738005, 738006] False None = Inr a" by (auto simp: is_ok_iff)
  have u: "evaluation_utc (utc_datetime 63763500000000000) = Inr 63763500000000000" by code_simp
  show ?thesis using quality_complete_iff [OF a u sample_covers] a by blast
qed

lemma quality_blame_needs_evidence_witness:
  "\<exists>a. evaluate sample_zones sample_expected (Some sample_calendar) 7 738000 738006 (utc_datetime 63763900000000000)
     [738000] True None = Inr a \<and> qa_state a = QIncomplete \<and>
     (\<exists>xs. generate_expectations sample_zones sample_expected sample_calendar 738000 738006 = Inr xs)"
proof -
  have "rmap qa_state (evaluate sample_zones sample_expected (Some sample_calendar) 7 738000 738006
     (utc_datetime 63763900000000000) [738000] True None) = Inr QIncomplete" by code_simp
  then obtain a where a: "evaluate sample_zones sample_expected (Some sample_calendar) 7 738000 738006
      (utc_datetime 63763900000000000) [738000] True None = Inr a" "qa_state a = QIncomplete" by (auto simp: rmap_eq_Inr)
  show ?thesis using quality_blame_needs_evidence [OF a(1)] a by auto
qed

lemma fx_evidence_reproducible_witness:
  "\<exists>ds. valid_fx_dates 7 738000 738000 (utc_datetime 63763200000000000)
      (fx_replay sample_sha [sample_call 63763300000000000] (fx_replay sample_sha [sample_call 63763200000000000] sample_db)) = Inr ds"
proof -
  have "quality_utc (utc_datetime 63763200000000000) = Inr 63763200000000000" by code_simp
  from fx_evidence_reproducible [OF _ this, of sample_db "[sample_call 63763300000000000]" 7 738000 738000 sample_sha
      "[sample_call 63763200000000000]"]
  show ?thesis by (auto simp: sample_call_def sample_db_def empty_database_def)
qed

text \<open>Two results of one rule: only the later one is listed.\<close>

definition sample_result :: "uuid \<Rightarrow> instant \<Rightarrow> quality_result" where
  "sample_result i ts = \<lparr>ql_id = i, ql_run = None, ql_instrument_type = ''fx_pair'', ql_instrument_id = 7,
     ql_rule_code = ''completeness'', ql_quality_state = ''complete'', ql_severity = ''info'', ql_affected_start = 738000,
     ql_affected_end = 738006, ql_evaluated_at = ts, ql_details = []\<rparr>"

lemma latest_results_are_latest_witness:
  "\<exists>r. latest_by_instrument (Some ''fx_pair'') None (empty_database\<lparr>db_quality := [sample_result 1 5, sample_result 2 9, sample_result 3 7]\<rparr>)
     = [r] \<and> result_order (sample_result 1 5) \<le> result_order r \<and> ql_id r = 2"
proof -
  let ?db = "empty_database\<lparr>db_quality := [sample_result 1 5, sample_result 2 9, sample_result 3 7]\<rparr>"
  have "map ql_id (latest_by_instrument (Some ''fx_pair'') None ?db) = [2]" by code_simp
  then obtain r where r: "latest_by_instrument (Some ''fx_pair'') None ?db = [r]" "ql_id r = 2" by (auto simp: map_eq_Cons_conv)
  note latest = latest_results_are_latest [of "Some ''fx_pair''" None ?db, THEN conjunct2, THEN conjunct2, THEN bspec, of r]
  have "r \<in> set (db_quality ?db)" using latest r(1) by simp
  then have "result_key (sample_result 1 5) = result_key r" by (auto simp: result_key_def sample_result_def)
  moreover have "sample_result 1 5 \<in> set (db_quality ?db)" by simp
  ultimately have "result_order (sample_result 1 5) \<le> result_order r" using latest r(1) by (metis list.set_intros(1))
  then show ?thesis using r by blast
qed

end
