(* ===== verification/Ingestion_Runs.thy ===== *)
theory Ingestion_Runs
  imports Database_Models Reference_Config
begin

text \<open>
  Runs and scopes: \<open>app/repositories/ingestion_runs.py\<close> (the two repositories),
  \<open>app/application/ingestion/scope_coordinator.py\<close> (overlap claims),
  \<open>app/application/ingestion/commands.py\<close> (start commands) and
  \<open>app/application/ingestion/run_manager.py\<close> (creation, derived status, recovery).  Every flush
  enforces the constraints of the two tables.  Row locks and the advisory lock are not modelled:
  an operation runs in one transaction.
\<close>

section \<open>Repositories\<close>

definition active_scope_statuses :: "string list" where
  "active_scope_statuses = [''pending'', ''running'']"

definition terminal_run_statuses :: "string list" where
  "terminal_run_statuses = [''succeeded'', ''partially_succeeded'', ''failed'']"

definition ingestion_checks :: "database \<Rightarrow> checks" where
  "ingestion_checks db =
     concat (map ingestion_run_checks (db_runs db)) @ concat (map ingestion_scope_checks (db_scopes db)) @
     [(''ingestion_run_pkey'', distinct (map run_id (db_runs db))),
      (''ingestion_scope_pkey'', distinct (map sc_id (db_scopes db))),
      (''uq_ingestion_scope_attempt'', distinct (map scope_key (db_scopes db)))]"

definition flush_ingestion :: "database \<Rightarrow> database res" where
  "flush_ingestion db = rmap (\<lambda>_. db) (enforce (ingestion_checks db))"

definition run_utc :: "datetime \<Rightarrow> instant res" where
  "run_utc t = to_utc (ValueError ''timestamp must be timezone-aware'') t"

definition run_get :: "uuid \<Rightarrow> database \<Rightarrow> ingestion_run option" where
  "run_get i db = find (\<lambda>r. run_id r = i) (db_runs db)"

definition update_run :: "uuid \<Rightarrow> (ingestion_run \<Rightarrow> ingestion_run) \<Rightarrow> database \<Rightarrow> database" where
  "update_run i f db = db\<lparr>db_runs := update_where (\<lambda>r. run_id r = i) f (db_runs db)\<rparr>"

definition run_add :: "ingestion_run \<Rightarrow> database \<Rightarrow> database res" where
  "run_add r db = flush_ingestion (db\<lparr>db_runs := db_runs db @ [r]\<rparr>)"

text \<open>The oldest pending run, by request time and id, becomes running.\<close>

definition next_pending :: "database \<Rightarrow> ingestion_run option" where
  "next_pending db =
     (case sort_key (\<lambda>r. (run_requested_at r, unat (run_id r)))
             (filter (\<lambda>r. run_status r = ''pending'') (db_runs db)) of
        [] \<Rightarrow> None | r # _ \<Rightarrow> Some r)"

definition claim_next :: "datetime \<Rightarrow> database \<Rightarrow> (uuid option \<times> database) res" where
  "claim_next now db =
     (case next_pending db of
        None \<Rightarrow> Inr (None, db)
      | Some r \<Rightarrow>
          rbind (run_utc now) (\<lambda>ts.
          rmap (Pair (Some (run_id r)))
            (flush_ingestion (update_run (run_id r)
               (\<lambda>x. x\<lparr>run_status := ''running'', run_started_at := Some ts, run_heartbeat_at := Some ts\<rparr>) db))))"

definition running_run :: "uuid \<Rightarrow> database \<Rightarrow> ingestion_run res" where
  "running_run i db =
     (case run_get i db of
        None \<Rightarrow> Inl (ValueError ''run is not running'')
      | Some r \<Rightarrow> (if run_status r \<noteq> ''running'' then Inl (ValueError ''run is not running'') else Inr r))"

definition heartbeat :: "uuid \<Rightarrow> datetime \<Rightarrow> database \<Rightarrow> database res" where
  "heartbeat i now db =
     rbind (running_run i db) (\<lambda>r.
     rbind (run_utc now) (\<lambda>ts.
     flush_ingestion (update_run i (\<lambda>x. x\<lparr>run_heartbeat_at := Some ts\<rparr>) db)))"

definition add_counts :: "counters \<Rightarrow> counters \<Rightarrow> counters" where
  "add_counts a b = \<lparr>ct_fetched = ct_fetched a + ct_fetched b, ct_inserted = ct_inserted a + ct_inserted b,
     ct_unchanged = ct_unchanged a + ct_unchanged b, ct_revised = ct_revised a + ct_revised b,
     ct_quarantined = ct_quarantined a + ct_quarantined b, ct_failed = ct_failed a + ct_failed b\<rparr>"

definition sum_counts :: "counters list \<Rightarrow> counters" where
  "sum_counts cs = foldr add_counts cs empty_counts"

definition scopes_of :: "uuid \<Rightarrow> database \<Rightarrow> ingestion_scope list" where
  "scopes_of i db = filter (\<lambda>s. sc_run s = i) (db_scopes db)"

definition scope_totals :: "uuid \<Rightarrow> database \<Rightarrow> counters" where
  "scope_totals i db = sum_counts (map sc_counts (scopes_of i db))"

subsection \<open>Redaction\<close>

text \<open>
  \<open>_sanitize\<close>: line feeds become spaces, URLs and the values after a credential word are cut out,
  and the text is cut to 1000 characters.  \<open>match_url\<close> is the pattern \<open>https?://\S+\<close> at the start
  of a text (the rest after the match); \<open>match_secret\<close> is
  \<open>(word)\s*[:=]\s*\S+\<close>, the word as written and the rest.  \<open>\s\<close> is \<open>is_space\<close>.
\<close>

definition drop_nonspace :: "string \<Rightarrow> string" where
  "drop_nonspace s = dropWhile (\<lambda>c. \<not> is_space c) s"

definition skip_prefix :: "string \<Rightarrow> string \<Rightarrow> string option" where
  "skip_prefix p s = (if str_lower (take (length p) s) = p \<and> length p \<le> length s then Some (drop (length p) s) else None)"

definition match_url :: "string \<Rightarrow> string option" where
  "match_url s =
     (case (case skip_prefix ''https://'' s of Some r \<Rightarrow> Some r | None \<Rightarrow> skip_prefix ''http://'' s) of
        None \<Rightarrow> None
      | Some r \<Rightarrow> (if r = [] \<or> is_space (hd r) then None else Some (drop_nonspace r)))"

definition secret_words :: "string list" where
  "secret_words = [''authorization'', ''cookie'', ''credential'', ''password'', ''secret'', ''token'',
     ''apikey'', ''api_key'', ''api-key'']"

fun first_match :: "(string \<times> string \<Rightarrow> 'b option) \<Rightarrow> string \<Rightarrow> string list \<Rightarrow> 'b option" where
  "first_match k s [] = None"
| "first_match k s (w # ws) =
     (case skip_prefix w s of
        None \<Rightarrow> first_match k s ws
      | Some r \<Rightarrow> (case k (take (length w) s, r) of None \<Rightarrow> first_match k s ws | Some x \<Rightarrow> Some x))"

definition after_separator :: "string \<Rightarrow> string option" where
  "after_separator r =
     (case dropWhile is_space r of
        [] \<Rightarrow> None
      | c # r' \<Rightarrow>
          (if c = CHR '':'' \<or> c = CHR ''=''
           then (case dropWhile is_space r' of [] \<Rightarrow> None | v \<Rightarrow> Some (drop_nonspace v))
           else None))"

definition match_secret :: "string \<Rightarrow> (string \<times> string) option" where
  "match_secret s = first_match (\<lambda>(w, r). map_option (Pair w) (after_separator r)) s secret_words"

lemma skip_prefix_length: "skip_prefix p s = Some r \<Longrightarrow> length r + length p = length s"
  by (auto simp: skip_prefix_def split: if_splits)

lemma length_dropWhile_le': "length (dropWhile P s) \<le> length s"
  by (rule length_dropWhile_le)

lemma match_url_length: "match_url s = Some r \<Longrightarrow> length r < length s"
proof -
  assume m: "match_url s = Some r"
  then obtain u where u: "skip_prefix ''https://'' s = Some u \<or> skip_prefix ''http://'' s = Some u" and r: "r = drop_nonspace u"
    by (auto simp: match_url_def split: option.splits if_splits)
  have "length u < length s" using u skip_prefix_length by fastforce
  moreover have "length r \<le> length u" unfolding r drop_nonspace_def by (rule length_dropWhile_le)
  ultimately show ?thesis by simp
qed

lemma after_separator_length: "after_separator r = Some t \<Longrightarrow> length t < length r"
proof -
  assume a: "after_separator r = Some t"
  then obtain c r' where r': "dropWhile is_space r = c # r'" "t = drop_nonspace (dropWhile is_space r')"
    by (auto simp: after_separator_def split: list.splits if_splits)
  have "length t \<le> length r'"
    unfolding r'(2) drop_nonspace_def using length_dropWhile_le le_trans by blast
  moreover have "length (c # r') \<le> length r" using r'(1) length_dropWhile_le by metis
  ultimately show ?thesis by simp
qed

lemma match_secret_length: "match_secret s = Some (w, r) \<Longrightarrow> length r < length s"
proof -
  have "first_match (\<lambda>(w, r). map_option (Pair w) (after_separator r)) s ws = Some (w, r) \<Longrightarrow> length r < length s" for ws
  proof (induction ws)
    case (Cons x xs)
    then show ?case
      using skip_prefix_length after_separator_length
      by (auto split: option.splits) (metis add_lessD1 less_trans_Suc order_less_le_trans not_add_less1 not_less_eq
          le_add1 linorder_not_less)
  qed simp
  then show "match_secret s = Some (w, r) \<Longrightarrow> length r < length s" by (simp add: match_secret_def)
qed

function redact_urls :: "string \<Rightarrow> string" where
  "redact_urls s =
     (case match_url s of
        Some r \<Rightarrow> ''[redacted-url]'' @ redact_urls r
      | None \<Rightarrow> (case s of [] \<Rightarrow> [] | c # cs \<Rightarrow> c # redact_urls cs))"
  by auto

termination redact_urls
  by (relation "measure length") (auto dest: match_url_length)

function redact_secrets :: "string \<Rightarrow> string" where
  "redact_secrets s =
     (case match_secret s of
        Some (w, r) \<Rightarrow> w @ ''=[redacted]'' @ redact_secrets r
      | None \<Rightarrow> (case s of [] \<Rightarrow> [] | c # cs \<Rightarrow> c # redact_secrets cs))"
  by auto

termination redact_secrets
  by (relation "measure length") (auto dest: match_secret_length)

declare redact_urls.simps [simp del] redact_secrets.simps [simp del]

definition sanitize :: "string option \<Rightarrow> string option" where
  "sanitize v = (case v of None \<Rightarrow> None
     | Some s \<Rightarrow> Some (take 1000 (redact_secrets (redact_urls (replace_char (CHR 0x0A) '' '' s)))))"

definition sanitize_mapping :: "pyval dict option \<Rightarrow> pyval dict option" where
  "sanitize_mapping v = map_option (filter (\<lambda>(k, x).
     \<not> contains_any [''authorization'', ''cookie'', ''token'', ''password'', ''secret'', ''url''] (str_lower k))) v"

subsection \<open>Finalising runs; scopes\<close>

definition run_finalize ::
  "uuid \<Rightarrow> string \<Rightarrow> datetime \<Rightarrow> string option \<Rightarrow> string option \<Rightarrow> database \<Rightarrow> database res" where
  "run_finalize i status now error_code error_summary db =
     rbind (rguard (status \<in> set terminal_run_statuses) (ValueError ''invalid terminal run status'')) (\<lambda>_.
     rbind (running_run i db) (\<lambda>r.
     rbind (run_utc now) (\<lambda>ts.
     flush_ingestion (update_run i
       (\<lambda>x. x\<lparr>run_counts := scope_totals i db, run_status := status, run_finished_at := Some ts,
              run_heartbeat_at := Some ts, run_error_code := error_code,
              run_error_summary := sanitize error_summary\<rparr>) db))))"

definition scope_get :: "uuid \<Rightarrow> database \<Rightarrow> ingestion_scope option" where
  "scope_get i db = find (\<lambda>s. sc_id s = i) (db_scopes db)"

definition update_scope :: "uuid \<Rightarrow> (ingestion_scope \<Rightarrow> ingestion_scope) \<Rightarrow> database \<Rightarrow> database" where
  "update_scope i f db = db\<lparr>db_scopes := update_where (\<lambda>s. sc_id s = i) f (db_scopes db)\<rparr>"

definition scope_add :: "ingestion_scope \<Rightarrow> database \<Rightarrow> database res" where
  "scope_add s db = flush_ingestion (db\<lparr>db_scopes := db_scopes db @ [s]\<rparr>)"

definition list_for_run :: "uuid \<Rightarrow> database \<Rightarrow> ingestion_scope list" where
  "list_for_run i db = sort_key (\<lambda>s. unat (sc_id s)) (scopes_of i db)"

definition scope_start :: "uuid \<Rightarrow> datetime \<Rightarrow> database \<Rightarrow> database res" where
  "scope_start i now db =
     (case scope_get i db of
        None \<Rightarrow> Inl (ValueError ''scope is not pending'')
      | Some s \<Rightarrow>
          (if sc_status s \<noteq> ''pending'' then Inl (ValueError ''scope is not pending'')
           else rbind (run_utc now) (\<lambda>ts.
             flush_ingestion (update_scope i (\<lambda>x. x\<lparr>sc_status := ''running'', sc_started_at := Some ts\<rparr>) db))))"

record completion =
  cp_error_code :: "string option"
  cp_error_details :: "pyval dict option"
  cp_retry_count :: int
  cp_http_status :: "int option"

definition plain_completion :: completion where
  "plain_completion = \<lparr>cp_error_code = None, cp_error_details = None, cp_retry_count = 0, cp_http_status = None\<rparr>"

definition scope_complete ::
  "uuid \<Rightarrow> string \<Rightarrow> datetime \<Rightarrow> counters \<Rightarrow> completion \<Rightarrow> database \<Rightarrow> database res" where
  "scope_complete i status now counts extra db =
     rbind (rguard (status \<in> {''succeeded'', ''failed'', ''skipped_conflict''})
              (ValueError ''invalid terminal scope status'')) (\<lambda>_.
     (case scope_get i db of
        None \<Rightarrow> Inl (ValueError ''scope is not active'')
      | Some s \<Rightarrow>
          rbind (rguard (sc_status s \<in> set active_scope_statuses) (ValueError ''scope is not active'')) (\<lambda>_.
          rbind (rguard (counters_ok counts) (ValueError ''scope counters cannot be negative'')) (\<lambda>_.
          rbind (run_utc now) (\<lambda>ts.
          flush_ingestion (update_scope i
            (\<lambda>x. x\<lparr>sc_counts := counts, sc_status := status, sc_finished_at := Some ts,
                   sc_retry_count := cp_retry_count extra, sc_last_http_status := cp_http_status extra,
                   sc_error_code := cp_error_code extra,
                   sc_error_details := sanitize_mapping (cp_error_details extra)\<rparr>) db))))))"

definition scope_overlaps :: "uuid \<Rightarrow> string \<Rightarrow> uuid \<Rightarrow> date \<Rightarrow> date \<Rightarrow> ingestion_scope \<Rightarrow> bool" where
  "scope_overlaps run kind series s e x \<longleftrightarrow>
     sc_run x \<noteq> run \<and> sc_type x = kind \<and> sc_series x = series \<and> sc_status x \<in> set active_scope_statuses \<and>
     sc_start x \<le> e \<and> sc_end x \<ge> s"

definition overlaps :: "uuid \<Rightarrow> string \<Rightarrow> uuid \<Rightarrow> date \<Rightarrow> date \<Rightarrow> database \<Rightarrow> bool" where
  "overlaps run kind series s e db = list_ex (scope_overlaps run kind series s e) (db_scopes db)"

section \<open>Scope coordination\<close>

datatype conflict_policy = Reject | Skip

record scope_claim =
  cl_acquired :: bool
  cl_reason :: "string option"

definition claim_scope ::
  "uuid \<Rightarrow> string \<Rightarrow> uuid \<Rightarrow> date \<Rightarrow> date \<Rightarrow> conflict_policy \<Rightarrow> database \<Rightarrow> scope_claim res" where
  "claim_scope run kind series s e policy db =
     (if \<not> overlaps run kind series s e db then Inr \<lparr>cl_acquired = True, cl_reason = None\<rparr>
      else if policy = Reject
      then Inl (ScopeConflictError ''an active ingestion scope overlaps the requested range'')
      else Inr \<lparr>cl_acquired = False, cl_reason = Some ''OVERLAPPING_ACTIVE_SCOPE''\<rparr>)"

section \<open>Start commands\<close>

datatype provider_code = BankOfCanada | Bis

datatype dataset_code = ValetDailyFx | BisPolicyRatesDaily

datatype trigger_type = Scheduled | Manual | Backfill | Retry

fun provider_value :: "provider_code \<Rightarrow> string" where
  "provider_value BankOfCanada = ''bank_of_canada''"
| "provider_value Bis = ''bis''"

fun dataset_value :: "dataset_code \<Rightarrow> string" where
  "dataset_value ValetDailyFx = ''valet_daily_fx''"
| "dataset_value BisPolicyRatesDaily = ''bis_policy_rates_daily''"

fun trigger_value :: "trigger_type \<Rightarrow> string" where
  "trigger_value Scheduled = ''scheduled''"
| "trigger_value Manual = ''manual''"
| "trigger_value Backfill = ''backfill''"
| "trigger_value Retry = ''retry''"

fun provider_dataset_code :: "provider_code \<Rightarrow> dataset_code" where
  "provider_dataset_code BankOfCanada = ValetDailyFx"
| "provider_dataset_code Bis = BisPolicyRatesDaily"

record start_command =
  cm_provider :: provider_code
  cm_dataset :: dataset_code
  cm_trigger :: trigger_type
  cm_range :: date_range
  cm_requested :: "string list option"
  cm_parent :: "uuid option"

definition requested_list :: "start_command \<Rightarrow> string list" where
  "requested_list m = (case cm_requested m of None \<Rightarrow> [] | Some xs \<Rightarrow> xs)"

definition command_dataset_key :: "start_command \<Rightarrow> string" where
  "command_dataset_key m = provider_value (cm_provider m) @ '':'' @ dataset_value (cm_dataset m)"

definition available_series :: "string \<Rightarrow> reference_config \<Rightarrow> string list" where
  "available_series key c =
     map gf_stable_key (filter (\<lambda>x. gf_dataset x = key \<and> gf_enabled x) (cf_fx_series c)) @
     map gi_stable_key (filter (\<lambda>x. gi_dataset x = key \<and> gi_enabled x) (cf_rate_series c))"

definition validate_command :: "reference_config \<Rightarrow> start_command \<Rightarrow> unit res" where
  "validate_command c m =
     rbind (rguard (provider_dataset_code (cm_provider m) = cm_dataset m)
              (ValueError ''provider and dataset do not match'')) (\<lambda>_.
     rbind (assert_ingestion_allowed (command_dataset_key m) c) (\<lambda>_.
     rbind (next_item (\<lambda>d. dataset_key d = command_dataset_key m) (cf_datasets c)) (\<lambda>dataset.
     rbind (rguard (dr_end (cm_range m) - dr_start (cm_range m) + 1 \<le>
                      (case gd_settings dataset of Some s \<Rightarrow> gs_max_range_days s | None \<Rightarrow> 366))
              (ValueError ''requested date range exceeds configured maximum'')) (\<lambda>_.
     rbind (let unknown = filter (\<lambda>k. k \<notin> set (available_series (command_dataset_key m) c)) (requested_list m)
            in rguard (unknown = [])
                 (ValueError (''unknown or disabled requested series: '' @ join '', '' (sort (remdups unknown))))) (\<lambda>_.
     rbind (rguard (\<not> (cm_trigger m = Retry \<and> cm_parent m = None))
              (ValueError ''retry commands require parent_run_id'')) (\<lambda>_.
     rguard (\<not> (cm_trigger m \<noteq> Retry \<and> cm_parent m \<noteq> None))
       (ValueError ''parent_run_id is valid only for retries'')))))))"

section \<open>The run manager\<close>

record planned_scope =
  pl_type :: string
  pl_series :: uuid
  pl_stable_key :: string

text \<open>\<open>_planned\<close>: a dict built from rows keeps the last row of a key.\<close>

definition planned_scopes :: "uuid \<Rightarrow> string \<Rightarrow> reference_config \<Rightarrow> database \<Rightarrow> planned_scope list" where
  "planned_scopes dataset_id provider c db =
     (if provider = ''bank_of_canada''
      then let rows = map_of (rev (map (\<lambda>r. (fs_provider_symbol r, r))
             (filter (\<lambda>r. fs_provider_dataset_id r = dataset_id \<and> fs_is_active r) (db_fx_series db))))
           in concat (map (\<lambda>x. case (gf_enabled x, rows (gf_provider_symbol x)) of
                (True, Some r) \<Rightarrow> [\<lparr>pl_type = ''fx'', pl_series = fs_id r, pl_stable_key = gf_stable_key x\<rparr>]
              | _ \<Rightarrow> []) (cf_fx_series c))
      else let rows = map_of (rev (map (\<lambda>r. ((is_dataflow_key r, is_series_key r), r))
             (filter (\<lambda>r. is_provider_dataset_id r = dataset_id \<and> is_is_active r) (db_rate_series db))))
           in concat (map (\<lambda>x. case (gi_enabled x, rows (gi_dataflow_key x, gi_series_key x)) of
                (True, Some r) \<Rightarrow> [\<lparr>pl_type = ''policy_rate'', pl_series = is_id r, pl_stable_key = gi_stable_key x\<rparr>]
              | _ \<Rightarrow> []) (cf_rate_series c)))"

definition command_dataset :: "start_command \<Rightarrow> database \<Rightarrow> provider_dataset res" where
  "command_dataset m db =
     (case find (\<lambda>d. ds_provider_code d = provider_value (cm_provider m) \<and>
                      ds_dataset_code d = dataset_value (cm_dataset m)) (db_datasets db) of
        None \<Rightarrow> Inl (ValueError ''configured provider dataset is not synchronized and approved'')
      | Some d \<Rightarrow>
          (if \<not> ds_is_active d \<or> ds_approval_state d \<noteq> ''approved''
           then Inl (ValueError ''configured provider dataset is not synchronized and approved'') else Inr d))"

definition check_parent :: "start_command \<Rightarrow> provider_dataset \<Rightarrow> database \<Rightarrow> unit res" where
  "check_parent m d db =
     (case cm_parent m of
        None \<Rightarrow> Inr ()
      | Some i \<Rightarrow>
          (case run_get i db of
             None \<Rightarrow> Inl (ValueError ''retry parent must be an existing terminal run'')
           | Some p \<Rightarrow>
               rbind (rguard (run_status p \<in> set terminal_run_statuses)
                        (ValueError ''retry parent must be an existing terminal run'')) (\<lambda>_.
               rguard (run_dataset p = ds_id d)
                 (ValueError ''retry parent belongs to a different provider dataset''))))"

definition new_run :: "uuid \<Rightarrow> start_command \<Rightarrow> uuid \<Rightarrow> string \<Rightarrow> string \<Rightarrow> instant \<Rightarrow> ingestion_run" where
  "new_run i m dataset_id checksum code_version requested_at =
     \<lparr>run_id = i, run_parent = cm_parent m, run_trigger = trigger_value (cm_trigger m), run_dataset = dataset_id,
      run_start = dr_start (cm_range m), run_end = dr_end (cm_range m), run_status = ''pending'',
      run_config_checksum = checksum, run_code_version = code_version, run_requested_at = requested_at,
      run_started_at = None, run_finished_at = None, run_heartbeat_at = None, run_counts = empty_counts,
      run_error_code = None, run_error_summary = None\<rparr>"

definition new_scope :: "uuid \<Rightarrow> uuid \<Rightarrow> start_command \<Rightarrow> planned_scope \<Rightarrow> ingestion_scope" where
  "new_scope i run m p =
     \<lparr>sc_id = i, sc_run = run, sc_type = pl_type p, sc_series = pl_series p, sc_start = dr_start (cm_range m),
      sc_end = dr_end (cm_range m), sc_attempt = 1, sc_status = ''pending'', sc_started_at = None,
      sc_finished_at = None, sc_counts = empty_counts, sc_last_http_status = None, sc_retry_count = 0,
      sc_error_code = None, sc_error_details = None\<rparr>"

text \<open>
  \<open>RunManager.create\<close>.  \<open>fresh\<close> is the key of the run and \<open>fresh_scopes\<close> supplies the keys of its
  scopes, one per position; \<open>checksum\<close> is the configuration's.  \<open>requested_scopes\<close> is the planned list
  narrowed to the requested series, \<open>store_run\<close> the inserts of the run and of its scopes.
\<close>

definition requested_scopes :: "reference_config \<Rightarrow> start_command \<Rightarrow> uuid \<Rightarrow> database \<Rightarrow> planned_scope list" where
  "requested_scopes c m dataset_id db =
     filter (\<lambda>p. requested_list m = [] \<or> pl_stable_key p \<in> set (requested_list m))
       (planned_scopes dataset_id (provider_value (cm_provider m)) c db)"

definition store_run ::
  "ingestion_run \<Rightarrow> (nat \<Rightarrow> uuid) \<Rightarrow> start_command \<Rightarrow> planned_scope list \<Rightarrow> database \<Rightarrow> database res" where
  "store_run r fresh_scopes m planned db =
     rbind (run_add r db)
       (rfold (\<lambda>(n, p). scope_add (new_scope (fresh_scopes n) (run_id r) m p)) (enumerate 0 planned))"

definition run_create ::
  "uuid \<Rightarrow> (nat \<Rightarrow> uuid) \<Rightarrow> string \<Rightarrow> string \<Rightarrow> instant \<Rightarrow> reference_config \<Rightarrow> start_command \<Rightarrow> database \<Rightarrow>
     database res" where
  "run_create fresh fresh_scopes code_version checksum requested_at c m db =
     rbind (validate_command c m) (\<lambda>_.
     rbind (command_dataset m db) (\<lambda>d.
     rbind (check_parent m d db) (\<lambda>_.
     rbind (rguard (requested_scopes c m (ds_id d) db \<noteq> [])
              (ValueError ''ingestion command has no enabled synchronized series'')) (\<lambda>_.
     rbind (if cm_trigger m = Manual
            then each (\<lambda>p. rmap (\<lambda>_. ()) (claim_scope 0 (pl_type p) (pl_series p) (dr_start (cm_range m))
                   (dr_end (cm_range m)) Reject db)) (requested_scopes c m (ds_id d) db)
            else Inr ()) (\<lambda>_.
     store_run (new_run fresh m (ds_id d) checksum code_version requested_at) fresh_scopes m
       (requested_scopes c m (ds_id d) db) db)))))"

definition count_status :: "string \<Rightarrow> ingestion_scope list \<Rightarrow> nat" where
  "count_status st xs = length (filter (\<lambda>s. sc_status s = st) xs)"

definition derive_status :: "uuid \<Rightarrow> database \<Rightarrow> string res" where
  "derive_status i db =
     (let xs = list_for_run i db;
          successful = count_status ''succeeded'' xs > 0;
          failed = count_status ''failed'' xs > 0;
          skipped = count_status ''skipped_conflict'' xs > 0
      in if list_ex (\<lambda>s. sc_status s \<in> set active_scope_statuses) xs
         then Inl (ValueError ''cannot finalize a run with active scopes'')
         else if successful \<and> (failed \<or> skipped) then Inr ''partially_succeeded''
         else if failed \<or> (skipped \<and> \<not> successful) then Inr ''failed''
         else Inr ''succeeded'')"

text \<open>\<open>recover_expired\<close>: fail the active scopes of every run whose heartbeat is too old, then the run.\<close>

definition lease_expired :: completion where
  "lease_expired = \<lparr>cp_error_code = Some ''WORKER_LEASE_EXPIRED'',
     cp_error_details = Some [(''message'', PStr ''worker heartbeat lease expired'')], cp_retry_count = 0,
     cp_http_status = None\<rparr>"

definition recover_scope :: "datetime \<Rightarrow> ingestion_scope \<Rightarrow> database \<Rightarrow> database res" where
  "recover_scope now s db =
     (if sc_status s \<in> set active_scope_statuses
      then scope_complete (sc_id s) ''failed'' now
             ((sc_counts s)\<lparr>ct_failed := ct_failed (sc_counts s) + 1\<rparr>) lease_expired db
      else Inr db)"

definition recover_run :: "datetime \<Rightarrow> uuid \<Rightarrow> database \<Rightarrow> database res" where
  "recover_run now i db =
     rbind (rfold (recover_scope now) (list_for_run i db) db) (\<lambda>db1.
     rbind (derive_status i db1) (\<lambda>status.
     run_finalize i status now (Some ''WORKER_LEASE_EXPIRED'') (Some ''worker heartbeat lease expired'') db1))"

definition expired_runs :: "instant \<Rightarrow> database \<Rightarrow> uuid list" where
  "expired_runs before db = map run_id (filter (\<lambda>r. run_status r = ''running'' \<and>
     (case run_heartbeat_at r of None \<Rightarrow> False | Some h \<Rightarrow> h < before)) (db_runs db))"

definition recover_expired :: "instant \<Rightarrow> datetime \<Rightarrow> database \<Rightarrow> (uuid list \<times> database) res" where
  "recover_expired before now db =
     rmap (Pair (expired_runs before db)) (rfold (recover_run now) (expired_runs before db) db)"

end
