(* ===== verification/Run_Lifecycle.thy ===== *)
theory Run_Lifecycle
  imports Ingestion_Runs Transactions
begin

text \<open>
  The life of runs and scopes as a state machine.  An event is one transaction: creating a run,
  claiming the next one, a heartbeat, opening a scope, completing or failing it, finishing a run,
  recovering expired leases; the three opening, failing and finishing transactions are those of
  \<open>app/application/ingestion/orchestrator.py\<close>.  The invariant \<open>ledger_ok\<close> says that the table
  constraints hold, that running scopes of different runs never overlap, and that a terminal run
  has no active scope, the sum of its scopes' counters and the status they derive.
\<close>

section \<open>Steps of the orchestrator\<close>

text \<open>
  The transaction that opens a scope: the claim decides between skipping it (and returning) and
  starting it; a rejected claim raises.  The result says whether the scope was acquired.
\<close>

definition begin_scope :: "datetime \<Rightarrow> uuid \<Rightarrow> uuid \<Rightarrow> database \<Rightarrow> (bool \<times> database) res" where
  "begin_scope now run scope db =
     (case (run_get run db, scope_get scope db) of
        (Some r, Some s) \<Rightarrow>
          rbind (claim_scope (run_id r) (sc_type s) (sc_series s) (sc_start s) (sc_end s)
                   (if run_trigger r = ''manual'' then Reject else Skip) db) (\<lambda>claim.
          if \<not> cl_acquired claim
          then rmap (Pair False) (scope_complete (sc_id s) ''skipped_conflict'' now empty_counts
                 (plain_completion\<lparr>cp_error_code := cl_reason claim\<rparr>) db)
          else rmap (Pair True) (scope_start (sc_id s) now db))
      | _ \<Rightarrow> Inl (AssertionError []))"

text \<open>The transaction of the exception handler; \<open>name\<close> and \<open>message\<close> are the exception's.\<close>

definition fail_scope :: "datetime \<Rightarrow> uuid \<Rightarrow> string \<Rightarrow> string \<Rightarrow> database \<Rightarrow> database res" where
  "fail_scope now scope name message db =
     (case scope_get scope db of
        None \<Rightarrow> Inr db
      | Some s \<Rightarrow>
          (if sc_status s \<in> set active_scope_statuses
           then scope_complete scope ''failed'' now (empty_counts\<lparr>ct_failed := 1\<rparr>)
                  \<lparr>cp_error_code = Some (take 100 name), cp_error_details = Some [(''message'', PStr (take 500 message))],
                   cp_retry_count = 0, cp_http_status = None\<rparr> db
           else Inr db))"

definition finish_run :: "datetime \<Rightarrow> uuid \<Rightarrow> database \<Rightarrow> database res" where
  "finish_run now run db =
     rbind (derive_status run db) (\<lambda>status. run_finalize run status now None None db)"

section \<open>The ledger as a state machine\<close>

datatype ledger_event =
    EvCreate uuid "nat \<Rightarrow> uuid" string string instant reference_config start_command
  | EvClaim datetime
  | EvHeartbeat uuid datetime
  | EvBegin datetime uuid uuid
  | EvSucceed datetime uuid counters completion
  | EvFail datetime uuid string string
  | EvFinish datetime uuid
  | EvRecover instant datetime

fun ledger_step :: "ledger_event \<Rightarrow> database \<Rightarrow> database res" where
  "ledger_step (EvCreate i f code csum ts c m) db = run_create i f code csum ts c m db"
| "ledger_step (EvClaim now) db = rmap snd (claim_next now db)"
| "ledger_step (EvHeartbeat i now) db = heartbeat i now db"
| "ledger_step (EvBegin now r s) db =
     (if s \<in> sc_id ` set (list_for_run r db) then rmap snd (begin_scope now r s db) else Inr db)"
| "ledger_step (EvSucceed now s counts extra) db = scope_complete s ''succeeded'' now counts extra db"
| "ledger_step (EvFail now s name msg) db = fail_scope now s name msg db"
| "ledger_step (EvFinish now r) db = finish_run now r db"
| "ledger_step (EvRecover before now) db = rmap snd (recover_expired before now db)"

text \<open>
  \<open>run_next\<close> opens only scopes it listed for its run.  Each event is one transaction, kept or
  rolled back.
\<close>

fun ledger_run :: "ledger_event list \<Rightarrow> database \<Rightarrow> database" where
  "ledger_run [] db = db"
| "ledger_run (ev # evs) db = ledger_run evs (case ledger_step ev db of Inl e \<Rightarrow> db | Inr db' \<Rightarrow> db')"

section \<open>Invariant\<close>

definition is_terminal :: "ingestion_run \<Rightarrow> bool" where
  "is_terminal r \<longleftrightarrow> run_status r \<in> set terminal_run_statuses"

definition is_active :: "ingestion_scope \<Rightarrow> bool" where
  "is_active s \<longleftrightarrow> sc_status s \<in> set active_scope_statuses"

text \<open>The status a run derives from the scopes it has.\<close>

definition status_of :: "ingestion_scope list \<Rightarrow> string" where
  "status_of xs =
     (let ok = list_ex (\<lambda>s. sc_status s = ''succeeded'') xs;
          bad = list_ex (\<lambda>s. sc_status s = ''failed'') xs;
          skipped = list_ex (\<lambda>s. sc_status s = ''skipped_conflict'') xs
      in if ok \<and> (bad \<or> skipped) then ''partially_succeeded''
         else if bad \<or> skipped then ''failed'' else ''succeeded'')"

definition clash :: "ingestion_scope \<Rightarrow> ingestion_scope \<Rightarrow> bool" where
  "clash s x \<longleftrightarrow> sc_run s \<noteq> sc_run x \<and> sc_type s = sc_type x \<and> sc_series s = sc_series x \<and>
     sc_start s \<le> sc_end x \<and> sc_start x \<le> sc_end s"

definition exclusive :: "database \<Rightarrow> bool" where
  "exclusive db \<longleftrightarrow> (\<forall>s\<in>set (db_scopes db). \<forall>x\<in>set (db_scopes db).
     sc_status s = ''running'' \<longrightarrow> sc_status x = ''running'' \<longrightarrow> \<not> clash s x)"

definition closed_run :: "database \<Rightarrow> ingestion_run \<Rightarrow> bool" where
  "closed_run db r \<longleftrightarrow> (\<forall>s\<in>set (scopes_of (run_id r) db). \<not> is_active s) \<and>
     run_counts r = scope_totals (run_id r) db \<and> run_status r = status_of (scopes_of (run_id r) db)"

definition ledger_ok :: "database \<Rightarrow> bool" where
  "ledger_ok db \<longleftrightarrow> all_hold (ingestion_checks db) \<and> exclusive db \<and>
     (\<forall>r\<in>set (db_runs db). is_terminal r \<longrightarrow> closed_run db r)"

lemma flush_ingestion_ok: "flush_ingestion db = Inr db' \<longleftrightarrow> db' = db \<and> all_hold (ingestion_checks db)"
  by (auto simp: flush_ingestion_def rmap_eq_Inr enforce_ok)

lemma ingestion_checksD:
  assumes "all_hold (ingestion_checks db)"
  shows "r \<in> set (db_runs db) \<Longrightarrow> all_hold (ingestion_run_checks r)"
    "s \<in> set (db_scopes db) \<Longrightarrow> all_hold (ingestion_scope_checks s)"
    "distinct (map run_id (db_runs db))" "distinct (map sc_id (db_scopes db))"
    "distinct (map scope_key (db_scopes db))"
  using assms by (auto simp: ingestion_checks_def all_hold_def list_all_iff)

lemma ledger_okD:
  assumes "ledger_ok db"
  shows "all_hold (ingestion_checks db)" "exclusive db"
    "r \<in> set (db_runs db) \<Longrightarrow> is_terminal r \<Longrightarrow> closed_run db r"
  using assms by (auto simp: ledger_ok_def)

lemma unique_run:
  "ledger_ok db \<Longrightarrow> r \<in> set (db_runs db) \<Longrightarrow> x \<in> set (db_runs db) \<Longrightarrow> run_id r = run_id x \<Longrightarrow> r = x"
  using ingestion_checksD(3) [OF ledger_okD(1)] by (meson distinct_map inj_onD)

lemma unique_scope:
  "ledger_ok db \<Longrightarrow> s \<in> set (db_scopes db) \<Longrightarrow> x \<in> set (db_scopes db) \<Longrightarrow> sc_id s = sc_id x \<Longrightarrow> s = x"
  using ingestion_checksD(4) [OF ledger_okD(1)] by (meson distinct_map inj_onD)

lemma run_getD: "run_get i db = Some r \<Longrightarrow> r \<in> set (db_runs db) \<and> run_id r = i"
  by (auto simp: run_get_def find_Some_iff)

lemma scope_getD: "scope_get i db = Some s \<Longrightarrow> s \<in> set (db_scopes db) \<and> sc_id s = i"
  by (auto simp: scope_get_def find_Some_iff)

text \<open>Changing a run that is not terminal leaves the closed runs as they are.\<close>

lemma closed_run_runs: "db_scopes db' = db_scopes db \<Longrightarrow> closed_run db' r = closed_run db r"
  by (simp add: closed_run_def scopes_of_def scope_totals_def)

lemma update_run_ok:
  assumes ok: "ledger_ok db" and r: "r \<in> set (db_runs db)"
    and flush: "flush_ingestion (update_run (run_id r) f db) = Inr db'"
    and closed: "is_terminal (f r) \<Longrightarrow> closed_run db (f r)"
  shows "ledger_ok db'"
proof -
  have db': "db' = update_run (run_id r) f db" and checks: "all_hold (ingestion_checks db')"
    using flush by (auto simp: flush_ingestion_ok)
  have sc: "db_scopes db' = db_scopes db" by (simp add: db' update_run_def)
  have "closed_run db' x" if x: "x \<in> set (db_runs db')" "is_terminal x" for x
  proof -
    obtain y where y: "y \<in> set (db_runs db)" "x = (if run_id y = run_id r then f y else y)"
      using x by (auto simp: db' update_run_def set_update_where)
    show ?thesis
    proof (cases "run_id y = run_id r")
      case True
      then have "y = r" using unique_run [OF ok y(1) r] by simp
      then show ?thesis using y(2) x(2) closed closed_run_runs [OF sc] by simp
    next
      case False
      then show ?thesis using y x(2) ledger_okD(3) [OF ok] closed_run_runs [OF sc] by simp
    qed
  qed
  then show ?thesis using checks ledger_okD(2) [OF ok] sc by (simp add: ledger_ok_def exclusive_def)
qed

text \<open>Changing an active scope: its run is not terminal, so no closed run notices.\<close>

definition same_place :: "ingestion_scope \<Rightarrow> ingestion_scope \<Rightarrow> bool" where
  "same_place s x \<longleftrightarrow> sc_run s = sc_run x \<and> sc_type s = sc_type x \<and> sc_series s = sc_series x \<and>
     sc_start s = sc_start x \<and> sc_end s = sc_end x"

lemma update_scope_ok:
  assumes ok: "ledger_ok db" and s: "s \<in> set (db_scopes db)" "is_active s"
    and flush: "flush_ingestion (update_scope (sc_id s) f db) = Inr db'"
    and place: "same_place (f s) s"
    and free: "sc_status (f s) = ''running'' \<Longrightarrow> (\<forall>x\<in>set (db_scopes db). is_active x \<longrightarrow> \<not> clash s x)"
  shows "ledger_ok db'"
proof -
  have db': "db' = update_scope (sc_id s) f db" and checks: "all_hold (ingestion_checks db')"
    using flush by (auto simp: flush_ingestion_ok)
  have runs: "db_runs db' = db_runs db" by (simp add: db' update_scope_def)
  have scopes: "x = f s \<or> x \<in> set (db_scopes db)" if "x \<in> set (db_scopes db')" for x
    using that unique_scope [OF ok _ s(1)] unfolding db' update_scope_def by (auto simp: set_update_where split: if_splits)
  have "scopes_of (run_id r) db' = scopes_of (run_id r) db" if r: "r \<in> set (db_runs db)" "is_terminal r" for r
  proof -
    have ne: "sc_run s \<noteq> run_id r"
      using ledger_okD(3) [OF ok r] s by (auto simp: closed_run_def scopes_of_def)
    have "filter (\<lambda>x. sc_run x = run_id r) (update_where (\<lambda>x. sc_id x = sc_id s) f xs) =
        filter (\<lambda>x. sc_run x = run_id r) xs" if "set xs \<subseteq> set (db_scopes db)" for xs
      using that
    proof (induction xs)
      case (Cons x xs)
      have "x = s" if "sc_id x = sc_id s" using unique_scope [OF ok _ s(1)] that Cons.prems by simp
      then show ?case using Cons ne place by (auto simp: same_place_def)
    qed simp
    then show ?thesis by (simp add: scopes_of_def db' update_scope_def)
  qed
  then have "closed_run db' r" if "r \<in> set (db_runs db')" "is_terminal r" for r
    using that runs ledger_okD(3) [OF ok] by (simp add: closed_run_def scope_totals_def)
  moreover have "exclusive db'"
  proof -
    have old: "\<not> clash x y" if "x \<in> set (db_scopes db)" "y \<in> set (db_scopes db)" "sc_status x = ''running''"
      "sc_status y = ''running''" for x y
      using that ledger_okD(2) [OF ok] by (auto simp: exclusive_def)
    have run_active: "sc_status x = ''running'' \<Longrightarrow> is_active x" for x
      by (simp add: is_active_def active_scope_statuses_def)
    have new: "\<not> clash (f s) x \<and> \<not> clash x (f s)"
      if "x \<in> set (db_scopes db)" "sc_status (f s) = ''running''" "sc_status x = ''running''" for x
      using free [OF that(2)] that(1) run_active [OF that(3)] place by (auto simp: clash_def same_place_def)
    have self: "\<not> clash (f s) (f s)" by (simp add: clash_def)
    show ?thesis
      unfolding exclusive_def
    proof (intro ballI impI)
      fix x y
      assume xy: "x \<in> set (db_scopes db')" "y \<in> set (db_scopes db')" "sc_status x = ''running''" "sc_status y = ''running''"
      show "\<not> clash x y"
        using scopes [OF xy(1)] scopes [OF xy(2)]
        by (elim disjE) (simp_all add: self, (use new old xy in metis)+)
    qed
  qed
  ultimately show ?thesis using checks by (simp add: ledger_ok_def)
qed

section \<open>Every event preserves the invariant\<close>

lemma running_runD: "running_run i db = Inr r \<Longrightarrow> r \<in> set (db_runs db) \<and> run_id r = i \<and> run_status r = ''running''"
  by (auto simp: running_run_def dest: run_getD split: option.splits if_splits)

lemma status_not_terminal [simp]:
  "run_status r = ''running'' \<Longrightarrow> \<not> is_terminal r" "run_status r = ''pending'' \<Longrightarrow> \<not> is_terminal r"
  by (simp_all add: is_terminal_def terminal_run_statuses_def)

lemma next_pendingD: "next_pending db = Some r \<Longrightarrow> r \<in> set (db_runs db) \<and> run_status r = ''pending''"
proof -
  assume n: "next_pending db = Some r"
  let ?l = "sort_key (\<lambda>r. (run_requested_at r, unat (run_id r))) (filter (\<lambda>r. run_status r = ''pending'') (db_runs db))"
  obtain xs where "?l = r # xs" using n by (auto simp: next_pending_def split: list.splits)
  then have "r \<in> set ?l" by (simp only: list.set_intros)
  then show ?thesis by simp
qed

lemma claim_next_inv: "ledger_ok db \<Longrightarrow> claim_next now db = Inr (i, db') \<Longrightarrow> ledger_ok db'"
proof -
  assume ok: "ledger_ok db" and c: "claim_next now db = Inr (i, db')"
  show ?thesis
  proof (cases "next_pending db")
    case (Some r)
    then obtain ts where "flush_ingestion (update_run (run_id r)
        (\<lambda>x. x\<lparr>run_status := ''running'', run_started_at := Some ts, run_heartbeat_at := Some ts\<rparr>) db) = Inr db'"
      using c by (auto simp: claim_next_def rbind_eq_Inr rmap_eq_Inr)
    from update_run_ok [OF ok _ this] show ?thesis using next_pendingD [OF Some] by simp
  qed (use ok c in \<open>simp add: claim_next_def\<close>)
qed

lemma heartbeat_inv: "ledger_ok db \<Longrightarrow> heartbeat i now db = Inr db' \<Longrightarrow> ledger_ok db'"
proof -
  assume ok: "ledger_ok db" and h: "heartbeat i now db = Inr db'"
  then obtain r ts where r: "running_run i db = Inr r"
    and f: "flush_ingestion (update_run i (\<lambda>x. x\<lparr>run_heartbeat_at := Some ts\<rparr>) db) = Inr db'"
    by (auto simp: heartbeat_def rbind_eq_Inr)
  note rr = running_runD [OF r]
  have "\<not> is_terminal (r\<lparr>run_heartbeat_at := Some ts\<rparr>)" using rr by simp
  then show ?thesis by (intro update_run_ok [OF ok, of r "\<lambda>x. x\<lparr>run_heartbeat_at := Some ts\<rparr>" db']) (use rr f in auto)
qed

lemma derive_status_eq:
  assumes "derive_status i db = Inr st"
  shows "(\<forall>s\<in>set (scopes_of i db). \<not> is_active s) \<and> st = status_of (scopes_of i db)"
proof -
  have c: "count_status st xs > 0 \<longleftrightarrow> list_ex (\<lambda>s. sc_status s = st) xs" for st xs
    by (auto simp: count_status_def list_ex_iff filter_empty_conv)
  have e: "list_ex P (list_for_run i db) = list_ex P (scopes_of i db)" for P
    by (simp add: list_for_run_def list_ex_iff)
  have na: "\<not> list_ex (\<lambda>s. sc_status s \<in> set active_scope_statuses) (scopes_of i db)"
    using assms by (auto simp: derive_status_def Let_def e)
  show ?thesis
    using assms na unfolding derive_status_def Let_def c e
    by (auto simp: status_of_def Let_def is_active_def list_ex_iff split: if_splits)
qed

lemma derive_status_ok:
  "(\<forall>s\<in>set (scopes_of i db). \<not> is_active s) \<Longrightarrow> is_ok (derive_status i db)"
  by (auto simp: derive_status_def Let_def list_ex_iff is_active_def list_for_run_def)

lemma run_finalize_inv:
  assumes ok: "ledger_ok db" and f: "run_finalize i st now code msg db = Inr db'"
    and d: "derive_status i db = Inr st"
  shows "ledger_ok db'"
proof -
  obtain r ts where r: "running_run i db = Inr r"
    and fl: "flush_ingestion (update_run i (\<lambda>x. x\<lparr>run_counts := scope_totals i db, run_status := st,
       run_finished_at := Some ts, run_heartbeat_at := Some ts, run_error_code := code,
       run_error_summary := sanitize msg\<rparr>) db) = Inr db'"
    using f by (auto simp: run_finalize_def rbind_eq_Inr)
  show ?thesis
    using update_run_ok [OF ok, of r _ db'] running_runD [OF r] fl derive_status_eq [OF d]
    by (auto simp: closed_run_def)
qed

lemma finish_run_inv: "ledger_ok db \<Longrightarrow> finish_run now i db = Inr db' \<Longrightarrow> ledger_ok db'"
  by (auto simp: finish_run_def rbind_eq_Inr intro: run_finalize_inv)

lemma scope_complete_cases:
  assumes "scope_complete i st now counts extra db = Inr db'"
  obtains s ts where "s \<in> set (db_scopes db)" "sc_id s = i" "is_active s" "counters_ok counts"
    "st \<in> {''succeeded'', ''failed'', ''skipped_conflict''}" "run_utc now = Inr ts"
    "flush_ingestion (update_scope i
            (\<lambda>x. x\<lparr>sc_counts := counts, sc_status := st, sc_finished_at := Some ts,
                   sc_retry_count := cp_retry_count extra, sc_last_http_status := cp_http_status extra,
                   sc_error_code := cp_error_code extra,
                   sc_error_details := sanitize_mapping (cp_error_details extra)\<rparr>) db) = Inr db'"
  using assms scope_getD
  by (auto simp: scope_complete_def rbind_eq_Inr is_active_def split: option.splits) blast+

lemma scope_complete_inv:
  assumes ok: "ledger_ok db" and c: "scope_complete i st now counts extra db = Inr db'"
  shows "ledger_ok db'"
  using c
proof (cases rule: scope_complete_cases)
  case (1 s ts)
  let ?f = "\<lambda>x. x\<lparr>sc_counts := counts, sc_status := st, sc_finished_at := Some ts,
                   sc_retry_count := cp_retry_count extra, sc_last_http_status := cp_http_status extra,
                   sc_error_code := cp_error_code extra,
                   sc_error_details := sanitize_mapping (cp_error_details extra)\<rparr>"
  show ?thesis
  proof (rule update_scope_ok [OF ok 1(1,3)])
    show "flush_ingestion (update_scope (sc_id s) ?f db) = Inr db'" using 1 by simp
    show "same_place (?f s) s" by (simp add: same_place_def)
    show "\<forall>x\<in>set (db_scopes db). is_active x \<longrightarrow> \<not> clash s x" if "sc_status (?f s) = ''running''"
      using that 1(5) by auto
  qed
qed

lemma fail_scope_inv: "ledger_ok db \<Longrightarrow> fail_scope now i name msg db = Inr db' \<Longrightarrow> ledger_ok db'"
  by (auto simp: fail_scope_def intro: scope_complete_inv split: option.splits if_splits)

lemma begin_scope_inv:
  assumes ok: "ledger_ok db" and b: "begin_scope now r i db = Inr (acquired, db')"
    and own: "\<And>s. scope_get i db = Some s \<Longrightarrow> sc_run s = r"
  shows "ledger_ok db'"
proof -
  obtain run s claim where s: "scope_get i db = Some s" and run: "run_get r db = Some run"
    and cl: "claim_scope (run_id run) (sc_type s) (sc_series s) (sc_start s) (sc_end s)
                   (if run_trigger run = ''manual'' then Reject else Skip) db = Inr claim"
    and rest: "(if \<not> cl_acquired claim
          then scope_complete (sc_id s) ''skipped_conflict'' now empty_counts
                 (plain_completion\<lparr>cp_error_code := cl_reason claim\<rparr>) db
          else scope_start (sc_id s) now db) = Inr db'"
    using b by (auto simp: begin_scope_def rbind_eq_Inr rmap_eq_Inr split: option.splits if_splits)
  show ?thesis
  proof (cases "cl_acquired claim")
    case False
    then show ?thesis using rest scope_complete_inv [OF ok] by simp
  next
    case True
    have free: "\<not> overlaps (run_id run) (sc_type s) (sc_series s) (sc_start s) (sc_end s) db"
      using True cl by (auto simp: claim_scope_def split: if_splits)
    note sd = scope_getD [OF s]
    obtain ts where st: "sc_status s = ''pending''"
      "flush_ingestion (update_scope (sc_id s) (\<lambda>x. x\<lparr>sc_status := ''running'', sc_started_at := Some ts\<rparr>) db) = Inr db'"
      using True rest s sd by (auto simp: scope_start_def rbind_eq_Inr split: option.splits if_splits)
    show ?thesis
      by (rule update_scope_ok [OF ok _ _ st(2)])
        (use sd st(1) free own [OF s] run_getD [OF run] in \<open>auto simp: is_active_def active_scope_statuses_def same_place_def clash_def
          overlaps_def list_ex_iff scope_overlaps_def\<close>)
  qed
qed

lemma recover_run_inv:
  assumes ok: "ledger_ok db" and r: "recover_run now i db = Inr db'"
  shows "ledger_ok db'"
proof -
  obtain db1 st where 1: "rfold (recover_scope now) (list_for_run i db) db = Inr db1"
    "derive_status i db1 = Inr st"
    "run_finalize i st now (Some ''WORKER_LEASE_EXPIRED'') (Some ''worker heartbeat lease expired'') db1 = Inr db'"
    using r by (auto simp: recover_run_def rbind_eq_Inr)
  have "ledger_ok db1"
    by (rule rfold_invariant [OF 1(1), of ledger_ok])
      (use ok scope_complete_inv in \<open>auto simp: recover_scope_def split: if_splits\<close>)
  then show ?thesis using run_finalize_inv 1(2,3) by blast
qed

lemma recover_expired_inv:
  assumes "ledger_ok db" "recover_expired before now db = Inr (ids, db')"
  shows "ledger_ok db'"
proof -
  have "rfold (recover_run now) (expired_runs before db) db = Inr db'"
    using assms(2) by (auto simp: recover_expired_def rmap_eq_Inr)
  then show ?thesis by (rule rfold_invariant [of _ _ _ _ ledger_ok]) (use assms(1) recover_run_inv in auto)
qed

text \<open>A new run is pending, and its scopes are added while it is.\<close>

lemma run_add_inv:
  assumes ok: "ledger_ok db" and a: "run_add r db = Inr db'" and p: "run_status r = ''pending''"
  shows "ledger_ok db' \<and> r \<in> set (db_runs db') \<and> db_scopes db' = db_scopes db"
proof -
  have db': "db' = db\<lparr>db_runs := db_runs db @ [r]\<rparr>" and c: "all_hold (ingestion_checks db')"
    using a by (auto simp: run_add_def flush_ingestion_ok)
  have "closed_run db' x" if "x \<in> set (db_runs db')" "is_terminal x" for x
    using that p ledger_okD(3) [OF ok] closed_run_runs [of db' db x] by (auto simp: db')
  then show ?thesis using c ledger_okD(2) [OF ok] by (simp add: ledger_ok_def exclusive_def db')
qed

lemma scope_add_inv:
  assumes ok: "ledger_ok db" and r: "r \<in> set (db_runs db)" "run_status r = ''pending''" "run_id r = sc_run s"
    and a: "scope_add s db = Inr db'" and p: "sc_status s = ''pending''"
  shows "ledger_ok db' \<and> db_runs db' = db_runs db"
proof -
  have db': "db' = db\<lparr>db_scopes := db_scopes db @ [s]\<rparr>" and c: "all_hold (ingestion_checks db')"
    using a by (auto simp: scope_add_def flush_ingestion_ok)
  have "closed_run db' x" if "x \<in> set (db_runs db')" "is_terminal x" for x
  proof -
    have x: "x \<in> set (db_runs db)" using that by (simp add: db')
    have "sc_run s \<noteq> run_id x"
    proof
      assume "sc_run s = run_id x"
      then have "x = r" using unique_run [OF ok x r(1)] r(3) by simp
      then show False using that(2) r(2) by simp
    qed
    then have "scopes_of (run_id x) db' = scopes_of (run_id x) db" by (simp add: scopes_of_def db')
    then show ?thesis using ledger_okD(3) [OF ok x that(2)] by (simp add: closed_run_def scope_totals_def)
  qed
  moreover have "exclusive db'" using ledger_okD(2) [OF ok] p by (auto simp: exclusive_def db')
  ultimately show ?thesis using c by (simp add: ledger_ok_def db')
qed

lemma store_run_inv:
  assumes ok: "ledger_ok db" and p: "run_status r = ''pending''" and c: "store_run r f m ps db = Inr db'"
  shows "ledger_ok db'"
proof -
  obtain db1 where 1: "run_add r db = Inr db1"
    "rfold (\<lambda>(n, p). scope_add (new_scope (f n) (run_id r) m p)) (enumerate 0 ps) db1 = Inr db'"
    using c by (auto simp: store_run_def rbind_eq_Inr)
  let ?I = "\<lambda>db. ledger_ok db \<and> r \<in> set (db_runs db)"
  have "?I db1" using run_add_inv [OF ok 1(1) p] by simp
  with 1(2) have "?I db'"
  proof (rule rfold_invariant [where ?I = ?I])
    fix x and s s' :: database
    assume I: "?I s" and step: "(case x of (n, p) \<Rightarrow> scope_add (new_scope (f n) (run_id r) m p)) s = Inr s'"
    obtain n q where x: "x = (n, q)" by (cases x)
    show "?I s'"
      using scope_add_inv [of s r "new_scope (f n) (run_id r) m q" s'] I step x p by (simp add: new_scope_def)
  qed
  then show ?thesis by simp
qed

lemma run_create_inv:
  assumes "ledger_ok db" "run_create i f code csum ts cfg m db = Inr db'"
  shows "ledger_ok db'"
proof -
  obtain d :: provider_dataset where "store_run (new_run i m (ds_id d) csum code ts) f m (requested_scopes cfg m (ds_id d) db) db = Inr db'"
    using assms(2) by (auto simp: run_create_def rbind_eq_Inr)
  then show ?thesis by (rule store_run_inv [OF assms(1), rotated]) (simp add: new_run_def)
qed

lemma ledger_step_inv: "ledger_ok db \<Longrightarrow> ledger_step ev db = Inr db' \<Longrightarrow> ledger_ok db'"
proof (cases ev)
  case (EvBegin now r s)
  assume ok: "ledger_ok db" and st: "ledger_step ev db = Inr db'"
  show ?thesis
  proof (cases "s \<in> sc_id ` set (list_for_run r db)")
    case True
    then obtain x where x: "x \<in> set (db_scopes db)" "sc_run x = r" "sc_id x = s"
      by (auto simp: list_for_run_def scopes_of_def)
    have "sc_run y = r" if "scope_get s db = Some y" for y
      using unique_scope [OF ok _ x(1)] scope_getD [OF that] x by metis
    then show ?thesis using begin_scope_inv [OF ok] st True EvBegin by (auto simp: rmap_eq_Inr)
  qed (use ok st EvBegin in simp)
qed (auto simp: rmap_eq_Inr intro: claim_next_inv heartbeat_inv scope_complete_inv fail_scope_inv finish_run_inv
    recover_expired_inv run_create_inv)

interpretation ledger: guarded_store ledger_ok ledger_step
  by unfold_locales (rule ledger_step_inv)

lemma ledger_run_fold: "ledger_run evs db = fold ledger.attempt evs db"
  by (induction evs arbitrary: db) (simp_all add: ledger.attempt_def)

text \<open>A database that holds reference data but no run yet.\<close>

definition no_runs :: "database \<Rightarrow> bool" where
  "no_runs db \<longleftrightarrow> db_runs db = [] \<and> db_scopes db = []"

lemma ledger_run_ok: "no_runs db \<Longrightarrow> ledger_ok (ledger_run evs db)"
  unfolding ledger_run_fold
  by (rule ledger.run_inv) (simp add: no_runs_def ledger_ok_def ingestion_checks_def exclusive_def)

subsection \<open>Progress\<close>

lemma run_utc_ok: "run_utc (utc_datetime ts) = Inr ts \<longleftrightarrow> valid_instant ts"
  by (simp add: run_utc_def to_utc_def utc_datetime_def)

lemma counters_ok_sum: "(\<And>c. c \<in> set cs \<Longrightarrow> counters_ok c) \<Longrightarrow> counters_ok (sum_counts cs)"
  by (induction cs) (auto simp: sum_counts_def counters_ok_def add_counts_def empty_counts_def)

lemma update_run_flush:
  assumes ok: "ledger_ok db" and r: "r \<in> set (db_runs db)" and f: "all_hold (ingestion_run_checks (f r))"
    and id: "\<And>x. run_id (f x) = run_id x"
  shows "flush_ingestion (update_run (run_id r) f db) = Inr (update_run (run_id r) f db)"
proof -
  have "all_hold (ingestion_run_checks x)" if "x \<in> set (db_runs (update_run (run_id r) f db))" for x
    using that f ingestion_checksD(1) [OF ledger_okD(1) [OF ok]] unique_run [OF ok _ r]
    by (auto simp: update_run_def set_update_where split: if_splits)
  moreover have "db_scopes (update_run (run_id r) f db) = db_scopes db" by (simp add: update_run_def)
  moreover have "map run_id (db_runs (update_run (run_id r) f db)) = map run_id (db_runs db)"
    by (simp add: update_run_def map_update_where id)
  ultimately show ?thesis
    using ledger_okD(1) [OF ok]
    by (auto simp: flush_ingestion_ok ingestion_checks_def all_hold_def list_all_iff)
qed

lemma run_finalize_succeeds:
  assumes ok: "ledger_ok db" and r: "run_get i db = Some r" "run_status r = ''running''"
    and st: "st \<in> set terminal_run_statuses" and now: "run_utc now = Inr ts"
  shows "\<exists>f. run_finalize i st now code msg db = Inr (update_run i f db) \<and>
    (\<forall>x. run_id (f x) = run_id x \<and> is_terminal (f x))"
proof -
  let ?f = "\<lambda>x. x\<lparr>run_counts := scope_totals i db, run_status := st, run_finished_at := Some ts,
       run_heartbeat_at := Some ts, run_error_code := code, run_error_summary := sanitize msg\<rparr>"
  have run: "running_run i db = Inr r" using r by (simp add: running_run_def)
  note rd = running_runD [OF run]
  have "counters_ok (scope_totals i db)"
    unfolding scope_totals_def
    by (rule counters_ok_sum)
      (use ingestion_checksD(2) [OF ledger_okD(1) [OF ok]] in \<open>auto simp: scopes_of_def ingestion_scope_checks_def\<close>)
  moreover have "all_hold (ingestion_run_checks r)" using ingestion_checksD(1) [OF ledger_okD(1) [OF ok]] rd by blast
  ultimately have "all_hold (ingestion_run_checks (?f r))"
    using r(2) st by (auto simp: ingestion_run_checks_def lifecycle_ok_def terminal_run_statuses_def)
  then have "flush_ingestion (update_run (run_id r) ?f db) = Inr (update_run (run_id r) ?f db)"
    by (intro update_run_flush [OF ok]) (use rd in auto)
  then show ?thesis
    by (intro exI [of _ ?f]) (use rd st run now in \<open>simp add: run_finalize_def is_terminal_def\<close>)
qed

text \<open>A running run without active scopes can always be finished: no constraint stands in the way.\<close>

lemma finish_run_succeeds:
  assumes ok: "ledger_ok db" and r: "run_get i db = Some r" "run_status r = ''running''"
    and sc: "\<forall>s\<in>set (scopes_of i db). \<not> is_active s" and now: "run_utc now = Inr ts"
  shows "is_ok (finish_run now i db)"
proof -
  obtain st where st: "derive_status i db = Inr st" using derive_status_ok [OF sc] by (auto simp: is_ok_iff)
  have "st \<in> set terminal_run_statuses"
    using derive_status_eq [OF st] by (auto simp: status_of_def terminal_run_statuses_def Let_def)
  from run_finalize_succeeds [OF ok r this now, of None None] st show ?thesis
    by (auto simp: finish_run_def)
qed

lemma scope_complete_succeeds:
  assumes ok: "ledger_ok db" and s: "s \<in> set (db_scopes db)" "is_active s"
    and st: "st \<in> {''succeeded'', ''failed'', ''skipped_conflict''}" and c: "counters_ok counts"
    and now: "run_utc now = Inr ts" and rc: "cp_retry_count extra \<ge> 0"
  shows "\<exists>f. scope_complete (sc_id s) st now counts extra db = Inr (update_scope (sc_id s) f db) \<and>
    (\<forall>x. sc_status (f x) = st)"
proof -
  let ?f = "\<lambda>x. x\<lparr>sc_counts := counts, sc_status := st, sc_finished_at := Some ts,
                   sc_retry_count := cp_retry_count extra, sc_last_http_status := cp_http_status extra,
                   sc_error_code := cp_error_code extra,
                   sc_error_details := sanitize_mapping (cp_error_details extra)\<rparr>"
  let ?db = "update_scope (sc_id s) ?f db"
  note chk = ingestion_checksD [OF ledger_okD(1) [OF ok]]
  have get: "scope_get (sc_id s) db = Some s"
    unfolding scope_get_def using find_by_id [OF chk(4) s(1)] by simp
  have "all_hold (ingestion_scope_checks (?f s))"
    using chk(2) [OF s(1)] st c rc by (auto simp: ingestion_scope_checks_def)
  then have "all_hold (ingestion_scope_checks x)" if "x \<in> set (db_scopes ?db)" for x
    using that chk(2) unique_scope [OF ok _ s(1)]
    by (auto simp: update_scope_def set_update_where split: if_splits)
  moreover have "map sc_id (db_scopes ?db) = map sc_id (db_scopes db)"
    "map scope_key (db_scopes ?db) = map scope_key (db_scopes db)" "db_runs ?db = db_runs db"
    by (simp_all add: update_scope_def map_update_where scope_key_def)
  ultimately have "flush_ingestion ?db = Inr ?db"
    using ledger_okD(1) [OF ok] by (auto simp: flush_ingestion_ok ingestion_checks_def all_hold_def list_all_iff)
  then show ?thesis
    by (intro exI [of _ ?f]) (use get s(2) st c now in \<open>auto simp: scope_complete_def is_active_def\<close>)
qed

text \<open>Failing the scopes of a list leaves none of them active and touches no other.\<close>

lemma recover_scopes:
  assumes "ledger_ok db" "distinct (map sc_id xs)" "set xs \<subseteq> set (db_scopes db)" "run_utc now = Inr ts"
  shows "\<exists>db'. rfold (recover_scope now) xs db = Inr db' \<and> ledger_ok db' \<and> db_runs db' = db_runs db \<and>
    (\<forall>y\<in>set (db_scopes db'). is_active y \<longrightarrow> y \<in> set (db_scopes db) \<and> y \<notin> set xs)"
  using assms
proof (induction xs arbitrary: db)
  case (Cons s xs)
  have "\<exists>db1. recover_scope now s db = Inr db1 \<and> db_runs db1 = db_runs db \<and> set xs \<subseteq> set (db_scopes db1) \<and>
      (\<forall>y\<in>set (db_scopes db1). is_active y \<longrightarrow> y \<in> set (db_scopes db) \<and> y \<noteq> s)"
  proof (cases "is_active s")
    case True
    have s: "s \<in> set (db_scopes db)" using Cons.prems by simp
    have "counters_ok (sc_counts s)"
      using ingestion_checksD(2) [OF ledger_okD(1) [OF Cons.prems(1)] s] by (simp add: ingestion_scope_checks_def)
    then have "counters_ok ((sc_counts s)\<lparr>ct_failed := ct_failed (sc_counts s) + 1\<rparr>)" by (simp add: counters_ok_def)
    from scope_complete_succeeds [OF Cons.prems(1) s True, of "''failed''" _ now ts lease_expired, OF _ this Cons.prems(4)]
    obtain f where f: "recover_scope now s db = Inr (update_scope (sc_id s) f db)" "\<forall>x. sc_status (f x) = ''failed''"
      using True by (auto simp: recover_scope_def is_active_def lease_expired_def)
    have "set xs \<subseteq> set (db_scopes (update_scope (sc_id s) f db))"
      using Cons.prems(2,3) by (force simp: update_scope_def set_update_where image_iff)
    moreover have "\<not> is_active (f x)" for x by (simp add: f(2) is_active_def active_scope_statuses_def)
    then have "y \<in> set (db_scopes db) \<and> y \<noteq> s" if "y \<in> set (db_scopes (update_scope (sc_id s) f db))" "is_active y" for y
      using that by (auto simp: update_scope_def set_update_where split: if_splits) metis
    ultimately show ?thesis using f(1) by (intro exI [of _ "update_scope (sc_id s) f db"]) (simp add: update_scope_def)
  qed (use Cons.prems in \<open>auto simp: recover_scope_def is_active_def\<close>)
  then obtain db1 where 1: "recover_scope now s db = Inr db1" "db_runs db1 = db_runs db" "set xs \<subseteq> set (db_scopes db1)"
      "\<forall>y\<in>set (db_scopes db1). is_active y \<longrightarrow> y \<in> set (db_scopes db) \<and> y \<noteq> s" by blast
  have "ledger_ok db1" using 1(1) Cons.prems(1) scope_complete_inv by (auto simp: recover_scope_def split: if_splits)
  from Cons.IH [OF this _ 1(3) Cons.prems(4)] Cons.prems(2)
  obtain db2 where "rfold (recover_scope now) xs db1 = Inr db2" "ledger_ok db2" "db_runs db2 = db_runs db1"
    "\<forall>y\<in>set (db_scopes db2). is_active y \<longrightarrow> y \<in> set (db_scopes db1) \<and> y \<notin> set xs" by auto
  with 1 show ?case by auto
qed simp

lemma recover_run_succeeds:
  assumes ok: "ledger_ok db" and r: "run_get i db = Some r" "run_status r = ''running''" and now: "run_utc now = Inr ts"
  obtains db' f where "recover_run now i db = Inr db'" "ledger_ok db'"
    "db_runs db' = update_where (\<lambda>x. run_id x = i) f (db_runs db)" "\<And>x. run_id (f x) = run_id x" "\<And>x. is_terminal (f x)"
proof -
  have d: "distinct (map sc_id (db_scopes db))" using ingestion_checksD(4) [OF ledger_okD(1) [OF ok]] .
  have "distinct (map sc_id (list_for_run i db))"
    using d by (simp add: list_for_run_def scopes_of_def distinct_map inj_on_def)
  moreover have "set (list_for_run i db) \<subseteq> set (db_scopes db)" by (auto simp: list_for_run_def scopes_of_def)
  ultimately obtain db1 where 1: "rfold (recover_scope now) (list_for_run i db) db = Inr db1" "ledger_ok db1"
    "db_runs db1 = db_runs db"
    "\<forall>y\<in>set (db_scopes db1). is_active y \<longrightarrow> y \<in> set (db_scopes db) \<and> y \<notin> set (list_for_run i db)"
    using recover_scopes [OF ok _ _ now] by blast
  have "\<forall>s\<in>set (scopes_of i db1). \<not> is_active s" using 1(4) by (auto simp: list_for_run_def scopes_of_def)
  then obtain st where st: "derive_status i db1 = Inr st" using derive_status_ok [of i db1] by (auto simp: is_ok_iff)
  have "st \<in> set terminal_run_statuses"
    using derive_status_eq [OF st] by (auto simp: status_of_def terminal_run_statuses_def Let_def)
  moreover have "run_get i db1 = Some r" using r(1) 1(3) by (simp add: run_get_def)
  ultimately obtain f where f: "run_finalize i st now (Some ''WORKER_LEASE_EXPIRED'')
       (Some ''worker heartbeat lease expired'') db1 = Inr (update_run i f db1)"
    "\<And>x. run_id (f x) = run_id x" "\<And>x. is_terminal (f x)"
    using run_finalize_succeeds [OF 1(2) _ r(2) _ now] by metis
  show thesis
  proof (rule that)
    show "recover_run now i db = Inr (update_run i f db1)" using 1(1) st f(1) by (simp add: recover_run_def)
    then show "ledger_ok (update_run i f db1)" by (rule recover_run_inv [OF ok])
    show "db_runs (update_run i f db1) = update_where (\<lambda>x. run_id x = i) f (db_runs db)"
      by (simp add: update_run_def 1(3))
  qed (use f in auto)
qed

lemma recover_runs:
  assumes "ledger_ok db" "distinct ids" "\<forall>i\<in>set ids. \<exists>r. run_get i db = Some r \<and> run_status r = ''running''"
    "run_utc now = Inr ts"
  shows "\<exists>db'. rfold (recover_run now) ids db = Inr db' \<and>
    (\<forall>y\<in>set (db_runs db'). run_id y \<in> set ids \<longrightarrow> is_terminal y) \<and>
    (\<forall>y. run_id y \<notin> set ids \<longrightarrow> y \<in> set (db_runs db') \<longleftrightarrow> y \<in> set (db_runs db))"
  using assms
proof (induction ids arbitrary: db)
  case (Cons i ids)
  obtain r where "run_get i db = Some r" "run_status r = ''running''" using Cons.prems(3) by auto
  from recover_run_succeeds [OF Cons.prems(1) this Cons.prems(4)]
  obtain db1 f where 1: "recover_run now i db = Inr db1" "ledger_ok db1"
    "db_runs db1 = update_where (\<lambda>x. run_id x = i) f (db_runs db)" "\<And>x. run_id (f x) = run_id x" "\<And>x. is_terminal (f x)"
    by blast
  have mem: "y \<in> set (db_runs db1) \<longleftrightarrow> y \<in> set (db_runs db)" if "run_id y \<noteq> i" for y
    using that 1(4) by (auto simp: 1(3) set_update_where image_iff split: if_splits)
  have get: "run_get j db1 = run_get j db" if "j \<noteq> i" for j
  proof -
    have "find (\<lambda>r. run_id r = j) (update_where (\<lambda>x. run_id x = i) f xs) = find (\<lambda>r. run_id r = j) xs" for xs
      by (induction xs) (use that 1(4) in auto)
    then show ?thesis by (simp add: run_get_def 1(3))
  qed
  have "\<forall>j\<in>set ids. \<exists>r. run_get j db1 = Some r \<and> run_status r = ''running''"
    using Cons.prems(2,3) get by (metis distinct.simps(2) list.set_intros(2))
  from Cons.IH [OF 1(2) _ this Cons.prems(4)] Cons.prems(2)
  obtain db2 where 2: "rfold (recover_run now) ids db1 = Inr db2"
    "\<forall>y\<in>set (db_runs db2). run_id y \<in> set ids \<longrightarrow> is_terminal y"
    "\<forall>y. run_id y \<notin> set ids \<longrightarrow> y \<in> set (db_runs db2) \<longleftrightarrow> y \<in> set (db_runs db1)" by auto
  have "is_terminal y" if "y \<in> set (db_runs db2)" "run_id y = i" for y
  proof -
    have "y \<in> set (db_runs db1)" using that 2(3) Cons.prems(2) by auto
    then have "\<exists>z. y = f z" using that(2) 1(4) by (auto simp: 1(3) set_update_where split: if_splits)
    then show ?thesis using 1(5) by metis
  qed
  then have "\<forall>y\<in>set (db_runs db2). run_id y \<in> set (i # ids) \<longrightarrow> is_terminal y" using 2(2) by auto
  moreover have "\<forall>y. run_id y \<notin> set (i # ids) \<longrightarrow> y \<in> set (db_runs db2) \<longleftrightarrow> y \<in> set (db_runs db)"
    using 2(3) mem by simp
  ultimately show ?case using 1(1) 2(1) by simp
qed auto

subsection \<open>Closed rows are never rewritten\<close>

definition frozen :: "database \<Rightarrow> database \<Rightarrow> bool" where
  "frozen db db' \<longleftrightarrow>
     (\<forall>s\<in>set (db_scopes db). \<not> is_active s \<longrightarrow> s \<in> set (db_scopes db')) \<and>
     (\<forall>r\<in>set (db_runs db). is_terminal r \<longrightarrow> r \<in> set (db_runs db'))"

lemma frozen_refl: "frozen db db"
  by (simp add: frozen_def)

lemma frozen_trans: "frozen a b \<Longrightarrow> frozen b c \<Longrightarrow> frozen a c"
  by (auto simp: frozen_def)

lemma frozen_update_run:
  assumes ok: "ledger_ok db" and r: "running_run i db = Inr r \<or> r \<in> set (db_runs db) \<and> run_id r = i \<and> \<not> is_terminal r"
  shows "frozen db (update_run i f db)"
proof -
  have r': "r \<in> set (db_runs db)" "run_id r = i" "\<not> is_terminal r" using r running_runD by auto
  have "run_id x \<noteq> i" if "x \<in> set (db_runs db)" "is_terminal x" for x
    using unique_run [OF ok that(1) r'(1)] that(2) r' by auto
  then show ?thesis by (fastforce simp: frozen_def update_run_def set_update_where image_iff)
qed

lemma frozen_update_scope:
  assumes ok: "ledger_ok db" and s: "s \<in> set (db_scopes db)" "sc_id s = i" "is_active s"
  shows "frozen db (update_scope i f db)"
proof -
  have "sc_id x \<noteq> i" if "x \<in> set (db_scopes db)" "\<not> is_active x" for x
    using unique_scope [OF ok that(1) s(1)] that(2) s by auto
  then show ?thesis by (fastforce simp: frozen_def update_scope_def set_update_where image_iff)
qed

lemma scope_complete_frozen:
  assumes ok: "ledger_ok db" and c: "scope_complete i st now counts extra db = Inr db'"
  shows "frozen db db'"
  using c by (cases rule: scope_complete_cases) (use frozen_update_scope [OF ok] in \<open>auto simp: flush_ingestion_ok\<close>)

lemma run_finalize_frozen: "ledger_ok db \<Longrightarrow> run_finalize i st now code msg db = Inr db' \<Longrightarrow> frozen db db'"
  by (auto simp: run_finalize_def rbind_eq_Inr flush_ingestion_ok intro: frozen_update_run)

lemma recover_run_frozen:
  assumes ok: "ledger_ok db" and r: "recover_run now i db = Inr db'"
  shows "frozen db db'"
proof -
  obtain db1 st where 1: "rfold (recover_scope now) (list_for_run i db) db = Inr db1"
    "run_finalize i st now (Some ''WORKER_LEASE_EXPIRED'') (Some ''worker heartbeat lease expired'') db1 = Inr db'"
    using r by (auto simp: recover_run_def rbind_eq_Inr)
  let ?I = "\<lambda>d. ledger_ok d \<and> frozen db d"
  have "?I db1"
  proof (rule rfold_invariant [where ?I = ?I, OF 1(1)])
    fix s d d' assume I: "?I d" and st: "recover_scope now s d = Inr d'"
    show "?I d'"
    proof (cases "sc_status s \<in> set active_scope_statuses")
      case True
      then have c: "scope_complete (sc_id s) ''failed'' now
          ((sc_counts s)\<lparr>ct_failed := ct_failed (sc_counts s) + 1\<rparr>) lease_expired d = Inr d'"
        using st by (simp add: recover_scope_def)
      show ?thesis using I scope_complete_inv [OF _ c] scope_complete_frozen [OF _ c] frozen_trans by blast
    qed (use I st in \<open>simp add: recover_scope_def\<close>)
  qed (use ok frozen_refl in simp)
  then show ?thesis using run_finalize_frozen [OF _ 1(2)] frozen_trans by blast
qed

lemma recover_expired_frozen:
  assumes "ledger_ok db" "recover_expired before now db = Inr (ids, db')"
  shows "frozen db db'"
proof -
  have 1: "rfold (recover_run now) (expired_runs before db) db = Inr db'"
    using assms(2) by (auto simp: recover_expired_def rmap_eq_Inr)
  let ?I = "\<lambda>d. ledger_ok d \<and> frozen db d"
  have "?I db'"
  proof (rule rfold_invariant [where ?I = ?I, OF 1])
    fix i d d' assume "?I d" and st: "recover_run now i d = Inr d'"
    then show "?I d'" using recover_run_inv [OF _ st] recover_run_frozen [OF _ st] frozen_trans by blast
  qed (use assms(1) frozen_refl in simp)
  then show ?thesis by simp
qed

lemma store_run_frozen: "store_run r f m ps db = Inr db' \<Longrightarrow> frozen db db'"
proof -
  assume "store_run r f m ps db = Inr db'"
  then obtain db1 where 1: "run_add r db = Inr db1"
    "rfold (\<lambda>(n, p). scope_add (new_scope (f n) (run_id r) m p)) (enumerate 0 ps) db1 = Inr db'"
    by (auto simp: store_run_def rbind_eq_Inr)
  have "frozen db db1" using 1(1) by (auto simp: run_add_def flush_ingestion_ok frozen_def)
  moreover have "frozen db1 db'"
    by (rule rfold_invariant [where ?I = "frozen db1", OF 1(2)])
      (auto simp: scope_add_def flush_ingestion_ok frozen_def)
  ultimately show ?thesis by (rule frozen_trans)
qed

lemma ledger_step_frozen: "ledger_ok db \<Longrightarrow> ledger_step ev db = Inr db' \<Longrightarrow> frozen db db'"
proof (cases ev)
  case (EvClaim now)
  assume ok: "ledger_ok db" and st: "ledger_step ev db = Inr db'"
  show ?thesis
  proof (cases "next_pending db")
    case (Some r)
    show ?thesis
      using st EvClaim Some next_pendingD [OF Some] frozen_update_run [OF ok, of "run_id r" r]
      by (auto simp: claim_next_def rmap_eq_Inr rbind_eq_Inr flush_ingestion_ok)
  qed (use st EvClaim frozen_refl in \<open>simp add: claim_next_def\<close>)
next
  case (EvBegin now r s)
  assume ok: "ledger_ok db" and st: "ledger_step ev db = Inr db'"
  have "frozen db d" if "scope_start s now db = Inr d" for d
    using that
    by (auto simp: scope_start_def rbind_eq_Inr flush_ingestion_ok is_active_def active_scope_statuses_def
        dest!: scope_getD intro!: frozen_update_scope [OF ok] split: option.splits if_splits)
  then show ?thesis
    using st EvBegin scope_complete_frozen [OF ok] frozen_refl scope_getD
    by (auto simp: begin_scope_def rbind_eq_Inr rmap_eq_Inr split: option.splits if_splits)
qed (auto simp: rmap_eq_Inr rbind_eq_Inr heartbeat_def finish_run_def fail_scope_def run_create_def flush_ingestion_ok
    intro: scope_complete_frozen run_finalize_frozen recover_expired_frozen store_run_frozen frozen_update_run frozen_refl
    split: option.splits if_splits)

interpretation history: append_only_store ledger_ok ledger_step frozen
  by unfold_locales (rule frozen_refl, erule (1) frozen_trans, rule ledger_step_frozen)

lemma ledger_run_frozen: "ledger_ok db \<Longrightarrow> frozen db (ledger_run evs db)"
  unfolding ledger_run_fold by (rule history.run_le)

subsection \<open>A run of two commands\<close>

definition ledger_db :: database where
  "ledger_db = empty_database\<lparr>
     db_datasets := [\<lparr>ds_id = 50, ds_provider_code = ''bank_of_canada'', ds_dataset_code = ''valet_daily_fx'',
       ds_display_name = ''Valet'', ds_configuration_reference = ''valet'', ds_license_url = None, ds_license_notes = None,
       ds_attribution_text = None, ds_redistribution_restrictions = None, ds_approval_state = ''approved'',
       ds_is_active = True\<rparr>],
     db_fx_series := [\<lparr>fs_id = 60, fs_provider_dataset_id = 50, fs_provider_symbol = ''FXUSDCAD'', fs_fx_pair_id = 61,
       fs_frequency = ''daily'', fs_quote_type = ''reference'', fs_source_metadata = PNone, fs_is_active = True\<rparr>]\<rparr>"

definition sample_command :: "date \<Rightarrow> date \<Rightarrow> start_command" where
  "sample_command s e = \<lparr>cm_provider = BankOfCanada, cm_dataset = ValetDailyFx, cm_trigger = Scheduled,
     cm_range = \<lparr>dr_start = s, dr_end = e\<rparr>, cm_requested = None, cm_parent = None\<rparr>"

definition sample_now :: datetime where
  "sample_now = utc_datetime 63763200000000000"

definition two_runs :: "ledger_event list" where
  "two_runs =
    [EvCreate 1 (\<lambda>n. 10) ''v1'' ''sum'' 5 sample_config (sample_command 737990 738000),
     EvCreate 2 (\<lambda>n. 20) ''v1'' ''sum'' 6 sample_config (sample_command 738001 738005),
     EvClaim sample_now, EvClaim sample_now, EvBegin sample_now 1 10, EvBegin sample_now 2 20]"

lemma two_runs_scopes:
  "map (\<lambda>s. (sc_id s, sc_run s, sc_type s, sc_series s, sc_status s)) (db_scopes (ledger_run two_runs ledger_db)) =
     [(10, 1, ''fx'', 60, ''running''), (20, 2, ''fx'', 60, ''running'')]"
  by code_simp

lemma ledger_db_no_runs: "no_runs ledger_db"
  by (simp add: no_runs_def ledger_db_def empty_database_def)

lemma sample_now_utc: "run_utc sample_now = Inr 63763200000000000"
  unfolding sample_now_def run_utc_ok by code_simp

definition one_finished :: "ledger_event list" where
  "one_finished = two_runs @ [EvSucceed sample_now 10 (empty_counts\<lparr>ct_fetched := 3, ct_inserted := 3\<rparr>) plain_completion,
     EvFinish sample_now 1]"

lemma one_finished_runs:
  "map (\<lambda>r. (run_id r, run_status r, ct_fetched (run_counts r))) (db_runs (ledger_run one_finished ledger_db)) =
     [(1, ''succeeded'', 3), (2, ''running'', 0)]"
  by code_simp

section \<open>Properties\<close>

text \<open>
  C5. Two runs never work on the same observations at once: after any sequence of ledger
  transactions on a database without runs, running scopes of different runs over the same series
  have disjoint date ranges.
\<close>

theorem running_scopes_disjoint:
  assumes "no_runs db" "s \<in> set (db_scopes (ledger_run evs db))" "x \<in> set (db_scopes (ledger_run evs db))"
    "sc_status s = ''running''" "sc_status x = ''running''" "sc_run s \<noteq> sc_run x"
    "sc_type s = sc_type x" "sc_series s = sc_series x"
  shows "{sc_start s .. sc_end s} \<inter> {sc_start x .. sc_end x} = {}"
proof -
  have "\<not> clash s x" using ledger_okD(2) [OF ledger_run_ok] assms unfolding exclusive_def by blast
  then show ?thesis using assms by (auto simp: clash_def)
qed

lemma running_scopes_disjoint_witness:
  "\<exists>s x. db_scopes (ledger_run two_runs ledger_db) = [s, x] \<and> sc_run s = 1 \<and> sc_run x = 2 \<and>
     {sc_start s .. sc_end s} \<inter> {sc_start x .. sc_end x} = {}"
proof -
  obtain s x where sx: "db_scopes (ledger_run two_runs ledger_db) = [s, x]"
    "sc_run s = 1" "sc_run x = 2" "sc_type s = ''fx''" "sc_type x = ''fx''" "sc_series s = 60" "sc_series x = 60"
    "sc_status s = ''running''" "sc_status x = ''running''"
    using two_runs_scopes by (auto simp: map_eq_Cons_conv)
  have "{sc_start s .. sc_end s} \<inter> {sc_start x .. sc_end x} = {}"
    by (rule running_scopes_disjoint [OF ledger_db_no_runs, of s two_runs x]) (simp_all add: sx)
  then show ?thesis using sx by blast
qed



text \<open>
  C22. History is append-only: whatever transactions follow, a terminal run and a completed, failed
  or skipped scope stay in the ledger exactly as they were written.
\<close>

theorem closed_rows_immutable:
  assumes "no_runs db"
  shows "{s \<in> set (db_scopes (ledger_run evs db)). \<not> is_active s} \<subseteq> set (db_scopes (ledger_run (evs @ evs') db)) \<and>
    {r \<in> set (db_runs (ledger_run evs db)). is_terminal r} \<subseteq> set (db_runs (ledger_run (evs @ evs') db))"
proof -
  have "ledger_run (evs @ evs') db = ledger_run evs' (ledger_run evs db)" by (simp add: ledger_run_fold)
  then show ?thesis using ledger_run_frozen [OF ledger_run_ok [OF assms]] by (auto simp: frozen_def)
qed

lemma closed_rows_immutable_witness:
  "\<exists>r\<in>set (db_runs (ledger_run (one_finished @ [EvFail sample_now 10 ''E'' ''late''] ) ledger_db)). run_status r = ''succeeded''"
proof -
  obtain r x where r: "db_runs (ledger_run one_finished ledger_db) = [r, x]" "run_status r = ''succeeded''"
    using one_finished_runs by (auto simp: map_eq_Cons_conv)
  then show ?thesis
    using closed_rows_immutable [OF ledger_db_no_runs, of one_finished "[EvFail sample_now 10 ''E'' ''late'']"]
    by (auto simp: is_terminal_def terminal_run_statuses_def)
qed

text \<open>
  A run whose scopes have all come to an end can always be finished: no guard and no table
  constraint rejects the final transaction.
\<close>

theorem finished_run_closes:
  assumes "no_runs db" "run_get i (ledger_run evs db) = Some r" "run_status r = ''running''"
    "\<forall>s\<in>set (scopes_of i (ledger_run evs db)). \<not> is_active s" "run_utc now = Inr ts"
  shows "is_ok (finish_run now i (ledger_run evs db))"
  using finish_run_succeeds [OF ledger_run_ok] assms by blast

lemma finished_run_closes_witness:
  "is_ok (finish_run sample_now 1 (ledger_run (butlast one_finished) ledger_db))"
proof -
  have "map_option run_status (run_get 1 (ledger_run (butlast one_finished) ledger_db)) = Some ''running''" by code_simp
  then obtain r where r: "run_get 1 (ledger_run (butlast one_finished) ledger_db) = Some r" "run_status r = ''running''"
    by auto
  have "list_all (\<lambda>s. \<not> is_active s) (scopes_of 1 (ledger_run (butlast one_finished) ledger_db))" by code_simp
  then show ?thesis
    by (intro finished_run_closes [OF ledger_db_no_runs r _ sample_now_utc]) (simp add: list_all_iff)
qed

text \<open>
  C23. A dead worker never blocks the ledger: recovery always goes through, afterwards every run
  whose lease had expired is terminal and has no active scope left, and every other run is exactly
  as it was.
\<close>

theorem recovery_closes_expired:
  assumes "no_runs db" "run_utc now = Inr ts"
  shows "\<exists>db'. recover_expired before now (ledger_run evs db) = Inr (expired_runs before (ledger_run evs db), db') \<and>
    (\<forall>r\<in>set (db_runs db'). run_id r \<in> set (expired_runs before (ledger_run evs db)) \<longrightarrow>
       is_terminal r \<and> (\<forall>s\<in>set (scopes_of (run_id r) db'). \<not> is_active s)) \<and>
    (\<forall>r. run_id r \<notin> set (expired_runs before (ledger_run evs db)) \<longrightarrow>
       r \<in> set (db_runs db') \<longleftrightarrow> r \<in> set (db_runs (ledger_run evs db)))"
proof -
  let ?db = "ledger_run evs db" and ?ids = "expired_runs before (ledger_run evs db)"
  note ok = ledger_run_ok [OF assms(1), of evs]
  note d = ingestion_checksD(3) [OF ledger_okD(1) [OF ok]]
  have "distinct ?ids" using d by (simp add: expired_runs_def distinct_map inj_on_def)
  moreover have "\<forall>i\<in>set ?ids. \<exists>r. run_get i ?db = Some r \<and> run_status r = ''running''"
    using find_by_id [OF d] by (auto simp: expired_runs_def run_get_def)
  ultimately obtain db' where db': "rfold (recover_run now) ?ids ?db = Inr db'"
    "\<forall>y\<in>set (db_runs db'). run_id y \<in> set ?ids \<longrightarrow> is_terminal y"
    "\<forall>y. run_id y \<notin> set ?ids \<longrightarrow> y \<in> set (db_runs db') \<longleftrightarrow> y \<in> set (db_runs ?db)"
    using recover_runs [OF ok _ _ assms(2)] by blast
  have r: "recover_expired before now ?db = Inr (?ids, db')" using db'(1) by (simp add: recover_expired_def)
  have "closed_run db' r" if "r \<in> set (db_runs db')" "is_terminal r" for r
    using ledger_okD(3) [OF recover_expired_inv [OF ok r]] that by blast
  then have "\<forall>s\<in>set (scopes_of (run_id y) db'). \<not> is_active s" if "y \<in> set (db_runs db')" "is_terminal y" for y
    using that unfolding closed_run_def by blast
  then have "\<forall>r\<in>set (db_runs db'). run_id r \<in> set ?ids \<longrightarrow>
       is_terminal r \<and> (\<forall>s\<in>set (scopes_of (run_id r) db'). \<not> is_active s)"
    using db'(2) by blast
  with r db'(3) show ?thesis by blast
qed

lemma recovery_closes_expired_witness:
  "\<exists>db'. recover_expired 63763200000000001 sample_now (ledger_run two_runs ledger_db) = Inr ([1, 2], db') \<and>
     (\<forall>r\<in>set (db_runs db'). run_id r = 1 \<longrightarrow> is_terminal r)"
proof -
  have "expired_runs 63763200000000001 (ledger_run two_runs ledger_db) = [1, 2]" by code_simp
  moreover obtain db' where "recover_expired 63763200000000001 sample_now (ledger_run two_runs ledger_db) =
      Inr (expired_runs 63763200000000001 (ledger_run two_runs ledger_db), db')"
    "\<forall>r\<in>set (db_runs db'). run_id r \<in> set (expired_runs 63763200000000001 (ledger_run two_runs ledger_db)) \<longrightarrow> is_terminal r"
    using recovery_closes_expired [OF ledger_db_no_runs sample_now_utc, of 63763200000000001 two_runs] by blast
  ultimately show ?thesis by (intro exI [of _ db']) simp
qed

text \<open>
  Claiming is first come, first served: the claimed run is a pending one that no other pending
  run precedes in request time and id; every row with its id is then running with a fresh
  heartbeat, and no other row changes.
\<close>

theorem claim_next_oldest:
  assumes "claim_next now db = Inr (Some i, db')"
  shows "\<exists>r ts. r \<in> set (db_runs db) \<and> run_id r = i \<and> run_status r = ''pending'' \<and>
    (\<forall>x\<in>set (db_runs db). run_status x = ''pending'' \<longrightarrow>
       run_requested_at r < run_requested_at x \<or>
       run_requested_at r = run_requested_at x \<and> unat (run_id r) \<le> unat (run_id x)) \<and>
    db_runs db' = map (\<lambda>x. if run_id x = i then x\<lparr>run_status := ''running'', run_started_at := Some ts,
       run_heartbeat_at := Some ts\<rparr> else x) (db_runs db)"
proof -
  let ?key = "\<lambda>r :: ingestion_run. (run_requested_at r, unat (run_id r))"
  let ?l = "sort_key ?key (filter (\<lambda>r. run_status r = ''pending'') (db_runs db))"
  obtain r ts where r: "next_pending db = Some r" "run_id r = i"
    "db' = update_run i (\<lambda>x. x\<lparr>run_status := ''running'', run_started_at := Some ts, run_heartbeat_at := Some ts\<rparr>) db"
    using assms by (auto simp: claim_next_def rmap_eq_Inr rbind_eq_Inr flush_ingestion_ok split: option.splits)
  obtain xs where l: "?l = r # xs" using r(1) by (auto simp: next_pending_def split: list.splits)
  have "sorted (map ?key ?l)" by (rule sorted_sort_key)
  then have "\<forall>x\<in>set ?l. ?key r \<le> ?key x" unfolding l by simp
  then have "\<forall>x\<in>set (db_runs db). run_status x = ''pending'' \<longrightarrow> ?key r \<le> ?key x" by simp
  then have "\<forall>x\<in>set (db_runs db). run_status x = ''pending'' \<longrightarrow>
       run_requested_at r < run_requested_at x \<or>
       run_requested_at r = run_requested_at x \<and> unat (run_id r) \<le> unat (run_id x)" by (auto simp: less_eq_prod_def)
  then show ?thesis
    using next_pendingD [OF r(1)] r(2,3)
    by (intro exI [of _ r] exI [of _ ts] conjI) (simp_all add: update_run_def update_where_def)
qed

lemma claim_next_oldest_witness:
  "\<exists>r\<in>set (db_runs (ledger_run (take 2 two_runs) ledger_db)). run_id r = 1 \<and> run_status r = ''pending''"
proof -
  have "rmap fst (claim_next sample_now (ledger_run (take 2 two_runs) ledger_db)) = Inr (Some 1)" by code_simp
  then obtain db' where "claim_next sample_now (ledger_run (take 2 two_runs) ledger_db) = Inr (Some 1, db')"
    by (auto simp: rmap_eq_Inr)
  from claim_next_oldest [OF this] show ?thesis by blast
qed

end
