(* ===== verification/Scheduling.thy ===== *)
theory Scheduling
  imports Expectations Run_Lifecycle
begin

text \<open>
  The scheduler: \<open>app/application/scheduling.py\<close>.  The planner turns the publication policies into
  one command per provider whose publication window is due; the sink creates a pending run unless
  one that covers the command is already there.
\<close>

section \<open>Planning\<close>

record scheduled_command =
  sd_command :: start_command
  sd_due_at :: instant
  sd_evaluated_at :: instant
  sd_reason_code :: string

definition scheduler_utc :: "datetime \<Rightarrow> instant res" where
  "scheduler_utc t = to_utc (ValueError ''scheduler clock must return a timezone-aware timestamp'') t"

text \<open>\<open>now.astimezone(zone).date()\<close>.\<close>

definition local_date :: "zone \<Rightarrow> instant \<Rightarrow> date res" where
  "local_date z now =
     (let w = now + zn_of_utc z now in if valid_instant w then Inr (instant_date w) else Inl overflow_exn)"

definition latest_of :: "expected_observation list \<Rightarrow> date \<times> instant" where
  "latest_of due =
     (let latest = Max (set (map eo_due_at due))
      in (Max (set (map eo_date (filter (\<lambda>x. eo_due_at x = latest) due))), latest))"

definition latest_due ::
  "zones \<Rightarrow> expectation_policy \<Rightarrow> business_calendar \<Rightarrow> instant \<Rightarrow> (date \<times> instant) option res" where
  "latest_due zones p b now =
     rbind (zone_info zones (xp_publication_time_zone p)) (\<lambda>z.
     rbind (local_date z now) (\<lambda>today.
     rbind (add_days today (-14)) (\<lambda>earliest.
     rbind (generate_expectations zones p b (max (xp_effective_from p) earliest) today) (\<lambda>candidates.
     Inr (let due = filter (\<lambda>x. eo_due_at x \<le> now) candidates
          in if due = [] then None else Some (latest_of due))))))"

definition calendar_of :: "(string \<Rightarrow> business_calendar option) \<Rightarrow> string \<Rightarrow> business_calendar res" where
  "calendar_of calendars k = (case calendars k of None \<Rightarrow> Inl (KeyError (repr_str k)) | Some b \<Rightarrow> Inr b)"

text \<open>The two entries of the loop of \<open>due_commands\<close> and one turn of it.\<close>

definition schedulable :: "reference_config \<Rightarrow> string \<Rightarrow> bool" where
  "schedulable c key =
     (case find (\<lambda>d. dataset_key d = key) (cf_datasets c) of
        None \<Rightarrow> False
      | Some d \<Rightarrow> gd_enabled d \<and> gd_approval_state d = ''approved'' \<and> gd_retention_permitted d)"

definition scheduled_start :: "expectation_policy \<Rightarrow> date \<Rightarrow> date res" where
  "scheduled_start p d = (if xp_release_cadence p = Weekly then add_days d (-6) else Inr d)"

definition due_command ::
  "zones \<Rightarrow> reference_config \<Rightarrow> (string \<Rightarrow> business_calendar option) \<Rightarrow> expectation_policy list \<Rightarrow> instant \<Rightarrow>
     provider_code \<times> dataset_code \<times> string \<Rightarrow> scheduled_command list res" where
  "due_command zones c calendars policies now =
     (\<lambda>(provider, dataset, instrument_type).
        if \<not> schedulable c (provider_value provider @ '':'' @ dataset_value dataset) then Inr []
        else (case filter (\<lambda>p. xp_instrument_type p = instrument_type) policies of
            [] \<Rightarrow> Inr []
          | representative # _ \<Rightarrow>
              rbind (calendar_of calendars (xp_calendar_id representative)) (\<lambda>calendar.
              rbind (latest_due zones representative calendar now) (\<lambda>due.
              (case due of
                 None \<Rightarrow> Inr []
               | Some (observation_date, due_at) \<Rightarrow>
                   rbind (scheduled_start representative observation_date) (\<lambda>start.
                   rbind (mk_date_range start observation_date) (\<lambda>range.
                   Inr [\<lparr>sd_command = \<lparr>cm_provider = provider, cm_dataset = dataset, cm_trigger = Scheduled,
                           cm_range = range, cm_requested = None, cm_parent = None\<rparr>,
                         sd_due_at = due_at, sd_evaluated_at = now,
                         sd_reason_code = ''PUBLICATION_WINDOW_DUE''\<rparr>])))))))"

definition scheduled_sources :: "(provider_code \<times> dataset_code \<times> string) list" where
  "scheduled_sources =
     [(BankOfCanada, ValetDailyFx, ''fx_pair''), (Bis, BisPolicyRatesDaily, ''policy_rate_series'')]"

definition due_commands :: "zones \<Rightarrow> reference_config \<Rightarrow> datetime \<Rightarrow> scheduled_command list res" where
  "due_commands zones c t =
     rbind (load_quality_configuration c) (\<lambda>(calendars, policies).
     rbind (scheduler_utc t) (\<lambda>now.
     rmap concat (traverse (due_command zones c calendars policies now) scheduled_sources)))"

section \<open>The database sink\<close>

definition covering_run :: "uuid \<Rightarrow> date_range \<Rightarrow> ingestion_run \<Rightarrow> bool" where
  "covering_run dataset r x \<longleftrightarrow> run_dataset x = dataset \<and> run_status x \<in> {''pending'', ''running'', ''succeeded''} \<and>
     run_start x \<le> dr_start r \<and> run_end x \<ge> dr_end r"

definition submit ::
  "uuid \<Rightarrow> (nat \<Rightarrow> uuid) \<Rightarrow> string \<Rightarrow> string \<Rightarrow> reference_config \<Rightarrow> scheduled_command \<Rightarrow> database \<Rightarrow> (bool \<times> database) res" where
  "submit fresh fresh_scopes code_version checksum c sd db =
     (case find (\<lambda>d. ds_provider_code d = provider_value (cm_provider (sd_command sd)) \<and>
                     ds_dataset_code d = dataset_value (cm_dataset (sd_command sd))) (db_datasets db) of
        None \<Rightarrow> Inl (ValueError ''scheduled provider dataset has not been synchronized'')
      | Some d \<Rightarrow>
          (if list_ex (covering_run (ds_id d) (cm_range (sd_command sd))) (db_runs db) then Inr (False, db)
           else rmap (Pair True) (run_create fresh fresh_scopes code_version checksum (sd_evaluated_at sd) c
                  (sd_command sd) db)))"

section \<open>Lemmas\<close>

lemma latest_of_props:
  assumes "due \<noteq> []" "latest_of due = (d, t)"
  shows "\<exists>x\<in>set due. eo_date x = d \<and> eo_due_at x = t" "\<forall>x\<in>set due. eo_due_at x \<le> t"
    "\<forall>x\<in>set due. eo_due_at x = t \<longrightarrow> eo_date x \<le> d"
proof -
  let ?l = "Max (set (map eo_due_at due))"
  let ?ds = "set (map eo_date (filter (\<lambda>x. eo_due_at x = ?l) due))"
  have t: "t = ?l" "d = Max ?ds" using assms(2) by (auto simp: latest_of_def Let_def)
  have "?l \<in> set (map eo_due_at due)" using assms(1) by (intro Max_in) auto
  then have ne: "?ds \<noteq> {}" by auto
  then have "Max ?ds \<in> ?ds" by (intro Max_in) auto
  then show "\<exists>x\<in>set due. eo_date x = d \<and> eo_due_at x = t" using t by auto
  show "\<forall>x\<in>set due. eo_due_at x \<le> t" unfolding t by (auto intro: Max_ge)
  show "\<forall>x\<in>set due. eo_due_at x = t \<longrightarrow> eo_date x \<le> d" unfolding t by (auto intro!: Max_ge)
qed

lemma latest_due_props:
  assumes "latest_due zones p b now = Inr (Some (d, t))"
  obtains z today xs where "zones (xp_publication_time_zone p) = Some z" "local_date z now = Inr today"
    "generate_expectations zones p b (max (xp_effective_from p) (today - 14)) today = Inr xs"
    "\<lparr>eo_date = d, eo_due_at = t\<rparr> \<in> set xs" "t \<le> now"
    "\<forall>x\<in>set xs. eo_due_at x \<le> now \<longrightarrow> eo_due_at x < t \<or> eo_due_at x = t \<and> eo_date x \<le> d"
proof -
  obtain z today xs where z: "zones (xp_publication_time_zone p) = Some z" "local_date z now = Inr today"
    "generate_expectations zones p b (max (xp_effective_from p) (today - 14)) today = Inr xs"
    "filter (\<lambda>x. eo_due_at x \<le> now) xs \<noteq> []" "latest_of (filter (\<lambda>x. eo_due_at x \<le> now) xs) = (d, t)"
    using assms by (auto simp: latest_due_def rbind_eq_Inr zone_info_def Let_def split: option.splits if_splits)
  note l = latest_of_props [OF z(4,5)]
  obtain x where x: "x \<in> set xs" "eo_due_at x \<le> now" "eo_date x = d" "eo_due_at x = t" using l(1) by auto
  then have "x = \<lparr>eo_date = d, eo_due_at = t\<rparr>" by simp
  show thesis
  proof (rule that [OF z(1-3)])
    show "\<lparr>eo_date = d, eo_due_at = t\<rparr> \<in> set xs" "t \<le> now" using x \<open>x = \<lparr>eo_date = d, eo_due_at = t\<rparr>\<close> by auto
    show "\<forall>x\<in>set xs. eo_due_at x \<le> now \<longrightarrow> eo_due_at x < t \<or> eo_due_at x = t \<and> eo_date x \<le> d"
      using l(2,3) by fastforce
  qed
qed

lemma store_run_rows:
  assumes "store_run r f m ps db = Inr db'"
  shows "db_runs db' = db_runs db @ [r] \<and> db_datasets db' = db_datasets db"
proof -
  obtain db1 where 1: "run_add r db = Inr db1"
    "rfold (\<lambda>(n, p). scope_add (new_scope (f n) (run_id r) m p)) (enumerate 0 ps) db1 = Inr db'"
    using assms by (auto simp: store_run_def rbind_eq_Inr)
  let ?I = "\<lambda>d. db_runs d = db_runs db @ [r] \<and> db_datasets d = db_datasets db"
  show ?thesis
    by (rule rfold_invariant [where ?I = ?I, OF 1(2)])
      (use 1(1) in \<open>auto simp: run_add_def scope_add_def flush_ingestion_ok\<close>)
qed

lemma run_create_rows:
  assumes "run_create i f code csum ts c m db = Inr db'"
  obtains d :: provider_dataset where "command_dataset m db = Inr d" "db_datasets db' = db_datasets db"
    "db_runs db' = db_runs db @ [new_run i m (ds_id d) csum code ts]"
proof -
  obtain d :: provider_dataset where "command_dataset m db = Inr d"
    "store_run (new_run i m (ds_id d) csum code ts) f m (requested_scopes c m (ds_id d) db) db = Inr db'"
    using assms by (auto simp: run_create_def rbind_eq_Inr)
  then show thesis using that store_run_rows by blast
qed

text \<open>One turn of the loop makes at most one command, for a date the representative policy expects.\<close>

lemma due_command_props:
  assumes "due_command zones c cals ps now (provider, dataset, kind) = Inr cmds" "sd \<in> set cmds"
  obtains p b z today xs where "p \<in> set ps" "xp_instrument_type p = kind" "cals (xp_calendar_id p) = Some b"
    "schedulable c (command_dataset_key (sd_command sd))" "cm_trigger (sd_command sd) = Scheduled" "sd_evaluated_at sd = now"
    "local_date z now = Inr today" "generate_expectations zones p b (max (xp_effective_from p) (today - 14)) today = Inr xs"
    "\<lparr>eo_date = dr_end (cm_range (sd_command sd)), eo_due_at = sd_due_at sd\<rparr> \<in> set xs" "sd_due_at sd \<le> now"
    "\<forall>x\<in>set xs. eo_due_at x \<le> now \<longrightarrow>
       eo_due_at x < sd_due_at sd \<or> eo_due_at x = sd_due_at sd \<and> eo_date x \<le> dr_end (cm_range (sd_command sd))"
    "dr_start (cm_range (sd_command sd)) = dr_end (cm_range (sd_command sd)) - (if xp_release_cadence p = Weekly then 6 else 0)"
proof -
  have sch: "schedulable c (provider_value provider @ '':'' @ dataset_value dataset)"
    using assms by (auto simp: due_command_def split: if_splits)
  obtain p rest where p: "filter (\<lambda>p. xp_instrument_type p = kind) ps = p # rest"
    using assms sch by (auto simp: due_command_def split: list.splits)
  obtain b due where b: "calendar_of cals (xp_calendar_id p) = Inr b" "latest_due zones p b now = Inr due"
    using assms sch p by (auto simp: due_command_def rbind_eq_Inr split: list.splits)
  obtain d t where d: "due = Some (d, t)"
    using assms sch p b by (cases due) (auto simp: due_command_def rbind_eq_Inr split: list.splits)
  obtain start range where r: "scheduled_start p d = Inr start" "mk_date_range start d = Inr range"
    "sd = \<lparr>sd_command = \<lparr>cm_provider = provider, cm_dataset = dataset, cm_trigger = Scheduled, cm_range = range,
       cm_requested = None, cm_parent = None\<rparr>, sd_due_at = t, sd_evaluated_at = now, sd_reason_code = ''PUBLICATION_WINDOW_DUE''\<rparr>"
    using assms sch p b d by (auto simp: due_command_def rbind_eq_Inr split: list.splits)
  have start: "start = d - (if xp_release_cadence p = Weekly then 6 else 0)" "range = \<lparr>dr_start = start, dr_end = d\<rparr>"
    using r(1,2) by (auto simp: scheduled_start_def mk_date_range_def split: if_splits)
  have "p \<in> set (filter (\<lambda>p. xp_instrument_type p = kind) ps)" unfolding p by simp
  then have pp: "p \<in> set ps" "xp_instrument_type p = kind" by auto
  have cal: "cals (xp_calendar_id p) = Some b" using b(1) by (auto simp: calendar_of_def split: option.splits)
  show thesis
  proof (rule latest_due_props [OF b(2) [unfolded d]])
    fix z today xs
    assume "local_date z now = Inr today"
      "generate_expectations zones p b (max (xp_effective_from p) (today - 14)) today = Inr xs"
      "\<lparr>eo_date = d, eo_due_at = t\<rparr> \<in> set xs" "t \<le> now"
      "\<forall>x\<in>set xs. eo_due_at x \<le> now \<longrightarrow> eo_due_at x < t \<or> eo_due_at x = t \<and> eo_date x \<le> d"
    then show thesis
      by (intro that [OF pp cal]) (use sch r(3) start in \<open>simp_all add: command_dataset_key_def\<close>)
  qed
qed

section \<open>Properties\<close>


text \<open>
  Submitting is idempotent: once a command has created its run, submitting it again, by whatever
  scheduler instance, reports that nothing was created and leaves the database alone.
\<close>

theorem submit_idempotent:
  assumes "submit i f code csum c sd db = Inr (True, db')"
    "dr_start (cm_range (sd_command sd)) \<le> dr_end (cm_range (sd_command sd))"
  shows "submit i' f' code' csum' c' sd db' = Inr (False, db')"
proof -
  obtain d where d: "find (\<lambda>d. ds_provider_code d = provider_value (cm_provider (sd_command sd)) \<and>
      ds_dataset_code d = dataset_value (cm_dataset (sd_command sd))) (db_datasets db) = Some d"
    "run_create i f code csum (sd_evaluated_at sd) c (sd_command sd) db = Inr db'"
    using assms(1) by (auto simp: submit_def rmap_eq_Inr split: option.splits if_splits)
  show ?thesis
  proof (rule run_create_rows [OF d(2)])
    fix d' :: provider_dataset
    assume c: "command_dataset (sd_command sd) db = Inr d'" "db_datasets db' = db_datasets db"
      "db_runs db' = db_runs db @ [new_run i (sd_command sd) (ds_id d') csum code (sd_evaluated_at sd)]"
    have "d' = d" using c(1) d(1) by (auto simp: command_dataset_def split: if_splits)
    then have "list_ex (covering_run (ds_id d) (cm_range (sd_command sd))) (db_runs db')"
      unfolding c(3) by (simp add: covering_run_def new_run_def)
    then show ?thesis using d(1) c(2) by (simp add: submit_def)
  qed
qed

text \<open>
  A policy that is not yet in force stops the scheduler: when the first FX policy becomes effective
  after today's local date, planning raises instead of waiting, and no provider gets a command.
\<close>

theorem future_policy_stops_scheduler:
  assumes "load_quality_configuration c = Inr (cals, ps)" "scheduler_utc t = Inr now"
    "schedulable c ''bank_of_canada:valet_daily_fx''" "filter (\<lambda>p. xp_instrument_type p = ''fx_pair'') ps = p # rest"
    "cals (xp_calendar_id p) = Some b" "zones (xp_publication_time_zone p) = Some z" "local_date z now = Inr today"
    "valid_date (today - 14)" "today < xp_effective_from p"
  shows "due_commands zones c t = Inl (ValueError ''expectation start must not exceed end'')"
proof -
  have "latest_due zones p b now = Inl (ValueError ''expectation start must not exceed end'')"
    using assms(6-9) by (simp add: latest_due_def zone_info_def add_days_def generate_expectations_def)
  then have "due_command zones c cals ps now (BankOfCanada, ValetDailyFx, ''fx_pair'') =
      Inl (ValueError ''expectation start must not exceed end'')"
    using assms(3-5) by (simp add: due_command_def calendar_of_def)
  then show ?thesis using assms(1,2) by (simp add: due_commands_def scheduled_sources_def)
qed

text \<open>The sample configuration half an hour after the day's observation became due.\<close>

definition sample_tick :: datetime where
  "sample_tick = utc_datetime 63763286400000000"

definition sample_scheduled :: scheduled_command where
  "sample_scheduled = \<lparr>sd_command = sample_command 738001 738001, sd_due_at = 63763284600000000,
     sd_evaluated_at = 63763286400000000, sd_reason_code = ''PUBLICATION_WINDOW_DUE''\<rparr>"

lemma sample_due: "due_commands sample_zones sample_config sample_tick = Inr [sample_scheduled]"
  by code_simp


lemma submit_idempotent_witness:
  "\<exists>db. submit 1 (\<lambda>n. 10) ''v1'' ''sum'' sample_config sample_scheduled ledger_db = Inr (True, db) \<and>
     submit 2 (\<lambda>n. 20) ''v2'' ''sum'' sample_config sample_scheduled db = Inr (False, db)"
proof -
  have "rmap fst (submit 1 (\<lambda>n. 10) ''v1'' ''sum'' sample_config sample_scheduled ledger_db) = Inr True" by code_simp
  then obtain db where db: "submit 1 (\<lambda>n. 10) ''v1'' ''sum'' sample_config sample_scheduled ledger_db = Inr (True, db)"
    by (auto simp: rmap_eq_Inr)
  from submit_idempotent [OF this] db show ?thesis by (auto simp: sample_scheduled_def sample_command_def)
qed

definition future_config :: reference_config where
  "future_config = sample_config\<lparr>cf_expectations := [sample_expectation\<lparr>ep_effective_from := 738100\<rparr>]\<rparr>"

lemma future_policy_stops_scheduler_witness:
  "due_commands sample_zones future_config sample_tick = Inl (ValueError ''expectation start must not exceed end'')"
proof -
  let ?p = "projr (mk_policy (sample_expectation\<lparr>ep_effective_from := 738100\<rparr>))"
  let ?b = "mk_calendar (hd (cf_calendars sample_config))"
  let ?z = "\<lparr>zn_of_local = (\<lambda>w. -18000000000), zn_of_utc = (\<lambda>t. -18000000000)\<rparr>"
  have l: "load_quality_configuration future_config = Inr ([''ca_bank'' \<mapsto> ?b], [?p])"
    by (simp add: load_quality_configuration_def future_config_def sample_config_def sample_expectation_def mk_policy_def mk_cadence_def)
  have z: "sample_zones (xp_publication_time_zone ?p) = Some ?z"
    by (simp add: sample_zones_def sample_expectation_def mk_policy_def mk_cadence_def)
  have u: "scheduler_utc sample_tick = Inr 63763286400000000" by code_simp
  have s: "schedulable future_config ''bank_of_canada:valet_daily_fx''" by code_simp
  have d: "local_date ?z 63763286400000000 = Inr 738001" by code_simp
  show ?thesis
    by (rule future_policy_stops_scheduler [where zones = sample_zones and z = ?z and p = ?p, OF l u s _ _ z d])
      (simp_all add: sample_expectation_def mk_policy_def mk_cadence_def valid_date_def max_ordinal_def)
qed

end
