(* ===== verification/Py_Base64.thy ===== *)
theory Py_Base64
  imports Domain_Model
begin

text \<open>
  The parts of the Python standard library behind page cursors: \<open>base64.urlsafe_b64encode\<close> and
  \<open>urlsafe_b64decode\<close> (the lenient decoder of \<open>binascii\<close>, which skips characters outside the
  alphabet), \<open>int(text, 16)\<close> and \<open>uuid.UUID(text)\<close>.
\<close>

section \<open>Base64\<close>

definition b64_alphabet :: string where
  "b64_alphabet = ''ABCDEFGHIJKLMNOPQRSTUVWXYZabcdefghijklmnopqrstuvwxyz0123456789-_''"

definition sextet_char :: "nat \<Rightarrow> char" where
  "sextet_char n = b64_alphabet ! n"

fun b64_encode :: "nat list \<Rightarrow> string" where
  "b64_encode [] = []"
| "b64_encode [a] = [sextet_char (a div 4), sextet_char (a mod 4 * 16), CHR ''='', CHR ''='']"
| "b64_encode [a, b] =
     [sextet_char (a div 4), sextet_char (a mod 4 * 16 + b div 16), sextet_char (b mod 16 * 4), CHR ''='']"
| "b64_encode (a # b # c # bs) =
     sextet_char (a div 4) # sextet_char (a mod 4 * 16 + b div 16) # sextet_char (b mod 16 * 4 + c div 64)
       # sextet_char (c mod 64) # b64_encode bs"

text \<open>\<open>urlsafe_b64decode\<close> maps \<open>-\<close> and \<open>_\<close> to the characters of the standard alphabet, which it accepts too.\<close>

definition sextet :: "char \<Rightarrow> nat option" where
  "sextet c =
     (if is_upper_ascii c then Some (code_of c - 65)
      else if is_lower_ascii c then Some (code_of c - 97 + 26)
      else if is_digit c then Some (code_of c - 48 + 52)
      else if c = CHR ''-'' \<or> c = CHR ''+'' then Some 62
      else if c = CHR ''_'' \<or> c = CHR ''/'' then Some 63
      else None)"

text \<open>
  \<open>binascii.a2b_base64\<close>: \<open>quad\<close> characters of the current group are read, \<open>left\<close> holds their unused
  bits and \<open>pads\<close> counts the padding seen since the last of them.
\<close>

fun a2b :: "nat \<Rightarrow> nat \<Rightarrow> nat \<Rightarrow> string \<Rightarrow> nat list option" where
  "a2b quad left pads [] = (if quad = 0 then Some [] else None)"
| "a2b quad left pads (c # cs) =
     (if c = CHR ''=''
      then (if quad \<ge> 2
            then (if quad + (pads + 1) \<ge> 4 then Some [] else a2b quad left (pads + 1) cs)
            else a2b quad left pads cs)
      else (case sextet c of
              None \<Rightarrow> a2b quad left pads cs
            | Some v \<Rightarrow>
                (if quad = 0 then a2b 1 v 0 cs
                 else if quad = 1 then map_option (Cons (left * 4 + v div 16)) (a2b 2 (v mod 16) 0 cs)
                 else if quad = 2 then map_option (Cons (left * 16 + v div 4)) (a2b 3 (v mod 4) 0 cs)
                 else map_option (Cons (left * 64 + v)) (a2b 0 0 0 cs))))"

definition b64_decode :: "string \<Rightarrow> nat list option" where
  "b64_decode s = (if list_all (\<lambda>c. code_of c < 128) s then a2b 0 0 0 s else None)"

section \<open>Hexadecimal integers and UUIDs\<close>

definition is_hex_digit :: "char \<Rightarrow> bool" where
  "is_hex_digit c \<longleftrightarrow> is_digit c \<or> to_lower c \<in> set ''abcdef''"

definition hex_val :: "char \<Rightarrow> nat" where
  "hex_val c = (if is_digit c then code_of c - 48 else code_of (to_lower c) - 87)"

definition read_hex :: "string \<Rightarrow> nat" where
  "read_hex s = fold (\<lambda>c n. 16 * n + hex_val c) s 0"

definition hex_int :: "string \<Rightarrow> int option" where
  "hex_int s =
     (let t = str_strip s; neg = prefix ''-'' t;
          u = (if neg \<or> prefix ''+'' t then drop 1 t else t);
          v = (if prefix ''0x'' (str_lower u) then drop 2 u else u);
          w = (if v \<noteq> u \<and> prefix ''_'' v then drop 1 v else v);
          groups = split_on (CHR ''_'') w
      in if list_all (\<lambda>g. g \<noteq> [] \<and> list_all is_hex_digit g) groups
         then Some (if neg then - int (read_hex (concat groups)) else int (read_hex (concat groups)))
         else None)"

text \<open>\<open>s.replace(needle, "")\<close> and \<open>s.strip(chars)\<close>.\<close>

fun remove_sub :: "string \<Rightarrow> string \<Rightarrow> string" where
  "remove_sub needle [] = []"
| "remove_sub needle (x # xs) =
     (if needle \<noteq> [] \<and> prefix needle (x # xs) then remove_sub needle (drop (length needle) (x # xs))
      else x # remove_sub needle xs)"

definition strip_chars :: "char set \<Rightarrow> string \<Rightarrow> string" where
  "strip_chars cs s = rev (dropWhile (\<lambda>c. c \<in> cs) (rev (dropWhile (\<lambda>c. c \<in> cs) s)))"

definition parse_uuid :: "string \<Rightarrow> uuid res" where
  "parse_uuid s =
     (let h = remove_sub ''-'' (strip_chars {CHR ''{'', CHR ''}''} (remove_sub ''uuid:'' (remove_sub ''urn:'' s)))
      in if length h \<noteq> 32 then Inl (ValueError ''badly formed hexadecimal UUID string'')
         else case hex_int h of
           None \<Rightarrow> Inl (ValueError (''invalid literal for int() with base 16: '' @ repr_str h))
         | Some i \<Rightarrow> (if 0 \<le> i \<and> i < 2 ^ 128 then Inr (word_of_int i)
                     else Inl (ValueError ''int is out of range (need a 128-bit value)'')))"

section \<open>Round trips\<close>

lemma sextet_char: "n < 64 \<Longrightarrow> sextet (sextet_char n) = Some n \<and> sextet_char n \<noteq> CHR ''='' \<and> CHR ''='' \<noteq> sextet_char n \<and>
    code_of (sextet_char n) < 128"
proof -
  have "list_all (\<lambda>n. sextet (sextet_char n) = Some n \<and> sextet_char n \<noteq> CHR ''='' \<and> CHR ''='' \<noteq> sextet_char n \<and>
      code_of (sextet_char n) < 128) [0..<64]"
    by code_simp
  then show "n < 64 \<Longrightarrow> ?thesis" by (simp add: list_all_iff)
qed

lemma split_byte:
  fixes n :: nat
  assumes "n < k * m"
  obtains q r where "n = k * q + r" "r < k" "q < m"
proof
  show "n = k * (n div k) + n mod k" by simp
  show "n mod k < k" using assms by (cases k) simp_all
  show "n div k < m" using assms by (simp add: div_less_iff_less_mult mult.commute less_mult_imp_div_less)
qed

lemma group_parts:
  fixes q r q' r' k :: nat
  assumes "r < 4" "q < 64" "q' < 16" "r' < 16" "k < 4"
  shows "(4 * q + r) div 4 = q" "(4 * q + r) mod 4 = r" "(16 * q' + r') div 16 = q'" "(16 * q' + r') mod 16 = r'"
    "r * 16 + q' < 64" "r * 16 < 64" "(r * 16 + q') div 16 = r" "(r * 16 + q') mod 16 = q'"
    "r' * 4 + k < 64" "r' * 4 < 64" "(r' * 4 + k) div 4 = r'" "(r' * 4 + k) mod 4 = k"
  using assms by simp_all

lemma a2b_b64_encode: "list_all (\<lambda>n. n < 256) bs \<Longrightarrow> a2b 0 0 0 (b64_encode bs) = Some bs"
proof (induction bs rule: b64_encode.induct)
  case (2 a)
  obtain q r where a: "a = 4 * q + r" "r < 4" "q < 64" using 2 by (auto intro: split_byte [of a 4 64])
  show ?case using a group_parts [of r q 0 0 0] by (simp add: sextet_char)
next
  case (3 a b)
  obtain q r where a: "a = 4 * q + r" "r < 4" "q < 64" using 3 by (auto intro: split_byte [of a 4 64])
  obtain q' r' where b: "b = 16 * q' + r'" "r' < 16" "q' < 16" using 3 by (auto intro: split_byte [of b 16 16])
  show ?case using a b group_parts [of r q q' r' 0] by (simp add: sextet_char)
next
  case (4 a b c bs)
  obtain q r where a: "a = 4 * q + r" "r < 4" "q < 64" using 4(2) by (auto intro: split_byte [of a 4 64])
  obtain q' r' where b: "b = 16 * q' + r'" "r' < 16" "q' < 16" using 4(2) by (auto intro: split_byte [of b 16 16])
  obtain k l where c: "c = 64 * k + l" "l < 64" "k < 4" using 4(2) by (auto intro: split_byte [of c 64 4])
  have "c div 64 = k" "c mod 64 = l" using c by simp_all
  then show ?case using 4 a b c group_parts [of r q q' r' k] by (simp add: sextet_char)
qed simp

lemma b64_encode_shape:
  "list_all (\<lambda>n. n < 256) bs \<Longrightarrow>
   \<exists>core k. b64_encode bs = core @ replicate k (CHR ''='') \<and> CHR ''='' \<notin> set core \<and> k \<le> 2 \<and> (length core + k) mod 4 = 0 \<and>
     list_all (\<lambda>c. code_of c < 128) core"
proof (induction bs rule: b64_encode.induct)
  case 1
  then show ?case by (intro exI [of _ "[]"] exI [of _ 0]) simp
next
  case (2 a)
  obtain q r where a: "a = 4 * q + r" "r < 4" "q < 64" using 2 by (auto intro: split_byte [of a 4 64])
  show ?case using a group_parts [of r q 0 0 0]
    by (intro exI [of _ "[sextet_char q, sextet_char (r * 16)]"] exI [of _ 2]) (auto simp: sextet_char numeral_2_eq_2)
next
  case (3 a b)
  obtain q r where a: "a = 4 * q + r" "r < 4" "q < 64" using 3 by (auto intro: split_byte [of a 4 64])
  obtain q' r' where b: "b = 16 * q' + r'" "r' < 16" "q' < 16" using 3 by (auto intro: split_byte [of b 16 16])
  show ?case using a b group_parts [of r q q' r' 0]
    by (intro exI [of _ "[sextet_char q, sextet_char (r * 16 + q'), sextet_char (r' * 4)]"] exI [of _ 1])
      (auto simp: sextet_char)
next
  case (4 a b c bs)
  obtain q r where a: "a = 4 * q + r" "r < 4" "q < 64" using 4(2) by (auto intro: split_byte [of a 4 64])
  obtain q' r' where b: "b = 16 * q' + r'" "r' < 16" "q' < 16" using 4(2) by (auto intro: split_byte [of b 16 16])
  obtain k l where c: "c = 64 * k + l" "l < 64" "k < 4" using 4(2) by (auto intro: split_byte [of c 64 4])
  have c': "c div 64 = k" "c mod 64 = l" using c by simp_all
  have "list_all (\<lambda>n. n < 256) bs" using 4(2) by simp
  from 4(1) [OF this] obtain core n where core: "b64_encode bs = core @ replicate n (CHR ''='')" "CHR ''='' \<notin> set core" "n \<le> 2"
    "(length core + n) mod 4 = 0" "list_all (\<lambda>c. code_of c < 128) core"
    by (elim exE conjE) (rule that)
  have "(length core + 4 + n) mod 4 = 0" using core(4) by presburger
  then show ?case using a b c' c core group_parts [of r q q' r' k]
    by (intro exI [of _ "sextet_char q # sextet_char (r * 16 + q') # sextet_char (r' * 4 + k) # sextet_char l # core"]
          exI [of _ n]) (auto simp: sextet_char)
qed

lemma rstrip_char_replicate: "c \<notin> set core \<Longrightarrow> rstrip_char c (core @ replicate k c) = core"
  by (cases "rev core") (auto simp: rstrip_char_def dropWhile_append dest: arg_cong [of _ _ rev])

text \<open>The padding a reader restores is the padding that was stripped.\<close>

lemma b64_unpadded:
  assumes "list_all (\<lambda>n. n < 256) bs"
  defines "s \<equiv> rstrip_char (CHR ''='') (b64_encode bs)"
  shows "b64_decode (s @ replicate (nat (- int (length s) mod 4)) (CHR ''='')) = Some bs"
proof -
  obtain core k where core: "b64_encode bs = core @ replicate k (CHR ''='')" "CHR ''='' \<notin> set core" "k \<le> 2"
    "(length core + k) mod 4 = 0" "list_all (\<lambda>c. code_of c < 128) core"
    using b64_encode_shape [OF assms(1)] by (elim exE conjE) (rule that)
  have s: "s = core" by (simp add: s_def core(1) rstrip_char_replicate core(2))
  have "- int (length core) mod 4 = int k" using core(3,4) by presburger
  then have "s @ replicate (nat (- int (length s) mod 4)) (CHR ''='') = b64_encode bs" using s core(1) by simp
  moreover have "list_all (\<lambda>c. code_of c < 128) (b64_encode bs)" using core(5) by (auto simp: core(1) list_all_iff code_of_def)
  ultimately show ?thesis using a2b_b64_encode [OF assms(1)] by (simp add: b64_decode_def)
qed

lemma hex_chars: "n < 16 \<Longrightarrow> is_hex_digit (''0123456789abcdef'' ! n) \<and> hex_val (''0123456789abcdef'' ! n) = n"
proof -
  have "list_all (\<lambda>n. is_hex_digit (''0123456789abcdef'' ! n) \<and> hex_val (''0123456789abcdef'' ! n) = n) [0..<16]" by code_simp
  then show "n < 16 \<Longrightarrow> ?thesis" by (simp add: list_all_iff)
qed

lemma hex_text_digits: "list_all is_hex_digit (hex_text w n)"
  by (induction w n rule: hex_text.induct) (auto simp: hex_chars)

lemma read_hex_text: "n < 16 ^ w \<Longrightarrow> read_hex (hex_text w n) = n"
proof (induction w n rule: hex_text.induct)
  case (2 w n)
  then show ?case using hex_chars [of "n mod 16"] by (simp add: read_hex_def less_mult_imp_div_less mult.commute)
qed (simp add: read_hex_def)

lemma length_hex_text [simp]: "length (hex_text w n) = w"
  by (induction w n rule: hex_text.induct) simp_all

lemma is_hex_digit_plain: "is_hex_digit c \<Longrightarrow> c \<noteq> CHR ''-'' \<and> c \<noteq> CHR ''+'' \<and> c \<noteq> CHR ''_'' \<and> c \<noteq> CHR ''x'' \<and> c \<noteq> CHR ''X'' \<and>
    c \<noteq> CHR ''u'' \<and> c \<noteq> CHR ''{'' \<and> c \<noteq> CHR ''}'' \<and> \<not> is_space c"
proof -
  have "\<not> is_hex_digit CHR ''-''" "\<not> is_hex_digit CHR ''+''" "\<not> is_hex_digit CHR ''_''" "\<not> is_hex_digit CHR ''x''"
    "\<not> is_hex_digit CHR ''X''" "\<not> is_hex_digit CHR ''u''" "\<not> is_hex_digit CHR ''{''" "\<not> is_hex_digit CHR ''}''"
    by code_simp+
  moreover have "\<not> is_space c" if "is_hex_digit c"
    using that by (auto simp: is_hex_digit_def is_space_def is_digit_def to_lower_def Let_def is_upper_ascii_def code_of_def split: if_splits)
  ultimately show "is_hex_digit c \<Longrightarrow> ?thesis" by blast
qed

lemma split_on_absent: "c \<notin> set s \<Longrightarrow> split_on c s = [s]"
  by (induction s) auto

lemma hex_int_plain:
  assumes "list_all is_hex_digit s" "s \<noteq> []"
  shows "hex_int s = Some (int (read_hex s))"
proof -
  note plain = is_hex_digit_plain
  have all: "x \<in> set s \<Longrightarrow> is_hex_digit x" for x using assms(1) by (simp add: list_all_iff)
  have "str_strip s = s" by (rule str_strip_no_space) (use all plain in \<open>auto simp: list_all_iff\<close>)
  moreover have "\<not> prefix ''-'' s" "\<not> prefix ''+'' s"
    using all plain by (cases s; fastforce)+
  moreover have "\<not> prefix ''0x'' (str_lower s)"
  proof
    assume "prefix ''0x'' (str_lower s)"
    then obtain a b r where s: "s = a # b # r" "to_lower b = CHR ''x''" by (cases s; cases "tl s") (auto simp: str_lower_def)
    have "\<not> is_hex_digit b" using s(2) by (auto simp: is_hex_digit_def is_digit_def to_lower_def is_upper_ascii_def code_of_def split: if_splits)
    then show False using all s(1) by simp
  qed
  moreover have "split_on (CHR ''_'') s = [s]" by (rule split_on_absent) (use all plain in blast)
  ultimately show ?thesis using assms by (simp add: hex_int_def Let_def)
qed

lemma remove_sub_absent: "hd needle \<notin> set s \<Longrightarrow> needle \<noteq> [] \<Longrightarrow> remove_sub needle s = s"
  by (induction needle s rule: remove_sub.induct) (auto simp: prefix_def neq_Nil_conv)

lemma remove_dash: "remove_sub ''-'' s = filter (\<lambda>c. c \<noteq> CHR ''-'') s"
  by (induction "''-''" s rule: remove_sub.induct) auto

lemma strip_chars_absent: "set s \<inter> cs = {} \<Longrightarrow> strip_chars cs s = s"
proof -
  have id: "dropWhile (\<lambda>c. c \<in> cs) s = s" if "set s \<inter> cs = {}" for s using that by (cases s) auto
  assume "set s \<inter> cs = {}"
  then show ?thesis by (simp add: strip_chars_def id)
qed

lemma filter_absent: "c \<notin> set s \<Longrightarrow> filter (\<lambda>x. x \<noteq> c) s = s"
  by (induction s) auto

lemma parse_uuid_str [simp]: "parse_uuid (uuid_str u) = Inr u"
proof -
  define h where "h = hex_text 32 (unat u)"
  have hex: "list_all is_hex_digit h" by (simp add: h_def hex_text_digits)
  have set: "set (uuid_str u) \<subseteq> insert (CHR ''-'') (set h)"
    unfolding uuid_str_def Let_def h_def by (auto dest: in_set_takeD in_set_dropD)
  have no: "c \<notin> set (uuid_str u)" if "\<not> is_hex_digit c" "c \<noteq> CHR ''-''" for c
    using set hex that by (auto simp: list_all_iff)
  have "CHR ''u'' \<notin> set (uuid_str u)" "CHR ''{'' \<notin> set (uuid_str u)" "CHR ''}'' \<notin> set (uuid_str u)"
    using no is_hex_digit_plain by blast+
  then have "remove_sub ''urn:'' (uuid_str u) = uuid_str u" "remove_sub ''uuid:'' (uuid_str u) = uuid_str u"
    "strip_chars {CHR ''{'', CHR ''}''} (uuid_str u) = uuid_str u"
    by (simp_all add: remove_sub_absent strip_chars_absent)
  moreover have "remove_sub ''-'' (uuid_str u) = h"
  proof -
    have "CHR ''-'' \<notin> set h" using hex is_hex_digit_plain unfolding list_all_iff by blast
    then have dash: "filter (\<lambda>c. c \<noteq> CHR ''-'') (take m (drop n h)) = take m (drop n h)"
      "filter (\<lambda>c. c \<noteq> CHR ''-'') (drop n h) = drop n h" "filter (\<lambda>c. c \<noteq> CHR ''-'') (take m h) = take m h" for m n
      by (auto intro!: filter_absent dest: in_set_takeD in_set_dropD)
    have "take 8 h @ take 4 (drop 8 h) @ take 4 (drop 12 h) @ take 4 (drop 16 h) @ drop 20 h = h"
    proof -
      have "take 4 (drop n h) @ drop (n + 4) h = drop n h" for n
        by (metis add.commute append_take_drop_id drop_drop)
      from this [of 8] this [of 12] this [of 16] show ?thesis by simp
    qed
    then show ?thesis by (simp add: remove_dash uuid_str_def Let_def dash flip: h_def)
  qed
  moreover have u: "unat u < 2 ^ 128" using unsigned_less [of u] by simp
  moreover have "h \<noteq> []" "length h = 32" by (auto simp: h_def simp flip: length_0_conv)
  then have "length h = 32" "hex_int h = Some (int (unat u))"
    using hex_int_plain [OF hex] read_hex_text [of "unat u" 32] u by (simp_all add: h_def)
  moreover have "int (unat u) < 2 ^ 128" using uint_bounded [of u] by simp
  ultimately show ?thesis by (simp add: parse_uuid_def Let_def)
qed

end
