(* ===== verification/Json_Reader.thy ===== *)
theory Json_Reader
  imports Py_Json Py_Base64
begin

text \<open>
  \<open>json.loads\<close> on text: the grammar of \<open>json.decoder\<close>, with the conversions of number texts
  (\<open>parse_int\<close>, \<open>parse_float\<close>) as arguments.  A number followed by anything is read as far as it
  matches, a repeated key of an object keeps its place and its last value, and nothing but white
  space may follow the document.  \<open>None\<close> stands for a \<open>JSONDecodeError\<close>; strings hold the characters
  below 256, so an escape beyond them is not readable either.  The recursion limit of the
  interpreter is not modelled.  The fuel of the readers is the length of the text, which every
  nested value shortens.
\<close>

section \<open>Tokens\<close>

definition skip_space :: "string \<Rightarrow> string" where
  "skip_space s = dropWhile (\<lambda>c. c \<in> {CHR '' '', CHR 0x09, CHR 0x0A, CHR 0x0D}) s"

definition plain_escapes :: "(char \<times> char) list" where
  "plain_escapes = [(CHR 0x22, CHR 0x22), (CHR 0x5C, CHR 0x5C), (CHR ''/'', CHR ''/''), (CHR ''b'', CHR 0x08),
     (CHR ''f'', CHR 0x0C), (CHR ''n'', CHR 0x0A), (CHR ''r'', CHR 0x0D), (CHR ''t'', CHR 0x09)]"

text \<open>\<open>scanstring\<close> after the opening quote: the contents, and the text after the closing quote.\<close>

fun read_string :: "string \<Rightarrow> (string \<times> string) option" where
  "read_string [] = None"
| "read_string (c # cs) =
     (if c = CHR 0x22 then Some ([], cs)
      else if c = CHR 0x5C then
        (case cs of
           [] \<Rightarrow> None
         | e # r \<Rightarrow>
             (if e = CHR ''u''
              then (case r of
                      a # b # x # y # r' \<Rightarrow>
                        (if list_all is_hex_digit [a, b, x, y] \<and> read_hex [a, b, x, y] < 256
                         then map_option (\<lambda>(s, t). (char_of (read_hex [a, b, x, y]) # s, t)) (read_string r')
                         else None)
                    | _ \<Rightarrow> None)
              else (case map_of plain_escapes e of
                      None \<Rightarrow> None
                    | Some d \<Rightarrow> map_option (\<lambda>(s, t). (d # s, t)) (read_string r))))
      else if code_of c < 32 then None
      else map_option (\<lambda>(s, t). (c # s, t)) (read_string cs))"

text \<open>The number pattern: an integer part without leading zeros, an optional fraction and exponent.\<close>

definition read_integer :: "string \<Rightarrow> (string \<times> string) option" where
  "read_integer s =
     (let neg = prefix ''-'' s; t = (if neg then drop 1 s else s); sign = (if neg then ''-'' else [])
      in case t of
           [] \<Rightarrow> None
         | d # r \<Rightarrow>
             (if d = CHR ''0'' then Some (sign @ ''0'', r)
              else if is_digit d then Some (sign @ takeWhile is_digit t, dropWhile is_digit t)
              else None))"

definition read_fraction :: "string \<Rightarrow> string \<times> string" where
  "read_fraction r =
     (if prefix ''.'' r \<and> takeWhile is_digit (drop 1 r) \<noteq> []
      then (''.'' @ takeWhile is_digit (drop 1 r), dropWhile is_digit (drop 1 r))
      else ([], r))"

definition read_exponent :: "string \<Rightarrow> string \<times> string" where
  "read_exponent r =
     (if prefix ''e'' r \<or> prefix ''E'' r
      then (let t = drop 1 r; sign = (if prefix ''-'' t \<or> prefix ''+'' t then take 1 t else []); u = drop (length sign) t
            in if takeWhile is_digit u = [] then ([], r)
               else (take 1 r @ sign @ takeWhile is_digit u, dropWhile is_digit u))
      else ([], r))"

definition read_number :: "(string \<Rightarrow> pyval option) \<Rightarrow> (string \<Rightarrow> pyval option) \<Rightarrow> string \<Rightarrow> (pyval \<times> string) option" where
  "read_number parse_int parse_float s =
     (case read_integer s of
        None \<Rightarrow> None
      | Some (i, r) \<Rightarrow>
          (let (f, r1) = read_fraction r; (e, r2) = read_exponent r1
           in map_option (\<lambda>v. (v, r2)) (if f = [] \<and> e = [] then parse_int i else parse_float (i @ f @ e))))"

section \<open>Values\<close>

definition read_constant :: "string \<Rightarrow> (pyval \<times> string) option" where
  "read_constant s =
     (if prefix ''null'' s then Some (PNone, drop 4 s)
      else if prefix ''true'' s then Some (PBool True, drop 4 s)
      else if prefix ''false'' s then Some (PBool False, drop 5 s)
      else if prefix ''NaN'' s then Some (PFloat ''nan'', drop 3 s)
      else if prefix ''Infinity'' s then Some (PFloat ''inf'', drop 8 s)
      else if prefix ''-Infinity'' s then Some (PFloat ''-inf'', drop 9 s)
      else None)"

fun read_value :: "(string \<Rightarrow> pyval option) \<Rightarrow> (string \<Rightarrow> pyval option) \<Rightarrow> nat \<Rightarrow> string \<Rightarrow> (pyval \<times> string) option"
  and read_items :: "(string \<Rightarrow> pyval option) \<Rightarrow> (string \<Rightarrow> pyval option) \<Rightarrow> nat \<Rightarrow> string \<Rightarrow> (pyval list \<times> string) option"
  and read_members :: "(string \<Rightarrow> pyval option) \<Rightarrow> (string \<Rightarrow> pyval option) \<Rightarrow> nat \<Rightarrow> string \<Rightarrow> ((string \<times> pyval) list \<times> string) option"
where
  "read_value ri rf 0 s = None"
| "read_value ri rf (Suc n) s =
     (case s of
        [] \<Rightarrow> None
      | c # cs \<Rightarrow>
          (if c = CHR 0x22 then map_option (\<lambda>(t, r). (PStr t, r)) (read_string cs)
           else if c = CHR ''['' then
             (let r = skip_space cs
              in if prefix '']'' r then Some (PList [], drop 1 r)
                 else map_option (\<lambda>(vs, r). (PList vs, r)) (read_items ri rf n r))
           else if c = CHR ''{'' then
             (let r = skip_space cs
              in if prefix ''}'' r then Some (PDict [], drop 1 r)
                 else map_option (\<lambda>(ps, r). (PDict (dict_of ps), r)) (read_members ri rf n r))
           else (case read_constant s of Some x \<Rightarrow> Some x | None \<Rightarrow> read_number ri rf s)))"
| "read_items ri rf 0 s = None"
| "read_items ri rf (Suc n) s =
     (case read_value ri rf n s of
        None \<Rightarrow> None
      | Some (v, r) \<Rightarrow>
          (let r1 = skip_space r
           in if prefix '']'' r1 then Some ([v], drop 1 r1)
              else if prefix '','' r1
              then map_option (\<lambda>(vs, r2). (v # vs, r2)) (read_items ri rf n (skip_space (drop 1 r1)))
              else None))"
| "read_members ri rf 0 s = None"
| "read_members ri rf (Suc n) s =
     (if \<not> prefix [CHR 0x22] s then None
      else (case read_string (drop 1 s) of
              None \<Rightarrow> None
            | Some (k, r) \<Rightarrow>
                (if \<not> prefix '':'' (skip_space r) then None
                 else (case read_value ri rf n (skip_space (drop 1 (skip_space r))) of
                         None \<Rightarrow> None
                       | Some (v, r1) \<Rightarrow>
                           (let r2 = skip_space r1
                            in if prefix ''}'' r2 then Some ([(k, v)], drop 1 r2)
                               else if prefix '','' r2
                               then map_option (\<lambda>(ps, r3). ((k, v) # ps, r3)) (read_members ri rf n (skip_space (drop 1 r2)))
                               else None)))))"

definition read_document :: "(string \<Rightarrow> pyval option) \<Rightarrow> (string \<Rightarrow> pyval option) \<Rightarrow> string \<Rightarrow> pyval option" where
  "read_document ri rf s =
     (case read_value ri rf (2 * length s + 2) (skip_space s) of
        None \<Rightarrow> None
      | Some (v, r) \<Rightarrow> (if skip_space r = [] then Some v else None))"

text \<open>\<open>int(text)\<close> of a matched integer: the interpreter limits the number of digits.\<close>

definition int_limit :: nat where "int_limit = 4300"

definition json_int :: "string \<Rightarrow> pyval option" where
  "json_int t =
     (let neg = prefix ''-'' t; ds = (if neg then drop 1 t else t)
      in if length ds > int_limit then None
         else Some (PInt (if neg then - int (read_digits ds) else int (read_digits ds))))"

section \<open>Reading what was written\<close>

lemma skip_space_id: "s = [] \<or> hd s \<notin> {CHR '' '', CHR 0x09, CHR 0x0A, CHR 0x0D} \<Longrightarrow> skip_space s = s"
  by (cases s) (auto simp: skip_space_def)

lemma read_string_plain:
  "list_all (\<lambda>c. 32 \<le> code_of c \<and> c \<noteq> CHR 0x22 \<and> c \<noteq> CHR 0x5C) s \<Longrightarrow> read_string (s @ CHR 0x22 # r) = Some (s, r)"
  by (induction s) auto

lemma sample_document:
  "read_document json_int (\<lambda>s. Some (PFloat s)) '' {\"a\": [1, -2.50e1, \"x\"], \"b\": null , \"a\": [true, {}]}''
     = Some (PDict [(''a'', PList [PBool True, PDict []]), (''b'', PNone)])"
  "read_document json_int (\<lambda>s. Some (PFloat s)) ''[1, -2.50e1, \"x\"]''
     = Some (PList [PInt 1, PFloat ''-2.50e1'', PStr ''x''])"
  "read_document json_int (\<lambda>s. Some (PFloat s)) ''[1,]'' = None" "read_document json_int (\<lambda>s. Some (PFloat s)) ''01'' = None"
  by code_simp+

section \<open>The fuel is enough\<close>

lemma length_skip_space: "length (skip_space s) \<le> length s"
  by (simp add: skip_space_def length_dropWhile_le)

lemma read_string_shorter: "read_string s = Some (x, r) \<Longrightarrow> length r < length s"
  by (induction s arbitrary: x r rule: read_string.induct) (fastforce split: if_splits list.splits option.splits)+

lemma read_integer_shorter:
  assumes "read_integer s = Some (i, r)"
  shows "length r < length s"
proof -
  have tail: "length r < length t" if "t = d # u" "r = u \<or> r = dropWhile is_digit t" "is_digit d" for t d u
    using that length_dropWhile_le [of is_digit u] by auto
  have zero: "is_digit CHR ''0''" by code_simp
  obtain d u where "(if prefix ''-'' s then drop 1 s else s) = d # u" "is_digit d"
    "r = u \<or> r = dropWhile is_digit (if prefix ''-'' s then drop 1 s else s)"
    using assms zero by (auto simp: read_integer_def Let_def split: list.splits if_splits)
  then have "length r < length (if prefix ''-'' s then drop 1 s else s)" using tail by blast
  then show ?thesis by (auto split: if_splits)
qed

lemma read_fraction_shorter: "length (snd (read_fraction q)) \<le> length q"
  using length_dropWhile_le [of is_digit "drop 1 q"] by (auto simp: read_fraction_def)

lemma read_exponent_shorter: "length (snd (read_exponent q)) \<le> length q"
  by (auto simp: read_exponent_def Let_def intro: order.trans [OF length_dropWhile_le])

lemma read_number_shorter: "read_number ri rf s = Some (v, r) \<Longrightarrow> length r < length s"
proof -
  assume "read_number ri rf s = Some (v, r)"
  then obtain i r0 where i: "read_integer s = Some (i, r0)" "r = snd (read_exponent (snd (read_fraction r0)))"
    by (auto simp: read_number_def Let_def split: option.splits prod.splits)
  then show ?thesis
    using read_integer_shorter [OF i(1)] read_exponent_shorter [of "snd (read_fraction r0)"] read_fraction_shorter [of r0] by simp
qed

lemma read_constant_shorter: "read_constant s = Some (v, r) \<Longrightarrow> length r < length s"
proof -
  have "read_constant [] = None" by (simp add: read_constant_def)
  then show "read_constant s = Some (v, r) \<Longrightarrow> ?thesis" by (cases "s = []") (auto simp: read_constant_def split: if_splits)
qed

lemma read_shorter:
  "read_value ri rf n s = Some (v, r) \<Longrightarrow> length r < length s"
  "read_items ri rf n s = Some (vs, r) \<Longrightarrow> length r < length s"
  "read_members ri rf n s = Some (ps, r) \<Longrightarrow> length r < length s"
proof (induction ri rf n s and ri rf n s and ri rf n s arbitrary: v r and vs r and ps r
    rule: read_value_read_items_read_members.induct)
  case (2 ri rf n s)
  show ?case
  proof (cases s)
    case (Cons c cs)
    have "length (skip_space cs) \<le> length cs" by (rule length_skip_space)
    then show ?thesis using 2 Cons read_string_shorter [of cs] read_constant_shorter [of s v r] read_number_shorter [of ri rf s v r]
      by (auto simp: Let_def split: if_splits option.splits) fastforce+
  qed (use 2 in simp)
next
  case (4 ri rf n s)
  obtain w r0 where w: "read_value ri rf n s = Some (w, r0)" using 4(3) by (auto split: option.splits)
  have "length r0 < length s" by (rule 4(1) [OF w])
  moreover have "length (skip_space r0) \<le> length r0" "length (skip_space (drop 1 (skip_space r0))) \<le> length (skip_space r0)"
    using length_skip_space [of r0] length_skip_space [of "drop 1 (skip_space r0)"] by simp_all
  moreover have "length r < length (skip_space (drop 1 (skip_space r0)))" if "\<not> prefix '']'' (skip_space r0)"
    using 4(3) that w by (auto simp: Let_def simp del: One_nat_def intro: 4(2) [OF w] split: if_splits)
  ultimately show ?case using 4(3) w by (cases "prefix '']'' (skip_space r0)") auto
next
  case (6 ri rf n s)
  obtain k r0 w r1 where w: "read_string (drop 1 s) = Some (k, r0)" "prefix '':'' (skip_space r0)"
    "read_value ri rf n (skip_space (drop 1 (skip_space r0))) = Some (w, r1)" "prefix [CHR 0x22] s"
    using 6(3) by (auto split: option.splits if_splits)
  have "length r1 < length (skip_space (drop 1 (skip_space r0)))" by (rule 6(1)) (use w in auto)
  moreover have "length (skip_space (drop 1 (skip_space r0))) \<le> length (skip_space r0)" "length (skip_space r0) \<le> length r0"
    "length r0 < length s" "length (skip_space r1) \<le> length r1" "length (skip_space (drop 1 (skip_space r1))) \<le> length (skip_space r1)"
    using length_skip_space [of "drop 1 (skip_space r0)"] length_skip_space [of r0] length_skip_space [of r1]
      length_skip_space [of "drop 1 (skip_space r1)"] read_string_shorter [OF w(1)] by simp_all
  moreover have "length r < length (skip_space (drop 1 (skip_space r1)))" if "\<not> prefix ''}'' (skip_space r1)"
    using 6(3) that w by (auto simp: Let_def simp del: One_nat_def intro: 6(2) split: if_splits)
  ultimately show ?case using 6(3) w by (cases "prefix ''}'' (skip_space r1)") auto
qed auto

lemma read_enough:
  "2 * length s + 1 \<le> n \<Longrightarrow> read_value ri rf (Suc n) s = read_value ri rf n s"
  "2 * length s + 2 \<le> n \<Longrightarrow> read_items ri rf (Suc n) s = read_items ri rf n s"
  "2 * length s + 2 \<le> n \<Longrightarrow> read_members ri rf (Suc n) s = read_members ri rf n s"
proof (induction ri rf n s and ri rf n s and ri rf n s rule: read_value_read_items_read_members.induct)
  case (2 ri rf n s)
  show ?case
  proof (cases s)
    case (Cons c cs)
    have n: "2 * length (skip_space cs) + 2 \<le> n" using 2(3) Cons length_skip_space [of cs] by simp
    have items: "read_items ri rf (Suc n) (skip_space cs) = read_items ri rf n (skip_space cs)"
      if "c \<noteq> CHR 0x22" "c = CHR ''[''" "\<not> prefix '']'' (skip_space cs)"
      using 2(1) [OF Cons that(1,2) refl that(3) n] .
    have members: "read_members ri rf (Suc n) (skip_space cs) = read_members ri rf n (skip_space cs)"
      if "c \<noteq> CHR 0x22" "c \<noteq> CHR ''[''" "c = CHR ''{''" "\<not> prefix ''}'' (skip_space cs)"
      using 2(2) [OF Cons that(1,2,3) refl that(4) n] .
    show ?thesis unfolding read_value.simps(2) Cons by (simp add: Let_def items members del: read_items.simps read_members.simps)
  qed simp
next
  case (4 ri rf n s)
  have v: "read_value ri rf (Suc n) s = read_value ri rf n s" using 4 by simp
  have "read_items ri rf (Suc n) (skip_space (drop 1 (skip_space r))) = read_items ri rf n (skip_space (drop 1 (skip_space r)))"
    if "read_value ri rf n s = Some (w, r)" "\<not> prefix '']'' (skip_space r)" "prefix '','' (skip_space r)" for w r
  proof (rule 4(2) [OF that(1) refl refl that(2,3)])
    show "2 * length (skip_space (drop 1 (skip_space r))) + 2 \<le> n"
      using 4(3) read_shorter(1) [OF that(1)] length_skip_space [of r] length_skip_space [of "drop 1 (skip_space r)"] by simp
  qed
  then show ?case unfolding read_items.simps(2) v
    by (auto simp: Let_def simp del: read_items.simps One_nat_def split: option.splits)
next
  case (6 ri rf n s)
  have l: "length r < length s" "length (skip_space (drop 1 (skip_space r))) < length s" if "read_string (drop 1 s) = Some (k, r)" for k r
    using read_string_shorter [OF that] length_skip_space [of r] length_skip_space [of "drop 1 (skip_space r)"] by simp_all
  have v: "read_value ri rf (Suc n) (skip_space (drop 1 (skip_space r))) = read_value ri rf n (skip_space (drop 1 (skip_space r)))"
    if "prefix [CHR 0x22] s" "read_string (drop 1 s) = Some (k, r)" "prefix '':'' (skip_space r)" for k r
    by (rule 6(1)) (use that l(2) [OF that(2)] 6(3) in auto)
  have m: "read_members ri rf (Suc n) (skip_space (drop 1 (skip_space r1))) = read_members ri rf n (skip_space (drop 1 (skip_space r1)))"
    if "prefix [CHR 0x22] s" "read_string (drop 1 s) = Some (k, r)" "prefix '':'' (skip_space r)"
      "read_value ri rf n (skip_space (drop 1 (skip_space r))) = Some (w, r1)" "\<not> prefix ''}'' (skip_space r1)" "prefix '','' (skip_space r1)"
    for k r w r1
  proof -
    have "2 * length (skip_space (drop 1 (skip_space r1))) + 2 \<le> n"
      using 6(3) read_shorter(1) [OF that(4)] l(2) [OF that(2)] length_skip_space [of r1] length_skip_space [of "drop 1 (skip_space r1)"]
      by simp
    then show ?thesis by (intro 6(2)) (use that in auto)
  qed
  show ?case unfolding read_members.simps(2) [of ri rf n s] read_members.simps(2) [of ri rf "Suc n" s] using v m
    by (auto simp: Let_def simp del: read_members.simps read_value.simps One_nat_def split: option.splits)
qed auto

text \<open>Any fuel beyond the bound gives what \<open>read_document\<close> gives.\<close>

lemma read_document_fuel:
  "read_value ri rf (2 * length s + 2 + k) (skip_space s) = read_value ri rf (2 * length s + 2) (skip_space s)"
proof (induction k)
  case (Suc k)
  have "2 * length (skip_space s) + 1 \<le> 2 * length s + 2 + k" using length_skip_space [of s] by simp
  then show ?case using Suc read_enough(1) by simp
qed simp

section \<open>The shape of a document\<close>

text \<open>A Python dictionary has no key twice.\<close>

fun well_keyed :: "pyval \<Rightarrow> bool" where
  "well_keyed (PDict ps) \<longleftrightarrow> distinct (map fst ps) \<and> (\<forall>(k, v)\<in>set ps. well_keyed v)"
| "well_keyed (PList xs) \<longleftrightarrow> (\<forall>v\<in>set xs. well_keyed v)"
| "well_keyed (PTuple xs) \<longleftrightarrow> (\<forall>v\<in>set xs. well_keyed v)"
| "well_keyed v \<longleftrightarrow> True"

lemma set_dict_of: "set (dict_of kvs) \<subseteq> set kvs"
proof -
  have "set (AList.update k v d) \<subseteq> insert (k, v) (set d)" for k and v :: 'a and d by (induction d) auto
  then have "set (fold (\<lambda>(k, v) d. AList.update k v d) kvs d) \<subseteq> set d \<union> set kvs" for d
    by (induction kvs arbitrary: d) (fastforce simp: split_def)+
  from this [of "[]"] show ?thesis by (simp add: dict_of_def)
qed

lemma distinct_dict_of: "distinct (map fst (dict_of kvs))"
proof -
  have "distinct (map fst d) \<Longrightarrow> distinct (map fst (fold (\<lambda>(k, v) d. AList.update k v d) kvs d))" for d
    by (induction kvs arbitrary: d) (auto simp: distinct_update)
  then show ?thesis by (simp add: dict_of_def)
qed

lemma read_well_keyed:
  assumes "\<And>t v. ri t = Some v \<Longrightarrow> well_keyed v" "\<And>t v. rf t = Some v \<Longrightarrow> well_keyed v"
  shows "read_value ri rf n s = Some (v, r) \<Longrightarrow> well_keyed v"
    "read_items ri rf n s = Some (vs, r) \<Longrightarrow> \<forall>v\<in>set vs. well_keyed v"
    "read_members ri rf n s = Some (ps, r) \<Longrightarrow> \<forall>(k, v)\<in>set ps. well_keyed v"
  using assms
proof (induction ri rf n s and ri rf n s and ri rf n s arbitrary: v r and vs r and ps r
    rule: read_value_read_items_read_members.induct)
  case (2 ri rf n s)
  have members: "well_keyed (PDict (dict_of ps))" if "\<forall>(k, v)\<in>set ps. well_keyed v" for ps
    using that distinct_dict_of [of ps] set_dict_of [of ps] by auto
  have const: "well_keyed w" if "read_constant t = Some (w, x)" for t w x
    using that by (auto simp: read_constant_def split: if_splits)
  have num: "well_keyed w" if "read_number ri rf t = Some (w, x)" for t w x
    using that 2(4,5) by (auto simp: read_number_def Let_def split: option.splits prod.splits if_splits)
  have empty: "well_keyed (PDict [])" by simp
  show ?case
  proof (cases s)
    case (Cons c cs)
    then show ?thesis using 2 const num empty
      by (auto simp: Let_def members simp del: well_keyed.simps(1) split: if_splits option.splits)
  qed (use 2 in simp)
next
  case (4 ri rf n s)
  then obtain w r0 where w: "read_value ri rf n s = Some (w, r0)" by (auto split: option.splits)
  have wk: "well_keyed w" by (rule 4(1) [OF w 4(4,5)])
  show ?case
  proof (cases "prefix '']'' (skip_space r0)")
    case False
    then obtain ws where "read_items ri rf n (skip_space (drop 1 (skip_space r0))) = Some (ws, r)" "vs = w # ws" "prefix '','' (skip_space r0)"
      using 4(3) w by (auto simp: Let_def simp del: One_nat_def split: if_splits)
    moreover from this have "\<forall>v\<in>set ws. well_keyed v" by (intro 4(2)) (use False w 4(4,5) in auto)
    ultimately show ?thesis using wk by simp
  qed (use 4(3) w wk in auto)
next
  case (6 ri rf n s)
  then obtain k r0 w r1 where w: "read_string (drop 1 s) = Some (k, r0)" "prefix '':'' (skip_space r0)"
    "read_value ri rf n (skip_space (drop 1 (skip_space r0))) = Some (w, r1)" "prefix [CHR 0x22] s"
    by (auto split: option.splits if_splits)
  have wk: "well_keyed w" by (rule 6(1)) (use w 6(4,5) in auto)
  show ?case
  proof (cases "prefix ''}'' (skip_space r1)")
    case False
    then obtain qs where "read_members ri rf n (skip_space (drop 1 (skip_space r1))) = Some (qs, r)" "ps = (k, w) # qs" "prefix '','' (skip_space r1)"
      using 6(3) w by (auto simp: Let_def simp del: One_nat_def split: if_splits)
    moreover from this have "\<forall>(k, v)\<in>set qs. well_keyed v" by (intro 6(2)) (use False w 6(4,5) in auto)
    ultimately show ?thesis using wk by simp
  qed (use 6(3) w wk in auto)
qed simp_all

lemma read_document_well_keyed:
  assumes "\<And>t v. ri t = Some v \<Longrightarrow> well_keyed v" "\<And>t v. rf t = Some v \<Longrightarrow> well_keyed v" "read_document ri rf s = Some v"
  shows "well_keyed v"
proof -
  obtain r where "read_value ri rf (2 * length s + 2) (skip_space s) = Some (v, r)"
    using assms(3) by (auto simp: read_document_def simp del: read_value.simps split: option.splits if_splits)
  then show ?thesis by (rule read_well_keyed(1) [rotated 2]) (use assms in auto)
qed

lemma json_int_well_keyed: "json_int t = Some v \<Longrightarrow> well_keyed v"
  by (auto simp: json_int_def Let_def split: if_splits)

end
