(* ===== verification/Cursors.thy ===== *)
theory Cursors
  imports Json_Reader "HOL-Library.Product_Lexorder"
begin

text \<open>
  Pages and their cursors: \<open>encode_cursor\<close>, \<open>decode_cursor\<close>, \<open>_after_cursor\<close>, \<open>_page\<close> and the guards of
  \<open>app/application/queries/observations.py\<close>.  A cursor is the key of the last row of a page.  How
  \<open>json.loads\<close> decodes bytes to text is an argument (\<open>decode_text\<close>); what is needed of it is that ASCII
  bytes are read as ASCII characters.
\<close>

section \<open>Guards\<close>

definition query_error :: "string \<Rightarrow> string \<Rightarrow> string \<Rightarrow> exn" where
  "query_error code message field = QueryValidationError code message (Some field)"

text \<open>\<open>today\<close> is the UTC date of the clock.\<close>

definition validate_history_range :: "date \<Rightarrow> date \<Rightarrow> date \<Rightarrow> int \<Rightarrow> unit res" where
  "validate_history_range today s e maximum_days =
     rbind (rguard (s \<le> e) (query_error ''INVALID_DATE_RANGE'' ''start_date must not be after end_date'' ''start_date'')) (\<lambda>_.
     rbind (rguard (ymd2ord 1900 1 1 \<le> s)
              (query_error ''DATE_OUT_OF_BOUNDS'' ''start_date must be on or after 1900-01-01'' ''start_date'')) (\<lambda>_.
     rbind (rguard (e \<le> today) (query_error ''DATE_OUT_OF_BOUNDS'' ''end_date must not be in the future'' ''end_date'')) (\<lambda>_.
     rguard (e - s + 1 \<le> maximum_days)
       (query_error ''DATE_RANGE_TOO_LARGE'' (''date range must not exceed '' @ show_int maximum_days @ '' days'') ''end_date''))))"

definition maximum_history_days :: int where "maximum_history_days = 9132"

definition validate_page_size :: "int \<Rightarrow> int \<Rightarrow> unit res" where
  "validate_page_size page_size maximum =
     rguard (1 \<le> page_size \<and> page_size \<le> maximum)
       (query_error ''INVALID_PAGE_SIZE'' (''page_size must be between 1 and '' @ show_int maximum) ''page_size'')"

section \<open>Cursors\<close>

type_synonym page_key = "date \<times> uuid"

text \<open>\<open>json.dumps([date, id])\<close> in ASCII, base64 without its padding.\<close>

definition cursor_document :: "page_key \<Rightarrow> json" where
  "cursor_document k = JArr [JStr (iso_date (fst k)), JStr (uuid_str (snd k))]"

definition encode_cursor :: "page_key \<Rightarrow> string" where
  "encode_cursor k = rstrip_char (CHR ''='') (b64_encode (map code_of (dumps (cursor_document k))))"

text \<open>\<open>date_text, id_text = value\<close>.\<close>

fun unpack2 :: "pyval \<Rightarrow> (pyval \<times> pyval) res" where
  "unpack2 (PList [a, b]) = Inr (a, b)"
| "unpack2 (PList xs) = Inl (ValueError ''values to unpack (expected 2)'')"
| "unpack2 (PStr [a, b]) = Inr (PStr [a], PStr [b])"
| "unpack2 (PStr s) = Inl (ValueError ''values to unpack (expected 2)'')"
| "unpack2 (PDict [a, b]) = Inr (PStr (fst a), PStr (fst b))"
| "unpack2 (PDict ps) = Inl (ValueError ''values to unpack (expected 2)'')"
| "unpack2 v = Inl (TypeError ''cannot unpack non-iterable object'')"

definition date_of_value :: "pyval \<Rightarrow> date res" where
  "date_of_value v = (case v of PStr s \<Rightarrow> date_fromisoformat s | _ \<Rightarrow> Inl (TypeError ''fromisoformat: argument must be str''))"

text \<open>\<open>UUID(value)\<close>: of a value that is no text it calls a string method, unless it is \<open>None\<close>.\<close>

definition uuid_of_value :: "pyval \<Rightarrow> uuid res" where
  "uuid_of_value v = (case v of
     PStr s \<Rightarrow> parse_uuid s
   | PNone \<Rightarrow> Inl (TypeError ''one of the hex, bytes, bytes_le, fields, or int arguments must be given'')
   | _ \<Rightarrow> Inl (AttributeError ''object has no attribute replace''))"

fun is_type_error :: "exn \<Rightarrow> bool" where
  "is_type_error (TypeError m) = True"
| "is_type_error _ = False"

definition read_cursor :: "(bytes \<Rightarrow> string res) \<Rightarrow> string \<Rightarrow> page_key res" where
  "read_cursor decode_text cursor =
     (case b64_decode (cursor @ replicate (nat (- int (length cursor) mod 4)) (CHR ''='')) of
        None \<Rightarrow> Inl (ValueError ''invalid base64'')
      | Some bs \<Rightarrow>
          rbind (decode_text (map word_of_nat bs)) (\<lambda>text.
          rbind (case read_document json_int (\<lambda>s. Some (PFloat s)) text of
                   None \<Rightarrow> Inl (ValueError ''invalid JSON'') | Some v \<Rightarrow> Inr v) (\<lambda>v.
          rbind (unpack2 v) (\<lambda>(a, b).
          rbind (date_of_value a) (\<lambda>d.
          rmap (Pair d) (uuid_of_value b))))))"

definition decode_cursor :: "(bytes \<Rightarrow> string res) \<Rightarrow> string \<Rightarrow> page_key res" where
  "decode_cursor decode_text cursor =
     (case read_cursor decode_text cursor of
        Inl e \<Rightarrow> (if is_value_error e \<or> is_type_error e
                  then Inl (query_error ''INVALID_CURSOR'' ''cursor is invalid'' ''cursor'') else Inl e)
      | Inr k \<Rightarrow> Inr k)"

section \<open>Pages\<close>

text \<open>\<open>_after_cursor\<close>: the condition a cursor puts on the key of a row; an empty cursor puts none.\<close>

definition after_key :: "page_key \<Rightarrow> page_key \<Rightarrow> bool" where
  "after_key c k \<longleftrightarrow> fst k > fst c \<or> fst k = fst c \<and> snd k > snd c"

definition after_cursor :: "(bytes \<Rightarrow> string res) \<Rightarrow> string option \<Rightarrow> (page_key \<Rightarrow> bool) res" where
  "after_cursor decode_text cursor = (case cursor of
     None \<Rightarrow> Inr (\<lambda>k. True)
   | Some c \<Rightarrow> (if c = [] then Inr (\<lambda>k. True) else rmap after_key (decode_cursor decode_text c)))"

text \<open>\<open>_page\<close>: the rows asked for, and the cursor of the last of them when one more was found.\<close>

definition page_of :: "('r \<Rightarrow> page_key) \<Rightarrow> nat \<Rightarrow> 'r list \<Rightarrow> 'r list \<times> string option" where
  "page_of key n items =
     (take n items, if length items > n then Some (encode_cursor (key (last (take n items)))) else None)"

text \<open>
  A listing: the rows that satisfy the cursor, in the order of their keys, one more than asked for, and the
  page cut from them.  \<open>view\<close> is what a row is shown as and \<open>view_key\<close> reads its key.
\<close>

definition list_page ::
  "('r \<Rightarrow> page_key) \<Rightarrow> ('r \<Rightarrow> 'v) \<Rightarrow> ('v \<Rightarrow> page_key) \<Rightarrow> int \<Rightarrow> (page_key \<Rightarrow> bool) \<Rightarrow> 'r list \<Rightarrow> 'v list \<times> string option" where
  "list_page key view view_key page_size keep rows =
     page_of view_key (nat page_size) (map view (take (nat page_size + 1) (sort_key key (filter (keep \<circ> key) rows))))"

text \<open>A client that follows the cursors until there is none.\<close>

fun walk_pages :: "nat \<Rightarrow> (string option \<Rightarrow> ('v list \<times> string option) res) \<Rightarrow> string option \<Rightarrow> 'v list res" where
  "walk_pages 0 fetch cursor = Inl (RuntimeError ''too many pages'')"
| "walk_pages (Suc n) fetch cursor =
     rbind (fetch cursor) (\<lambda>(items, next).
       case next of None \<Rightarrow> Inr items | Some c \<Rightarrow> rmap ((@) items) (walk_pages n fetch (Some c)))"

section \<open>Round trip\<close>

text \<open>What the documentation of \<open>json.loads\<close> says of bytes: ASCII is read as it is.\<close>

definition reads_ascii :: "(bytes \<Rightarrow> string res) \<Rightarrow> bool" where
  "reads_ascii decode_text \<longleftrightarrow>
     (\<forall>s. list_all (\<lambda>c. 0 < code_of c \<and> code_of c < 128) s \<longrightarrow> decode_text (map (\<lambda>c. word_of_nat (code_of c)) s) = Inr s)"

definition ascii_text :: "bytes \<Rightarrow> string res" where
  "ascii_text bs = (if list_all (\<lambda>b. unat b < 128) bs then Inr (map (\<lambda>b. char_of (unat b)) bs)
     else Inl (ValueError ''ordinal not in range(128)''))"

lemma reads_ascii_text: "reads_ascii ascii_text"
proof -
  have "unat (word_of_nat (code_of c) :: 8 word) = code_of c" for c
    using code_of_less [of c] by (simp add: unsigned_of_nat take_bit_nat_eq_self)
  then show ?thesis by (auto simp: reads_ascii_def ascii_text_def list_all_iff intro!: map_idI)
qed


text \<open>The texts in a cursor hold digits, lower-case hexadecimal digits and dashes.\<close>

definition plain_text :: "string \<Rightarrow> bool" where
  "plain_text s \<longleftrightarrow> list_all (\<lambda>c. is_hex_digit c \<or> c = CHR ''-'') s"

lemma hex_digit_code: "is_hex_digit c \<Longrightarrow> 48 \<le> code_of c \<and> code_of c < 128 \<and> c \<noteq> CHR 0x5C"
  by (auto simp: is_hex_digit_def is_digit_def to_lower_def is_upper_ascii_def code_of_def split: if_splits)

lemma plain_char_code:
  assumes "is_hex_digit c \<or> c = CHR ''-''"
  shows "32 \<le> code_of c" "code_of c < 128" "c \<noteq> CHR 0x22" "c \<noteq> CHR 0x5C" "0 < code_of c"
proof -
  have "code_of CHR ''-'' = 45" "code_of CHR 0x22 = 34" by code_simp+
  then show "32 \<le> code_of c" "code_of c < 128" "c \<noteq> CHR 0x22" "c \<noteq> CHR 0x5C" "0 < code_of c"
    using assms hex_digit_code [of c] by auto
qed

lemma plain_iso_date: "plain_text (iso_date d)"
proof -
  have "is_hex_digit c" if "c \<in> set (show_pad w n)" for c w n
    using show_pad_digits [OF that] by (simp add: is_hex_digit_def)
  then show ?thesis by (auto simp: plain_text_def iso_date_def list_all_iff split: prod.splits)
qed

lemma plain_uuid_str: "plain_text (uuid_str u)"
proof -
  have "is_hex_digit c" if "c \<in> set (hex_text 32 (unat u))" for c
    using hex_text_digits that by (auto simp: list_all_iff)
  then show ?thesis
    by (auto simp: plain_text_def uuid_str_def Let_def list_all_iff dest: in_set_takeD in_set_dropD)
qed

lemma quote_plain: "plain_text s \<Longrightarrow> quote_str s = CHR 0x22 # s @ [CHR 0x22]"
proof -
  have "escape_char c = [c]" if "is_hex_digit c \<or> c = CHR ''-''" for c
    using plain_char_code [OF that] by (cases c rule: escape_char_cases) (auto simp: short_escapes_def code_of_def)
  then have "plain_text s \<Longrightarrow> concat (map escape_char s) = s" by (induction s) (auto simp: plain_text_def)
  then show "plain_text s \<Longrightarrow> ?thesis" by (simp add: quote_str_def)
qed

lemma read_quoted: "plain_text s \<Longrightarrow> read_string (s @ CHR 0x22 # r) = Some (s, r)"
  by (rule read_string_plain) (use plain_char_code in \<open>auto simp: plain_text_def list_all_iff\<close>)

lemma read_pair:
  assumes "plain_text a" "plain_text b"
  shows "read_document ri rf (dumps (JArr [JStr a, JStr b])) = Some (PList [PStr a, PStr b])"
proof -
  let ?t = "dumps (JArr [JStr a, JStr b])"
  have t: "?t = CHR ''['' # CHR 0x22 # a @ CHR 0x22 # CHR '','' # CHR 0x22 # b @ CHR 0x22 # [CHR '']'']"
    using assms by (simp add: quote_plain)
  have "\<exists>n. k = Suc (Suc (Suc (Suc n)))" if "4 \<le> k" for k :: nat using that by presburger
  moreover have "4 \<le> 2 * length ?t + 2" by (simp add: t)
  ultimately obtain n where n: "2 * length ?t + 2 = Suc (Suc (Suc (Suc n)))" by blast
  show ?thesis
    unfolding read_document_def n unfolding t using assms by (simp add: skip_space_id read_quoted)
qed

text \<open>The keys that can be in a cursor have a date of the calendar.\<close>

definition valid_key :: "page_key \<Rightarrow> bool" where
  "valid_key k \<longleftrightarrow> valid_date (fst k)"

lemma cursor_bytes:
  assumes "list_all (\<lambda>c. code_of c < 128) s"
  shows "b64_decode (rstrip_char (CHR ''='') (b64_encode (map code_of s)) @
    replicate (nat (- int (length (rstrip_char (CHR ''='') (b64_encode (map code_of s)))) mod 4)) (CHR ''='')) = Some (map code_of s)"
  by (rule b64_unpadded) (use assms in \<open>auto simp: list_all_iff\<close>)

lemma cursor_text: "list_all (\<lambda>c. 0 < code_of c \<and> code_of c < 128) (dumps (cursor_document k))"
proof -
  have "list_all (\<lambda>c. 0 < code_of c \<and> code_of c < 128) s" if "plain_text s" for s
    using that plain_char_code by (auto simp: plain_text_def list_all_iff)
  then show ?thesis
    using plain_iso_date plain_uuid_str by (auto simp: cursor_document_def quote_plain code_of_def)
qed

lemma decode_encode:
  assumes "reads_ascii decode_text" "valid_key k"
  shows "decode_cursor decode_text (encode_cursor k) = Inr k"
proof -
  let ?s = "dumps (cursor_document k)"
  have "decode_text (map (\<lambda>c. word_of_nat (code_of c)) ?s) = Inr ?s"
    using assms(1) cursor_text by (simp add: reads_ascii_def)
  moreover have "list_all (\<lambda>c. code_of c < 128) ?s" using cursor_text [of k] by (auto simp: list_all_iff)
  ultimately have "read_cursor decode_text (encode_cursor k) = Inr k"
    using assms(2) plain_iso_date plain_uuid_str
    by (simp add: read_cursor_def encode_cursor_def cursor_bytes comp_def cursor_document_def read_pair date_of_value_def
        uuid_of_value_def valid_key_def del: dumps.simps)
  then show ?thesis by (simp add: decode_cursor_def)
qed

lemma encode_nonempty: "encode_cursor k \<noteq> []"
proof
  assume "encode_cursor k = []"
  then have "b64_decode [] = Some (map code_of (dumps (cursor_document k)))"
    using cursor_bytes [of "dumps (cursor_document k)"] cursor_text [of k] by (auto simp: encode_cursor_def list_all_iff)
  then show False by (simp add: b64_decode_def cursor_document_def)
qed

section \<open>Following the cursors\<close>

text \<open>
  A listing that pages a sorted table: the key of a page's last row, turned into a cursor and back,
  continues the listing right after that row, so the pages put together are the whole table.
\<close>

locale pager =
  fixes key :: "'r \<Rightarrow> 'k::linorder" and encode :: "'k \<Rightarrow> string" and decode :: "string \<Rightarrow> 'k res" and valid :: "'k \<Rightarrow> bool"
  assumes decode_encode: "valid k \<Longrightarrow> decode (encode k) = Inr k"
begin

lemma pages_cover:
  assumes sorted: "sorted_wrt (\<lambda>a b. key a < key b) rows" and valid: "\<And>r. r \<in> set rows \<Longrightarrow> valid (key r)" and k: "1 \<le> k"
    and fetch: "\<And>cursor. fetch cursor =
      rmap (\<lambda>keep. (map view (take k (filter (keep \<circ> key) rows)),
         if length (filter (keep \<circ> key) rows) > k then Some (encode (key (last (take k (filter (keep \<circ> key) rows))))) else None))
       (case cursor of None \<Rightarrow> Inr (\<lambda>x. True) | Some c \<Rightarrow> rmap (<) (decode c))"
  shows "length rows < n \<Longrightarrow> walk_pages n fetch None = Inr (map view rows)"
    and "x \<in> set rows \<Longrightarrow> length (filter (\<lambda>r. key x < key r) rows) < n \<Longrightarrow>
      walk_pages n fetch (Some (encode (key x))) = Inr (map view (filter (\<lambda>r. key x < key r) rows))"
proof -
  have step: "walk_pages (Suc n) fetch cursor = Inr (map view (filter (keep \<circ> key) rows))"
    if keep: "(case cursor of None \<Rightarrow> Inr (\<lambda>x. True) | Some c \<Rightarrow> rmap (<) (decode c)) = Inr keep"
      and up: "\<And>a b. a \<in> set rows \<Longrightarrow> b \<in> set rows \<Longrightarrow> key a < key b \<Longrightarrow> keep (key a) \<Longrightarrow> keep (key b)"
      and n: "length (filter (keep \<circ> key) rows) \<le> n"
      and IH: "\<And>x. x \<in> set rows \<Longrightarrow> length (filter (\<lambda>r. key x < key r) rows) < n \<Longrightarrow>
        walk_pages n fetch (Some (encode (key x))) = Inr (map view (filter (\<lambda>r. key x < key r) rows))"
    for n cursor keep
  proof (cases "length (filter (keep \<circ> key) rows) > k")
    case False
    then show ?thesis by (simp add: fetch keep)
  next
    case True
    let ?s = "filter (keep \<circ> key) rows"
    define x where "x = last (take k ?s)"
    have ne: "take k ?s \<noteq> []" using True k by auto
    have sorted': "sorted_wrt (\<lambda>a b. key a < key b) ?s" by (rule sorted_wrt_filter [OF sorted])
    have x: "x \<in> set ?s" unfolding x_def using last_in_set [OF ne] by (auto dest: in_set_takeD)
    have "filter (\<lambda>r. key x < key r) ?s = drop k ?s"
    proof -
      have split: "sorted_wrt (\<lambda>a b. key a < key b) (take k ?s @ drop k ?s)" using sorted' by simp
      then have "\<forall>a\<in>set (take k ?s). \<forall>b\<in>set (drop k ?s). key a < key b" unfolding sorted_wrt_append by blast
      moreover have "\<forall>a\<in>set (take k ?s). \<not> key x < key a"
      proof -
        have split: "take k ?s = butlast (take k ?s) @ [x]" using ne by (simp add: x_def)
        have "sorted_wrt (\<lambda>a b. key a < key b) (take k ?s)" by (rule sorted_wrt_take [OF sorted'])
        then have "\<forall>a\<in>set (butlast (take k ?s)). key a < key x" by (subst (asm) split) (simp add: sorted_wrt_append)
        then have "\<forall>a\<in>set (butlast (take k ?s) @ [x]). \<not> key x < key a" by auto
        then show ?thesis by (simp only: split [symmetric])
      qed
      moreover have "x \<in> set (take k ?s)" unfolding x_def by (rule last_in_set [OF ne])
      ultimately have "filter (\<lambda>r. key x < key r) (take k ?s @ drop k ?s) = drop k ?s"
        by (simp only: filter_append) (simp add: filter_empty_conv filter_id_conv)
      then show ?thesis by simp
    qed
    moreover have "filter (\<lambda>r. key x < key r) ?s = filter (\<lambda>r. key x < key r) rows"
      using x up by (auto simp: filter_filter intro!: filter_cong)
    ultimately have rest: "filter (\<lambda>r. key x < key r) rows = drop k ?s" by simp
    have "length (filter (\<lambda>r. key x < key r) rows) < n" using n True k unfolding rest by simp
    then have "walk_pages n fetch (Some (encode (key x))) = Inr (map view (drop k ?s))" using IH x rest by auto
    then show ?thesis using True by (simp add: fetch keep x_def flip: map_append)
  qed
  have from_x: "\<forall>x\<in>set rows. length (filter (\<lambda>r. key x < key r) rows) < n \<longrightarrow>
      walk_pages n fetch (Some (encode (key x))) = Inr (map view (filter (\<lambda>r. key x < key r) rows))" for n
  proof (induction n)
    case (Suc n)
    show ?case
    proof (intro ballI impI)
      fix x assume x: "x \<in> set rows" "length (filter (\<lambda>r. key x < key r) rows) < Suc n"
      have "walk_pages (Suc n) fetch (Some (encode (key x))) = Inr (map view (filter ((<) (key x) \<circ> key) rows))"
        by (rule step) (use x Suc decode_encode [OF valid [OF x(1)]] in \<open>auto simp: comp_def\<close>)
      then show "walk_pages (Suc n) fetch (Some (encode (key x))) = Inr (map view (filter (\<lambda>r. key x < key r) rows))"
        by (simp add: comp_def)
    qed
  qed simp
  show "x \<in> set rows \<Longrightarrow> length (filter (\<lambda>r. key x < key r) rows) < n \<Longrightarrow>
      walk_pages n fetch (Some (encode (key x))) = Inr (map view (filter (\<lambda>r. key x < key r) rows))" for x n
    using from_x by blast
  show "length rows < n \<Longrightarrow> walk_pages n fetch None = Inr (map view rows)" for n
  proof (cases n)
    case (Suc m)
    assume "length rows < n"
    then have "walk_pages (Suc m) fetch None = Inr (map view (filter ((\<lambda>x. True) \<circ> key) rows))"
      by (intro step) (use Suc from_x in auto)
    then show ?thesis by (simp add: Suc comp_def)
  qed simp
qed

end

interpretation cursors: pager "\<lambda>k. k" encode_cursor "decode_cursor ascii_text" valid_key
  by unfold_locales (rule decode_encode [OF reads_ascii_text])

lemma list_page_eq:
  assumes "\<And>r. view_key (view r) = key r" "1 \<le> k"
  shows "list_page key view view_key k keep rows =
    (map view (take (nat k) (filter (keep \<circ> key) (sort_key key rows))),
     if length (filter (keep \<circ> key) (sort_key key rows)) > nat k
     then Some (encode_cursor (key (last (take (nat k) (filter (keep \<circ> key) (sort_key key rows)))))) else None)"
proof -
  let ?s = "filter (keep \<circ> key) (sort_key key rows)"
  have "take (nat k) (take (nat k + 1) ?s) = take (nat k) ?s" by (simp add: take_take)
  moreover have "take (nat k) ?s \<noteq> [] \<Longrightarrow> view_key (last (map view (take (nat k) ?s))) = key (last (take (nat k) ?s))"
    by (simp add: last_map assms(1))
  moreover have "length ?s > nat k \<Longrightarrow> take (nat k) ?s \<noteq> []" using assms(2) by auto
  ultimately show ?thesis
    unfolding list_page_def page_of_def filter_sort [symmetric] by (auto simp: take_map)
qed

text \<open>
  The listings page through their rows in the order of the keys: with at most one row per key, the pages
  a client collects are all rows.
\<close>

lemma listing_pages:
  assumes dt: "reads_ascii decode_text" and view: "\<And>r. view_key (view r) = key r" and k: "1 \<le> k"
    and rows: "distinct (map key rows)" "\<And>r. r \<in> set rows \<Longrightarrow> valid_key (key r)"
    and fetch: "\<And>cursor. fetch cursor = rmap (\<lambda>keep. list_page key view view_key k keep rows) (after_cursor decode_text cursor)"
    and n: "length rows < n"
  shows "walk_pages n fetch None = Inr (map view (sort_key key rows))"
proof -
  let ?s = "sort_key key rows"
  have p: "pager encode_cursor (decode_cursor decode_text) valid_key"
    by unfold_locales (rule decode_encode [OF dt])
  have "sorted_wrt (<) (map key ?s)" using rows(1) by (simp add: strict_sorted_iff distinct_map)
  then have sorted: "sorted_wrt (\<lambda>a b. key a < key b) ?s" by (simp add: sorted_wrt_map)
  have less: "after_key = (<)" by (auto simp: after_key_def fun_eq_iff less_prod_def)
  define g where "g cursor = rmap (\<lambda>keep. (map view (take (nat k) (filter (keep \<circ> key) ?s)),
      if length (filter (keep \<circ> key) ?s) > nat k
      then Some (encode_cursor (key (last (take (nat k) (filter (keep \<circ> key) ?s))))) else None))
    (case cursor of None \<Rightarrow> Inr (\<lambda>x. True) | Some c \<Rightarrow> rmap (<) (decode_cursor decode_text c))" for cursor
  have same: "fetch c = g c" if "c \<noteq> Some []" for c
    using that by (cases c) (simp_all add: fetch g_def after_cursor_def less list_page_eq [where key = key and view = view and view_key = view_key, OF view k])
  have nonempty: "c' \<noteq> Some []" if "g c = Inr (items, c')" for c items c'
    using that unfolding g_def by (auto simp: rmap_eq_Inr encode_nonempty encode_nonempty [symmetric] split: if_splits)
  have "walk_pages m fetch c = walk_pages m g c" if "c \<noteq> Some []" for m c
    using that
  proof (induction m arbitrary: c)
    case (Suc m)
    show ?case
    proof (cases "g c")
      case (Inr p)
      then obtain items c' where p: "g c = Inr (items, c')" by (cases p) simp
      then show ?thesis using Suc nonempty [OF p] by (cases c') (simp_all add: same)
    qed (use Suc in \<open>simp add: same\<close>)
  qed simp
  moreover have "walk_pages n g None = Inr (map view ?s)"
    by (rule pager.pages_cover(1) [OF p sorted _ _ g_def]) (use rows k n in auto)
  ultimately show ?thesis by simp
qed

section \<open>Properties\<close>

text \<open>
  C37. A cursor is read back as the key it was made from, whatever the date and the id.
\<close>

theorem cursor_round_trip:
  assumes "reads_ascii decode_text" "valid_date d"
  shows "decode_cursor decode_text (encode_cursor (d, i)) = Inr (d, i)"
  by (rule decode_encode [OF assms(1)]) (simp add: valid_key_def assms(2))

lemma cursor_round_trip_witness: "decode_cursor ascii_text (encode_cursor (738000, 17)) = Inr (738000, 17)"
  by (rule cursor_round_trip [OF reads_ascii_text]) (simp add: valid_date_def max_ordinal_def)

text \<open>
  A cursor that cannot be read is a validation error, with one exception: a readable document
  whose second member is no text makes the UUID constructor raise an \<open>AttributeError\<close> that nobody
  catches, for instance the cursor of \<open>["2024-01-01",5]\<close>.
\<close>

theorem unreadable_cursor:
  assumes "\<And>bs e. decode_text bs = Inl e \<Longrightarrow> is_value_error e" "decode_cursor decode_text c = Inl e"
  shows "e = QueryValidationError ''INVALID_CURSOR'' ''cursor is invalid'' (Some ''cursor'') \<or> (\<exists>m. e = AttributeError m)"
proof -
  have "is_value_error e' \<or> is_type_error e' \<or> (\<exists>m. e' = AttributeError m)" if "read_cursor decode_text c = Inl e'" for e'
  proof -
    have "unpack2 v = Inl e' \<Longrightarrow> ?thesis" for v by (cases v rule: unpack2.cases) auto
    moreover have "date_of_value v = Inl e' \<Longrightarrow> ?thesis" for v
      by (auto simp: date_of_value_def dest: date_fromisoformat_errors split: pyval.splits)
    moreover have "uuid_of_value v = Inl e' \<Longrightarrow> ?thesis" for v
      by (auto simp: uuid_of_value_def parse_uuid_def Let_def split: pyval.splits if_splits option.splits)
    ultimately show ?thesis using that assms(1)
      by (auto simp: read_cursor_def rbind_eq_Inl rmap_eq_Inl split: option.splits)
  qed
  then show ?thesis using assms(2) by (auto simp: decode_cursor_def query_error_def split: sum.splits if_splits)
qed

lemma unreadable_cursor_witness:
  "decode_cursor ascii_text ''WyIyMDI0LTAxLTAxIiw1XQ'' = Inl (AttributeError ''object has no attribute replace'') \<and>
   (\<exists>e. decode_cursor ascii_text ''!!'' = Inl e \<and> (e = QueryValidationError ''INVALID_CURSOR'' ''cursor is invalid'' (Some ''cursor'') \<or>
      (\<exists>m. e = AttributeError m)))"
proof
  show "decode_cursor ascii_text ''WyIyMDI0LTAxLTAxIiw1XQ'' = Inl (AttributeError ''object has no attribute replace'')" by code_simp
  have "\<not> is_ok (decode_cursor ascii_text ''!!'')" by code_simp
  then obtain e where e: "decode_cursor ascii_text ''!!'' = Inl e" by (auto simp: is_ok_def split: sum.splits)
  have "e = QueryValidationError ''INVALID_CURSOR'' ''cursor is invalid'' (Some ''cursor'') \<or> (\<exists>m. e = AttributeError m)"
    by (rule unreadable_cursor [OF _ e]) (auto simp: ascii_text_def split: if_splits)
  then show "\<exists>e. decode_cursor ascii_text ''!!'' = Inl e \<and>
      (e = QueryValidationError ''INVALID_CURSOR'' ''cursor is invalid'' (Some ''cursor'') \<or> (\<exists>m. e = AttributeError m))"
    using e by blast
qed

end
