(* ===== verification/Observation_Queries.thy ===== *)
theory Observation_Queries
  imports Cursors Quality
begin

text \<open>
  The read side of the observations: \<open>ObservationQueryService\<close> of
  \<open>app/application/queries/observations.py\<close>.  A query is a join of the observation tables with the
  reference tables, restricted to what was known at an instant and is usable; histories are listed
  in pages by date and id.  The clock is read twice per request, as the date \<open>today\<close> and the instant
  \<open>now\<close>.  Rows that the \<open>ORDER BY\<close> leaves tied come in table order.
\<close>

record observation_view =
  ow_observation_id :: uuid
  ow_version_id :: uuid
  ow_version_number :: int
  ow_instrument_type :: string
  ow_instrument_symbol :: string
  ow_observation_date :: date
  ow_value :: decimal
  ow_unit :: string
  ow_classification :: string
  ow_tenor :: "string option"
  ow_provider :: string
  ow_provider_series :: string
  ow_publication :: "instant option"
  ow_retrieved_at :: instant
  ow_valid_from :: instant
  ow_valid_to :: "instant option"
  ow_is_current :: bool
  ow_validation_state :: string
  ow_validation_flags :: pyval
  ow_run_id :: uuid
  ow_raw_record_id :: uuid

type_synonym observation_page = "observation_view list \<times> string option"

section \<open>The joins\<close>

type_synonym fx_row = "observation \<times> fx_version \<times> fx_series \<times> fx_pair \<times> provider_dataset \<times> currency \<times> currency"
type_synonym policy_row = "observation \<times> policy_version \<times> interest_rate_series \<times> provider_dataset \<times> economy \<times> currency"

definition shown_versions :: "instant \<Rightarrow> observation \<Rightarrow> ('a obs_version_scheme) list \<Rightarrow> ('a obs_version_scheme) list" where
  "shown_versions as_of o1 vs = filter (\<lambda>v. usable_state v \<and> visible (Some as_of) o1 v) (versions_of (ob_id o1) vs)"

definition fx_query :: "instant \<Rightarrow> database \<Rightarrow> fx_row list" where
  "fx_query as_of db =
     [(o1, v, s, p, d, b, q). o1 \<leftarrow> ot_observations (db_fx db), v \<leftarrow> shown_versions as_of o1 (ot_versions (db_fx db)),
        s \<leftarrow> db_fx_series db, fs_id s = ob_series o1, p \<leftarrow> db_fx_pairs db, fp_id p = fs_fx_pair_id s,
        d \<leftarrow> db_datasets db, ds_id d = fs_provider_dataset_id s,
        b \<leftarrow> db_currencies db, cu_id b = fp_base_currency_id p, q \<leftarrow> db_currencies db, cu_id q = fp_quote_currency_id p]"

definition policy_query :: "instant \<Rightarrow> database \<Rightarrow> policy_row list" where
  "policy_query as_of db =
     [(o1, v, s, d, e, c). o1 \<leftarrow> ot_observations (db_policy db), v \<leftarrow> shown_versions as_of o1 (ot_versions (db_policy db)),
        s \<leftarrow> db_rate_series db, is_id s = ob_series o1, d \<leftarrow> db_datasets db, ds_id d = is_provider_dataset_id s,
        e \<leftarrow> db_economies db, ec_id e = is_economy_id s, c \<leftarrow> db_currencies db, cu_id c = is_currency_id s]"

fun fx_view :: "fx_row \<Rightarrow> observation_view" where
  "fx_view (o1, v, s, p, d, b, q) =
     \<lparr>ow_observation_id = ob_id o1, ow_version_id = ov_id v, ow_version_number = ov_number v, ow_instrument_type = ''fx_pair'',
      ow_instrument_symbol = fp_symbol p, ow_observation_date = ob_date o1, ow_value = ov_value v,
      ow_unit = cu_code q @ ''_per_'' @ cu_code b, ow_classification = fv_quote_type v, ow_tenor = None,
      ow_provider = ds_provider_code d, ow_provider_series = fs_provider_symbol s, ow_publication = ov_publication v,
      ow_retrieved_at = ov_first_observed v, ow_valid_from = ov_valid_from v, ow_valid_to = ov_valid_to v,
      ow_is_current = (ov_valid_to v = None), ow_validation_state = ov_state v, ow_validation_flags = ov_flags v,
      ow_run_id = ov_run v, ow_raw_record_id = ov_raw_record v\<rparr>"

fun policy_view :: "policy_row \<Rightarrow> observation_view" where
  "policy_view (o1, v, s, d, e, c) =
     \<lparr>ow_observation_id = ob_id o1, ow_version_id = ov_id v, ow_version_number = ov_number v,
      ow_instrument_type = ''policy_rate_series'', ow_instrument_symbol = is_series_key s, ow_observation_date = ob_date o1,
      ow_value = ov_value v, ow_unit = pv_unit v, ow_classification = pv_rate_type v, ow_tenor = None,
      ow_provider = ds_provider_code d, ow_provider_series = is_series_key s, ow_publication = ov_publication v,
      ow_retrieved_at = ov_first_observed v, ow_valid_from = ov_valid_from v, ow_valid_to = ov_valid_to v,
      ow_is_current = (ov_valid_to v = None), ow_validation_state = ov_state v, ow_validation_flags = ov_flags v,
      ow_run_id = ov_run v, ow_raw_record_id = ov_raw_record v\<rparr>"

section \<open>Requests\<close>

definition query_as_of :: "instant \<Rightarrow> datetime option \<Rightarrow> instant res" where
  "query_as_of now as_of = (case as_of of
     None \<Rightarrow> Inr now
   | Some t \<Rightarrow> to_utc (query_error ''INVALID_AS_OF'' ''as_of must include a timezone offset'' ''as_of'') t)"

text \<open>\<open>str.isalpha\<close> on the characters below 256.\<close>

definition is_letter :: "char \<Rightarrow> bool" where
  "is_letter c \<longleftrightarrow> is_alpha c \<or> code_of c \<in> {170, 181, 186} \<or> 192 \<le> code_of c \<and> code_of c \<notin> {215, 247}"

definition pair_symbol :: "string \<Rightarrow> string res" where
  "pair_symbol pair =
     (let symbol = str_upper (str_strip (replace_char (CHR ''/'') [] pair))
      in rmap (\<lambda>_. symbol) (rguard (length symbol = 6 \<and> list_all is_letter symbol)
           (query_error ''INVALID_FX_PAIR'' ''pair must contain two three-letter currency codes'' ''pair'')))"

definition given :: "string option \<Rightarrow> bool" where
  "given x \<longleftrightarrow> x \<noteq> None \<and> x \<noteq> Some []"

definition policy_filters ::
  "string option \<Rightarrow> string option \<Rightarrow> string option \<Rightarrow> (interest_rate_series \<Rightarrow> economy \<Rightarrow> currency \<Rightarrow> bool) res" where
  "policy_filters series economy currency =
     rmap (\<lambda>_ s e c. (given series \<longrightarrow> Some (is_series_key s) = series) \<and>
         (given economy \<longrightarrow> Some (ec_code e) = map_option str_upper economy) \<and>
         (given currency \<longrightarrow> Some (cu_code c) = map_option str_upper currency))
       (rguard (given series \<or> given economy \<or> given currency)
          (QueryValidationError ''IDENTIFYING_FILTER_REQUIRED'' ''provide series, economy, or currency'' None))"

definition row_key :: "observation \<times> 'x \<Rightarrow> page_key" where
  "row_key r = (ob_date (fst r), ob_id (fst r))"

definition view_key :: "observation_view \<Rightarrow> page_key" where
  "view_key w = (ow_observation_date w, ow_observation_id w)"

definition in_range :: "date \<Rightarrow> date \<Rightarrow> observation \<times> 'x \<Rightarrow> bool" where
  "in_range s e r \<longleftrightarrow> s \<le> ob_date (fst r) \<and> ob_date (fst r) \<le> e"

definition fx_history ::
  "(bytes \<Rightarrow> string res) \<Rightarrow> date \<Rightarrow> instant \<Rightarrow> string \<Rightarrow> date \<Rightarrow> date \<Rightarrow> datetime option \<Rightarrow> int \<Rightarrow> database \<Rightarrow>
     string option \<Rightarrow> observation_page res" where
  "fx_history decode_text today now pair s e as_of page_size db cursor =
     rbind (validate_history_range today s e maximum_history_days) (\<lambda>_.
     rbind (validate_page_size page_size 500) (\<lambda>_.
     rbind (pair_symbol pair) (\<lambda>symbol.
     rbind (query_as_of now as_of) (\<lambda>ts.
     rmap (\<lambda>keep. list_page row_key fx_view view_key page_size keep
         (filter (\<lambda>r. (case r of (o1, v, sr, p, _) \<Rightarrow> fp_symbol p = symbol) \<and> in_range s e r) (fx_query ts db)))
       (after_cursor decode_text cursor)))))"

definition policy_history ::
  "(bytes \<Rightarrow> string res) \<Rightarrow> date \<Rightarrow> instant \<Rightarrow> date \<Rightarrow> date \<Rightarrow> string option \<Rightarrow> string option \<Rightarrow> string option \<Rightarrow>
     datetime option \<Rightarrow> int \<Rightarrow> database \<Rightarrow> string option \<Rightarrow> observation_page res" where
  "policy_history decode_text today now s e series economy currency as_of page_size db cursor =
     rbind (validate_history_range today s e maximum_history_days) (\<lambda>_.
     rbind (validate_page_size page_size 500) (\<lambda>_.
     rbind (policy_filters series economy currency) (\<lambda>wanted.
     rbind (query_as_of now as_of) (\<lambda>ts.
     rmap (\<lambda>keep. list_page row_key policy_view view_key page_size keep
         (filter (\<lambda>r. (case r of (o1, v, sr, d, ec, c) \<Rightarrow> wanted sr ec c) \<and> in_range s e r) (policy_query ts db)))
       (after_cursor decode_text cursor)))))"

text \<open>\<open>ORDER BY date DESC, publication DESC NULLS LAST, first_observed DESC LIMIT 1\<close>.\<close>

definition latest_order :: "observation \<times> 'a obs_version_scheme \<times> 'x \<Rightarrow> date \<times> (int \<times> instant) \<times> instant" where
  "latest_order r = (case r of (o1, v, _) \<Rightarrow>
     (ob_date o1, (case ov_publication v of None \<Rightarrow> (0, 0) | Some t \<Rightarrow> (1, t)), ov_first_observed v))"

definition newest_row :: "(observation \<times> 'a obs_version_scheme \<times> 'x) list \<Rightarrow> (observation \<times> 'a obs_version_scheme \<times> 'x) option" where
  "newest_row rows = (case rev (sort_key latest_order rows) of [] \<Rightarrow> None | r # _ \<Rightarrow> Some r)"

definition fx_latest :: "instant \<Rightarrow> string \<Rightarrow> datetime option \<Rightarrow> database \<Rightarrow> observation_view option res" where
  "fx_latest now pair as_of db =
     rbind (pair_symbol pair) (\<lambda>symbol.
     rmap (\<lambda>ts. map_option fx_view (newest_row
         (filter (\<lambda>(o1, v, sr, p, _). fp_symbol p = symbol) (fx_query ts db))))
       (query_as_of now as_of))"

definition matching_series ::
  "(interest_rate_series \<Rightarrow> economy \<Rightarrow> currency \<Rightarrow> bool) \<Rightarrow> database \<Rightarrow> uuid list" where
  "matching_series wanted db =
     [is_id s. s \<leftarrow> db_rate_series db, e \<leftarrow> db_economies db, ec_id e = is_economy_id s,
        c \<leftarrow> db_currencies db, cu_id c = is_currency_id s, wanted s e c]"

definition policy_latest ::
  "instant \<Rightarrow> string option \<Rightarrow> string option \<Rightarrow> string option \<Rightarrow> datetime option \<Rightarrow> database \<Rightarrow> observation_view option res" where
  "policy_latest now series economy currency as_of db =
     rbind (policy_filters series economy currency) (\<lambda>wanted.
     rbind (query_as_of now as_of) (\<lambda>ts.
     (case matching_series wanted db of
        [] \<Rightarrow> Inr None
      | [i] \<Rightarrow> Inr (map_option policy_view (newest_row
                 (filter (\<lambda>(o1, v, sr, _). is_id sr = i) (policy_query ts db))))
      | _ \<Rightarrow> Inl (AmbiguousQueryError ''AMBIGUOUS_POLICY_RATE''
               ''filters match multiple policy-rate series; provide a series or narrower filters''))))"


section \<open>One row per observation\<close>

text \<open>A join that takes at most one row per observation keeps the order and the identity of the observations.\<close>

lemma join_at_most_one:
  assumes "distinct (map g xs)" "\<And>x. x \<in> set xs \<Longrightarrow> length (f x) \<le> 1"
  shows "length (concat (map (\<lambda>x. if g x = i then f x else []) xs)) \<le> 1"
  using assms
proof (induction xs)
  case (Cons x xs)
  show ?case
  proof (cases "g x = i")
    case True
    then have "\<forall>y\<in>set xs. g y \<noteq> i" using Cons.prems(1) by (auto simp: image_iff)
    then have "concat (map (\<lambda>x. if g x = i then f x else []) xs) = []" by (induction xs) auto
    then show ?thesis using True Cons.prems(2) [of x] by (simp del: concat_eq_Nil_conv)
  qed (use Cons in simp)
qed simp

lemma join_of_few: "length xs \<le> 1 \<Longrightarrow> (\<And>x. x \<in> set xs \<Longrightarrow> length (f x) \<le> 1) \<Longrightarrow> length (concat (map f xs)) \<le> 1"
  by (cases xs) auto

lemma distinct_concat_keys:
  assumes "distinct (map g xs)" "\<And>x. x \<in> set xs \<Longrightarrow> length (f x) \<le> 1" "\<And>x r. x \<in> set xs \<Longrightarrow> r \<in> set (f x) \<Longrightarrow> k r = g x"
  shows "distinct (map k (concat (map f xs)))"
  using assms
proof (induction xs)
  case (Cons x xs)
  have "distinct (map k (f x))" using Cons.prems(2) [of x] by (cases "f x") auto
  moreover have "k ` set (f x) \<inter> k ` set (concat (map f xs)) = {}" using Cons.prems(1,3) by fastforce
  ultimately show ?case using Cons by auto
qed simp

lemma shown_at_most_one:
  assumes "timelines_ok t" "o1 \<in> set (ot_observations t)"
  shows "length (shown_versions as_of o1 (ot_versions t)) \<le> 1"
proof -
  have "length (filter (known_at as_of) (versions_of (ob_id o1) (ot_versions t))) \<le> 1"
    using known_at_unique [OF timelines_okD(5) [OF assms]] .
  moreover have "length (filter (\<lambda>v. usable_state v \<and> visible (Some as_of) o1 v) vs) \<le> length (filter (known_at as_of) vs)"
    for vs :: "('a obs_version_scheme) list"
    by (induction vs) (auto simp: visible_def)
  ultimately show ?thesis unfolding shown_versions_def by (rule order_trans [rotated])
qed

text \<open>The primary keys of the reference tables.\<close>

definition references_keyed :: "database \<Rightarrow> bool" where
  "references_keyed db \<longleftrightarrow> distinct (map cu_id (db_currencies db)) \<and> distinct (map ec_id (db_economies db)) \<and>
     distinct (map fp_id (db_fx_pairs db)) \<and> distinct (map ds_id (db_datasets db)) \<and>
     distinct (map fs_id (db_fx_series db)) \<and> distinct (map is_id (db_rate_series db))"

lemma observation_keys: "timelines_ok t \<Longrightarrow> distinct (map (\<lambda>o1. (ob_date o1, ob_id o1)) (ot_observations t))"
  using timelines_okD(1) by (fastforce simp: distinct_map inj_on_def)

lemma fx_rows_distinct:
  assumes "timelines_ok (db_fx db)" "references_keyed db"
  shows "distinct (map row_key (fx_query as_of db))"
  unfolding fx_query_def
proof (rule distinct_concat_keys [OF observation_keys [OF assms(1)]])
  fix o1 assume "o1 \<in> set (ot_observations (db_fx db))"
  then show "length (concat (map (\<lambda>v. [(o1, v, s, p, d, b, q). s \<leftarrow> db_fx_series db, fs_id s = ob_series o1,
      p \<leftarrow> db_fx_pairs db, fp_id p = fs_fx_pair_id s, d \<leftarrow> db_datasets db, ds_id d = fs_provider_dataset_id s,
      b \<leftarrow> db_currencies db, cu_id b = fp_base_currency_id p, q \<leftarrow> db_currencies db, cu_id q = fp_quote_currency_id p])
      (shown_versions as_of o1 (ot_versions (db_fx db))))) \<le> 1"
    using assms by (intro join_of_few shown_at_most_one join_at_most_one) (simp_all add: references_keyed_def)
qed (auto simp: row_key_def split: if_splits)

lemma policy_rows_distinct:
  assumes "timelines_ok (db_policy db)" "references_keyed db"
  shows "distinct (map row_key (policy_query as_of db))"
  unfolding policy_query_def
proof (rule distinct_concat_keys [OF observation_keys [OF assms(1)]])
  fix o1 assume "o1 \<in> set (ot_observations (db_policy db))"
  then show "length (concat (map (\<lambda>v. [(o1, v, s, d, e, c). s \<leftarrow> db_rate_series db, is_id s = ob_series o1,
      d \<leftarrow> db_datasets db, ds_id d = is_provider_dataset_id s, e \<leftarrow> db_economies db, ec_id e = is_economy_id s,
      c \<leftarrow> db_currencies db, cu_id c = is_currency_id s]) (shown_versions as_of o1 (ot_versions (db_policy db))))) \<le> 1"
    using assms by (intro join_of_few shown_at_most_one join_at_most_one) (simp_all add: references_keyed_def)
qed (auto simp: row_key_def split: if_splits)

section \<open>Pages\<close>

lemma view_keys: "view_key (fx_view r) = row_key r" "view_key (policy_view r') = row_key r'"
  by (cases r; simp add: view_key_def row_key_def) (cases r'; simp add: view_key_def row_key_def)

text \<open>Observations are written without touching the reference tables.\<close>

interpretation fx_references: guarded_store references_keyed "fx_step sha" for sha
proof
  fix db db' :: database and i
  assume keyed: "references_keyed db" and "fx_step sha i db = Inr db'"
  then obtain r where pe: "persist_fx sha (cl_fresh_observation i) (cl_fresh_version i) (cl_candidate i)
     (cl_validation i) (cl_stable_key i) (cl_run i) db = Inr (r, db')" by (auto simp: fx_step_def rmap_eq_Inr)
  show "references_keyed db'" by (cases rule: persist_fx_cases [OF pe]) (use keyed in \<open>simp add: references_keyed_def\<close>)
qed

lemma fx_replay_references: "references_keyed db \<Longrightarrow> references_keyed (fx_replay sha calls db)"
  unfolding fx_replay_fold by (rule fx_references.run_inv)

section \<open>Properties\<close>

definition fx_listing :: "string \<Rightarrow> date \<Rightarrow> date \<Rightarrow> instant \<Rightarrow> database \<Rightarrow> fx_row list" where
  "fx_listing symbol s e ts db =
     filter (\<lambda>r. (case r of (o1, v, sr, p, _) \<Rightarrow> fp_symbol p = symbol) \<and> in_range s e r) (fx_query ts db)"

text \<open>
  C10. Paging loses and repeats nothing: on a database built by any sequence of FX retrievals, a client
  that follows the cursors gets, in order of date and id, every observation of the pair in the range
  that was known and usable at the instant, once.
\<close>

theorem fx_history_pages_complete:
  assumes "db_fx db = empty_tables" "references_keyed db" "reads_ascii decode_text" "valid_date today"
    "fx_history decode_text today now pair s e (Some as_of) k (fx_replay sha calls db) None = Inr page"
  shows "\<exists>rows symbol ts. pair_symbol pair = Inr symbol \<and> query_as_of now (Some as_of) = Inr ts \<and>
    walk_pages (Suc (length rows)) (fx_history decode_text today now pair s e (Some as_of) k (fx_replay sha calls db)) None
      = Inr (map fx_view rows) \<and>
    sorted_wrt (\<lambda>a b. row_key a < row_key b) rows \<and> set rows = set (fx_listing symbol s e ts (fx_replay sha calls db))"
proof -
  let ?db = "fx_replay sha calls db"
  obtain symbol ts where ok: "validate_history_range today s e maximum_history_days = Inr ()" "validate_page_size k 500 = Inr ()"
    "pair_symbol pair = Inr symbol" "query_as_of now (Some as_of) = Inr ts"
    using assms(5) by (auto simp: fx_history_def rbind_eq_Inr rmap_eq_Inr)
  let ?rows = "fx_listing symbol s e ts ?db"
  have keys: "distinct (map row_key ?rows)"
    unfolding fx_listing_def
    by (intro distinct_map_filter fx_rows_distinct fx_replay_ok) (simp_all add: assms fx_replay_references)
  have "ymd2ord 1900 1 1 \<le> s" "e \<le> today" using ok(1) by (simp_all add: validate_history_range_def rbind_eq_Inr)
  moreover have "0 < ymd2ord 1900 1 1" by code_simp
  ultimately have dates: "valid_key (row_key r)" if "r \<in> set ?rows" for r
    using that assms(4) by (auto simp: fx_listing_def in_range_def valid_date_def valid_key_def row_key_def)
  have walk: "walk_pages (Suc (length ?rows)) (fx_history decode_text today now pair s e (Some as_of) k ?db) None
      = Inr (map fx_view (sort_key row_key ?rows))"
    by (rule listing_pages [where key = row_key and view = fx_view and view_key = view_key, OF assms(3) view_keys(1) _ keys dates])
      (use ok in \<open>auto simp: fx_history_def fx_listing_def validate_page_size_def\<close>)
  have "sorted_wrt (\<lambda>a b. row_key a < row_key b) (sort_key row_key ?rows)"
    using keys by (simp add: strict_sorted_iff distinct_map flip: sorted_wrt_map)
  then show ?thesis using walk ok
    by (intro exI [of _ "sort_key row_key ?rows"] exI [of _ symbol] exI [of _ ts]) simp
qed

text \<open>
  The latest observation is the newest one: no observation of the pair that was known and usable at
  the instant has a later date, and nothing is returned only when there is none.
\<close>

theorem fx_latest_is_newest:
  assumes "pair_symbol pair = Inr symbol" "query_as_of now as_of = Inr ts"
    "rows = filter (\<lambda>(o1, v, sr, p, _). fp_symbol p = symbol) (fx_query ts db)"
  shows "\<exists>w. fx_latest now pair as_of db = Inr w \<and> (w = None \<longleftrightarrow> rows = []) \<and>
    (\<forall>x. w = Some x \<longrightarrow> x \<in> fx_view ` set rows \<and> (\<forall>r\<in>set rows. ob_date (fst r) \<le> ow_observation_date x))"
proof -
  have latest: "fx_latest now pair as_of db = Inr (map_option fx_view (newest_row rows))"
    using assms by (simp add: fx_latest_def)
  show ?thesis
  proof (cases "rev (sort_key latest_order rows)")
    case Nil
    then have "rows = []" by (metis length_0_conv length_rev length_sort)
    then show ?thesis using latest Nil by (simp add: newest_row_def)
  next
    case (Cons x xs)
    have set: "set rows = set (x # xs)" using Cons by (metis set_rev set_sort)
    have "sorted (map latest_order (rev (x # xs)))" using Cons by (metis rev_rev_ident sorted_sort_key)
    then have "latest_order r \<le> latest_order x" if "r \<in> set rows" for r
      using that unfolding set by (auto simp: sorted_append)
    then have "ob_date (fst r) \<le> ob_date (fst x)" if "r \<in> set rows" for r
      using that by (fastforce simp: latest_order_def less_eq_prod_def split: prod.splits)
    moreover have "ow_observation_date (fx_view x) = ob_date (fst x)" by (cases x) simp
    moreover have "rows \<noteq> []" using set by auto
    ultimately show ?thesis using latest Cons set by (simp add: newest_row_def)
  qed
qed

text \<open>
  A policy rate is only returned when the filters name one series: more than one is an ambiguity
  error, and no filter at all is refused.
\<close>

theorem policy_latest_unambiguous:
  assumes "policy_latest now series economy currency as_of db = Inr (Some w)"
  shows "\<exists>wanted i ts. policy_filters series economy currency = Inr wanted \<and> matching_series wanted db = [i] \<and>
    (given series \<or> given economy \<or> given currency) \<and> query_as_of now as_of = Inr ts \<and>
    (\<exists>r\<in>set (policy_query ts db). w = policy_view r \<and> (case r of (o1, v, sr, _) \<Rightarrow> is_id sr = i))"
proof -
  obtain wanted ts where f: "policy_filters series economy currency = Inr wanted" "query_as_of now as_of = Inr ts"
    using assms by (auto simp: policy_latest_def rbind_eq_Inr)
  obtain i where m: "matching_series wanted db = [i]"
    using assms f by (cases "matching_series wanted db" rule: remdups_adj.cases) (simp_all add: policy_latest_def)
  have 1: "policy_filters series economy currency = Inr wanted" "query_as_of now as_of = Inr ts" "matching_series wanted db = [i]"
    "map_option policy_view (newest_row (filter (\<lambda>(o1, v, sr, _). is_id sr = i) (policy_query ts db))) = Some w"
    using assms f m by (simp_all add: policy_latest_def)
  have "r \<in> set rows" if "newest_row rows = Some r" for r and rows :: "policy_row list"
  proof -
    have "r \<in> set (rev (sort_key latest_order rows))"
      using that by (cases "rev (sort_key latest_order rows)") (simp_all add: newest_row_def)
    then show ?thesis by simp
  qed
  then obtain r where "r \<in> set (policy_query ts db)" "w = policy_view r" "case r of (o1, v, sr, _) \<Rightarrow> is_id sr = i"
    using 1(4) by fastforce
  moreover have "given series \<or> given economy \<or> given currency"
    using 1(1) by (auto simp: policy_filters_def rmap_eq_Inr)
  ultimately show ?thesis using 1 by blast
qed

section \<open>Applications\<close>

text \<open>The observation of \<open>sample_call\<close> with the rows it refers to, and a policy-rate series.\<close>

definition query_db :: database where
  "query_db = sample_db\<lparr>
     db_currencies := [\<lparr>cu_id = 81, cu_code = ''USD'', cu_name = ''US dollar'', cu_minor_units = None, cu_is_active = True\<rparr>,
                       \<lparr>cu_id = 82, cu_code = ''CAD'', cu_name = ''Canadian dollar'', cu_minor_units = None, cu_is_active = True\<rparr>],
     db_economies := [\<lparr>ec_id = 84, ec_code = ''CA'', ec_iso_country_code = Some ''CA'', ec_name = ''Canada'', ec_time_zone = ''UTC'',
       ec_economy_type = ''country'', ec_is_active = True\<rparr>],
     db_fx_pairs := [\<lparr>fp_id = 61, fp_base_currency_id = 81, fp_quote_currency_id = 82, fp_symbol = ''USDCAD'', fp_is_active = True\<rparr>],
     db_datasets := [\<lparr>ds_id = 50, ds_provider_code = ''bank_of_canada'', ds_dataset_code = ''valet_daily_fx'',
       ds_display_name = ''Valet'', ds_configuration_reference = ''valet'', ds_license_url = None, ds_license_notes = None,
       ds_attribution_text = None, ds_redistribution_restrictions = None, ds_approval_state = ''approved'', ds_is_active = True\<rparr>],
     db_fx_series := [\<lparr>fs_id = 7, fs_provider_dataset_id = 50, fs_provider_symbol = ''FXUSDCAD'', fs_fx_pair_id = 61,
       fs_frequency = ''daily'', fs_quote_type = ''reference'', fs_source_metadata = PNone, fs_is_active = True\<rparr>],
     db_rate_series := [\<lparr>is_id = 9, is_provider_dataset_id = 50, is_economy_id = 84, is_currency_id = 82, is_dataflow_key = ''WS_CBPOL'',
       is_series_key = ''D.CA'', is_frequency = ''daily'', is_unit = ''percent_per_year'', is_rate_type = ''policy_rate'',
       is_collection_indicator = ''A'', is_title = ''t'', is_notes = None, is_source_metadata = PNone,
       is_publication_metadata = PNone, is_is_active = True\<rparr>],
     db_policy := \<lparr>ot_observations = [\<lparr>ob_id = 21, ob_series = 9, ob_date = 738000, ob_current = Some 22\<rparr>],
      ot_versions = [new_version 22 \<lparr>ob_id = 21, ob_series = 9, ob_date = 738000, ob_current = None\<rparr> 1
        (replicate 64 (CHR ''b'')) 63763300000000000 (policy_values sample_policy sample_valid 5 3)],
      ot_lineage = []\<rparr>\<rparr>"

definition queried_db :: database where
  "queried_db = fx_replay sample_sha [sample_call 63763200000000000] query_db"

lemma query_db_ok: "db_fx query_db = empty_tables" "references_keyed query_db"
  by (simp add: query_db_def sample_db_def empty_database_def) code_simp

lemma fx_history_answers:
  assumes "validate_history_range today s e maximum_history_days = Inr ()" "validate_page_size k 500 = Inr ()"
    "pair_symbol pair = Inr symbol" "query_as_of now as_of = Inr ts"
  shows "\<exists>p. fx_history decode_text today now pair s e as_of k db None = Inr p"
  using assms by (simp add: fx_history_def after_cursor_def)

lemma fx_history_pages_complete_witness:
  "\<exists>rows. walk_pages (Suc (length rows)) (fx_history ascii_text 738100 0 ''usd/cad'' 737990 738010
     (Some (utc_datetime 63763300000000000)) 1 queried_db) None = Inr (map fx_view rows)"
proof -
  let ?q = "fx_history ascii_text 738100 0 ''usd/cad'' 737990 738010 (Some (utc_datetime 63763300000000000)) 1
     (fx_replay sample_sha [sample_call 63763200000000000] query_db) None"
  have "validate_history_range 738100 737990 738010 maximum_history_days = Inr ()" "validate_page_size 1 500 = Inr ()"
    by (simp_all add: validate_history_range_def maximum_history_days_def validate_page_size_def ymd2ord_def days_before_year_def
        month_lengths_def)
  moreover have "pair_symbol ''usd/cad'' = Inr ''USDCAD''" "query_as_of 0 (Some (utc_datetime 63763300000000000)) = Inr 63763300000000000"
    by code_simp+
  ultimately obtain p where p: "?q = Inr p" using fx_history_answers by blast
  have "valid_date 738100" by (simp add: valid_date_def max_ordinal_def)
  from fx_history_pages_complete [OF query_db_ok reads_ascii_text this p] show ?thesis unfolding queried_db_def by blast
qed

lemma fx_latest_is_newest_witness:
  "\<exists>x. fx_latest 63763300000000000 ''USDCAD'' None queried_db = Inr (Some x) \<and> ow_unit x = ''CAD_per_USD'' \<and>
    (\<forall>r\<in>set (filter (\<lambda>(o1, v, sr, p, _). fp_symbol p = ''USDCAD'') (fx_query 63763300000000000 queried_db)).
       ob_date (fst r) \<le> ow_observation_date x)"
proof -
  have "pair_symbol ''USDCAD'' = Inr ''USDCAD''" by code_simp
  moreover have "query_as_of 63763300000000000 None = Inr 63763300000000000" by (simp add: query_as_of_def)
  ultimately obtain w where w: "fx_latest 63763300000000000 ''USDCAD'' None queried_db = Inr w" "\<forall>x. w = Some x \<longrightarrow>
    (\<forall>r\<in>set (filter (\<lambda>(o1, v, sr, p, _). fp_symbol p = ''USDCAD'') (fx_query 63763300000000000 queried_db)).
       ob_date (fst r) \<le> ow_observation_date x)" using fx_latest_is_newest [OF _ _ refl] by blast
  have "rmap (map_option ow_unit) (fx_latest 63763300000000000 ''USDCAD'' None queried_db) = Inr (Some ''CAD_per_USD'')" by code_simp
  then obtain x where "w = Some x" "ow_unit x = ''CAD_per_USD''" unfolding w(1) by (cases w) simp_all
  then show ?thesis using w by blast
qed

lemma policy_latest_unambiguous_witness:
  "\<exists>w i. policy_latest 63763400000000000 None (Some ''ca'') None None query_db = Inr (Some w) \<and>
    (\<exists>r\<in>set (policy_query 63763400000000000 query_db). w = policy_view r \<and> (case r of (o1, v, sr, _) \<Rightarrow> is_id sr = i))"
proof -
  have "rmap (\<lambda>w. w \<noteq> None) (policy_latest 63763400000000000 None (Some ''ca'') None None query_db) = Inr True" by code_simp
  then obtain w where "policy_latest 63763400000000000 None (Some ''ca'') None None query_db = Inr (Some w)"
    by (auto simp: rmap_eq_Inr)
  from policy_latest_unambiguous [OF this] this show ?thesis by (auto simp: query_as_of_def)
qed

end
