(* ===== verification/Operations.thy ===== *)
theory Operations
  imports Observation_Queries Run_Lifecycle
begin

text \<open>
  The operations side of the service: \<open>OperationsService\<close> and \<open>readiness\<close> of
  \<open>app/application/queries/operations.py\<close>.  A request either commits the database it returns or leaves
  the one it got.  What the database server and the migration scripts answer to the readiness probe are
  arguments.  \<open>func.date\<close> of a timestamp is its UTC date: the database session runs in UTC.
\<close>

section \<open>Starting a run\<close>

definition provider_member :: "string \<Rightarrow> provider_code option" where
  "provider_member s = find (\<lambda>p. provider_value p = s) [BankOfCanada, Bis]"

definition dataset_member :: "string \<Rightarrow> dataset_code option" where
  "dataset_member s = find (\<lambda>d. dataset_value d = s) [ValetDailyFx, BisPolicyRatesDaily]"

definition trigger_member :: "string \<Rightarrow> trigger_type option" where
  "trigger_member s = find (\<lambda>t. trigger_value t = s) [Scheduled, Manual, Backfill, Retry]"

text \<open>\<open>Enum(value)\<close>.\<close>

definition enum_member :: "string \<Rightarrow> (string \<Rightarrow> 'e option) \<Rightarrow> string \<Rightarrow> 'e res" where
  "enum_member name member s = (case member s of
     None \<Rightarrow> Inl (ValueError (repr_str s @ '' is not a valid '' @ name)) | Some x \<Rightarrow> Inr x)"

definition http_command ::
  "string \<Rightarrow> string \<Rightarrow> string \<Rightarrow> date \<Rightarrow> date \<Rightarrow> string list option \<Rightarrow> start_command res" where
  "http_command provider dataset trigger_type s e series =
     rbind (enum_member ''ProviderCode'' provider_member provider) (\<lambda>p.
     rbind (enum_member ''DatasetCode'' dataset_member dataset) (\<lambda>d.
     rbind (enum_member ''TriggerType'' trigger_member trigger_type) (\<lambda>t.
     rbind (mk_date_range s e) (\<lambda>r.
     Inr \<lparr>cm_provider = p, cm_dataset = d, cm_trigger = t, cm_range = r, cm_requested = series, cm_parent = None\<rparr>))))"

text \<open>How a \<open>ValueError\<close> of the command is answered: by the words of its message.\<close>

definition classify_error :: "exn \<Rightarrow> exn" where
  "classify_error e =
     (if is_value_error e
      then (if contains_any [''license'', ''approved'', ''synchronized''] (exn_text e) then ServiceUnavailableError (exn_text e)
            else QueryValidationError ''INVALID_INGESTION_REQUEST'' (exn_text e) None)
      else e)"

definition enqueue ::
  "uuid \<Rightarrow> (nat \<Rightarrow> uuid) \<Rightarrow> string \<Rightarrow> string \<Rightarrow> instant \<Rightarrow> reference_config \<Rightarrow> string \<Rightarrow> string \<Rightarrow> string \<Rightarrow> date \<Rightarrow> date \<Rightarrow>
     string list option \<Rightarrow> database \<Rightarrow> (uuid \<times> database) res" where
  "enqueue fresh fresh_scopes code_version checksum requested_at c provider dataset trigger_type s e series db =
     rbind (rguard (trigger_type \<noteq> ''scheduled'')
              (query_error ''INVALID_TRIGGER_TYPE'' ''scheduled runs cannot be submitted through HTTP'' ''trigger_type'')) (\<lambda>_.
     (case rbind (http_command provider dataset trigger_type s e series)
             (\<lambda>m. run_create fresh fresh_scopes code_version checksum requested_at c m db) of
        Inl e \<Rightarrow> Inl (classify_error e)
      | Inr db' \<Rightarrow> Inr (fresh, db')))"

section \<open>Reading runs\<close>

definition run_detail :: "uuid \<Rightarrow> database \<Rightarrow> (ingestion_run \<times> ingestion_scope list) res" where
  "run_detail i db = (case run_get i db of
     None \<Rightarrow> Inl (ResourceNotFoundError ''ingestion run not found'')
   | Some r \<Rightarrow> Inr (r, sort_key (\<lambda>s. unat (sc_id s)) (scopes_of i db)))"

type_synonym run_row = "ingestion_run \<times> string \<times> string"

definition run_rows :: "database \<Rightarrow> run_row list" where
  "run_rows db = [(r, ds_provider_code d, ds_dataset_code d). r \<leftarrow> db_runs db, d \<leftarrow> db_datasets db, ds_id d = run_dataset r]"

definition run_key :: "run_row \<Rightarrow> page_key" where
  "run_key r = (instant_date (run_requested_at (fst r)), run_id (fst r))"

definition both_or_none :: "date option \<Rightarrow> date option \<Rightarrow> unit res" where
  "both_or_none s e = rguard ((s = None) = (e = None))
     (QueryValidationError ''INVALID_DATE_RANGE'' ''start_date and end_date must be supplied together'' None)"

definition run_matches :: "string option \<Rightarrow> string option \<Rightarrow> date option \<Rightarrow> date option \<Rightarrow> run_row \<Rightarrow> bool" where
  "run_matches status provider s e r \<longleftrightarrow>
     (given status \<longrightarrow> Some (run_status (fst r)) = status) \<and> (given provider \<longrightarrow> Some (fst (snd r)) = provider) \<and>
     (case (s, e) of (Some a, Some b) \<Rightarrow> run_start (fst r) \<le> b \<and> a \<le> run_end (fst r) | _ \<Rightarrow> True)"

definition list_runs ::
  "(bytes \<Rightarrow> string res) \<Rightarrow> date \<Rightarrow> string option \<Rightarrow> string option \<Rightarrow> date option \<Rightarrow> date option \<Rightarrow> int \<Rightarrow> database \<Rightarrow>
     string option \<Rightarrow> (run_row list \<times> string option) res" where
  "list_runs decode_text today status provider s e page_size db cursor =
     rbind (validate_page_size page_size 200) (\<lambda>_.
     rbind (rguard (status = None \<or> status \<in> Some ` {''pending'', ''running'', ''succeeded'', ''partially_succeeded'', ''failed''})
              (query_error ''INVALID_RUN_STATUS'' ''status is invalid'' ''status'')) (\<lambda>_.
     rbind (rguard (provider = None \<or> provider \<in> Some ` {''bank_of_canada'', ''bis''})
              (query_error ''INVALID_PROVIDER'' ''provider is invalid'' ''provider'')) (\<lambda>_.
     rbind (both_or_none s e) (\<lambda>_.
     rbind (case (s, e) of (Some a, Some b) \<Rightarrow> validate_history_range today a b maximum_history_days | _ \<Rightarrow> Inr ()) (\<lambda>_.
     rmap (\<lambda>keep. list_page run_key (\<lambda>r. r) run_key page_size keep (filter (run_matches status provider s e) (run_rows db)))
       (after_cursor decode_text cursor))))))"

section \<open>Quality and quarantine\<close>

definition result_limit :: nat where "result_limit = 10000"

definition quality_matches :: "string option \<Rightarrow> uuid option \<Rightarrow> date option \<Rightarrow> date option \<Rightarrow> quality_result \<Rightarrow> bool" where
  "quality_matches itype iid s e q \<longleftrightarrow>
     (given itype \<longrightarrow> Some (ql_instrument_type q) = itype) \<and> (iid \<noteq> None \<longrightarrow> Some (ql_instrument_id q) = iid) \<and>
     (case (s, e) of (Some a, Some b) \<Rightarrow> ql_affected_start q \<le> b \<and> a \<le> ql_affected_end q | _ \<Rightarrow> True)"

definition quality_listing ::
  "date \<Rightarrow> string option \<Rightarrow> uuid option \<Rightarrow> date option \<Rightarrow> date option \<Rightarrow> database \<Rightarrow> quality_result list res" where
  "quality_listing today itype iid s e db =
     rbind (rguard (itype = None \<or> itype \<in> Some ` {''fx_pair'', ''policy_rate_series''})
              (query_error ''INVALID_INSTRUMENT_TYPE'' ''instrument_type is invalid'' ''instrument_type'')) (\<lambda>_.
     rbind (rguard (iid = None \<or> itype \<noteq> None)
              (query_error ''IDENTIFYING_FILTER_REQUIRED'' ''instrument_type is required with instrument_id'' ''instrument_type'')) (\<lambda>_.
     rbind (both_or_none s e) (\<lambda>_.
     rbind (case (s, e) of (Some a, Some b) \<Rightarrow> validate_history_range today a b maximum_history_days | _ \<Rightarrow> Inr ()) (\<lambda>_.
     (let rows = take result_limit (rev (sort_key result_order (filter (quality_matches itype iid s e) (db_quality db))))
      in Inr (if s \<noteq> None then rows else first_per_key result_key [] rows))))))"

record quarantine_count =
  qc_reason_code :: string
  qc_stage :: string
  qc_resolution_state :: string
  qc_count :: nat

definition quarantine_group :: "quarantined_record \<Rightarrow> string \<times> string \<times> string" where
  "quarantine_group q = (qr_reason_code q, qr_stage q, qr_resolution_state q)"

text \<open>\<open>GROUP BY\<close>, ordered by reason and stage; the states of one stage come in an order of their own.\<close>

definition quarantine_counts ::
  "uuid option \<Rightarrow> string option \<Rightarrow> string option \<Rightarrow> database \<Rightarrow> quarantine_count list res" where
  "quarantine_counts run reason_filter stage db =
     rbind (rguard (stage = None \<or> stage \<in> Some ` {''parse'', ''map'', ''normalize'', ''validate'', ''conflict''})
              (query_error ''INVALID_QUARANTINE_STAGE'' ''stage is invalid'' ''stage'')) (\<lambda>_.
     (let rows = filter (\<lambda>q. (run \<noteq> None \<longrightarrow> Some (qr_run q) = run) \<and> (given reason_filter \<longrightarrow> Some (qr_reason_code q) = reason_filter) \<and>
            (given stage \<longrightarrow> Some (qr_stage q) = stage)) (db_quarantine db)
      in Inr (map (\<lambda>g. case g of (r, st, x) \<Rightarrow> \<lparr>qc_reason_code = r, qc_stage = st, qc_resolution_state = x,
              qc_count = length (filter (\<lambda>q. quarantine_group q = g) rows)\<rparr>)
            (sort_key (\<lambda>g. (fst g, fst (snd g))) (dedupe (map quarantine_group rows))))))"

section \<open>Readiness\<close>

record readiness_checks =
  rc_database :: bool
  rc_migrations :: bool
  rc_configuration :: bool
  rc_references :: bool

definition enough_active :: "('a \<Rightarrow> bool) \<Rightarrow> 'a list \<Rightarrow> ('b \<Rightarrow> bool) \<Rightarrow> 'b list \<Rightarrow> bool" where
  "enough_active enabled items active rows \<longleftrightarrow> length (filter active rows) \<ge> length (filter enabled items)"

text \<open>
  \<open>answers\<close>: the server executes a statement; \<open>head\<close>: whether the migration table names the current
  head, or nothing when finding out raises.
\<close>

definition readiness :: "bool \<Rightarrow> bool option \<Rightarrow> reference_config \<Rightarrow> database \<Rightarrow> bool \<times> readiness_checks" where
  "readiness answers head c db =
     (let references =
          enough_active gc_enabled (cf_currencies c) cu_is_active (db_currencies db) \<and>
          enough_active ge_enabled (cf_economies c) ec_is_active (db_economies db) \<and>
          enough_active gp_enabled (cf_fx_pairs c) fp_is_active (db_fx_pairs db) \<and>
          enough_active gd_enabled (cf_datasets c) ds_is_active (db_datasets db) \<and>
          enough_active gf_enabled (cf_fx_series c) fs_is_active (db_fx_series db) \<and>
          enough_active gi_enabled (cf_rate_series c) is_is_active (db_rate_series db);
          checks = \<lparr>rc_database = answers, rc_migrations = (answers \<and> head = Some True), rc_configuration = True,
                    rc_references = (answers \<and> head \<noteq> None \<and> references)\<rparr>
      in (rc_database checks \<and> rc_migrations checks \<and> rc_configuration checks \<and> rc_references checks, checks))"


section \<open>Lemmas\<close>

lemma run_rows_distinct:
  assumes "distinct (map run_id (db_runs db))" "distinct (map ds_id (db_datasets db))"
  shows "distinct (map run_key (run_rows db))"
  unfolding run_rows_def
proof (rule distinct_concat_keys)
  show "distinct (map (\<lambda>r. (instant_date (run_requested_at r), run_id r)) (db_runs db))"
    using assms(1) by (fastforce simp: distinct_map inj_on_def)
  show "length [(r, ds_provider_code d, ds_dataset_code d). d \<leftarrow> db_datasets db, ds_id d = run_dataset r] \<le> 1" for r
    by (rule join_at_most_one [OF assms(2)]) simp
qed (auto simp: run_key_def split: if_splits)

lemma count_groups: "(\<Sum>g\<leftarrow>dedupe (map k rows). length (filter (\<lambda>q. k q = g) rows)) = length rows"
proof -
  have "(\<Sum>g\<in>k ` set rows. length (filter (\<lambda>q. k q = g) xs)) = length xs" if "set xs \<subseteq> set rows" for xs
    using that
  proof (induction xs)
    case (Cons x xs)
    have "(\<Sum>g\<in>k ` set rows. length (filter (\<lambda>q. k q = g) (x # xs))) =
        (\<Sum>g\<in>k ` set rows. (if g = k x then 1 else 0) + length (filter (\<lambda>q. k q = g) xs))"
      by (intro sum.cong) auto
    also have "\<dots> = Suc (length xs)" using Cons by (simp add: sum.distrib)
    finally show ?case by simp
  qed simp
  then show ?thesis by (simp add: sum_list_distinct_conv_sum_set)
qed

section \<open>Properties\<close>

text \<open>
  The two ways to the latest quality results agree: without a date range the listing of
  the service is the listing of the repository, as long as the table holds no more results than the query
  reads.
\<close>

theorem quality_listing_is_latest:
  assumes "length (db_quality db) \<le> result_limit" "itype = None \<or> itype \<in> Some ` {''fx_pair'', ''policy_rate_series''}"
    "iid = None \<or> itype \<noteq> None"
  shows "quality_listing today itype iid None None db = Inr (latest_by_instrument itype iid db)"
proof -
  have match: "quality_matches itype iid None None = (\<lambda>r. matches itype (ql_instrument_type r) \<and> matches iid (ql_instrument_id r))"
    using assms(2) by (auto simp: quality_matches_def matches_def given_def fun_eq_iff split: option.splits)
  have "length (filter P (db_quality db)) \<le> result_limit" for P using assms(1) le_trans [OF length_filter_le] by blast
  then show ?thesis
    using assms by (auto simp: quality_listing_def both_or_none_def latest_by_instrument_def match Let_def)
qed

text \<open>
  Every quarantined row is counted once: the counts of a listing without filters add up to
  the rows of the table, no group is listed twice, and every listed group has a row.
\<close>

theorem quarantine_counts_total:
  "\<exists>cs. quarantine_counts None None None db = Inr cs \<and> sum_list (map qc_count cs) = length (db_quarantine db) \<and>
    distinct (map (\<lambda>c. (qc_reason_code c, qc_stage c, qc_resolution_state c)) cs) \<and> (\<forall>c\<in>set cs. 0 < qc_count c)"
proof -
  let ?gs = "sort_key (\<lambda>g. (fst g, fst (snd g))) (dedupe (map quarantine_group (db_quarantine db)))"
  let ?count = "\<lambda>g. length (filter (\<lambda>q. quarantine_group q = g) (db_quarantine db))"
  let ?c = "\<lambda>g. case g of (r, st, x) \<Rightarrow> \<lparr>qc_reason_code = r, qc_stage = st, qc_resolution_state = x, qc_count = ?count g\<rparr>"
  have q: "quarantine_counts None None None db = Inr (map ?c ?gs)"
    by (simp add: quarantine_counts_def given_def Let_def)
  have total: "sum_list (map ?count ?gs) = length (db_quarantine db)"
  proof -
    have "sum_list (map ?count ?gs) = sum_list (map ?count (dedupe (map quarantine_group (db_quarantine db))))"
      by (simp add: sum_list_distinct_conv_sum_set)
    then show ?thesis by (simp add: count_groups)
  qed
  have counts: "map qc_count (map ?c ?gs) = map ?count ?gs" by (auto split: prod.splits)
  have groups: "map (\<lambda>c. (qc_reason_code c, qc_stage c, qc_resolution_state c)) (map ?c ?gs) = ?gs"
    by (auto simp: comp_def intro!: map_idI split: prod.splits)
  have positive: "0 < ?count g" if "g \<in> set ?gs" for g
    using that by (auto simp: filter_empty_conv)
  show ?thesis
  proof (intro exI conjI)
    show "quarantine_counts None None None db = Inr (map ?c ?gs)" by (rule q)
    show "sum_list (map qc_count (map ?c ?gs)) = length (db_quarantine db)" by (simp only: counts total)
    show "distinct (map (\<lambda>c. (qc_reason_code c, qc_stage c, qc_resolution_state c)) (map ?c ?gs))"
      unfolding groups by simp
    have "\<forall>n\<in>set (map qc_count (map ?c ?gs)). 0 < n" unfolding counts using positive by auto
    then show "\<forall>c\<in>set (map ?c ?gs). 0 < qc_count c" by simp
  qed
qed

text \<open>
  The listing of runs loses and repeats none: following the cursors from the first page
  gives every run that matches the filters once, in order of request date and id.
\<close>

theorem list_runs_pages_complete:
  assumes "reads_ascii decode_text" "distinct (map run_id (db_runs db))" "distinct (map ds_id (db_datasets db))"
    "\<And>r. r \<in> set (db_runs db) \<Longrightarrow> valid_instant (run_requested_at r)"
    "list_runs decode_text today status provider s e k db None = Inr page"
  shows "\<exists>rows. walk_pages (Suc (length rows)) (list_runs decode_text today status provider s e k db) None = Inr rows \<and>
    sorted_wrt (\<lambda>a b. run_key a < run_key b) rows \<and> set rows = {r \<in> set (run_rows db). run_matches status provider s e r}"
proof -
  let ?rows = "filter (run_matches status provider s e) (run_rows db)"
  have keys: "distinct (map run_key ?rows)" by (intro distinct_map_filter run_rows_distinct assms)
  have valid: "valid_key (run_key r)" if "r \<in> set ?rows" for r
    using that assms(4) valid_instant_date by (auto simp: run_rows_def valid_key_def run_key_def split: if_splits)
  have fetch: "list_runs decode_text today status provider s e k db cursor =
      rmap (\<lambda>keep. list_page run_key (\<lambda>r. r) run_key k keep ?rows) (after_cursor decode_text cursor)" for cursor
    using assms(5) by (auto simp: list_runs_def rbind_eq_Inr rmap_eq_Inr split: option.splits)
  have "1 \<le> k" using assms(5) by (auto simp: list_runs_def rbind_eq_Inr validate_page_size_def)
  then have "walk_pages (Suc (length ?rows)) (list_runs decode_text today status provider s e k db) None
      = Inr (map (\<lambda>r. r) (sort_key run_key ?rows))"
    by (intro listing_pages [where key = run_key and view = "\<lambda>r. r" and view_key = run_key, OF assms(1) refl _ keys valid fetch]) simp_all
  moreover have "sorted_wrt (\<lambda>a b. run_key a < run_key b) (sort_key run_key ?rows)"
    using keys by (simp add: strict_sorted_iff distinct_map flip: sorted_wrt_map)
  ultimately show ?thesis by (intro exI [of _ "sort_key run_key ?rows"]) auto
qed

text \<open>
  A request that names an unknown provider is the client's mistake, but the answer depends on the name:
  the message repeats it, and a name with a word such as \<open>approved\<close> in it is answered as an outage.
\<close>

lemma enqueue_misclassified:
  "enqueue 1 (\<lambda>n. 2) ''v'' ''c'' 5 sample_config ''approved'' ''valet_daily_fx'' ''manual'' 1 2 None empty_database =
     Inl (ServiceUnavailableError ([CHR 0x27] @ ''approved'' @ [CHR 0x27] @ '' is not a valid ProviderCode''))"
  "enqueue 1 (\<lambda>n. 2) ''v'' ''c'' 5 sample_config ''nobody'' ''valet_daily_fx'' ''manual'' 1 2 None empty_database =
     Inl (QueryValidationError ''INVALID_INGESTION_REQUEST'' ([CHR 0x27] @ ''nobody'' @ [CHR 0x27] @ '' is not a valid ProviderCode'') None)"
  by code_simp+

section \<open>Applications\<close>

lemma quality_listing_is_latest_witness:
  "\<exists>r. quality_listing 738100 (Some ''fx_pair'') None None None
     (empty_database\<lparr>db_quality := [sample_result 1 5, sample_result 2 9, sample_result 3 7]\<rparr>) = Inr [r] \<and> ql_id r = 2"
proof -
  let ?db = "empty_database\<lparr>db_quality := [sample_result 1 5, sample_result 2 9, sample_result 3 7]\<rparr>"
  have "map ql_id (latest_by_instrument (Some ''fx_pair'') None ?db) = [2]" by code_simp
  moreover have "quality_listing 738100 (Some ''fx_pair'') None None None ?db = Inr (latest_by_instrument (Some ''fx_pair'') None ?db)"
    by (rule quality_listing_is_latest) (simp_all add: result_limit_def)
  ultimately show ?thesis by (auto simp: map_eq_Cons_conv)
qed

lemma list_runs_pages_complete_witness:
  "\<exists>rows. walk_pages (Suc (length rows)) (list_runs ascii_text 738100 (Some ''pending'') None None None 1
     (ledger_run (take 2 two_runs) ledger_db)) None = Inr rows \<and> set rows \<subseteq> set (run_rows (ledger_run (take 2 two_runs) ledger_db))"
proof -
  let ?db = "ledger_run (take 2 two_runs) ledger_db"
  have "distinct (map run_id (db_runs ?db))" "distinct (map ds_id (db_datasets ?db))" by code_simp+
  moreover have "list_all (\<lambda>r. valid_instant (run_requested_at r)) (db_runs ?db)" by code_simp
  moreover have "\<exists>p. list_runs ascii_text 738100 (Some ''pending'') None None None 1 ?db None = Inr p"
    by (simp add: list_runs_def after_cursor_def validate_page_size_def both_or_none_def del: ledger_run.simps)
  ultimately show ?thesis
    using list_runs_pages_complete [OF reads_ascii_text, of ?db 738100 "Some ''pending''" None None None 1] unfolding list_all_iff
    by blast
qed

end
