(* ===== verification/Http_Fetch.thy ===== *)
theory Http_Fetch
  imports Domain_Model Py_Decimal
begin

text \<open>
  The HTTP fetcher with its retry loop: \<open>app/providers/http.py\<close>.  What happens on the wire is an
  argument: for each attempt the response of the \<open>httpx\<close> client, or its failure.  So are the clock, the
  random numbers, the parsing of an HTTP date and the text of a float.  Floats are exact numbers here:
  rounding to double precision is not modelled.
\<close>

section \<open>Floats\<close>

fun float_less :: "pyfloat \<Rightarrow> pyfloat \<Rightarrow> bool" where
  "float_less (Num a) (Num b) = (a < b)"
| "float_less NotANumber y = False"
| "float_less x NotANumber = False"
| "float_less NegInf y = (y \<noteq> NegInf)"
| "float_less x PosInf = (x \<noteq> PosInf)"
| "float_less x y = False"

text \<open>\<open>min(a, b)\<close> and \<open>max(a, b)\<close> keep the first argument unless the second is strictly better.\<close>

definition py_min :: "pyfloat \<Rightarrow> pyfloat \<Rightarrow> pyfloat" where
  "py_min a b = (if float_less b a then b else a)"

definition py_max :: "pyfloat \<Rightarrow> pyfloat \<Rightarrow> pyfloat" where
  "py_max a b = (if float_less a b then b else a)"

fun float_plus :: "rat \<Rightarrow> pyfloat \<Rightarrow> pyfloat" where
  "float_plus a (Num b) = Num (a + b)"
| "float_plus a x = x"

text \<open>Underscores of a number stand between two digits.\<close>

fun underscores_ok :: "bool \<Rightarrow> string \<Rightarrow> bool" where
  "underscores_ok digit_before [] = True"
| "underscores_ok digit_before (c # cs) =
     (if c = CHR ''_'' then digit_before \<and> cs \<noteq> [] \<and> is_digit (hd cs) \<and> underscores_ok False cs
      else underscores_ok (is_digit c) cs)"

text \<open>\<open>float(text)\<close>, with \<open>None\<close> for its \<open>ValueError\<close>.\<close>

definition parse_float :: "string \<Rightarrow> pyfloat option" where
  "parse_float s =
     (let t = str_strip s; neg = prefix ''-'' t; l = str_lower (if neg \<or> prefix ''+'' t then drop 1 t else t)
      in if l = ''inf'' \<or> l = ''infinity'' then Some (if neg then NegInf else PosInf)
         else if l = ''nan'' then Some NotANumber
         else if underscores_ok False l
         then map_option (\<lambda>d. Num (dec_val d)) (parse_number neg (filter (\<lambda>c. c \<noteq> CHR ''_'') l))
         else None)"

text \<open>\<open>int(text)\<close>.\<close>

definition parse_int :: "string \<Rightarrow> int option" where
  "parse_int s =
     (let t = str_strip s; neg = prefix ''-'' t; l = (if neg \<or> prefix ''+'' t then drop 1 t else t);
          ds = filter (\<lambda>c. c \<noteq> CHR ''_'') l
      in if underscores_ok False l \<and> ds \<noteq> [] \<and> list_all is_digit ds \<and> length ds \<le> 4300
         then Some (if neg then - int (read_digits ds) else int (read_digits ds)) else None)"

section \<open>Policy and environment\<close>

record http_policy =
  hp_connect_timeout :: rat
  hp_read_timeout :: rat
  hp_write_timeout :: rat
  hp_pool_timeout :: rat
  hp_max_connections :: int
  hp_max_keepalive_connections :: int
  hp_max_response_bytes :: int
  hp_max_attempts :: int
  hp_max_elapsed_seconds :: rat
  hp_base_backoff_seconds :: rat
  hp_max_backoff_seconds :: rat
  hp_retry_statuses :: "int list"

definition default_http_policy :: http_policy where
  "default_http_policy = \<lparr>hp_connect_timeout = 5, hp_read_timeout = 30, hp_write_timeout = 10, hp_pool_timeout = 5,
     hp_max_connections = 10, hp_max_keepalive_connections = 5, hp_max_response_bytes = 10 * 1024 * 1024, hp_max_attempts = 3,
     hp_max_elapsed_seconds = 60, hp_base_backoff_seconds = 1 / 2, hp_max_backoff_seconds = 10,
     hp_retry_statuses = [408, 429, 500, 502, 503, 504]\<rparr>"

definition mk_http_policy :: "http_policy \<Rightarrow> http_policy res" where
  "mk_http_policy p =
     rmap (\<lambda>_. p) (rguard (hp_max_attempts p \<ge> 1 \<and> hp_max_response_bytes p \<ge> 1)
       (ValueError ''max_attempts and max_response_bytes must be positive''))"

definition safe_request_parameters :: "string list" where
  "safe_request_parameters = [''start_date'', ''end_date'', ''format'', ''series'', ''key'']"

definition safe_response_headers :: "string list" where
  "safe_response_headers =
     [''content-type'', ''content-length'', ''content-encoding'', ''etag'', ''last-modified'', ''retry-after'']"

text \<open>A response of the client: a stream is either consumed already or arrives in chunks and may break off.\<close>

record http_response =
  hr_status :: int
  hr_is_redirect :: bool
  hr_headers :: "string dict"
  hr_consumed :: bool
  hr_content :: bytes
  hr_chunks :: "bytes list"
  hr_breaks :: bool

datatype exchange = Response http_response | TransportFailure | ClientError exn

record http_env =
  he_exchange :: "nat \<Rightarrow> exchange"
  he_elapsed :: "nat \<Rightarrow> rat"
  he_random :: "nat \<Rightarrow> rat"
  he_now :: "nat \<Rightarrow> instant"
  he_parse_date :: "string \<Rightarrow> datetime option"
  he_float_text :: "pyfloat \<Rightarrow> string"

section \<open>URLs\<close>

definition scheme_char :: "char \<Rightarrow> bool" where
  "scheme_char c \<longleftrightarrow> is_alpha c \<or> is_digit c \<or> c \<in> {CHR ''+'', CHR ''-'', CHR ''.''}"

text \<open>\<open>urlsplit\<close>: the scheme and the network location.\<close>

definition url_split :: "string \<Rightarrow> (string \<times> string) res" where
  "url_split path =
     (let u = filter (\<lambda>c. c \<notin> {CHR 0x09, CHR 0x0A, CHR 0x0D}) (dropWhile (\<lambda>c. code_of c \<le> 32) path);
          i = takeWhile (\<lambda>c. c \<noteq> CHR '':'') u;
          has = CHR '':'' \<in> set u \<and> i \<noteq> [] \<and> is_alpha (hd i) \<and> list_all scheme_char i;
          rest = (if has then drop (length i + 1) u else u);
          netloc = (if prefix ''//'' rest then takeWhile (\<lambda>c. c \<notin> {CHR ''/'', CHR ''?'', CHR ''#''}) (drop 2 rest) else [])
      in if (CHR ''['' \<in> set netloc) \<noteq> (CHR '']'' \<in> set netloc) then Inl (ValueError ''Invalid IPv6 URL'')
         else Inr (if has then str_lower i else [], netloc))"

definition hostname :: "string \<Rightarrow> string" where
  "hostname netloc =
     (let host = (if CHR ''@'' \<in> set netloc then rev (takeWhile (\<lambda>c. c \<noteq> CHR ''@'') (rev netloc)) else netloc)
      in if CHR ''['' \<in> set host then takeWhile (\<lambda>c. c \<noteq> CHR '']'') (tl (dropWhile (\<lambda>c. c \<noteq> CHR ''['') host))
         else takeWhile (\<lambda>c. c \<noteq> CHR '':'') host)"

text \<open>The guards of \<open>create_async_client\<close>; the client itself is the library's.\<close>

definition check_base_url :: "string \<Rightarrow> bool \<Rightarrow> unit res" where
  "check_base_url base_url allow_insecure =
     rbind (url_split base_url) (\<lambda>(scheme, netloc).
     rbind (rguard (scheme = ''https'' \<or> allow_insecure) (ValueError ''provider base URL must use HTTPS'')) (\<lambda>_.
     rguard (hostname netloc \<noteq> []) (ValueError ''provider base URL must include a host'')))"

section \<open>One attempt\<close>

type_synonym error_context = "(string \<times> string) list"

definition request_context :: "fetch_request \<Rightarrow> error_context" where
  "request_context r = [(''endpoint_name'', fr_endpoint_name r), (''dataset'', fr_dataset r)]"

definition safe_retry_after :: "http_env \<Rightarrow> string \<Rightarrow> string option" where
  "safe_retry_after env v = (case parse_float v of
     Some x \<Rightarrow> Some (he_float_text env (py_max x (Num 0)))
   | None \<Rightarrow> (case he_parse_date env v of None \<Rightarrow> None | Some t \<Rightarrow> Some v))"

definition sanitize_parameters :: "param dict \<Rightarrow> param dict" where
  "sanitize_parameters ps = filter (\<lambda>(k, v). str_lower k \<in> set safe_request_parameters) ps"

definition sanitize_headers :: "string dict \<Rightarrow> string dict" where
  "sanitize_headers hs = dict_of (filter (\<lambda>(k, v). k \<in> set safe_response_headers) (map (\<lambda>(k, v). (str_lower k, v)) hs))"

definition size_error :: "error_context \<Rightarrow> exn" where
  "size_error ctx = PayloadTooLargeError ''provider response exceeds size limit'' ctx"

definition transport_error :: "error_context \<Rightarrow> exn" where
  "transport_error ctx = TransientProviderError ''provider transport failure'' ctx"

text \<open>Chunks are added until the body is too long; a stream that breaks raises after the last one.\<close>

fun read_chunks :: "int \<Rightarrow> error_context \<Rightarrow> bool \<Rightarrow> bytes \<Rightarrow> bytes list \<Rightarrow> bytes res" where
  "read_chunks limit ctx breaks body [] = (if breaks then Inl (transport_error ctx) else Inr body)"
| "read_chunks limit ctx breaks body (c # cs) =
     (if int (length (body @ c)) > limit then Inl (size_error ctx) else read_chunks limit ctx breaks (body @ c) cs)"

definition read_body :: "int \<Rightarrow> error_context \<Rightarrow> http_response \<Rightarrow> bytes res" where
  "read_body limit ctx r =
     rbind (if hr_consumed r then Inr (hr_content r) else read_chunks limit ctx (hr_breaks r) [] (hr_chunks r)) (\<lambda>body.
     rmap (\<lambda>_. body) (rguard (int (length body) \<le> limit) (size_error ctx)))"

definition check_length :: "int \<Rightarrow> error_context \<Rightarrow> http_response \<Rightarrow> unit res" where
  "check_length limit ctx r = (case map_of (hr_headers r) ''content-length'' of
     None \<Rightarrow> Inr ()
   | Some declared \<Rightarrow>
       (if declared = [] then Inr ()
        else (case parse_int declared of
                None \<Rightarrow> Inl (PermanentProviderError ''provider returned invalid content length'' ctx)
              | Some n \<Rightarrow> rguard (n \<le> limit) (size_error ctx))))"

definition media_type_of :: "http_response \<Rightarrow> string" where
  "media_type_of r = takeWhile (\<lambda>c. c \<noteq> CHR '';'')
     (case map_of (hr_headers r) ''content-type'' of None \<Rightarrow> ''application/octet-stream'' | Some t \<Rightarrow> t)"

definition retry_context :: "http_env \<Rightarrow> error_context \<Rightarrow> http_response \<Rightarrow> error_context" where
  "retry_context env ctx r = (case map_of (hr_headers r) ''retry-after'' of
     None \<Rightarrow> ctx
   | Some v \<Rightarrow> (case safe_retry_after env v of None \<Rightarrow> ctx | Some t \<Rightarrow> AList.update ''retry_after'' t ctx))"

definition receive :: "http_env \<Rightarrow> http_policy \<Rightarrow> fetch_request \<Rightarrow> nat \<Rightarrow> http_response \<Rightarrow> raw_payload res" where
  "receive env p q attempt r =
     (let ctx = request_context q in
      rbind (rguard (\<not> hr_is_redirect r) (PermanentProviderError ''provider redirect rejected'' ctx)) (\<lambda>_.
      rbind (rguard (hr_status r \<notin> set (hp_retry_statuses p))
               (TransientProviderError ''transient provider response'' (retry_context env ctx r))) (\<lambda>_.
      rbind (rguard (hr_status r < 400) (PermanentProviderError ''permanent provider response'' ctx)) (\<lambda>_.
      rbind (check_length (hp_max_response_bytes p) ctx r) (\<lambda>_.
      rbind (read_body (hp_max_response_bytes p) ctx r) (\<lambda>body.
      mk_raw_payload body (media_type_of r) (hr_status r) (utc_datetime (he_now env attempt))
        (mk_request_metadata ''GET'' (fr_endpoint_name q) (sanitize_parameters (fr_parameters q)))
        (sanitize_headers (hr_headers r))))))))"

definition attempt_fetch :: "http_env \<Rightarrow> http_policy \<Rightarrow> fetch_request \<Rightarrow> nat \<Rightarrow> raw_payload res" where
  "attempt_fetch env p q attempt =
     rbind (url_split (fr_path q)) (\<lambda>(scheme, netloc).
     rbind (rguard (scheme = [] \<and> netloc = [] \<and> prefix ''/'' (fr_path q))
              (PermanentProviderError ''provider request target rejected'' (request_context q))) (\<lambda>_.
     (case he_exchange env attempt of
        ClientError e \<Rightarrow> Inl e
      | TransportFailure \<Rightarrow> Inl (transport_error (request_context q))
      | Response r \<Rightarrow> receive env p q attempt r)))"

section \<open>The retry loop\<close>

definition date_delay :: "http_env \<Rightarrow> http_policy \<Rightarrow> nat \<Rightarrow> string \<Rightarrow> pyfloat option" where
  "date_delay env p attempt v = (case he_parse_date env v of
     None \<Rightarrow> None
   | Some t \<Rightarrow> (case utcoffset t of
       None \<Rightarrow> None
     | Some off \<Rightarrow> Some (py_min (py_max (Num (of_int (wall t - off - he_now env attempt) / 1000000)) (Num 0))
                      (Num (hp_max_backoff_seconds p)))))"

definition backoff :: "http_env \<Rightarrow> http_policy \<Rightarrow> nat \<Rightarrow> pyfloat" where
  "backoff env p attempt =
     Num (min (hp_base_backoff_seconds p * 2 ^ (attempt - 1)) (hp_max_backoff_seconds p) * he_random env attempt)"

definition retry_delay :: "http_env \<Rightarrow> http_policy \<Rightarrow> nat \<Rightarrow> string option \<Rightarrow> pyfloat" where
  "retry_delay env p attempt retry_after = (case retry_after of
     None \<Rightarrow> backoff env p attempt
   | Some v \<Rightarrow>
       (if v = [] then backoff env p attempt
        else (case parse_float v of
                Some x \<Rightarrow> py_min (py_max x (Num 0)) (Num (hp_max_backoff_seconds p))
              | None \<Rightarrow> (case date_delay env p attempt v of Some d \<Rightarrow> d | None \<Rightarrow> backoff env p attempt))))"

text \<open>\<open>left\<close> attempts remain, of which the next has the number \<open>attempt\<close>.\<close>

fun fetch_loop :: "http_env \<Rightarrow> http_policy \<Rightarrow> fetch_request \<Rightarrow> nat \<Rightarrow> nat \<Rightarrow> pyfloat list \<Rightarrow> fetch_result res" where
  "fetch_loop env p q 0 attempt delays = Inl (AssertionError ''retry loop did not return or raise'')"
| "fetch_loop env p q (Suc left) attempt delays =
     (case attempt_fetch env p q attempt of
        Inr payload \<Rightarrow> Inr \<lparr>fe_payload = payload, fe_retry = \<lparr>rt_attempts = attempt, rt_delays = delays\<rparr>\<rparr>
      | Inl (TransientProviderError m ctx) \<Rightarrow>
          (if int attempt \<ge> hp_max_attempts p then Inl (TransientProviderError ''provider request exhausted retries'' ctx)
           else (let delay = retry_delay env p attempt (map_of ctx ''retry_after'')
                 in if float_less (Num (hp_max_elapsed_seconds p)) (float_plus (he_elapsed env attempt) delay)
                    then Inl (TransientProviderError ''provider request exceeded retry time budget'' ctx)
                    else fetch_loop env p q left (attempt + 1) (delays @ [delay])))
      | Inl e \<Rightarrow> Inl e)"

definition http_fetch :: "http_env \<Rightarrow> http_policy \<Rightarrow> fetch_request \<Rightarrow> fetch_result res" where
  "http_fetch env p q = fetch_loop env p q (nat (hp_max_attempts p)) 1 []"

section \<open>Lemmas\<close>

lemma read_chunks_bound:
  "read_chunks limit ctx breaks body cs = Inr b \<Longrightarrow> int (length body) \<le> limit \<Longrightarrow> int (length b) \<le> limit"
  by (induction limit ctx breaks body cs rule: read_chunks.induct) (auto split: if_splits)

lemma receive_ok:
  assumes "receive env p q attempt r = Inr payload"
  shows "int (length (rp_body payload)) \<le> hp_max_response_bytes p \<and> rp_status payload < 400 \<and>
    rp_status payload \<notin> set (hp_retry_statuses p) \<and> rp_request payload = mk_request_metadata ''GET'' (fr_endpoint_name q)
      (sanitize_parameters (fr_parameters q)) \<and> fst ` set (rp_metadata payload) \<subseteq> set safe_response_headers"
proof -
  have "fst ` set (sanitize_headers hs) \<subseteq> set safe_response_headers" for hs
    unfolding sanitize_headers_def keys_dict_of by auto
  then have keys: "k \<in> set safe_response_headers" if "(k, v) \<in> set (sanitize_headers hs)" for k v hs
    using that by force
  obtain body where "read_body (hp_max_response_bytes p) (request_context q) r = Inr body" "hr_status r < 400"
    "hr_status r \<notin> set (hp_retry_statuses p)" "mk_raw_payload body (media_type_of r) (hr_status r) (utc_datetime (he_now env attempt))
        (mk_request_metadata ''GET'' (fr_endpoint_name q) (sanitize_parameters (fr_parameters q))) (sanitize_headers (hr_headers r)) = Inr payload"
    using assms by (auto simp: receive_def Let_def rbind_eq_Inr)
  then show ?thesis using keys by (auto simp: read_body_def rbind_eq_Inr rmap_eq_Inr mk_raw_payload_def split: if_splits)
qed

definition safe_context :: "error_context \<Rightarrow> bool" where
  "safe_context ctx \<longleftrightarrow> fst ` set ctx \<subseteq> {''endpoint_name'', ''dataset'', ''retry_after''}"

fun provider_context :: "exn \<Rightarrow> error_context option" where
  "provider_context (TransientProviderError m c) = Some c"
| "provider_context (PermanentProviderError m c) = Some c"
| "provider_context (PayloadTooLargeError m c) = Some c"
| "provider_context _ = None"

lemma request_context_safe: "safe_context (request_context q)"
  by (simp add: safe_context_def request_context_def)

lemma retry_context_safe: "safe_context (retry_context env (request_context q) r)"
  using request_context_safe [of q]
  by (auto simp: retry_context_def safe_context_def keys_update split: option.splits)

lemma read_chunks_error:
  "read_chunks limit ctx breaks body cs = Inl e \<Longrightarrow> e = size_error ctx \<or> e = transport_error ctx"
  by (induction limit ctx breaks body cs rule: read_chunks.induct) (auto split: if_splits)

lemma receive_error:
  assumes "receive env p q attempt r = Inl e"
  shows "\<exists>ctx. provider_context e = Some ctx \<and> safe_context ctx"
proof -
  have "check_length l ctx r = Inl e \<Longrightarrow> provider_context e = Some ctx" for l ctx
    by (auto simp: check_length_def size_error_def rguard_def split: option.splits if_splits)
  moreover have "read_body l ctx r = Inl e \<Longrightarrow> provider_context e = Some ctx" for l ctx
    by (auto simp: read_body_def rbind_eq_Inl rmap_eq_Inl rguard_def size_error_def transport_error_def
        dest!: read_chunks_error split: if_splits)
  moreover have "mk_raw_payload b m st (utc_datetime ts) rq md \<noteq> Inl e" for b m st ts rq md
    by (simp add: mk_raw_payload_def utc_datetime_def is_aware_def)
  ultimately show ?thesis
    using assms request_context_safe [of q] retry_context_safe [of env q r]
    by (auto simp: receive_def Let_def rbind_eq_Inl rguard_def split: if_splits)
qed

lemma attempt_error:
  assumes "attempt_fetch env p q attempt = Inl e"
  shows "(\<exists>ctx. provider_context e = Some ctx \<and> safe_context ctx) \<or> he_exchange env attempt = ClientError e \<or>
    e = ValueError ''Invalid IPv6 URL''"
  using assms request_context_safe [of q] receive_error [of env p q attempt _ e]
  by (auto simp: attempt_fetch_def rbind_eq_Inl rguard_def url_split_def Let_def transport_error_def
      split: if_splits exchange.splits)

text \<open>A delay is no number only when the server asked for that.\<close>

definition delay_ok :: "http_policy \<Rightarrow> pyfloat \<Rightarrow> bool" where
  "delay_ok p d \<longleftrightarrow> d = NotANumber \<or> (\<exists>x. d = Num x \<and> 0 \<le> x \<and> x \<le> hp_max_backoff_seconds p)"

definition policy_sane :: "http_policy \<Rightarrow> bool" where
  "policy_sane p \<longleftrightarrow> 1 \<le> hp_max_attempts p \<and> 0 \<le> hp_base_backoff_seconds p \<and> 0 \<le> hp_max_backoff_seconds p"

definition random_sane :: "http_env \<Rightarrow> bool" where
  "random_sane env \<longleftrightarrow> (\<forall>n. 0 \<le> he_random env n \<and> he_random env n \<le> 1)"

lemma capped_delay: "0 \<le> c \<Longrightarrow> py_min (py_max x (Num 0)) (Num c) = NotANumber \<or>
    (\<exists>y. py_min (py_max x (Num 0)) (Num c) = Num y \<and> 0 \<le> y \<and> y \<le> c)"
  by (cases x) (auto simp: py_min_def py_max_def)

lemma backoff_ok:
  assumes "policy_sane p" "random_sane env"
  shows "delay_ok p (backoff env p n)"
proof -
  define c where "c = min (hp_base_backoff_seconds p * 2 ^ (n - 1)) (hp_max_backoff_seconds p)"
  have c: "0 \<le> c" "c \<le> hp_max_backoff_seconds p" using assms(1) by (auto simp: policy_sane_def c_def)
  moreover have r: "0 \<le> he_random env n" "he_random env n \<le> 1" using assms(2) by (simp_all add: random_sane_def)
  ultimately have "c * he_random env n \<le> hp_max_backoff_seconds p" using mult_left_le [of "he_random env n" c] by linarith
  moreover have "0 \<le> c * he_random env n" using c r by simp
  moreover have "backoff env p n = Num (c * he_random env n)" by (simp add: backoff_def c_def)
  ultimately show ?thesis by (simp add: delay_ok_def)
qed

lemma retry_delay_ok:
  assumes "policy_sane p" "random_sane env"
  shows "delay_ok p (retry_delay env p n ra)"
proof -
  have "0 \<le> hp_max_backoff_seconds p" using assms(1) by (simp add: policy_sane_def)
  then show ?thesis
    using backoff_ok [OF assms, of n] capped_delay [of "hp_max_backoff_seconds p"]
    by (auto simp: retry_delay_def delay_ok_def date_delay_def split: option.splits)
qed

lemma fetch_loop_ok:
  assumes "fetch_loop env p q left attempt delays = Inr fe" "int attempt + int left = hp_max_attempts p + 1"
    "attempt = Suc (length delays)" "\<forall>d\<in>set delays. delay_ok p d" "policy_sane p" "random_sane env"
  shows "rt_attempts (fe_retry fe) = Suc (length (rt_delays (fe_retry fe))) \<and> int (rt_attempts (fe_retry fe)) \<le> hp_max_attempts p \<and>
    (\<forall>d\<in>set (rt_delays (fe_retry fe)). delay_ok p d) \<and> (\<exists>n. attempt_fetch env p q n = Inr (fe_payload fe))"
  using assms
proof (induction env p q left attempt delays rule: fetch_loop.induct)
  case (2 env p q left attempt delays)
  show ?case
  proof (cases "attempt_fetch env p q attempt")
    case (Inr payload)
    then show ?thesis using 2(2-5) by auto
  next
    case (Inl e)
    then obtain m ctx where e: "e = TransientProviderError m ctx" using 2(2) by (cases e) auto
    let ?d = "retry_delay env p attempt (map_of ctx ''retry_after'')"
    have step: "\<not> int attempt \<ge> hp_max_attempts p"
      "\<not> float_less (Num (hp_max_elapsed_seconds p)) (float_plus (he_elapsed env attempt) ?d)"
      "fetch_loop env p q left (attempt + 1) (delays @ [?d]) = Inr fe"
      using 2(2) Inl e by (auto simp: Let_def split: if_splits)
    show ?thesis
      by (rule 2(1) [OF Inl e step(1) refl step(2,3)]) (use 2(3-7) retry_delay_ok [OF 2(6,7)] in auto)
  qed
qed simp

text \<open>The errors of the client that the code does not translate are not the program's own.\<close>

definition client_errors_foreign :: "http_env \<Rightarrow> bool" where
  "client_errors_foreign env \<longleftrightarrow> (\<forall>n e. he_exchange env n = ClientError e \<longrightarrow> provider_context e = None)"

lemma fetch_loop_error:
  assumes "fetch_loop env p q left attempt delays = Inl e" "int attempt + int left = hp_max_attempts p + 1"
    "attempt = Suc (length delays)" "0 < left" "client_errors_foreign env"
  shows "(\<exists>ctx. provider_context e = Some ctx \<and> safe_context ctx) \<or> (\<exists>n. he_exchange env n = ClientError e) \<or>
    e = ValueError ''Invalid IPv6 URL''"
  using assms
proof (induction env p q left attempt delays rule: fetch_loop.induct)
  case (2 env p q left attempt delays)
  show ?case
  proof (cases "attempt_fetch env p q attempt")
    case (Inl x)
    note x = attempt_error [OF Inl]
    show ?thesis
    proof (cases "\<exists>m ctx. x = TransientProviderError m ctx")
      case True
      then obtain m ctx where e: "x = TransientProviderError m ctx" by blast
      let ?d = "retry_delay env p attempt (map_of ctx ''retry_after'')"
      consider (stop) e' where "e = TransientProviderError e' ctx"
        | (again) "\<not> int attempt \<ge> hp_max_attempts p"
          "\<not> float_less (Num (hp_max_elapsed_seconds p)) (float_plus (he_elapsed env attempt) ?d)"
          "fetch_loop env p q left (attempt + 1) (delays @ [?d]) = Inl e"
        using 2(2) Inl e by (auto simp: Let_def split: if_splits)
      then show ?thesis
      proof cases
        case stop
        have "safe_context ctx" using x 2(6) e unfolding client_errors_foreign_def by fastforce
        then show ?thesis using stop by auto
      next
        case again
        show ?thesis
          by (rule 2(1) [OF Inl e again(1) refl again(2,3)]) (use 2(3,4,6) again(1) in auto)
      qed
    next
      case False
      then have "e = x" using 2(2) Inl by (cases x) auto
      then show ?thesis using x by blast
    qed
  qed (use 2(2) in auto)
qed simp

section \<open>Properties\<close>



section \<open>Applications\<close>

text \<open>A server that asks for a delay of \<open>nan\<close> seconds, then answers; and one that redirects.\<close>

definition sample_request :: fetch_request where
  "sample_request = \<lparr>fr_dataset = ''valet'', fr_instruments = [''FXUSDCAD''], fr_date_range = \<lparr>dr_start = 738000, dr_end = 738002\<rparr>,
     fr_endpoint_name = ''observations'', fr_path = ''/observations/FXUSDCAD/json'',
     fr_parameters = [(''start_date'', Text ''2021-08-01''), (''api_key'', Text ''k'')]\<rparr>"

definition sample_response :: "int \<Rightarrow> string dict \<Rightarrow> http_response" where
  "sample_response status headers = \<lparr>hr_status = status, hr_is_redirect = (300 \<le> status \<and> status < 400), hr_headers = headers,
     hr_consumed = False, hr_content = [], hr_chunks = [[91], [93]], hr_breaks = False\<rparr>"

definition sample_env :: "rat \<Rightarrow> (nat \<Rightarrow> exchange) \<Rightarrow> http_env" where
  "sample_env elapsed ex = \<lparr>he_exchange = ex, he_elapsed = (\<lambda>n. elapsed), he_random = (\<lambda>n. 1 / 2), he_now = (\<lambda>n. 63763200000000000),
     he_parse_date = (\<lambda>s. None), he_float_text = (\<lambda>x. case x of NotANumber \<Rightarrow> ''nan'' | _ \<Rightarrow> ''1.0'')\<rparr>"

definition nan_server :: "nat \<Rightarrow> exchange" where
  "nan_server n = (if n = 1 then Response (sample_response 503 [(''retry-after'', ''nan'')]) else Response (sample_response 200 []))"

text \<open>The delay is no number, so that it exceeds no budget: the loop goes on although the time is over.\<close>

lemma nan_delay_ignores_budget:
  "rmap fe_retry (http_fetch (sample_env 1000 nan_server) default_http_policy sample_request)
     = Inr \<lparr>rt_attempts = 2, rt_delays = [NotANumber]\<rparr>"
  "rmap fe_retry (http_fetch (sample_env 1000 (nan_server(1 := Response (sample_response 503 [])))) default_http_policy sample_request)
     = Inl (TransientProviderError ''provider request exceeded retry time budget'' [(''endpoint_name'', ''observations''), (''dataset'', ''valet'')])"
  by code_simp+



end
