(* ===== verification/Raw_Data.thy ===== *)
theory Raw_Data
  imports Versioning
begin

text \<open>
  Raw provider payloads: \<open>app/application/ingestion/raw_data.py\<close> (the service that stores exact
  response bytes and record locators), \<open>app/repositories/raw_data.py\<close> and
  \<open>app/repositories/quarantine.py\<close>.  SHA-256 of the body is a parameter \<open>sha_bytes\<close>; keys of new
  rows are arguments.
\<close>

section \<open>The raw tables\<close>

definition raw_response_table_checks :: "raw_response list \<Rightarrow> checks" where
  "raw_response_table_checks rows =
     concat (map raw_response_checks rows) @ [(''raw_response_pkey'', distinct (map rr_id rows))]"

definition record_key :: "raw_record \<Rightarrow> uuid \<times> string" where
  "record_key r = (rd_response r, rd_path r)"

definition raw_record_table_checks :: "raw_record list \<Rightarrow> checks" where
  "raw_record_table_checks rows =
     concat (map raw_record_checks rows) @
     [(''raw_record_pkey'', distinct (map rd_id rows)), (''uq_raw_record_path'', distinct (map record_key rows))]"

definition add_response :: "raw_response \<Rightarrow> database \<Rightarrow> database res" where
  "add_response r db =
     (let rows = db_raw_responses db @ [r]
      in rmap (\<lambda>_. db\<lparr>db_raw_responses := rows\<rparr>) (enforce (raw_response_table_checks rows)))"

definition get_response :: "uuid \<Rightarrow> database \<Rightarrow> raw_response option" where
  "get_response i db = find (\<lambda>r. rr_id r = i) (db_raw_responses db)"

text \<open>Equality of dicts does not depend on the order of their items.\<close>

fun unordered :: "pyval \<Rightarrow> pyval" where
  "unordered (PDict ps) = PDict (sort_key fst (map (\<lambda>(k, v). (k, unordered v)) ps))"
| "unordered (PList xs) = PList (map unordered xs)"
| "unordered (PTuple xs) = PTuple (map unordered xs)"
| "unordered v = v"

definition same_metadata :: "string option \<Rightarrow> string option \<Rightarrow> pyval dict \<Rightarrow> raw_record \<Rightarrow> bool" where
  "same_metadata natural_key checksum metadata r \<longleftrightarrow>
     rd_natural_key r = natural_key \<and> rd_checksum r = checksum \<and>
     unordered (PDict (rd_metadata r)) = unordered (PDict metadata)"

definition existing_record :: "uuid \<Rightarrow> string \<Rightarrow> database \<Rightarrow> raw_record option" where
  "existing_record response path db = find (\<lambda>r. rd_response r = response \<and> rd_path r = path) (db_raw_records db)"

text \<open>
  Within one transaction the second lookup of \<open>get_or_create_record\<close>, after an integrity error, finds
  nothing more than the first: the error is raised again.
\<close>

definition get_or_create_record ::
  "uuid \<Rightarrow> uuid \<Rightarrow> string \<Rightarrow> string option \<Rightarrow> string option \<Rightarrow> pyval dict \<Rightarrow> database \<Rightarrow> (raw_record \<times> database) res" where
  "get_or_create_record fresh response path natural_key checksum metadata db =
     (case existing_record response path db of
        Some r \<Rightarrow>
          (if same_metadata natural_key checksum metadata r then Inr (r, db)
           else Inl (ValueError ''raw record locator already exists with different metadata''))
      | None \<Rightarrow>
          (let r = \<lparr>rd_id = fresh, rd_response = response, rd_path = path, rd_natural_key = natural_key,
                    rd_checksum = checksum, rd_metadata = metadata\<rparr>;
               rows = db_raw_records db @ [r]
           in rmap (\<lambda>_. (r, db\<lparr>db_raw_records := rows\<rparr>)) (enforce (raw_record_table_checks rows))))"

text \<open>\<open>_add_lineage\<close> of the repository: the row of the key, moved forward in time, or a new one.\<close>

definition add_lineage :: "uuid \<Rightarrow> uuid \<Rightarrow> uuid \<Rightarrow> instant \<Rightarrow> version_run list \<Rightarrow> version_run list" where
  "add_lineage version run raw observed_at rows =
     (case find (\<lambda>n. lineage_key n = (version, run, raw)) rows of
        None \<Rightarrow> rows @ [\<lparr>vn_version = version, vn_run = run, vn_raw_record = raw, vn_observed_at = observed_at\<rparr>]
      | Some n \<Rightarrow>
          (if vn_observed_at n \<noteq> observed_at
           then update_where (\<lambda>n. lineage_key n = (version, run, raw))
                  (\<lambda>n. n\<lparr>vn_observed_at := max (vn_observed_at n) observed_at\<rparr>) rows
           else rows))"

section \<open>The service\<close>

record raw_storage_policy =
  rs_max_response_bytes :: int
  rs_request_allowlist :: "string list"
  rs_response_allowlist :: "string list"

definition mk_storage_policy :: "int \<Rightarrow> string list \<Rightarrow> string list \<Rightarrow> raw_storage_policy res" where
  "mk_storage_policy n req resp =
     (if n < 1 then Inl (ValueError ''max_response_bytes must be positive'')
      else Inr \<lparr>rs_max_response_bytes = n, rs_request_allowlist = req, rs_response_allowlist = resp\<rparr>)"

definition default_storage_policy :: raw_storage_policy where
  "default_storage_policy = \<lparr>rs_max_response_bytes = 10 * 1024 * 1024,
     rs_request_allowlist = [''start_date'', ''end_date'', ''format'', ''series'', ''key''],
     rs_response_allowlist = [''content-type'', ''content-length'', ''content-encoding'', ''etag'', ''last-modified'']\<rparr>"

definition allowlisted_mapping :: "'v dict \<Rightarrow> string list \<Rightarrow> 'v dict" where
  "allowlisted_mapping kvs allowlist =
     dict_of (filter (\<lambda>(k, v). k \<in> str_lower ` set allowlist) (map (\<lambda>(k, v). (str_lower k, v)) kvs))"

definition logical_name :: "string \<Rightarrow> bool" where
  "logical_name s \<longleftrightarrow> s \<noteq> [] \<and> \<not> str_contains ''://'' s \<and> CHR ''?'' \<notin> set s \<and> CHR ''#'' \<notin> set s"

definition stored_response ::
  "(bytes \<Rightarrow> string) \<Rightarrow> raw_storage_policy \<Rightarrow> uuid \<Rightarrow> uuid \<Rightarrow> uuid \<Rightarrow> uuid \<Rightarrow> raw_payload \<Rightarrow> instant \<Rightarrow> raw_response" where
  "stored_response sha_bytes policy fresh run scope dataset p retrieved_at =
     (let metadata = allowlisted_mapping (rp_metadata p) (rs_response_allowlist policy)
      in \<lparr>rr_id = fresh, rr_run = run, rr_scope = scope, rr_dataset = dataset, rr_method = rm_method (rp_request p),
          rr_endpoint = rm_endpoint_name (rp_request p),
          rr_parameters = allowlisted_mapping (rm_parameters (rp_request p)) (rs_request_allowlist policy),
          rr_status = rp_status p, rr_media_type = rp_media_type p, rr_retrieved_at = retrieved_at,
          rr_checksum = sha_bytes (rp_body p), rr_body = rp_body p, rr_body_size = int (length (rp_body p)),
          rr_content_encoding = map_of metadata ''content-encoding'', rr_metadata = metadata\<rparr>)"

definition store_response ::
  "(bytes \<Rightarrow> string) \<Rightarrow> raw_storage_policy \<Rightarrow> uuid \<Rightarrow> uuid \<Rightarrow> uuid \<Rightarrow> uuid \<Rightarrow> fetch_result \<Rightarrow> database \<Rightarrow> database res" where
  "store_response sha_bytes policy fresh run scope dataset result db =
     (let p = fe_payload result in
      rbind (rguard (int (length (rp_body p)) \<le> rs_max_response_bytes policy)
               (PayloadTooLargeError ''provider response exceeds raw storage size limit''
                  [(''endpoint_name'', rm_endpoint_name (rp_request p))])) (\<lambda>_.
      rbind (rguard (rm_method (rp_request p) = ''GET'') (ValueError ''Phase 1 raw responses must use GET'')) (\<lambda>_.
      rbind (rguard (logical_name (rm_endpoint_name (rp_request p)))
               (ValueError ''endpoint_name must be a non-empty logical name'')) (\<lambda>_.
      rbind (to_utc (ValueError ''retrieved_at must be timezone-aware'') (rp_retrieved_at p)) (\<lambda>ts.
      add_response (stored_response sha_bytes policy fresh run scope dataset p ts) db)))))"

definition is_hex :: "char \<Rightarrow> bool" where
  "is_hex c \<longleftrightarrow> c \<in> set ''0123456789abcdefABCDEF''"

text \<open>\<open>_reject_sensitive_keys\<close> descends into nested mappings.\<close>

fun has_sensitive_key :: "pyval \<Rightarrow> bool" where
  "has_sensitive_key (PDict ps) \<longleftrightarrow>
     list_ex (\<lambda>(k, v). contains_any [''authorization'', ''cookie'', ''credential'', ''password'', ''secret'', ''token''] (str_lower k)
        \<or> has_sensitive_key v) ps"
| "has_sensitive_key _ \<longleftrightarrow> False"

definition store_record ::
  "uuid \<Rightarrow> uuid \<Rightarrow> string \<Rightarrow> string option \<Rightarrow> string option \<Rightarrow> pyval dict \<Rightarrow> database \<Rightarrow> (source_locator \<times> database) res" where
  "store_record fresh response path natural_key checksum metadata db =
     rbind (rguard (path \<noteq> [] \<and> str_strip path = path)
              (ValueError ''record_path must be a non-empty canonical path'')) (\<lambda>_.
     rbind (rguard (case checksum of None \<Rightarrow> True | Some c \<Rightarrow> length c = 64 \<and> list_all is_hex c)
              (ValueError ''record_checksum must be a hexadecimal SHA-256 digest'')) (\<lambda>_.
     rbind (rguard (\<not> has_sensitive_key (PDict metadata))
              (ValueError ''sensitive raw-record metadata key rejected'')) (\<lambda>_.
     rmap (\<lambda>(r, db'). (\<lparr>sl_raw_response_id = response, sl_record_path = rd_path r, sl_record_checksum = rd_checksum r\<rparr>, db'))
       (get_or_create_record fresh response path natural_key checksum metadata db))))"

section \<open>Quarantine\<close>

definition safe_details :: "pyval dict \<Rightarrow> pyval dict" where
  "safe_details details = filter (\<lambda>(k, v). \<not> contains_any [''authorization'', ''cookie'', ''credential'', ''password'',
     ''secret'', ''token'', ''payload'', ''body'', ''url''] (str_lower k)) details"

definition quarantine_checks :: "quarantined_record list \<Rightarrow> checks" where
  "quarantine_checks rows =
     concat (map quarantined_record_checks rows) @ [(''quarantined_record_pkey'', distinct (map qr_id rows))]"

definition quarantine_add ::
  "uuid \<Rightarrow> uuid \<Rightarrow> uuid \<Rightarrow> uuid \<Rightarrow> string \<Rightarrow> string \<Rightarrow> instant \<Rightarrow> string option \<Rightarrow> pyval dict \<Rightarrow> database \<Rightarrow> database res" where
  "quarantine_add fresh run scope raw reason_code stage now natural_key details db =
     (let rows = db_quarantine db @ [\<lparr>qr_id = fresh, qr_run = run, qr_scope = scope, qr_raw_record = raw,
            qr_natural_key = natural_key, qr_reason_code = reason_code, qr_stage = stage,
            qr_details = safe_details details, qr_created_at = now, qr_updated_at = now,
            qr_resolution_state = ''unresolved''\<rparr>]
      in rmap (\<lambda>_. db\<lparr>db_quarantine := rows\<rparr>) (enforce (quarantine_checks rows)))"

section \<open>Lemmas\<close>

text \<open>The two lineage writers of the program agree on a table keyed as the schema keys it.\<close>

lemma add_lineage_eq:
  assumes "distinct (map lineage_key rows)"
  shows "add_lineage version run raw ts rows = lineage version run raw ts rows"
proof (cases "find (\<lambda>n. lineage_key n = (version, run, raw)) rows")
  case None
  then have "\<not> list_ex (\<lambda>n. lineage_key n = (version, run, raw)) rows" by (auto simp: find_None_iff list_ex_iff)
  then show ?thesis using None by (simp add: add_lineage_def lineage_def)
next
  case (Some n)
  then have n: "n \<in> set rows" "lineage_key n = (version, run, raw)" by (auto simp: find_Some_iff)
  have only: "m = n" if "m \<in> set rows" "lineage_key m = (version, run, raw)" for m
    using assms n that by (metis distinct_map inj_onD)
  have "update_where (\<lambda>n. lineage_key n = (version, run, raw)) (\<lambda>n. n\<lparr>vn_observed_at := max (vn_observed_at n) ts\<rparr>) rows = rows"
    if "vn_observed_at n = ts"
    unfolding update_where_def using only that by (intro map_idI) auto
  then show ?thesis using Some n by (auto simp: add_lineage_def lineage_def list_ex_iff)
qed

lemma allowlisted_keys: "fst ` set (allowlisted_mapping kvs allow) \<subseteq> str_lower ` set allow"
  by (auto simp: allowlisted_mapping_def keys_dict_of intro: rev_image_eqI)

lemma store_response_cases:
  assumes "store_response sha policy fresh run scope dataset result db = Inr db'"
  obtains ts where "to_utc (ValueError ''retrieved_at must be timezone-aware'') (rp_retrieved_at (fe_payload result)) = Inr ts"
    "int (length (rp_body (fe_payload result))) \<le> rs_max_response_bytes policy"
    "db' = db\<lparr>db_raw_responses := db_raw_responses db @ [stored_response sha policy fresh run scope dataset (fe_payload result) ts]\<rparr>"
  using assms by (auto simp: store_response_def add_response_def rbind_eq_Inr rmap_eq_Inr Let_def)

lemma get_or_create_cases:
  assumes "get_or_create_record fresh response path nk cs md db = Inr (r, db')"
  shows "existing_record response path db' = Some r \<and> r \<in> set (db_raw_records db') \<and> rd_response r = response \<and> rd_path r = path \<and>
    same_metadata nk cs md r \<and> (db' = db \<or> db' = db\<lparr>db_raw_records := db_raw_records db @ [r]\<rparr> \<and> existing_record response path db = None)"
proof (cases "existing_record response path db")
  case None
  then have f: "find (\<lambda>r. rd_response r = response \<and> rd_path r = path) (db_raw_records db) = None"
    by (simp add: existing_record_def)
  have "db' = db\<lparr>db_raw_records := db_raw_records db @ [r]\<rparr>" "rd_response r = response" "rd_path r = path"
    "same_metadata nk cs md r"
    using assms None by (auto simp: get_or_create_record_def Let_def rmap_eq_Inr same_metadata_def)
  moreover from this f have "existing_record response path db' = Some r"
    by (auto simp: existing_record_def find_filter filter_empty_conv split: list.splits)
  ultimately show ?thesis using None by simp
next
  case (Some x)
  then have "x = r" "db' = db" "same_metadata nk cs md r" using assms by (auto simp: get_or_create_record_def split: if_splits)
  then show ?thesis using Some by (auto simp: existing_record_def find_Some_iff)
qed

end
