(* ===== verification/Pipeline.thy ===== *)
theory Pipeline
  imports Raw_Data Timelines Run_Lifecycle
begin

text \<open>
  The ingestion pipeline and the worker loop: \<open>app/application/ingestion/orchestrator.py\<close>.  What the
  provider side supplies is a \<open>binding\<close>: the parser, the mapper, the validation and the stable keys; the
  result of the fetch is an argument.  Each record is one transaction; when one raises, the records
  before it stay committed, so a scope returns its result together with the database it leaves.
  Clock readings and the keys of new rows are arguments.  Metrics, logging and the concurrent
  heartbeat task are not modelled.
\<close>

section \<open>Bindings and results\<close>

datatype candidate = FxCandidate fx_candidate | PolicyCandidate policy_candidate

datatype mapped = Mapped candidate | Absent published_absence

record 'r binding =
  bd_request :: fetch_request
  bd_parse :: "raw_payload \<Rightarrow> 'r parsed_record list res"
  bd_map :: "'r \<Rightarrow> source_locator \<Rightarrow> mapped res"
  bd_stable_keys :: "uuid \<Rightarrow> string option"
  bd_validate :: "candidate \<Rightarrow> validation_result res"
  bd_trigger :: "(uuid \<Rightarrow> uuid \<Rightarrow> database \<Rightarrow> database res) option"

record scope_result =
  sr_counters :: counters
  sr_retry_count :: int
  sr_last_http_status :: "int option"

text \<open>The keys the rows of one record draw.\<close>

record record_keys =
  rk_raw :: uuid
  rk_quarantine :: uuid
  rk_observation :: uuid
  rk_version :: uuid

text \<open>\<open>_reason\<close>: the error code of a provider error's context, or the class name.\<close>

fun exn_context :: "exn \<Rightarrow> (string \<times> string) list" where
  "exn_context (TransientProviderError m c) = c"
| "exn_context (PermanentProviderError m c) = c"
| "exn_context (PayloadTooLargeError m c) = c"
| "exn_context (ProviderParseError m c) = c"
| "exn_context (ProviderContractError m c) = c"
| "exn_context _ = []"

definition reason :: "exn \<Rightarrow> string" where
  "reason exc =
     take 100 (str_upper (case map_of (exn_context exc) ''code'' of
       None \<Rightarrow> exn_name exc | Some code \<Rightarrow> (if code = [] then exn_name exc else code)))"

section \<open>One record\<close>

definition bump_quarantined :: "counters \<Rightarrow> counters" where
  "bump_quarantined c = c\<lparr>ct_quarantined := ct_quarantined c + 1\<rparr>"

text \<open>\<open>counts[f"{outcome}_count"] += 1\<close>.\<close>

fun bump :: "candidate_outcome \<Rightarrow> counters \<Rightarrow> counters" where
  "bump OutInserted c = c\<lparr>ct_inserted := ct_inserted c + 1\<rparr>"
| "bump OutUnchanged c = c\<lparr>ct_unchanged := ct_unchanged c + 1\<rparr>"
| "bump OutRevised c = c\<lparr>ct_revised := ct_revised c + 1\<rparr>"
| "bump OutQuarantined c = c\<lparr>ct_quarantined := ct_quarantined c + 1\<rparr>"
| "bump OutFailed c = c\<lparr>ct_failed := ct_failed c + 1\<rparr>"

fun candidate_series :: "candidate \<Rightarrow> uuid" where
  "candidate_series (FxCandidate c) = fc_series_id c"
| "candidate_series (PolicyCandidate c) = pc_series_id c"

fun persist_candidate ::
  "(string \<Rightarrow> string) \<Rightarrow> record_keys \<Rightarrow> candidate \<Rightarrow> validation_result \<Rightarrow> string \<Rightarrow> uuid \<Rightarrow> database \<Rightarrow>
     (persisted_revision \<times> database) res" where
  "persist_candidate sha k (FxCandidate c) v key run db =
     persist_fx sha (rk_observation k) (rk_version k) c v key run db"
| "persist_candidate sha k (PolicyCandidate c) v key run db =
     persist_policy_rate sha (rk_observation k) (rk_version k) c v key run db"

definition issue_codes :: "validation_result \<Rightarrow> string list" where
  "issue_codes v = map (\<lambda>i. validation_code_value (vi_code i)) (vr_issues v)"

definition quarantine_invalid ::
  "record_keys \<Rightarrow> instant \<Rightarrow> uuid \<Rightarrow> uuid \<Rightarrow> uuid \<Rightarrow> string \<Rightarrow> validation_result \<Rightarrow> database \<Rightarrow> database res" where
  "quarantine_invalid k now run scope raw path v db =
     quarantine_add (rk_quarantine k) run scope raw
       (case issue_codes v of [] \<Rightarrow> ''INVALID_RECORD'' | c # _ \<Rightarrow> c) ''validate'' now None
       [(''record_path'', PStr path), (''reason_codes'', PList (map PStr (issue_codes v)))] db"

definition process_record ::
  "(string \<Rightarrow> string) \<Rightarrow> 'r binding \<Rightarrow> uuid \<Rightarrow> uuid \<Rightarrow> uuid \<Rightarrow> instant \<Rightarrow> record_keys \<Rightarrow> 'r parsed_record \<Rightarrow>
     counters \<times> database \<Rightarrow> (counters \<times> database) res" where
  "process_record sha b run scope response now k item = (\<lambda>(counts, db).
     rbind (store_record (rk_raw k) response (pr_record_path item) None (pr_record_checksum item) [] db) (\<lambda>(source, db1).
     rbind (find_raw_record response (pr_record_path item) (db_raw_records db1)) (\<lambda>raw.
     (case bd_map b (pr_value item) source of
        Inl exc \<Rightarrow>
          rmap (Pair (bump_quarantined counts))
            (quarantine_add (rk_quarantine k) run scope raw (reason exc) ''map'' now None
               [(''record_path'', PStr (pr_record_path item))] db1)
      | Inr (Absent a) \<Rightarrow> Inr (counts, db1)
      | Inr (Mapped c) \<Rightarrow>
          rbind (bd_validate b c) (\<lambda>v.
          if vr_state v = StInvalid
          then rmap (Pair (bump_quarantined counts))
                 (quarantine_invalid k now run scope raw (pr_record_path item) v db1)
          else (case bd_stable_keys b (candidate_series c) of
                  None \<Rightarrow> Inl (KeyError (''UUID('' @ repr_str (uuid_str (candidate_series c)) @ '')''))
                | Some key \<Rightarrow>
                    rmap (\<lambda>(r, db2). (bump (rv_outcome r) counts, db2))
                      (persist_candidate sha k c v key run db1)))))))"

text \<open>The loop: a record that raises ends it, and what was committed stays.\<close>

fun process_records ::
  "('x \<Rightarrow> counters \<times> database \<Rightarrow> (counters \<times> database) res) \<Rightarrow> 'x list \<Rightarrow> counters \<times> database \<Rightarrow> counters res \<times> database" where
  "process_records f [] s = (Inr (fst s), snd s)"
| "process_records f (x # xs) s =
     (case f x s of Inl e \<Rightarrow> (Inl e, snd s) | Inr s' \<Rightarrow> process_records f xs s')"

section \<open>One scope\<close>

record run_keys =
  ky_response :: uuid
  ky_records :: "nat \<Rightarrow> record_keys"

definition execute ::
  "(string \<Rightarrow> string) \<Rightarrow> (bytes \<Rightarrow> string) \<Rightarrow> 'r binding \<Rightarrow> fetch_result res \<Rightarrow> ingestion_run \<Rightarrow> ingestion_scope \<Rightarrow> instant \<Rightarrow>
     run_keys \<Rightarrow> database \<Rightarrow> scope_result res \<times> database" where
  "execute sha sha_bytes b fetched run scope now keys db =
     (case fetched of
        Inl e \<Rightarrow> (Inl e, db)
      | Inr fe \<Rightarrow>
          (case store_response sha_bytes default_storage_policy (ky_response keys) (run_id run) (sc_id scope)
                  (run_dataset run) fe db of
             Inl e \<Rightarrow> (Inl e, db)
           | Inr db1 \<Rightarrow>
               (case bd_parse b (fe_payload fe) of
                  Inl e \<Rightarrow> (Inl e, db1)
                | Inr parsed \<Rightarrow>
                    (case process_records (\<lambda>(n, item). process_record sha b (run_id run) (sc_id scope) (ky_response keys) now
                              (ky_records keys n) item)
                            (enumerate 0 parsed) (empty_counts\<lparr>ct_fetched := int (length parsed)\<rparr>, db1) of
                       (Inl e, db2) \<Rightarrow> (Inl e, db2)
                     | (Inr counts, db2) \<Rightarrow>
                         (case (case bd_trigger b of None \<Rightarrow> Inr db2 | Some t \<Rightarrow> t (run_id run) (sc_id scope) db2) of
                            Inl e \<Rightarrow> (Inl e, db2)
                          | Inr db3 \<Rightarrow>
                              (Inr \<lparr>sr_counters = counts, sr_retry_count = max 0 (int (rt_attempts (fe_retry fe)) - 1),
                                    sr_last_http_status = Some (rp_status (fe_payload fe))\<rparr>, db3))))))"

text \<open>The clock readings of one scope, and what the provider delivers for it.\<close>

record readings =
  rd_begin :: datetime
  rd_now :: instant
  rd_end :: datetime
  rd_fail :: datetime
  rd_beat :: datetime

record 'r world =
  wd_binding :: "ingestion_run \<Rightarrow> ingestion_scope \<Rightarrow> database \<Rightarrow> 'r binding res"
  wd_fetch :: "fetch_request \<Rightarrow> fetch_result res"
  wd_keys :: run_keys
  wd_readings :: readings

definition handle_failure :: "datetime \<Rightarrow> uuid \<Rightarrow> exn \<Rightarrow> database \<Rightarrow> unit res \<times> database" where
  "handle_failure now scope e db =
     (case fail_scope now scope (exn_name e) (exn_text e) db of Inl e' \<Rightarrow> (Inl e', db) | Inr db' \<Rightarrow> (Inr (), db'))"

definition run_scope ::
  "(string \<Rightarrow> string) \<Rightarrow> (bytes \<Rightarrow> string) \<Rightarrow> 'r world \<Rightarrow> uuid \<Rightarrow> uuid \<Rightarrow> database \<Rightarrow> scope_result res \<times> database" where
  "run_scope sha sha_bytes w run scope db =
     (case (run_get run db, scope_get scope db) of
        (Some r, Some s) \<Rightarrow>
          (case wd_binding w r s db of
             Inl e \<Rightarrow> (Inl e, db)
           | Inr b \<Rightarrow> execute sha sha_bytes b (wd_fetch w (bd_request b)) r s (rd_now (wd_readings w)) (wd_keys w) db)
      | _ \<Rightarrow> (Inl (AssertionError []), db))"

definition execute_scope ::
  "(string \<Rightarrow> string) \<Rightarrow> (bytes \<Rightarrow> string) \<Rightarrow> 'r world \<Rightarrow> uuid \<Rightarrow> uuid \<Rightarrow> database \<Rightarrow> unit res \<times> database" where
  "execute_scope sha sha_bytes w run scope db =
     (case begin_scope (rd_begin (wd_readings w)) run scope db of
        Inl e \<Rightarrow> handle_failure (rd_fail (wd_readings w)) scope e db
      | Inr (False, db1) \<Rightarrow> (Inr (), db1)
      | Inr (True, db1) \<Rightarrow>
          (case run_scope sha sha_bytes w run scope db1 of
             (Inl e, db2) \<Rightarrow> handle_failure (rd_fail (wd_readings w)) scope e db2
           | (Inr result, db2) \<Rightarrow>
               (case scope_complete scope ''succeeded'' (rd_end (wd_readings w)) (sr_counters result)
                       \<lparr>cp_error_code = None, cp_error_details = None, cp_retry_count = sr_retry_count result,
                         cp_http_status = sr_last_http_status result\<rparr> db2 of
                  Inl e \<Rightarrow> handle_failure (rd_fail (wd_readings w)) scope e db2
                | Inr db3 \<Rightarrow> (Inr (), db3))))"

section \<open>One run\<close>

fun execute_scopes ::
  "(string \<Rightarrow> string) \<Rightarrow> (bytes \<Rightarrow> string) \<Rightarrow> (uuid \<Rightarrow> 'r world) \<Rightarrow> uuid \<Rightarrow> uuid list \<Rightarrow> database \<Rightarrow> unit res \<times> database" where
  "execute_scopes sha sha_bytes w run [] db = (Inr (), db)"
| "execute_scopes sha sha_bytes w run (s # ss) db =
     (case execute_scope sha sha_bytes (w s) run s db of
        (Inl e, db1) \<Rightarrow> (Inl e, db1)
      | (Inr u, db1) \<Rightarrow>
          (case heartbeat run (rd_beat (wd_readings (w s))) db1 of
             Inl e \<Rightarrow> (Inl e, db1)
           | Inr db2 \<Rightarrow> execute_scopes sha sha_bytes w run ss db2))"

definition run_next ::
  "(string \<Rightarrow> string) \<Rightarrow> (bytes \<Rightarrow> string) \<Rightarrow> (uuid \<Rightarrow> 'r world) \<Rightarrow> datetime \<Rightarrow> datetime \<Rightarrow> datetime \<Rightarrow> database \<Rightarrow>
     uuid option res \<times> database" where
  "run_next sha sha_bytes w claim_at beat_at finish_at db =
     (case claim_next claim_at db of
        Inl e \<Rightarrow> (Inl e, db)
      | Inr (None, db1) \<Rightarrow> (Inr None, db1)
      | Inr (Some i, db1) \<Rightarrow>
          (case heartbeat i beat_at db1 of
             Inl e \<Rightarrow> (Inl e, db1)
           | Inr db2 \<Rightarrow>
               (case execute_scopes sha sha_bytes w i (map sc_id (list_for_run i db2)) db2 of
                  (Inl e, db3) \<Rightarrow> (Inl e, db3)
                | (Inr u, db3) \<Rightarrow>
                    (case finish_run finish_at i db3 of
                       Inl e \<Rightarrow> (Inl e, db3)
                     | Inr db4 \<Rightarrow> (Inr (Some i), db4)))))"

section \<open>What a record changes\<close>

definition version_count :: "database \<Rightarrow> nat" where
  "version_count db = length (ot_versions (db_fx db)) + length (ot_versions (db_policy db))"

definition handled :: "counters \<Rightarrow> int" where
  "handled c = ct_inserted c + ct_unchanged c + ct_revised c + ct_quarantined c"

definition content_ok :: "database \<Rightarrow> bool" where
  "content_ok db \<longleftrightarrow> timelines_ok (db_fx db) \<and> timelines_ok (db_policy db)"

text \<open>The bookkeeping of \<open>n\<close> records: what they count is what they store.\<close>

definition books :: "nat \<Rightarrow> counters \<times> database \<Rightarrow> counters \<times> database \<Rightarrow> bool" where
  "books n s s' \<longleftrightarrow> (case (s, s') of ((c, db), (c', db')) \<Rightarrow>
     db_runs db' = db_runs db \<and> db_scopes db' = db_scopes db \<and> db_raw_responses db' = db_raw_responses db \<and>
     ct_fetched c' = ct_fetched c \<and> ct_failed c' = ct_failed c \<and> (counters_ok c \<longrightarrow> counters_ok c') \<and>
     handled c \<le> handled c' \<and> handled c' \<le> handled c + int n \<and>
     ct_quarantined c' + int (length (db_quarantine db)) = ct_quarantined c + int (length (db_quarantine db')) \<and>
     ct_inserted c' + ct_revised c' + int (version_count db) = ct_inserted c + ct_revised c + int (version_count db') \<and>
     (content_ok db \<longrightarrow> content_ok db'))"

lemma books_refl: "books 0 s s"
  by (cases s) (simp add: books_def)

lemma books_mono: "books m s t \<Longrightarrow> m \<le> n \<Longrightarrow> books n s t"
  by (auto simp: books_def)

lemma books_trans: "books m s t \<Longrightarrow> books n t u \<Longrightarrow> books (m + n) s u"
  by (auto simp: books_def)

lemma store_record_cases:
  assumes "store_record fresh response path nk cs md db = Inr (source, db')"
  obtains "db' = db" | r where "db' = db\<lparr>db_raw_records := db_raw_records db @ [r]\<rparr>"
  using assms get_or_create_cases by (auto simp: store_record_def rbind_eq_Inr rmap_eq_Inr) blast

lemma quarantine_add_cases:
  "quarantine_add fresh run scope raw code stage now nk details db = Inr db' \<Longrightarrow>
     \<exists>q. db' = db\<lparr>db_quarantine := db_quarantine db @ [q]\<rparr>"
  by (auto simp: quarantine_add_def rmap_eq_Inr Let_def)

lemma persist_in_count:
  assumes "persist_in what p checks fo fv sid d fp raw ts run cols t = Inr (r, t')"
  shows "rv_outcome r \<in> {OutInserted, OutRevised} \<and> length (ot_versions t') = Suc (length (ot_versions t)) \<or>
    rv_outcome r = OutUnchanged \<and> length (ot_versions t') = length (ot_versions t)"
proof -
  obtain o1 t1 fp' raw' v out t2 where 1: "lock_or_create what fo sid d t = Inr (o1, t1)"
    "apply_revision p checks fv o1 (lock_version (ob_current o1) (ot_versions t1)) fp' ts (cols raw') t1 = Inr (v, out, t2)"
    "rv_outcome r = out" "ot_versions t' = ot_versions t2"
    using assms by (auto simp: persist_in_def rbind_eq_Inr)
  have "ot_versions t1 = ot_versions t"
    using 1(1) by (auto simp: lock_or_create_def rbind_eq_Inr rmap_eq_Inr split: option.splits if_splits)
  then show ?thesis
    using 1(2-4) by (auto simp: apply_revision_def rmap_eq_Inr Let_def split: option.splits if_splits)
qed

lemma persist_books:
  assumes "persist_candidate sha k c v key run db = Inr (r, db')"
  shows "books 1 (n, db) (bump (rv_outcome r) n, db')"
proof (cases c)
  case (FxCandidate f)
  then have pe: "persist_fx sha (rk_observation k) (rk_version k) f v key run db = Inr (r, db')" using assms by simp
  show ?thesis
  proof (cases rule: persist_fx_cases [OF pe])
    case (1 t)
    have "content_ok db \<Longrightarrow> content_ok db'" using persist_in_ok [OF _ 1(3)] 1(2) by (simp add: content_ok_def)
    then show ?thesis
      using persist_in_count [OF 1(3)] 1(2) by (auto simp: books_def handled_def version_count_def counters_ok_def)
  qed
next
  case (PolicyCandidate f)
  then have pe: "persist_policy_rate sha (rk_observation k) (rk_version k) f v key run db = Inr (r, db')" using assms by simp
  show ?thesis
  proof (cases rule: persist_policy_cases [OF pe])
    case (1 t)
    have "content_ok db \<Longrightarrow> content_ok db'" using persist_in_ok [OF _ 1(3)] 1(2) by (simp add: content_ok_def)
    then show ?thesis
      using persist_in_count [OF 1(3)] 1(2) by (auto simp: books_def handled_def version_count_def counters_ok_def)
  qed
qed

lemma quarantine_books:
  "quarantine_add fresh run scope raw code stage now nk details db = Inr db' \<Longrightarrow> books 1 (n, db) (bump_quarantined n, db')"
  by (auto dest!: quarantine_add_cases simp: books_def bump_quarantined_def handled_def version_count_def content_ok_def
      counters_ok_def)

lemma process_record_books:
  assumes "process_record sha b run scope response now k item (c, db) = Inr (c', db')"
  shows "books 1 (c, db) (c', db')"
proof -
  obtain source db1 where s: "store_record (rk_raw k) response (pr_record_path item) None (pr_record_checksum item) [] db = Inr (source, db1)"
    using assms by (auto simp: process_record_def rbind_eq_Inr)
  have 0: "books 0 (c, db) (c, db1)"
    using s by (cases rule: store_record_cases [OF s]) (auto simp: books_def version_count_def content_ok_def)
  moreover have "books 1 (c, db1) (c', db')"
  proof (cases "bd_map b (pr_value item) source")
    case (Inl exc)
    then show ?thesis
      using assms s by (auto simp: process_record_def rbind_eq_Inr rmap_eq_Inr simp del: One_nat_def intro: quarantine_books)
  next
    case (Inr m)
    show ?thesis
    proof (cases m)
      case (Absent a)
      then show ?thesis
        using assms s Inr books_mono [OF books_refl, of 1 "(c, db1)"] by (auto simp: process_record_def rbind_eq_Inr)
    next
      case (Mapped cand)
      then show ?thesis
        using assms s Inr
        by (auto simp: process_record_def rbind_eq_Inr rmap_eq_Inr quarantine_invalid_def simp del: One_nat_def
            split: if_splits option.splits intro: persist_books quarantine_books)
    qed
  qed
  ultimately show ?thesis using books_trans [of 0 _ _ 1] by simp
qed

lemma process_records_books:
  assumes "\<And>x c db c' db'. f x (c, db) = Inr (c', db') \<Longrightarrow> books 1 (c, db) (c', db')"
    and "process_records f xs (c, db) = (res, db')"
  shows "\<exists>c'. books (length xs) (c, db) (c', db') \<and> (\<forall>n. res = Inr n \<longrightarrow> n = c')"
  using assms(2)
proof (induction xs arbitrary: c db)
  case Nil
  then show ?case using books_refl by (auto intro!: exI [of _ c])
next
  case (Cons x xs)
  show ?case
  proof (cases "f x (c, db)")
    case (Inl e)
    then show ?thesis using Cons.prems books_mono [OF books_refl, of "length (x # xs)" "(c, db)"] by auto
  next
    case (Inr s')
    obtain c1 db1 where s': "s' = (c1, db1)" by (cases s')
    obtain c' where "books (length xs) (c1, db1) (c', db')" "\<forall>n. res = Inr n \<longrightarrow> n = c'"
      using Cons.IH [of c1 db1] Cons.prems Inr s' by auto
    moreover have "books 1 (c, db) (c1, db1)" using assms(1) Inr s' by blast
    ultimately have "books (1 + length xs) (c, db) (c', db') \<and> (\<forall>n. res = Inr n \<longrightarrow> n = c')" using books_trans by blast
    then show ?thesis by (intro exI [of _ c']) simp
  qed
qed

section \<open>What a scope changes\<close>

text \<open>The runtime bindings set no quality trigger.\<close>

definition untriggered :: "'r world \<Rightarrow> bool" where
  "untriggered w \<longleftrightarrow> (\<forall>r s db b. wd_binding w r s db = Inr b \<longrightarrow> bd_trigger b = None)"

lemma execute_effect:
  assumes "execute sha sha_bytes b fetched run scope now keys db = (res, db')" "bd_trigger b = None"
  shows "db_runs db' = db_runs db \<and> db_scopes db' = db_scopes db \<and> (content_ok db \<longrightarrow> content_ok db') \<and>
    (\<forall>r. res = Inr r \<longrightarrow> counters_ok (sr_counters r) \<and> 0 \<le> sr_retry_count r)"
proof -
  have stored: "db_runs d = db_runs db \<and> db_scopes d = db_scopes db \<and> content_ok d = content_ok db"
    if "store_response sha_bytes default_storage_policy k i s ds fe db = Inr d" for k i s ds fe d
    using that by (auto elim!: store_response_cases simp: content_ok_def)
  have zero: "counters_ok (empty_counts\<lparr>ct_fetched := int n\<rparr>)" for n by (simp add: counters_ok_def empty_counts_def)
  have loop: "db_runs d' = db_runs d \<and> db_scopes d' = db_scopes d \<and> (content_ok d \<longrightarrow> content_ok d') \<and>
      (\<forall>n. out = Inr n \<longrightarrow> counters_ok n)"
    if "process_records (\<lambda>(n, item). process_record sha b i s rsp now (kf n) item) xs (empty_counts\<lparr>ct_fetched := int m\<rparr>, d) = (out, d')"
    for i s rsp kf xs m d out d'
    using process_records_books [OF _ that] process_record_books zero [of m] by (fastforce simp: books_def)
  show ?thesis
    using assms stored loop by (fastforce simp: execute_def split: sum.splits prod.splits)
qed

lemma run_scope_effect:
  assumes "run_scope sha sha_bytes w run scope db = (res, db')" "untriggered w"
  shows "db_runs db' = db_runs db \<and> db_scopes db' = db_scopes db \<and> (content_ok db \<longrightarrow> content_ok db') \<and>
    (\<forall>r. res = Inr r \<longrightarrow> counters_ok (sr_counters r) \<and> 0 \<le> sr_retry_count r)"
proof (cases "run_get run db = None \<or> scope_get scope db = None")
  case True
  then show ?thesis using assms(1) by (auto simp: run_scope_def split: option.splits)
next
  case False
  then obtain r s where rs: "run_get run db = Some r" "scope_get scope db = Some s" by auto
  show ?thesis
  proof (cases "wd_binding w r s db")
    case (Inl e)
    then show ?thesis using assms(1) rs by (auto simp: run_scope_def)
  next
    case (Inr b)
    then have "bd_trigger b = None" using assms(2) by (auto simp: untriggered_def)
    moreover have "execute sha sha_bytes b (wd_fetch w (bd_request b)) r s (rd_now (wd_readings w)) (wd_keys w) db = (res, db')"
      using assms(1) rs Inr by (simp add: run_scope_def)
    ultimately show ?thesis using execute_effect by blast
  qed
qed

text \<open>
  \<open>keeps\<close>: at most the scope changes, and the invariants stay; \<open>closes\<close>: afterwards it is not active
  either.
\<close>

definition places :: "database \<Rightarrow> (uuid \<times> uuid) list" where
  "places db = map (\<lambda>s. (sc_id s, sc_run s)) (db_scopes db)"

definition keeps :: "uuid \<Rightarrow> database \<Rightarrow> database \<Rightarrow> bool" where
  "keeps scope db db' \<longleftrightarrow> ledger_ok db' \<and> db_runs db' = db_runs db \<and> places db' = places db \<and> (content_ok db \<longrightarrow> content_ok db') \<and>
     (\<forall>y\<in>set (db_scopes db'). is_active y \<longrightarrow> y \<in> set (db_scopes db) \<or> sc_id y = scope)"

definition closes :: "uuid \<Rightarrow> database \<Rightarrow> database \<Rightarrow> bool" where
  "closes scope db db' \<longleftrightarrow> ledger_ok db' \<and> db_runs db' = db_runs db \<and> places db' = places db \<and> (content_ok db \<longrightarrow> content_ok db') \<and>
     (\<forall>y\<in>set (db_scopes db'). is_active y \<longrightarrow> y \<in> set (db_scopes db) \<and> sc_id y \<noteq> scope)"

lemma keeps_closes: "keeps s a b \<Longrightarrow> closes s b c \<Longrightarrow> closes s a c"
  unfolding keeps_def closes_def by (metis (full_types))

lemma keeps_trans: "keeps s a b \<Longrightarrow> keeps s b c \<Longrightarrow> keeps s a c"
  unfolding keeps_def by (metis (full_types))

lemma ledger_ok_cong: "db_runs db' = db_runs db \<Longrightarrow> db_scopes db' = db_scopes db \<Longrightarrow> ledger_ok db' = ledger_ok db"
  by (simp add: ledger_ok_def ingestion_checks_def exclusive_def closed_run_def scope_totals_def scopes_of_def)

lemma update_scope_content [simp]:
  "content_ok (update_scope i f db) = content_ok db" "db_runs (update_scope i f db) = db_runs db"
  by (simp_all add: update_scope_def content_ok_def)

lemma places_update_scope:
  "(\<And>x. sc_id (f x) = sc_id x \<and> sc_run (f x) = sc_run x) \<Longrightarrow> places (update_scope i f db) = places db"
  by (simp add: places_def update_scope_def map_update_where)

lemma scope_complete_closes:
  assumes ok: "ledger_ok db" and c: "scope_complete i st now counts extra db = Inr db'"
  shows "closes i db db'"
proof (cases rule: scope_complete_cases [OF c])
  case (1 s ts)
  then obtain f where db': "db' = update_scope i f db" "\<And>x. sc_status (f x) = st" "\<And>x. sc_id (f x) = sc_id x"
      "\<And>x. sc_run (f x) = sc_run x"
    by (auto simp: flush_ingestion_ok)
  have "y \<in> set (db_scopes db) \<and> sc_id y \<noteq> i" if y: "y \<in> set (db_scopes db')" "is_active y" for y
  proof -
    have "\<not> is_active (f x)" for x using 1(5) db'(2) by (auto simp: is_active_def active_scope_statuses_def)
    then show ?thesis
      using y db'(3) by (auto simp: db'(1) update_scope_def set_update_where split: if_splits) metis
  qed
  then show ?thesis using scope_complete_inv [OF ok c] places_update_scope [of f i db] db'(3,4) by (simp add: closes_def db'(1))
qed

lemma fail_scope_closes:
  assumes ok: "ledger_ok db" and now: "run_utc now = Inr ts"
  shows "\<exists>db'. handle_failure now scope e db = (Inr (), db') \<and> closes scope db db'"
proof (cases "scope_get scope db")
  case None
  then have "\<forall>y\<in>set (db_scopes db). sc_id y \<noteq> scope" by (auto simp: scope_get_def find_None_iff)
  then show ?thesis using None ok by (simp add: handle_failure_def fail_scope_def closes_def)
next
  case (Some s)
  note s = scope_getD [OF Some]
  show ?thesis
  proof (cases "is_active s")
    case True
    have "counters_ok (empty_counts\<lparr>ct_failed := 1\<rparr>)" by (simp add: counters_ok_def empty_counts_def)
    then obtain f where "scope_complete scope ''failed'' now (empty_counts\<lparr>ct_failed := 1\<rparr>)
        \<lparr>cp_error_code = Some (take 100 (exn_name e)), cp_error_details = Some [(''message'', PStr (take 500 (exn_text e)))],
         cp_retry_count = 0, cp_http_status = None\<rparr> db = Inr (update_scope scope f db)"
      using scope_complete_succeeds [OF ok, of s "''failed''" "empty_counts\<lparr>ct_failed := 1\<rparr>" now ts
          "\<lparr>cp_error_code = Some (take 100 (exn_name e)), cp_error_details = Some [(''message'', PStr (take 500 (exn_text e)))],
         cp_retry_count = 0, cp_http_status = None\<rparr>"] s True now by auto
    then show ?thesis
      using scope_complete_closes [OF ok] Some True by (auto simp: handle_failure_def fail_scope_def is_active_def)
  next
    case False
    have "sc_id y \<noteq> scope" if "y \<in> set (db_scopes db)" "is_active y" for y
      using unique_scope [OF ok that(1) conjunct1 [OF s]] s that(2) False by auto
    then show ?thesis using Some False ok by (auto simp: handle_failure_def fail_scope_def is_active_def closes_def)
  qed
qed

lemma begin_scope_cases:
  assumes ok: "ledger_ok db" and own: "\<And>s. scope_get scope db = Some s \<Longrightarrow> sc_run s = run"
    and b: "begin_scope now run scope db = Inr (acquired, db')"
  shows "if acquired then keeps scope db db' else closes scope db db'"
proof -
  obtain s r where s: "scope_get scope db = Some s" and r: "run_get run db = Some r"
    using b by (auto simp: begin_scope_def split: option.splits)
  note sd = scope_getD [OF s]
  have inv: "ledger_ok db'" by (rule begin_scope_inv [OF ok b]) (rule own)
  show ?thesis
  proof (cases acquired)
    case True
    then have "scope_start scope now db = Inr db'"
      using b s r sd by (auto simp: begin_scope_def rbind_eq_Inr rmap_eq_Inr split: if_splits)
    then obtain f where db': "db' = update_scope scope f db" "\<And>x. sc_id (f x) = sc_id x" "\<And>x. sc_run (f x) = sc_run x"
      by (auto simp: scope_start_def rbind_eq_Inr flush_ingestion_ok split: option.splits if_splits)
    then show ?thesis
      using True inv places_update_scope [of f scope db]
      by (auto simp: keeps_def) (auto simp: update_scope_def set_update_where split: if_splits)
  next
    case False
    then show ?thesis
      using b s r sd scope_complete_closes [OF ok]
      by (auto simp: begin_scope_def rbind_eq_Inr rmap_eq_Inr split: if_splits)
  qed
qed

lemma execute_scope_closes:
  assumes ok: "ledger_ok db" and own: "\<And>s. scope_get scope db = Some s \<Longrightarrow> sc_run s = run"
    and now: "run_utc (rd_fail (wd_readings w)) = Inr ts" and w: "untriggered w"
  shows "\<exists>db'. execute_scope sha sha_bytes w run scope db = (Inr (), db') \<and> closes scope db db'"
proof (cases "begin_scope (rd_begin (wd_readings w)) run scope db")
  case (Inl e)
  then show ?thesis using fail_scope_closes [OF ok now, of scope e] by (simp add: execute_scope_def)
next
  case (Inr p)
  obtain acquired db1 where p: "p = (acquired, db1)" by (cases p)
  note b = begin_scope_cases [OF ok own Inr [unfolded p]]
  show ?thesis
  proof (cases acquired)
    case False
    then show ?thesis using b Inr p by (simp add: execute_scope_def)
  next
    case True
    then have k1: "keeps scope db db1" using b by simp
    obtain res db2 where 2: "run_scope sha sha_bytes w run scope db1 = (res, db2)" by fastforce
    note eff = run_scope_effect [OF 2 w]
    have ok2: "ledger_ok db2" using k1 eff ledger_ok_cong [of db2 db1] by (simp add: keeps_def)
    then have "keeps scope db1 db2" using eff by (simp add: keeps_def places_def)
    then have k2: "keeps scope db db2" using k1 keeps_trans by blast
    have handled: "\<exists>db'. handle_failure (rd_fail (wd_readings w)) scope e db2 = (Inr (), db') \<and> closes scope db db'" for e
      using fail_scope_closes [OF ok2 now, of scope e] keeps_closes [OF k2] by blast
    show ?thesis
    proof (cases res)
      case (Inl e)
      then show ?thesis using handled [of e] Inr p True 2 by (simp add: execute_scope_def)
    next
      case res: (Inr r)
      let ?c = "scope_complete scope ''succeeded'' (rd_end (wd_readings w)) (sr_counters r)
          \<lparr>cp_error_code = None, cp_error_details = None, cp_retry_count = sr_retry_count r,
           cp_http_status = sr_last_http_status r\<rparr> db2"
      show ?thesis
      proof (cases ?c)
        case (Inl e)
        then show ?thesis using handled [of e] Inr p True 2 res by (simp add: execute_scope_def)
      next
        case c: (Inr db3)
        then show ?thesis
          using keeps_closes [OF k2 scope_complete_closes [OF ok2 c]] Inr p True 2 res by (simp add: execute_scope_def)
      qed
    qed
  qed
qed

section \<open>What a run changes\<close>

lemma run_get_update:
  assumes "\<And>x. run_id (f x) = run_id x"
  shows "run_get i (update_run i f db) = map_option f (run_get i db)"
proof -
  have "find (\<lambda>r. run_id r = i) (update_where (\<lambda>r. run_id r = i) f xs) = map_option f (find (\<lambda>r. run_id r = i) xs)" for xs
    by (induction xs) (auto simp: assms)
  then show ?thesis by (simp add: run_get_def update_run_def)
qed

lemma heartbeat_succeeds:
  assumes ok: "ledger_ok db" and r: "run_get i db = Some r" "run_status r = ''running''" and now: "run_utc now = Inr ts"
  shows "\<exists>db' r'. heartbeat i now db = Inr db' \<and> ledger_ok db' \<and> db_scopes db' = db_scopes db \<and>
    content_ok db' = content_ok db \<and> run_get i db' = Some r' \<and> run_status r' = ''running''"
proof -
  let ?f = "\<lambda>x. x\<lparr>run_heartbeat_at := Some ts\<rparr>"
  have run: "running_run i db = Inr r" using r by (simp add: running_run_def)
  note rd = running_runD [OF run]
  have "all_hold (ingestion_run_checks r)" using ingestion_checksD(1) [OF ledger_okD(1) [OF ok]] rd by blast
  then have "all_hold (ingestion_run_checks (?f r))" using rd by (simp add: ingestion_run_checks_def lifecycle_ok_def)
  then have "flush_ingestion (update_run (run_id r) ?f db) = Inr (update_run (run_id r) ?f db)"
    by (intro update_run_flush [OF ok]) (use rd in auto)
  then have h: "heartbeat i now db = Inr (update_run i ?f db)" using rd now run by (simp add: heartbeat_def)
  moreover have "run_get i (update_run i ?f db) = Some (?f r)"
    using r(1) by (simp add: run_get_update)
  moreover have "content_ok (update_run i ?f db) = content_ok db" "db_scopes (update_run i ?f db) = db_scopes db"
    by (simp_all add: update_run_def content_ok_def)
  ultimately show ?thesis
    using heartbeat_inv [OF ok h] r(2) by (intro exI [of _ "update_run i ?f db"] exI [of _ "?f r"] conjI) simp_all
qed

lemma owned:
  assumes "\<forall>p\<in>set (places db). fst p \<in> set ids \<longrightarrow> snd p = i" "s \<in> set ids" "scope_get s db = Some x"
  shows "sc_run x = i"
  using assms scope_getD [OF assms(3)] by (force simp: places_def)

lemma execute_scopes_closes:
  assumes "ledger_ok db" "run_get i db = Some r" "run_status r = ''running''"
    "\<forall>p\<in>set (places db). fst p \<in> set ids \<longrightarrow> snd p = i"
    "\<And>s. \<exists>ts. run_utc (rd_fail (wd_readings (w s))) = Inr ts" "\<And>s. \<exists>ts. run_utc (rd_beat (wd_readings (w s))) = Inr ts"
    "\<And>s. untriggered (w s)"
  shows "\<exists>db' r'. execute_scopes sha sha_bytes w i ids db = (Inr (), db') \<and> ledger_ok db' \<and>
    (content_ok db \<longrightarrow> content_ok db') \<and> run_get i db' = Some r' \<and> run_status r' = ''running'' \<and>
    (\<forall>y\<in>set (db_scopes db'). is_active y \<longrightarrow> y \<in> set (db_scopes db) \<and> sc_id y \<notin> set ids)"
  using assms(1-4)
proof (induction ids arbitrary: db r)
  case (Cons s ids)
  obtain ts ts' where clocks: "run_utc (rd_fail (wd_readings (w s))) = Inr ts" "run_utc (rd_beat (wd_readings (w s))) = Inr ts'"
    using assms(5,6) by blast
  have own: "sc_run x = i" if "scope_get s db = Some x" for x by (rule owned [OF Cons.prems(4) _ that]) simp
  obtain db1 where 1: "execute_scope sha sha_bytes (w s) i s db = (Inr (), db1)" "closes s db db1"
    using execute_scope_closes [OF Cons.prems(1) own clocks(1) assms(7)] by blast
  have r1: "ledger_ok db1" "run_get i db1 = Some r" "places db1 = places db"
    using 1(2) Cons.prems(2) by (simp_all add: closes_def run_get_def)
  obtain db2 r2 where 2: "heartbeat i (rd_beat (wd_readings (w s))) db1 = Inr db2" "ledger_ok db2"
    "db_scopes db2 = db_scopes db1" "content_ok db2 = content_ok db1" "run_get i db2 = Some r2" "run_status r2 = ''running''"
    using heartbeat_succeeds [OF r1(1,2) Cons.prems(3) clocks(2)] by blast
  have "\<forall>p\<in>set (places db2). fst p \<in> set ids \<longrightarrow> snd p = i"
    using Cons.prems(4) r1(3) 2(3) by (simp add: places_def)
  from Cons.IH [OF 2(2,5,6) this] obtain db' r' where 3: "execute_scopes sha sha_bytes w i ids db2 = (Inr (), db')"
    "ledger_ok db'" "content_ok db2 \<longrightarrow> content_ok db'" "run_get i db' = Some r'" "run_status r' = ''running''"
    "\<forall>y\<in>set (db_scopes db'). is_active y \<longrightarrow> y \<in> set (db_scopes db2) \<and> sc_id y \<notin> set ids" by blast
  have "\<forall>y\<in>set (db_scopes db'). is_active y \<longrightarrow> y \<in> set (db_scopes db) \<and> sc_id y \<notin> set (s # ids)"
    using 3(6) 1(2) unfolding 2(3) closes_def by auto
  moreover have "content_ok db \<longrightarrow> content_ok db'" using 1(2) 2(4) 3(3) by (simp add: closes_def)
  ultimately show ?case using 1(1) 2(1) 3(1,2,4,5) by (intro exI [of _ db'] exI [of _ r']) simp
qed auto

lemma claim_next_run:
  assumes ok: "ledger_ok db" and c: "claim_next now db = Inr (Some i, db1)"
  shows "ledger_ok db1 \<and> content_ok db1 = content_ok db \<and> (\<exists>r. run_get i db1 = Some r \<and> run_status r = ''running'')"
proof -
  obtain x ts where x: "next_pending db = Some x" "run_id x = i"
    "db1 = update_run i (\<lambda>x. x\<lparr>run_status := ''running'', run_started_at := Some ts, run_heartbeat_at := Some ts\<rparr>) db"
    using c by (auto simp: claim_next_def rmap_eq_Inr rbind_eq_Inr flush_ingestion_ok split: option.splits)
  have "run_get i db = Some x"
    using find_by_id [OF ingestion_checksD(3) [OF ledger_okD(1) [OF ok]]] next_pendingD [OF x(1)] x(2) by (auto simp: run_get_def)
  then have "run_get i db1 = Some (x\<lparr>run_status := ''running'', run_started_at := Some ts, run_heartbeat_at := Some ts\<rparr>)"
    by (simp add: x(3) run_get_update)
  then show ?thesis using claim_next_inv [OF ok c] x(3) by (simp add: content_ok_def update_run_def)
qed

lemma finish_run_terminal:
  assumes ok: "ledger_ok db" and f: "finish_run now i db = Inr db'"
  shows "content_ok db' = content_ok db \<and> (\<exists>r. run_get i db' = Some r \<and> is_terminal r)"
proof -
  obtain st ts r where 1: "st \<in> set terminal_run_statuses" "running_run i db = Inr r"
    "db' = update_run i (\<lambda>x. x\<lparr>run_counts := scope_totals i db, run_status := st, run_finished_at := Some ts,
       run_heartbeat_at := Some ts, run_error_code := None, run_error_summary := sanitize None\<rparr>) db"
    using f by (auto simp: finish_run_def run_finalize_def rbind_eq_Inr flush_ingestion_ok)
  have "run_get i db = Some r" using 1(2) by (auto simp: running_run_def split: option.splits if_splits)
  then show ?thesis
    using 1(1) by (simp add: 1(3) run_get_update is_terminal_def) (simp add: content_ok_def update_run_def)
qed

lemma run_next_terminal:
  assumes "ledger_ok db" "claim_next claim_at db = Inr (Some i, db1)"
    "run_utc beat_at = Inr t1" "run_utc finish_at = Inr t2"
    "\<And>s. \<exists>ts. run_utc (rd_fail (wd_readings (w s))) = Inr ts" "\<And>s. \<exists>ts. run_utc (rd_beat (wd_readings (w s))) = Inr ts"
    "\<And>s. untriggered (w s)"
  shows "\<exists>db' r. run_next sha sha_bytes w claim_at beat_at finish_at db = (Inr (Some i), db') \<and> run_get i db' = Some r \<and>
    is_terminal r \<and> closed_run db' r \<and> ledger_ok db' \<and> (content_ok db \<longrightarrow> content_ok db')"
proof -
  note c = claim_next_run [OF assms(1,2)]
  obtain db2 r2 where 2: "heartbeat i beat_at db1 = Inr db2" "ledger_ok db2" "content_ok db2 = content_ok db1"
    "run_get i db2 = Some r2" "run_status r2 = ''running''"
    using heartbeat_succeeds [of db1 i _ beat_at t1] c assms(3) by blast
  let ?ids = "map sc_id (list_for_run i db2)"
  have "snd p = i" if p: "p \<in> set (places db2)" "fst p \<in> set ?ids" for p
  proof -
    obtain s x where "s \<in> set (db_scopes db2)" "p = (sc_id s, sc_run s)" "x \<in> set (db_scopes db2)" "sc_run x = i" "sc_id x = sc_id s"
      using p by (auto simp: places_def list_for_run_def scopes_of_def)
    then show ?thesis using unique_scope [OF 2(2)] by fastforce
  qed
  then obtain db3 r3 where 3: "execute_scopes sha sha_bytes w i ?ids db2 = (Inr (), db3)" "ledger_ok db3"
    "content_ok db2 \<longrightarrow> content_ok db3" "run_get i db3 = Some r3" "run_status r3 = ''running''"
    "\<forall>y\<in>set (db_scopes db3). is_active y \<longrightarrow> y \<in> set (db_scopes db2) \<and> sc_id y \<notin> set ?ids"
    using execute_scopes_closes [where w = w and ids = ?ids, OF 2(2,4,5) _ assms(5-7)] by blast
  have "\<forall>s\<in>set (scopes_of i db3). \<not> is_active s"
    using 3(6) by (auto simp: scopes_of_def list_for_run_def)
  then obtain db4 where 4: "finish_run finish_at i db3 = Inr db4"
    using finish_run_succeeds [OF 3(2,4,5) _ assms(4)] by (auto simp: is_ok_iff)
  obtain r4 where r4: "run_get i db4 = Some r4" "is_terminal r4" "content_ok db4 = content_ok db3"
    using finish_run_terminal [OF 3(2) 4] by blast
  have ok4: "ledger_ok db4" by (rule finish_run_inv [OF 3(2) 4])
  then have "closed_run db4 r4" using ledger_okD(3) r4(2) run_getD [OF r4(1)] by blast
  then show ?thesis
    using r4 ok4 assms(2) 2(1,3) 3(1,3) 4 c by (intro exI [of _ db4] exI [of _ r4]) (simp add: run_next_def)
qed

section \<open>Properties\<close>

text \<open>
  C1. The worker always finishes what it claims: whatever the fetch, the parser, the mapper, the
  validation or the tables do, the run the worker claims ends in a terminal state with its scopes
  closed and counted, and the ledger and the version timelines stay well formed.
\<close>

theorem run_next_completes:
  assumes "ledger_ok db" "claim_next claim_at db = Inr (Some i, db1)"
    "run_utc beat_at = Inr t1" "run_utc finish_at = Inr t2"
    "\<And>s. \<exists>ts. run_utc (rd_fail (wd_readings (w s))) = Inr ts" "\<And>s. \<exists>ts. run_utc (rd_beat (wd_readings (w s))) = Inr ts"
    "\<And>s. untriggered (w s)"
  shows "\<exists>db' r. run_next sha sha_bytes w claim_at beat_at finish_at db = (Inr (Some i), db') \<and> run_get i db' = Some r \<and>
    is_terminal r \<and> closed_run db' r \<and> ledger_ok db' \<and> (content_ok db \<longrightarrow> content_ok db')"
  using assms by (rule run_next_terminal)

text \<open>
  C4. The books of a scope balance: it counts every parsed record as fetched and none as failed,
  never handles more records than it fetched, and its counters are what it stored: as many quarantined
  rows as it counts, and one new version for each inserted or revised record.
\<close>

theorem scope_books_balance:
  assumes "execute sha sha_bytes b (Inr fe) run scope now keys db = (Inr r, db')" "bd_trigger b = None"
    "bd_parse b (fe_payload fe) = Inr parsed"
  shows "ct_fetched (sr_counters r) = int (length parsed) \<and> ct_failed (sr_counters r) = 0 \<and>
    handled (sr_counters r) \<le> ct_fetched (sr_counters r) \<and>
    int (length (db_quarantine db')) = int (length (db_quarantine db)) + ct_quarantined (sr_counters r) \<and>
    int (version_count db') = int (version_count db) + ct_inserted (sr_counters r) + ct_revised (sr_counters r)"
proof -
  let ?zero = "empty_counts\<lparr>ct_fetched := int (length parsed)\<rparr>"
  obtain db1 where 1: "store_response sha_bytes default_storage_policy (ky_response keys) (run_id run) (sc_id scope)
      (run_dataset run) fe db = Inr db1"
    and 2: "process_records (\<lambda>(n, item). process_record sha b (run_id run) (sc_id scope) (ky_response keys) now
        (ky_records keys n) item) (enumerate 0 parsed) (?zero, db1) = (Inr (sr_counters r), db')"
    using assms by (auto simp: execute_def split: sum.splits prod.splits)
  have "version_count db1 = version_count db" "db_quarantine db1 = db_quarantine db"
    by (rule store_response_cases [OF 1], simp add: version_count_def)+
  then show ?thesis
    using process_records_books [OF _ 2] process_record_books by (fastforce simp: books_def handled_def empty_counts_def)
qed

text \<open>
  C21. The evidence comes first: once a response is accepted for storage, its exact bytes and their
  checksum stay in the database whatever happens afterwards, a parser that raises included.
\<close>

theorem response_survives_failure:
  assumes "store_response sha_bytes default_storage_policy (ky_response keys) (run_id run) (sc_id scope) (run_dataset run) fe db
      = Inr db1" "bd_trigger b = None"
  shows "\<exists>x\<in>set (db_raw_responses (snd (execute sha sha_bytes b (Inr fe) run scope now keys db))).
    rr_id x = ky_response keys \<and> rr_scope x = sc_id scope \<and> rr_body x = rp_body (fe_payload fe) \<and>
    rr_checksum x = sha_bytes (rp_body (fe_payload fe))"
proof -
  obtain ts where db1: "db_raw_responses db1 = db_raw_responses db @ [stored_response sha_bytes default_storage_policy
      (ky_response keys) (run_id run) (sc_id scope) (run_dataset run) (fe_payload fe) ts]"
    by (rule store_response_cases [OF assms(1)]) simp
  have keep: "db_raw_responses d' = db_raw_responses db1"
    if "process_records (\<lambda>(n, item). process_record sha b (run_id run) (sc_id scope) (ky_response keys) now
        (ky_records keys n) item) xs (c, db1) = (out, d')" for xs c out d'
    using process_records_books [OF _ that] process_record_books by (fastforce simp: books_def)
  have "db_raw_responses (snd (execute sha sha_bytes b (Inr fe) run scope now keys db)) = db_raw_responses db1"
    using assms keep by (auto simp: execute_def split: sum.splits prod.splits)
  then show ?thesis by (simp add: db1 stored_response_def Let_def)
qed

text \<open>
  A record the mapper rejects never stops the others: with a fresh key it is quarantined under the
  error's code, its raw evidence is kept, and the count goes up by one.
\<close>

theorem rejected_record_quarantined:
  assumes "store_record (rk_raw k) response (pr_record_path item) None (pr_record_checksum item) [] db = Inr (source, db1)"
    "bd_map b (pr_value item) source = Inl exc" "all_hold (quarantine_checks (db_quarantine db))"
    "rk_quarantine k \<notin> qr_id ` set (db_quarantine db)"
  shows "\<exists>db' q. process_record sha b run scope response now k item (c, db) = Inr (bump_quarantined c, db') \<and>
    db_quarantine db' = db_quarantine db @ [q] \<and> qr_reason_code q = reason exc \<and> qr_stage q = ''map'' \<and>
    (\<exists>r\<in>set (db_raw_records db'). rd_id r = qr_raw_record q \<and> rd_response r = response \<and> rd_path r = pr_record_path item)"
proof -
  obtain r where g: "get_or_create_record (rk_raw k) response (pr_record_path item) None (pr_record_checksum item) [] db = Inr (r, db1)"
    using assms(1) by (auto simp: store_record_def rbind_eq_Inr rmap_eq_Inr)
  note r = get_or_create_cases [OF g]
  have raw: "find_raw_record response (pr_record_path item) (db_raw_records db1) = Inr (rd_id r)"
    using r by (auto simp: find_raw_record_def existing_record_def)
  have q: "db_quarantine db1 = db_quarantine db" using r by auto
  let ?q = "\<lparr>qr_id = rk_quarantine k, qr_run = run, qr_scope = scope, qr_raw_record = rd_id r, qr_natural_key = None,
    qr_reason_code = reason exc, qr_stage = ''map'', qr_details = safe_details [(''record_path'', PStr (pr_record_path item))],
    qr_created_at = now, qr_updated_at = now, qr_resolution_state = ''unresolved''\<rparr>"
  have "enforce (quarantine_checks (db_quarantine db1 @ [?q])) = Inr ()"
    unfolding enforce_ok q using assms(3,4) by (simp add: quarantine_checks_def quarantined_record_checks_def)
  then have "quarantine_add (rk_quarantine k) run scope (rd_id r) (reason exc) ''map'' now None
      [(''record_path'', PStr (pr_record_path item))] db1 = Inr (db1\<lparr>db_quarantine := db_quarantine db @ [?q]\<rparr>)"
    by (simp add: quarantine_add_def Let_def rmap_def q)
  then show ?thesis
    using assms(1,2) raw r by (intro exI [of _ "db1\<lparr>db_quarantine := db_quarantine db @ [?q]\<rparr>"] exI [of _ ?q])
      (auto simp: process_record_def rmap_def)
qed

section \<open>Applications\<close>

text \<open>
  A response with three records: an observation, a row that cannot be mapped, and a published
  absence.  Each one has its own path and keys.
\<close>

definition sample_payload :: raw_payload where
  "sample_payload = \<lparr>rp_body = [91, 93], rp_media_type = ''application/json'', rp_status = 200,
     rp_retrieved_at = sample_now, rp_request = \<lparr>rm_method = ''GET'', rm_endpoint_name = ''observations'', rm_parameters = []\<rparr>,
     rp_metadata = [(''ETag'', ''1''), (''Server'', ''x'')]\<rparr>"

definition sample_fetched :: fetch_result where
  "sample_fetched = \<lparr>fe_payload = sample_payload, fe_retry = \<lparr>rt_attempts = 2, rt_delays = [Num 1]\<rparr>\<rparr>"

fun sample_map :: "nat \<Rightarrow> source_locator \<Rightarrow> mapped res" where
  "sample_map 0 source = Inr (Mapped (FxCandidate ((sample_fx (Finite False 11 (-1)))\<lparr>fc_source := source\<rparr>)))"
| "sample_map (Suc 0) source = Inl (ProviderContractError ''unknown series'' [(''code'', ''unknown_series'')])"
| "sample_map (Suc (Suc n)) source = Inr (Absent \<lparr>pa_instrument = ''FXUSDCAD'', pa_observation_date = 738001,
     pa_reason = ''holiday'', pa_attributes = []\<rparr>)"

definition sample_item :: "nat \<Rightarrow> nat parsed_record" where
  "sample_item n = \<lparr>pr_value = n, pr_record_path = ''observations['' @ show_nat n @ '']'', pr_record_checksum = None\<rparr>"

definition sample_binding :: "nat binding" where
  "sample_binding = \<lparr>
     bd_request = \<lparr>fr_dataset = ''valet'', fr_instruments = [''FXUSDCAD''], fr_date_range = \<lparr>dr_start = 738000, dr_end = 738002\<rparr>,
       fr_endpoint_name = ''observations'', fr_path = ''observations/FXUSDCAD/json'', fr_parameters = []\<rparr>,
     bd_parse = (\<lambda>p. Inr (map sample_item [0, 1, 2])), bd_map = sample_map, bd_stable_keys = (\<lambda>s. Some ''fx:USD/CAD''),
     bd_validate = (\<lambda>c. Inr sample_valid), bd_trigger = None\<rparr>"

definition sample_keys :: run_keys where
  "sample_keys = \<lparr>ky_response = 30, ky_records = (\<lambda>n. \<lparr>rk_raw = 40 + of_nat n, rk_quarantine = 50 + of_nat n,
     rk_observation = 60 + of_nat n, rk_version = 70 + of_nat n\<rparr>)\<rparr>"

definition sample_sha_bytes :: "bytes \<Rightarrow> string" where
  "sample_sha_bytes b = replicate 64 (CHR ''b'')"

definition sample_world :: "uuid \<Rightarrow> nat world" where
  "sample_world s = \<lparr>wd_binding = (\<lambda>r s db. Inr sample_binding), wd_fetch = (\<lambda>r. Inr sample_fetched), wd_keys = sample_keys,
     wd_readings = \<lparr>rd_begin = sample_now, rd_now = 63763200000000000, rd_end = sample_now, rd_fail = sample_now,
       rd_beat = sample_now\<rparr>\<rparr>"

definition claimed_db :: database where
  "claimed_db = ledger_run (take 5 two_runs) ledger_db"

lemma sample_run: "map_option run_id (run_get 1 claimed_db) = Some 1 \<and> map_option sc_id (scope_get 10 claimed_db) = Some 10"
  by code_simp

lemma sample_execute:
  "(case execute sample_sha sample_sha_bytes sample_binding (Inr sample_fetched) (the (run_get 1 claimed_db))
      (the (scope_get 10 claimed_db)) 63763200000000000 sample_keys claimed_db of
      (Inr r, db') \<Rightarrow> Some (ct_fetched (sr_counters r), ct_inserted (sr_counters r), ct_quarantined (sr_counters r), length (db_quarantine db'))
    | _ \<Rightarrow> None) = Some (3, 1, 1, 1)"
  by code_simp

lemma sample_clock: "\<And>s. \<exists>ts. run_utc (rd_fail (wd_readings (sample_world s))) = Inr ts"
    "\<And>s. \<exists>ts. run_utc (rd_beat (wd_readings (sample_world s))) = Inr ts" "\<And>s. untriggered (sample_world s)"
  using sample_now_utc by (auto simp: sample_world_def untriggered_def sample_binding_def)

lemma run_next_completes_witness:
  "\<exists>db' r. run_next sample_sha sample_sha_bytes sample_world sample_now sample_now sample_now (ledger_run (take 2 two_runs) ledger_db)
     = (Inr (Some 1), db') \<and> run_get 1 db' = Some r \<and> is_terminal r \<and> closed_run db' r"
proof -
  have "rmap fst (claim_next sample_now (ledger_run (take 2 two_runs) ledger_db)) = Inr (Some 1)" by code_simp
  then obtain db' where "claim_next sample_now (ledger_run (take 2 two_runs) ledger_db) = Inr (Some 1, db')"
    by (auto simp: rmap_eq_Inr)
  from run_next_completes [where w = sample_world and sha = sample_sha and sha_bytes = sample_sha_bytes,
      OF ledger_run_ok [OF ledger_db_no_runs] this sample_now_utc sample_now_utc sample_clock]
  show ?thesis by blast
qed

lemma scope_books_balance_witness:
  "\<exists>r db'. execute sample_sha sample_sha_bytes sample_binding (Inr sample_fetched) (the (run_get 1 claimed_db))
      (the (scope_get 10 claimed_db)) 63763200000000000 sample_keys claimed_db = (Inr r, db') \<and>
    ct_fetched (sr_counters r) = 3 \<and> handled (sr_counters r) \<le> 3 \<and> ct_inserted (sr_counters r) = 1"
proof -
  obtain r db' where r: "execute sample_sha sample_sha_bytes sample_binding (Inr sample_fetched) (the (run_get 1 claimed_db))
      (the (scope_get 10 claimed_db)) 63763200000000000 sample_keys claimed_db = (Inr r, db')" "ct_inserted (sr_counters r) = 1"
    using sample_execute by (auto split: prod.splits sum.splits)
  have "bd_trigger sample_binding = None" "bd_parse sample_binding (fe_payload sample_fetched) = Inr (map sample_item [0, 1, 2])"
    by (simp_all add: sample_binding_def)
  from scope_books_balance [OF r(1) this] r show ?thesis by auto
qed

lemma response_survives_failure_witness:
  "\<exists>x\<in>set (db_raw_responses (snd (execute sample_sha sample_sha_bytes
      (sample_binding\<lparr>bd_parse := \<lambda>p. Inl (ProviderParseError ''invalid JSON'' [])\<rparr>) (Inr sample_fetched)
      (the (run_get 1 claimed_db)) (the (scope_get 10 claimed_db)) 63763200000000000 sample_keys claimed_db))). rr_body x = [91, 93]"
proof -
  have "is_ok (store_response sample_sha_bytes default_storage_policy (ky_response sample_keys) (run_id (the (run_get 1 claimed_db)))
      (sc_id (the (scope_get 10 claimed_db))) (run_dataset (the (run_get 1 claimed_db))) sample_fetched claimed_db)" by code_simp
  then obtain db1 where "store_response sample_sha_bytes default_storage_policy (ky_response sample_keys)
      (run_id (the (run_get 1 claimed_db))) (sc_id (the (scope_get 10 claimed_db))) (run_dataset (the (run_get 1 claimed_db)))
      sample_fetched claimed_db = Inr db1" by (auto simp: is_ok_iff)
  from response_survives_failure [OF this, of "sample_binding\<lparr>bd_parse := \<lambda>p. Inl (ProviderParseError ''invalid JSON'' [])\<rparr>"]
  show ?thesis by (fastforce simp: sample_fetched_def sample_payload_def sample_binding_def)
qed

lemma rejected_record_quarantined_witness:
  "\<exists>db' q. process_record sample_sha sample_binding 1 10 30 63763200000000000 (ky_records sample_keys 1) (sample_item 1)
      (empty_counts, claimed_db) = Inr (bump_quarantined empty_counts, db') \<and>
    db_quarantine db' = db_quarantine claimed_db @ [q] \<and> qr_reason_code q = ''UNKNOWN_SERIES''"
proof -
  let ?exc = "ProviderContractError ''unknown series'' [(''code'', ''unknown_series'')]"
  have "is_ok (store_record 41 30 (pr_record_path (sample_item 1)) None (pr_record_checksum (sample_item 1)) [] claimed_db)" by code_simp
  then obtain source db1 where s: "store_record (rk_raw (ky_records sample_keys 1)) 30 (pr_record_path (sample_item 1)) None
      (pr_record_checksum (sample_item 1)) [] claimed_db = Inr (source, db1)" by (auto simp: is_ok_iff sample_keys_def)
  have "bd_map sample_binding (pr_value (sample_item 1)) source = Inl ?exc" "db_quarantine claimed_db = []" "reason ?exc = ''UNKNOWN_SERIES''"
    by (simp add: sample_binding_def sample_item_def) code_simp+
  with rejected_record_quarantined [OF s this(1)] show ?thesis by (fastforce simp: quarantine_checks_def)
qed

end
