(* ===== verification/Provider_Codecs.thy ===== *)
theory Provider_Codecs
  imports Json_Reader Reference_Config
begin

text \<open>
  What the provider adapters share: the codecs they take from their surroundings, the paths of their
  requests (\<open>str.format\<close>), and \<open>int(...)\<close> of a text.
\<close>

text \<open>What the parsers of the providers take from their surroundings.\<close>

record codecs =
  co_gunzip :: "bytes \<Rightarrow> bytes option"
  co_decode :: "bytes \<Rightarrow> string res"
  co_float_repr :: "string \<Rightarrow> string"
  co_sha :: "string \<Rightarrow> string"

text \<open>\<open>template.format(**values)\<close>: literals, doubled braces and fields that are a name; a number or an empty field
  asks for a positional argument, and there is none.  Conversions, format specifications and attribute access inside a
  field are read as part of its name.\<close>

fun format_template :: "string dict \<Rightarrow> string \<Rightarrow> string res" where
  "format_template vs [] = Inr []"
| "format_template vs (c # cs) =
     (if c = CHR ''{'' then
        (if prefix ''{'' cs then rmap (Cons c) (format_template vs (drop 1 cs))
         else if CHR ''}'' \<notin> set cs then Inl (ValueError ''expected closing brace before end of string'')
         else (let field = takeWhile (\<lambda>x. x \<noteq> CHR ''}'') cs
               in if list_all is_digit field then Inl (IndexError ''Replacement index out of range for positional args tuple'')
                  else (case map_of vs field of
                          None \<Rightarrow> Inl (KeyError field)
                        | Some v \<Rightarrow> rmap ((@) v) (format_template vs (drop (length field + 1) cs)))))
      else if c = CHR ''}'' then
        (if prefix ''}'' cs then rmap (Cons c) (format_template vs (drop 1 cs))
         else Inl (ValueError ''single closing brace encountered in format string''))
      else rmap (Cons c) (format_template vs cs))"

definition str_suffix :: "string \<Rightarrow> string \<Rightarrow> bool" where
  "str_suffix s t \<longleftrightarrow> prefix (rev s) (rev t)"

section \<open>Integers from text\<close>

text \<open>
  \<open>int(text)\<close>: surrounding white space, a sign, and digits with single underscores between them.
\<close>

fun underscored_digits :: "string \<Rightarrow> string option" where
  "underscored_digits [] = None"
| "underscored_digits [c] = (if is_digit c then Some [c] else None)"
| "underscored_digits (c # d # cs) =
     (if \<not> is_digit c then None
      else map_option (Cons c) (underscored_digits (if d = CHR ''_'' then cs else d # cs)))"

definition int_of_text :: "string \<Rightarrow> int option" where
  "int_of_text s =
     (let t = str_strip s; neg = prefix ''-'' t; u = (if neg \<or> prefix ''+'' t then drop 1 t else t)
      in case underscored_digits u of
           None \<Rightarrow> None
         | Some ds \<Rightarrow> (if length ds > int_limit then None
                        else Some (if neg then - int (read_digits ds) else int (read_digits ds))))"

end
