(* ===== verification/Valet.thy ===== *)
theory Valet
  imports Provider_Codecs Http_Fetch Pipeline
begin

text \<open>
  The Bank of Canada adapter: \<open>app/providers/bank_of_canada\<close> (client, parser, mapper and the raw-first
  adapter).  Decompression (\<open>gunzip\<close>), the decoding of bytes to text (\<open>decode_text\<close>), the text of a float
  (\<open>float_repr\<close>) and SHA-256 (\<open>sha\<close>) are arguments.  The limit of the interpreter on the digits of an
  integer is left to \<open>read_document\<close>.
\<close>

section \<open>Parsed values\<close>

record valet_observation =
  vo_symbol :: string
  vo_date :: date
  vo_value :: decimal
  vo_retrieved_at :: datetime
  vo_status_flags :: "pyval dict"
  vo_series_detail :: "pyval dict"
  vo_response_metadata :: "pyval dict"

record valet_malformed =
  vm_symbol :: "string option"
  vm_date :: "date option"
  vm_reason :: string
  vm_details :: "pyval dict"

datatype valet_value = ValetObservation valet_observation | ValetAbsence published_absence | ValetMalformed valet_malformed

section \<open>Documents\<close>

text \<open>\<open>json.dumps(value, sort_keys=True, separators=(",", ":"), ensure_ascii=False)\<close> of a value read from JSON.\<close>

definition float_json :: "string \<Rightarrow> string" where
  "float_json r = (if r = ''nan'' then ''NaN'' else if r = ''inf'' then ''Infinity'' else if r = ''-inf'' then ''-Infinity'' else r)"

fun value_text :: "pyval \<Rightarrow> string" where
  "value_text PNone = ''null''"
| "value_text (PBool b) = (if b then ''true'' else ''false'')"
| "value_text (PInt i) = show_int i"
| "value_text (PFloat r) = float_json r"
| "value_text (PStr s) = quote_str s"
| "value_text (PList xs) = ''['' @ join '','' (map value_text xs) @ '']''"
| "value_text (PDict ps) =
     ''{'' @ join '','' (map (\<lambda>(k, t). quote_str k @ '':'' @ t) (sort_key fst (map (\<lambda>(k, v). (k, value_text v)) ps))) @ ''}''"
| "value_text v = []"

definition value_checksum :: "(string \<Rightarrow> string) \<Rightarrow> pyval \<Rightarrow> string" where
  "value_checksum sha v = sha (value_text v)"

definition endpoint_context :: "raw_payload \<Rightarrow> error_context" where
  "endpoint_context p = [(''endpoint_name'', rm_endpoint_name (rp_request p))]"

definition document_of :: "codecs \<Rightarrow> raw_payload \<Rightarrow> string \<Rightarrow> pyval dict res" where
  "document_of co p json =
     (case read_document json_int (\<lambda>s. Some (PFloat (co_float_repr co s))) json of
        None \<Rightarrow> Inl (ProviderParseError ''invalid Valet JSON'' (endpoint_context p))
      | Some (PDict ps) \<Rightarrow> Inr ps
      | Some v \<Rightarrow> Inl (ProviderParseError ''Valet response must be an object'' []))"

definition load_document :: "codecs \<Rightarrow> raw_payload \<Rightarrow> pyval dict res" where
  "load_document co p =
     (let encoding = str_lower (case map_of (rp_metadata p) ''content-encoding'' of None \<Rightarrow> [] | Some e \<Rightarrow> e)
      in rbind (if encoding = ''gzip''
                then (case co_gunzip co (rp_body p) of
                        None \<Rightarrow> Inl (ProviderParseError ''invalid gzip Valet response'' []) | Some b \<Rightarrow> Inr b)
                else Inr (rp_body p)) (\<lambda>body.
         (case co_decode co body of
            Inl e \<Rightarrow> Inl (ProviderParseError ''invalid Valet JSON'' (endpoint_context p))
          | Inr json \<Rightarrow> document_of co p json)))"

section \<open>The parser\<close>

definition record_path :: "nat \<Rightarrow> string option \<Rightarrow> string" where
  "record_path index symbol =
     ''observations['' @ show_nat index @ '']'' @
     (case symbol of None \<Rightarrow> [] | Some s \<Rightarrow> (if s = [] then [] else ''.'' @ s))"

definition malformed ::
  "codecs \<Rightarrow> nat \<Rightarrow> string option \<Rightarrow> date option \<Rightarrow> string \<Rightarrow> pyval \<Rightarrow> valet_value parsed_record" where
  "malformed co index symbol d reason_text raw =
     \<lparr>pr_value = ValetMalformed \<lparr>vm_symbol = symbol, vm_date = d, vm_reason = reason_text, vm_details = []\<rparr>,
      pr_record_path = record_path index symbol, pr_record_checksum = Some (value_checksum (co_sha co) raw)\<rparr>"

definition parse_value ::
  "codecs \<Rightarrow> raw_payload \<Rightarrow> pyval dict \<Rightarrow> pyval dict \<Rightarrow> nat \<Rightarrow> date \<Rightarrow> string \<times> pyval \<Rightarrow> valet_value parsed_record" where
  "parse_value co p details metadata index d = (\<lambda>(symbol, raw).
     (let wrap = (\<lambda>v. \<lparr>pr_value = v, pr_record_path = record_path index (Some symbol),
                        pr_record_checksum = Some (value_checksum (co_sha co) raw)\<rparr>);
          bad = (\<lambda>why. malformed co index (Some symbol) (Some d) why raw)
      in case raw of
           PDict ps \<Rightarrow>
             (let attributes = filter (\<lambda>(k, v). k \<noteq> ''v'') ps
              in case map_of ps ''v'' of
                   None \<Rightarrow> wrap (ValetAbsence \<lparr>pa_instrument = symbol, pa_observation_date = d, pa_reason = ''unpublished'',
                                 pa_attributes = attributes\<rparr>)
                 | Some PNone \<Rightarrow> wrap (ValetAbsence \<lparr>pa_instrument = symbol, pa_observation_date = d,
                                 pa_reason = ''unpublished'', pa_attributes = attributes\<rparr>)
                 | Some (PStr s) \<Rightarrow>
                     (case parse_decimal s of
                        None \<Rightarrow> bad ''invalid_decimal''
                      | Some n \<Rightarrow>
                          (if \<not> is_finite n then bad ''invalid_decimal''
                           else wrap (ValetObservation \<lparr>vo_symbol = symbol, vo_date = d, vo_value = n,
                             vo_retrieved_at = rp_retrieved_at p, vo_status_flags = attributes,
                             vo_series_detail = (case map_of details symbol of
                                None \<Rightarrow> [] | Some (PDict ds) \<Rightarrow> ds | Some v \<Rightarrow> [(''unparsed_detail'', v)]),
                             vo_response_metadata = metadata\<rparr>)))
                 | Some v \<Rightarrow> bad ''value_not_string'')
         | _ \<Rightarrow> bad ''series_value_not_object''))"

definition parse_item ::
  "codecs \<Rightarrow> raw_payload \<Rightarrow> pyval dict \<Rightarrow> pyval dict \<Rightarrow> nat \<times> pyval \<Rightarrow> valet_value parsed_record list" where
  "parse_item co p details metadata = (\<lambda>(index, item).
     (case item of
        PDict ps \<Rightarrow>
          (let observation_date = (case map_of ps ''d'' of Some (PStr s) \<Rightarrow> parse_iso_date s | _ \<Rightarrow> None);
               series_items = filter (\<lambda>(k, v). k \<noteq> ''d'') ps
           in case observation_date of
                None \<Rightarrow> (if series_items = [] then [malformed co index None None ''invalid_date'' item]
                         else map (\<lambda>(s, v). malformed co index (Some s) None ''invalid_date'' v) series_items)
              | Some d \<Rightarrow> map (parse_value co p details metadata index d) series_items)
      | _ \<Rightarrow> [malformed co index None None ''observation_not_object'' item]))"

definition valet_parse :: "codecs \<Rightarrow> raw_payload \<Rightarrow> valet_value parsed_record list res" where
  "valet_parse co p =
     rbind (load_document co p) (\<lambda>document.
     (case map_of document ''observations'' of
        Some (PList observations) \<Rightarrow>
          rbind (case map_of document ''seriesDetail'' of
                   None \<Rightarrow> Inr [] | Some PNone \<Rightarrow> Inr [] | Some (PDict ds) \<Rightarrow> Inr ds
                 | Some v \<Rightarrow> Inl (ProviderParseError ''Valet seriesDetail must be an object'' [])) (\<lambda>details.
          Inr (concat (map (parse_item co p details
                 (filter (\<lambda>(k, v). k \<noteq> ''observations'' \<and> k \<noteq> ''seriesDetail'') document)) (enumerate 0 observations))))
      | _ \<Rightarrow> Inl (ProviderParseError ''Valet response observations must be a list'' (endpoint_context p))))"

section \<open>Missing dates\<close>

text \<open>\<open>getattr(value, "provider_symbol", None) or getattr(value, "instrument", None)\<close>, and the date.\<close>

fun value_symbol :: "valet_value \<Rightarrow> string option" where
  "value_symbol (ValetObservation v) = (if vo_symbol v = [] then None else Some (vo_symbol v))"
| "value_symbol (ValetAbsence a) = Some (pa_instrument a)"
| "value_symbol (ValetMalformed m) = (if vm_symbol m = Some [] then None else vm_symbol m)"

fun value_date :: "valet_value \<Rightarrow> date option" where
  "value_date (ValetObservation v) = Some (vo_date v)"
| "value_date (ValetAbsence a) = Some (pa_observation_date a)"
| "value_date (ValetMalformed m) = vm_date m"

definition missing_on ::
  "string list \<Rightarrow> (string option \<times> date option) set \<Rightarrow> int list \<Rightarrow> date list \<Rightarrow> date \<Rightarrow> published_absence list" where
  "missing_on symbols present weekend holidays current =
     map (\<lambda>s. \<lparr>pa_instrument = s, pa_observation_date = current,
           pa_reason = (if weekday current \<notin> set weekend \<and> current \<notin> set holidays then ''omitted_expected_date'' else ''not_due''),
           pa_attributes = [(''calendar'', PStr ''canada_business'')]\<rparr>)
       (filter (\<lambda>s. (Some s, Some current) \<notin> present) symbols)"

text \<open>The loop over the dates; its fuel is their number and one more for the last test.\<close>

fun missing_loop :: "(date \<Rightarrow> published_absence list) \<Rightarrow> nat \<Rightarrow> date \<Rightarrow> date \<Rightarrow> published_absence list res" where
  "missing_loop f 0 current e = Inr []"
| "missing_loop f (Suc n) current e =
     (if current > e then Inr []
      else rbind (add_days current 1) (\<lambda>tomorrow. rmap ((@) (f current)) (missing_loop f n tomorrow e)))"

definition classify_missing_dates ::
  "string list \<Rightarrow> date \<Rightarrow> date \<Rightarrow> valet_value parsed_record list \<Rightarrow> int list \<Rightarrow> date list \<Rightarrow> published_absence list res" where
  "classify_missing_dates symbols s e parsed weekend holidays =
     missing_loop (missing_on symbols ((\<lambda>r. (value_symbol (pr_value r), value_date (pr_value r))) ` set parsed) weekend holidays)
       (nat (e - s + 2)) s e"

section \<open>The mapper\<close>

record valet_series_mapping =
  vs_series_id :: uuid
  vs_provider_symbol :: string
  vs_pair_symbol :: string
  vs_base_currency :: string
  vs_quote_currency :: string
  vs_enabled :: bool
  vs_source_metadata :: "pyval dict"

text \<open>An entry of the snapshot: one mapping, or a sequence of them.\<close>

datatype snapshot_entry = OneMapping valet_series_mapping | Mappings "valet_series_mapping list"

fun entry_mappings :: "snapshot_entry option \<Rightarrow> valet_series_mapping list" where
  "entry_mappings None = []"
| "entry_mappings (Some (OneMapping m)) = [m]"
| "entry_mappings (Some (Mappings ms)) = ms"

text \<open>A missing symbol is \<open>None\<close>, a key no snapshot has.\<close>

definition resolve_series :: "snapshot_entry dict \<Rightarrow> string option \<Rightarrow> valet_series_mapping res" where
  "resolve_series snapshot symbol =
     (case filter vs_enabled (entry_mappings (case symbol of None \<Rightarrow> None | Some s \<Rightarrow> map_of snapshot s)) of
        [m] \<Rightarrow> Inr m
      | ms \<Rightarrow> Inl (ProviderContractError ''Bank of Canada series must map to exactly one enabled FX series''
                [(''code'', if ms = [] then ''UNKNOWN_PROVIDER_SERIES'' else ''AMBIGUOUS_PROVIDER_SERIES''),
                 (''provider_symbol'', case symbol of None \<Rightarrow> ''None'' | Some s \<Rightarrow> s)]))"

definition check_orientation :: "string \<Rightarrow> valet_series_mapping \<Rightarrow> unit res" where
  "check_orientation symbol m = rguard (vs_quote_currency m = ''CAD'' \<and> vs_base_currency m \<noteq> ''CAD'')
     (ProviderContractError ''Bank of Canada FX mapping has invalid orientation'' [(''provider_symbol'', symbol)])"

definition valet_attributes :: "valet_observation \<Rightarrow> valet_series_mapping \<Rightarrow> pyval dict" where
  "valet_attributes v m = dict_of
     ([(''provider_symbol'', PStr (vo_symbol v)), (''pair_symbol'', PStr (vs_pair_symbol m)),
       (''base_currency'', PStr (vs_base_currency m)), (''quote_currency'', PStr (vs_quote_currency m)),
       (''classification'', PStr ''daily_indicative_average''), (''status_flags'', PDict (vo_status_flags v)),
       (''series_detail'', PDict (vo_series_detail v)), (''response_metadata'', PDict (vo_response_metadata v))]
      @ vs_source_metadata m)"

text \<open>
  The mapper reads the attributes of an observation off whatever value the parser gave: an absence has
  no \<open>provider_symbol\<close>, a malformed record no \<open>status_flags\<close>.
\<close>

definition valet_map :: "snapshot_entry dict \<Rightarrow> valet_value \<Rightarrow> source_locator \<Rightarrow> mapped res" where
  "valet_map snapshot value source = (case value of
     ValetAbsence a \<Rightarrow> Inl (AttributeError ''PublishedAbsence object has no attribute provider_symbol'')
   | ValetMalformed r \<Rightarrow>
       rbind (resolve_series snapshot (vm_symbol r)) (\<lambda>m.
       rbind (check_orientation (case vm_symbol r of None \<Rightarrow> ''None'' | Some s \<Rightarrow> s) m) (\<lambda>_.
       Inl (AttributeError ''ValetMalformedRecord object has no attribute status_flags'')))
   | ValetObservation v \<Rightarrow>
       rbind (resolve_series snapshot (Some (vo_symbol v))) (\<lambda>m.
       rbind (check_orientation (vo_symbol v) m) (\<lambda>_.
       rmap (\<lambda>c. Mapped (FxCandidate c))
         (mk_fx_candidate (vs_series_id m) (vo_date v) (vo_value v) QuoteReference (vo_retrieved_at v) source None
            (valet_attributes v m)))))"

section \<open>The client\<close>

text \<open>The path of a request: a template without a format field gets the suffix \<open>/json\<close>.\<close>

definition valet_path :: "string \<Rightarrow> string list \<Rightarrow> string res" where
  "valet_path template symbols =
     (case format_template [(''series'', join '','' symbols), (''format'', ''json'')] template of
        Inl e \<Rightarrow> Inl (case e of KeyError k \<Rightarrow> ProviderContractError ''invalid Valet endpoint template'' []
                    | ValueError m \<Rightarrow> ProviderContractError ''invalid Valet endpoint template'' [] | _ \<Rightarrow> e)
      | Inr path \<Rightarrow>
          (let trimmed = rstrip_char (CHR ''/'') path;
               path1 = (if \<not> str_contains ''{format}'' template \<and> \<not> str_suffix ''/json'' trimmed then trimmed @ ''/json'' else path)
           in Inr (if prefix ''/'' path1 then path1 else CHR ''/'' # path1)))"

definition valet_dataset_key :: string where "valet_dataset_key = ''bank_of_canada:valet_daily_fx''"

definition valet_request :: "provider_settings \<Rightarrow> date_range \<Rightarrow> string list \<Rightarrow> fetch_request res" where
  "valet_request settings period symbols =
     rmap (\<lambda>path. \<lparr>fr_dataset = valet_dataset_key, fr_instruments = symbols, fr_date_range = period,
                   fr_endpoint_name = ''valet-observations'', fr_path = path,
                   fr_parameters = [(''start_date'', Text (iso_date (dr_start period))), (''end_date'', Text (iso_date (dr_end period)))]\<rparr>)
       (valet_path (gs_endpoint_template settings) symbols)"

definition valet_build_requests ::
  "provider_settings \<Rightarrow> bool \<Rightarrow> string list \<Rightarrow> date_range \<Rightarrow> fetch_request list res" where
  "valet_build_requests settings grouped series period =
     (let symbols = dedupe (map str_strip (filter (\<lambda>s. str_strip s \<noteq> []) series))
      in rbind (rguard (symbols \<noteq> []) (ProviderContractError ''Valet request requires at least one series'' [])) (\<lambda>_.
         rbind (rguard (dr_end period - dr_start period + 1 \<le> gs_max_range_days settings)
                  (ProviderContractError ''Valet request exceeds configured date range'' [(''dataset'', valet_dataset_key)])) (\<lambda>_.
         traverse (valet_request settings period) (if grouped then [symbols] else map (\<lambda>s. [s]) symbols))))"

section \<open>The raw-first adapter\<close>

text \<open>
  \<open>fetch_store_parse\<close>: the response is stored before it is parsed, the records one after the other; what was
  stored before an exception stays in the session.
\<close>

definition natural_key :: "valet_value \<Rightarrow> string option" where
  "natural_key v = (case (value_symbol v, value_date v) of (Some s, Some d) \<Rightarrow> Some (s @ '':'' @ iso_date d) | _ \<Rightarrow> None)"

fun store_all ::
  "(nat \<Rightarrow> uuid) \<Rightarrow> uuid \<Rightarrow> nat \<Rightarrow> valet_value parsed_record list \<Rightarrow> database \<Rightarrow>
     (valet_value \<times> source_locator) list res \<times> database" where
  "store_all keys response i [] db = (Inr [], db)"
| "store_all keys response i (r # rs) db =
     (case store_record (keys i) response (pr_record_path r) (natural_key (pr_value r)) (pr_record_checksum r) [] db of
        Inl e \<Rightarrow> (Inl e, db)
      | Inr (source, db1) \<Rightarrow>
          (case store_all keys response (Suc i) rs db1 of
             (Inl e, db2) \<Rightarrow> (Inl e, db2)
           | (Inr xs, db2) \<Rightarrow> (Inr ((pr_value r, source) # xs), db2)))"

definition fetch_store_parse ::
  "codecs \<Rightarrow> (bytes \<Rightarrow> string) \<Rightarrow> raw_storage_policy \<Rightarrow> http_env \<Rightarrow> http_policy \<Rightarrow> uuid \<Rightarrow> (nat \<Rightarrow> uuid) \<Rightarrow> fetch_request \<Rightarrow>
     uuid \<Rightarrow> uuid \<Rightarrow> uuid \<Rightarrow> database \<Rightarrow> (valet_value \<times> source_locator) list res \<times> database" where
  "fetch_store_parse co sha_bytes storage env p response keys request run scope dataset db =
     (case http_fetch env p request of
        Inl e \<Rightarrow> (Inl e, db)
      | Inr fe \<Rightarrow>
          (case store_response sha_bytes storage response run scope dataset fe db of
             Inl e \<Rightarrow> (Inl e, db)
           | Inr db1 \<Rightarrow>
               (case valet_parse co (fe_payload fe) of
                  Inl e \<Rightarrow> (Inl e, db1)
                | Inr rs \<Rightarrow> store_all keys response 0 rs db1)))"

section \<open>Lemmas\<close>

subsection \<open>Records of the parser\<close>

lemma pr_record_path_malformed [simp]: "pr_record_path (malformed co i s d w raw) = record_path i s"
  by (simp add: malformed_def)

lemma parse_value_path [simp]: "pr_record_path (parse_value co p details metadata i d (s, raw)) = record_path i (Some s)"
  by (simp add: parse_value_def Let_def split: pyval.splits option.splits)

lemma parse_value_checksum [simp]:
  "pr_record_checksum (parse_value co p details metadata i d (s, raw)) = Some (value_checksum (co_sha co) raw)"
  by (simp add: parse_value_def malformed_def Let_def split: pyval.splits option.splits)

lemma parse_value_observation:
  "pr_value (parse_value co p details metadata i d (s, raw)) = ValetObservation v \<Longrightarrow>
     \<exists>qs t. raw = PDict qs \<and> map_of qs ''v'' = Some (PStr t) \<and> parse_decimal t = Some (vo_value v) \<and> is_finite (vo_value v) \<and>
       vo_symbol v = s \<and> vo_date v = d \<and> vo_retrieved_at v = rp_retrieved_at p"
  by (auto simp: parse_value_def malformed_def Let_def split: pyval.splits option.splits if_splits)

lemma record_path_inject:
  "record_path i s = record_path j t \<longleftrightarrow> i = j \<and> (case s of None \<Rightarrow> [] | Some x \<Rightarrow> x) = (case t of None \<Rightarrow> [] | Some x \<Rightarrow> x)"
proof -
  have nd: "\<not> is_digit (CHR '']'')" by (simp add: is_digit_def code_of_def)
  have eq: "show_nat i @ '']'' @ u = show_nat j @ '']'' @ w \<longleftrightarrow> i = j \<and> u = w" for u w
    using Py_Json.span_unique [where ds = "show_nat i" and es = "show_nat j" and r = "'']'' @ u" and u = "'']'' @ w"] show_nat_digits nd by auto
  have tail: "(if x = [] then [] else ''.'' @ x) = (if y = [] then [] else ''.'' @ y) \<longleftrightarrow> x = y" for x y :: string by auto
  show ?thesis using eq tail by (cases s; cases t) (auto simp: record_path_def)
qed

lemma parse_item_paths:
  "map pr_record_path (parse_item co p details metadata (i, item)) =
     (case item of
        PDict ps \<Rightarrow>
          (if (case map_of ps ''d'' of Some (PStr s) \<Rightarrow> parse_iso_date s | _ \<Rightarrow> None) = None \<and> filter (\<lambda>(k, v). k \<noteq> ''d'') ps = []
           then [record_path i None] else map (\<lambda>(k, v). record_path i (Some k)) (filter (\<lambda>(k, v). k \<noteq> ''d'') ps))
      | _ \<Rightarrow> [record_path i None])"
  by (auto simp: parse_item_def Let_def comp_def split_def split: pyval.splits option.splits)

lemma distinct_item_paths:
  assumes "well_keyed item"
  shows "distinct (map pr_record_path (parse_item co p details metadata (i, item)))"
proof (cases item)
  case (PDict ps)
  have inj: "distinct (map (\<lambda>(k, v). record_path i (Some k)) qs) = distinct (map fst qs)" for qs :: "pyval dict"
    by (simp add: distinct_map inj_on_def record_path_inject split_def comp_def)
  have "distinct (map fst (filter (\<lambda>(k, v). k \<noteq> ''d'') ps))"
    using assms PDict by (simp add: distinct_map_filter)
  then show ?thesis unfolding parse_item_paths using PDict inj by simp
qed (simp_all add: parse_item_paths)

lemma item_path_index: "r \<in> set (parse_item co p details metadata (i, item)) \<Longrightarrow> \<exists>s. pr_record_path r = record_path i s"
proof -
  assume "r \<in> set (parse_item co p details metadata (i, item))"
  then have "pr_record_path r \<in> set (map pr_record_path (parse_item co p details metadata (i, item)))" by simp
  then show ?thesis unfolding parse_item_paths by (auto split: pyval.splits if_splits)
qed

lemma distinct_parse_paths:
  "\<forall>item\<in>set items. well_keyed item \<Longrightarrow>
     distinct (map pr_record_path (concat (map (parse_item co p details metadata) (enumerate n items))))"
proof (induction items arbitrary: n)
  case (Cons item items)
  have False if "r \<in> set (parse_item co p details metadata (n, item))" "(j, x) \<in> set (enumerate (Suc n) items)"
    "q \<in> set (parse_item co p details metadata (j, x))" "pr_record_path r = pr_record_path q" for r j x q
    using item_path_index [OF that(1)] item_path_index [OF that(3)] that(2,4)
    by (auto simp: record_path_inject in_set_enumerate_eq)
  then show ?case using Cons distinct_item_paths [of item] by (fastforce simp: image_iff)
qed simp

lemma document_of_well_keyed: "document_of co p json = Inr doc \<Longrightarrow> well_keyed (PDict doc)"
proof -
  assume "document_of co p json = Inr doc"
  then have "read_document json_int (\<lambda>s. Some (PFloat (co_float_repr co s))) json = Some (PDict doc)"
    by (simp add: document_of_def split: option.splits pyval.splits)
  then show ?thesis by (rule read_document_well_keyed [rotated 2]) (auto dest: json_int_well_keyed)
qed

lemma load_document_well_keyed: "load_document co p = Inr doc \<Longrightarrow> well_keyed (PDict doc)"
  unfolding load_document_def Let_def rbind_eq_Inr
  by (elim exE conjE) (auto simp del: well_keyed.simps dest: document_of_well_keyed split: sum.split_asm)

lemma map_of_well_keyed: "well_keyed (PDict ps) \<Longrightarrow> map_of ps k = Some v \<Longrightarrow> well_keyed v"
  by (auto dest: map_of_SomeD)

lemma valet_parse_parts:
  assumes "valet_parse co p = Inr rs"
  obtains doc obs details metadata where "load_document co p = Inr doc" "map_of doc ''observations'' = Some (PList obs)"
    "rs = concat (map (parse_item co p details metadata) (enumerate 0 obs))"
proof -
  obtain doc where doc: "load_document co p = Inr doc"
    using assms by (cases "load_document co p") (auto simp: valet_parse_def rbind_def)
  obtain obs where obs: "map_of doc ''observations'' = Some (PList obs)"
    using assms doc by (simp add: valet_parse_def rbind_def split: option.splits pyval.splits)
  then obtain details where "rs = concat (map (parse_item co p details (filter (\<lambda>(k, v). k \<noteq> ''observations'' \<and> k \<noteq> ''seriesDetail'') doc))
      (enumerate 0 obs))"
    using assms doc unfolding valet_parse_def rbind_def by (auto split: sum.splits)
  with doc obs show thesis by (rule that)
qed

subsection \<open>Missing dates\<close>

lemma missing_loop_eq:
  "1 \<le> s \<Longrightarrow> e < max_ordinal \<Longrightarrow> nat (e - s + 2) \<le> n \<Longrightarrow> missing_loop f n s e = Inr (concat (map f [s..e]))"
proof (induction n arbitrary: s)
  case (Suc n)
  show ?case
  proof (cases "s > e")
    case False
    then have "add_days s 1 = Inr (s + 1)" using Suc(2,3) by (simp add: add_days_def valid_date_def)
    moreover have "missing_loop f n (s + 1) e = Inr (concat (map f [s + 1..e]))" by (rule Suc(1)) (use Suc False in auto)
    ultimately show ?thesis using False by (simp add: rmap_def upto_rec1)
  qed simp
qed simp

subsection \<open>Storage\<close>

lemma store_record_responses: "store_record k response path key checksum metadata db = Inr (source, db') \<Longrightarrow>
    db_raw_responses db' = db_raw_responses db"
  by (auto simp: store_record_def get_or_create_record_def rbind_eq_Inr rmap_eq_Inr Let_def split: option.splits if_splits)

lemma store_all_responses: "db_raw_responses (snd (store_all keys response i rs db)) = db_raw_responses db"
proof (induction rs arbitrary: i db)
  case (Cons r rs)
  show ?case
  proof (cases "store_record (keys i) response (pr_record_path r) (natural_key (pr_value r)) (pr_record_checksum r) [] db")
    case (Inr x)
    then show ?thesis using Cons [of "Suc i" "snd x"] store_record_responses [of "keys i" response _ _ _ "[]" db "fst x" "snd x"]
      by (cases x) (auto split: prod.splits sum.splits)
  qed simp
qed simp

section \<open>Properties\<close>

text \<open>
  C27. Every observation the parser returns stands in the response: there is an item of the document with that date,
  the series has a text value there that reads as that finite number, and the path and the checksum of the
  record name exactly this place.
\<close>

theorem valet_parse_faithful:
  assumes "valet_parse co p = Inr rs" "r \<in> set rs" "pr_value r = ValetObservation v"
  shows "\<exists>doc obs i ps qs s t. load_document co p = Inr doc \<and> map_of doc ''observations'' = Some (PList obs) \<and>
    i < length obs \<and> obs ! i = PDict ps \<and> map_of ps ''d'' = Some (PStr s) \<and> parse_iso_date s = Some (vo_date v) \<and>
    map_of ps (vo_symbol v) = Some (PDict qs) \<and> map_of qs ''v'' = Some (PStr t) \<and> parse_decimal t = Some (vo_value v) \<and>
    is_finite (vo_value v) \<and> vo_retrieved_at v = rp_retrieved_at p \<and> pr_record_path r = record_path i (Some (vo_symbol v)) \<and>
    pr_record_checksum r = Some (value_checksum (co_sha co) (PDict qs))"
proof -
  obtain doc obs details metadata where d: "load_document co p = Inr doc" "map_of doc ''observations'' = Some (PList obs)"
    "rs = concat (map (parse_item co p details metadata) (enumerate 0 obs))" using valet_parse_parts [OF assms(1)] .
  then obtain i where i: "i < length obs" "r \<in> set (parse_item co p details metadata (i, obs ! i))"
    using assms(2) by (auto simp: in_set_enumerate_eq)
  have "well_keyed (obs ! i)"
    using map_of_well_keyed [OF load_document_well_keyed [OF d(1)] d(2)] i(1) by simp
  moreover obtain ps s d0 k raw where ps: "obs ! i = PDict ps" "map_of ps ''d'' = Some (PStr s)" "parse_iso_date s = Some d0"
    "(k, raw) \<in> set ps" "k \<noteq> ''d''" "r = parse_value co p details metadata i d0 (k, raw)"
    using i(2) assms(3) by (cases "obs ! i") (auto simp: parse_item_def malformed_def Let_def split: option.splits pyval.splits if_splits)
  ultimately have "map_of ps k = Some raw" by simp
  moreover obtain qs t where "raw = PDict qs" "map_of qs ''v'' = Some (PStr t)" "parse_decimal t = Some (vo_value v)"
    "is_finite (vo_value v)" "vo_symbol v = k" "vo_date v = d0" "vo_retrieved_at v = rp_retrieved_at p"
    using parse_value_observation [OF assms(3) [unfolded ps(6)]] by blast
  ultimately show ?thesis using d i ps by (metis parse_value_path parse_value_checksum)
qed

text \<open>
  C26. The parser loses nothing and confuses nothing: every series value of every item has a record of its own, observed,
  absent or malformed, and no two records of a response share a path.
\<close>

theorem valet_parse_complete:
  assumes "valet_parse co p = Inr rs" "load_document co p = Inr doc" "map_of doc ''observations'' = Some (PList obs)"
  shows "distinct (map pr_record_path rs) \<and>
    (\<forall>i<length obs. \<forall>ps k raw. obs ! i = PDict ps \<longrightarrow> map_of ps k = Some raw \<longrightarrow> k \<noteq> ''d'' \<longrightarrow>
       (\<exists>r\<in>set rs. pr_record_path r = record_path i (Some k) \<and> pr_record_checksum r = Some (value_checksum (co_sha co) raw)))"
proof (intro conjI allI impI)
  obtain doc' obs' details metadata where d: "load_document co p = Inr doc'" "map_of doc' ''observations'' = Some (PList obs')"
    "rs = concat (map (parse_item co p details metadata) (enumerate 0 obs'))" using valet_parse_parts [OF assms(1)] .
  then have rs: "rs = concat (map (parse_item co p details metadata) (enumerate 0 obs))" using assms(2,3) by simp
  have "well_keyed (PList obs)" by (rule map_of_well_keyed [OF load_document_well_keyed [OF assms(2)] assms(3)])
  then show "distinct (map pr_record_path rs)" unfolding rs by (intro distinct_parse_paths) simp
  fix i ps k raw
  assume i: "i < length obs" and ps: "obs ! i = PDict ps" "map_of ps k = Some raw" "k \<noteq> ''d''"
  let ?series = "filter (\<lambda>(k, v). k \<noteq> ''d'') ps"
  have k: "(k, raw) \<in> set ?series" using map_of_SomeD [OF ps(2)] ps(3) by auto
  then have ne: "?series \<noteq> []" by (auto simp: filter_empty_conv)
  have "\<exists>r\<in>set (parse_item co p details metadata (i, PDict ps)). pr_record_path r = record_path i (Some k) \<and>
      pr_record_checksum r = Some (value_checksum (co_sha co) raw)"
  proof (cases "case map_of ps ''d'' of Some (PStr s) \<Rightarrow> parse_iso_date s | _ \<Rightarrow> None")
    case None
    then have "parse_item co p details metadata (i, PDict ps) = map (\<lambda>(s, v). malformed co i (Some s) None ''invalid_date'' v) ?series"
      using ne unfolding parse_item_def Let_def by simp
    then show ?thesis using k by (auto simp: malformed_def intro!: bexI [of _ "(k, raw)"])
  next
    case (Some d)
    then have "parse_item co p details metadata (i, PDict ps) = map (parse_value co p details metadata i d) ?series"
      unfolding parse_item_def Let_def by simp
    then show ?thesis using k by (auto intro!: bexI [of _ "(k, raw)"])
  qed
  then show "\<exists>r\<in>set rs. pr_record_path r = record_path i (Some k) \<and> pr_record_checksum r = Some (value_checksum (co_sha co) raw)"
    unfolding rs using i ps(1) by (force simp: in_set_enumerate_eq)
qed

text \<open>
  C28. Away from the last day of the calendar the scan over the dates is the list of what the response lacks: one
  absence per requested symbol and date without a record, in the order of the dates, expected exactly on a business day.
\<close>

theorem missing_dates_are_missing:
  assumes "1 \<le> s" "e < max_ordinal"
  shows "classify_missing_dates symbols s e parsed weekend holidays =
    Inr [\<lparr>pa_instrument = x, pa_observation_date = d,
          pa_reason = (if weekday d \<notin> set weekend \<and> d \<notin> set holidays then ''omitted_expected_date'' else ''not_due''),
          pa_attributes = [(''calendar'', PStr ''canada_business'')]\<rparr>.
         d \<leftarrow> [s..e], x \<leftarrow> symbols, \<forall>r\<in>set parsed. \<not> (value_symbol (pr_value r) = Some x \<and> value_date (pr_value r) = Some d)]"
proof -
  have one: "missing_on symbols ((\<lambda>r. (value_symbol (pr_value r), value_date (pr_value r))) ` set parsed) weekend holidays d =
      [\<lparr>pa_instrument = x, pa_observation_date = d,
          pa_reason = (if weekday d \<notin> set weekend \<and> d \<notin> set holidays then ''omitted_expected_date'' else ''not_due''),
          pa_attributes = [(''calendar'', PStr ''canada_business'')]\<rparr>.
         x \<leftarrow> symbols, \<forall>r\<in>set parsed. \<not> (value_symbol (pr_value r) = Some x \<and> value_date (pr_value r) = Some d)]" for d
    unfolding missing_on_def by (induction symbols) (auto simp: image_iff)
  show ?thesis unfolding classify_missing_dates_def missing_loop_eq [OF assms order.refl] one ..
qed

text \<open>
  The response is stored before it is parsed: whatever the parser or the storage of the records do, the adapter
  leaves the stored response, with its bytes, in the session.
\<close>

theorem valet_raw_first:
  assumes "http_fetch env p request = Inr fe" "store_response sha_bytes storage response run scope dataset fe db = Inr db1"
  shows "db_raw_responses (snd (fetch_store_parse co sha_bytes storage env p response keys request run scope dataset db)) =
      db_raw_responses db1 \<and>
    (\<exists>x\<in>set (db_raw_responses db1). rr_id x = response \<and> rr_body x = rp_body (fe_payload fe) \<and>
       rr_checksum x = sha_bytes (rp_body (fe_payload fe)))"
proof
  show "db_raw_responses (snd (fetch_store_parse co sha_bytes storage env p response keys request run scope dataset db)) = db_raw_responses db1"
    using assms by (simp add: fetch_store_parse_def store_all_responses split: sum.splits)
  obtain ts where "db1 = db\<lparr>db_raw_responses := db_raw_responses db @ [stored_response sha_bytes storage response run scope dataset (fe_payload fe) ts]\<rparr>"
    using assms(2) by (auto simp: store_response_def add_response_def rbind_eq_Inr rmap_eq_Inr Let_def)
  then show "\<exists>x\<in>set (db_raw_responses db1). rr_id x = response \<and> rr_body x = rp_body (fe_payload fe) \<and>
      rr_checksum x = sha_bytes (rp_body (fe_payload fe))" by (simp add: stored_response_def Let_def)
qed

text \<open>
  What the mapper accepts is an observation of the one enabled mapping of its symbol, quoted in Canadian dollars,
  and the candidate carries its date and value.
\<close>

theorem valet_map_resolves:
  assumes "valet_map snapshot value source = Inr m"
  shows "\<exists>v x c. value = ValetObservation v \<and> m = Mapped (FxCandidate c) \<and>
    filter vs_enabled (entry_mappings (map_of snapshot (vo_symbol v))) = [x] \<and> vs_quote_currency x = ''CAD'' \<and> vs_base_currency x \<noteq> ''CAD'' \<and>
    fc_series_id c = vs_series_id x \<and> fc_observation_date c = vo_date v \<and> fc_value c = vo_value v \<and> fc_source c = source"
proof -
  obtain v where v: "value = ValetObservation v"
    using assms by (cases "value") (auto simp: valet_map_def rbind_eq_Inr)
  then obtain x c where x: "resolve_series snapshot (Some (vo_symbol v)) = Inr x" "check_orientation (vo_symbol v) x = Inr ()"
    "mk_fx_candidate (vs_series_id x) (vo_date v) (vo_value v) QuoteReference (vo_retrieved_at v) source None (valet_attributes v x) = Inr c"
    "m = Mapped (FxCandidate c)" using assms by (auto simp: valet_map_def rbind_eq_Inr rmap_eq_Inr)
  have "filter vs_enabled (entry_mappings (map_of snapshot (vo_symbol v))) = [x]"
    using x(1) by (auto simp: resolve_series_def split: list.splits)
  then show ?thesis using v x mk_fx_candidate_valid [OF x(3)] by (auto simp: check_orientation_def rguard_def split: if_splits)
qed

text \<open>
  A value the provider published as absent is not skipped: the mapper has no case for it, and the pipeline
  quarantines the record as \<open>ATTRIBUTEERROR\<close>.
\<close>

theorem valet_absence_quarantined:
  assumes "bd_map b = valet_map snapshot" "pr_value item = ValetAbsence a"
    and "store_record (rk_raw k) response (pr_record_path item) None (pr_record_checksum item) [] db = Inr (source, db1)"
    and "find_raw_record response (pr_record_path item) (db_raw_records db1) = Inr raw"
  shows "process_record sha b run scope response now k item (counts, db) =
    rmap (Pair (bump_quarantined counts)) (quarantine_add (rk_quarantine k) run scope raw ''ATTRIBUTEERROR'' ''map'' now None
      [(''record_path'', PStr (pr_record_path item))] db1)"
proof -
  have "reason (AttributeError m) = ''ATTRIBUTEERROR''" for m unfolding reason_def by simp code_simp
  then show ?thesis using assms by (simp add: process_record_def rbind_def valet_map_def)
qed

section \<open>Applications\<close>

text \<open>A response with an observation, an absence and a value that is no text.\<close>

definition sample_codecs :: codecs where
  "sample_codecs = \<lparr>co_gunzip = (\<lambda>b. None), co_decode = (\<lambda>b. Inr (map (\<lambda>w. char_of (unat w)) b)), co_float_repr = (\<lambda>s. s),
     co_sha = sample_sha\<rparr>"

definition sample_json :: string where
  "sample_json = ''{\"observations\":[{\"d\":\"2024-01-02\",\"FXUSDCAD\":{\"v\":\"1.33\"},\"FXEURCAD\":{},\"X\":{\"v\":1}}]}''"

definition valet_payload :: raw_payload where
  "valet_payload = sample_payload\<lparr>rp_body := map (\<lambda>c. of_nat (code_of c)) sample_json\<rparr>"

definition usd_mapping :: valet_series_mapping where
  "usd_mapping = \<lparr>vs_series_id = 7, vs_provider_symbol = ''FXUSDCAD'', vs_pair_symbol = ''USD/CAD'', vs_base_currency = ''USD'',
     vs_quote_currency = ''CAD'', vs_enabled = True, vs_source_metadata = []\<rparr>"

definition usd_observation :: valet_observation where
  "usd_observation = \<lparr>vo_symbol = ''FXUSDCAD'', vo_date = 738887, vo_value = Finite False 133 (-2), vo_retrieved_at = sample_now,
     vo_status_flags = [], vo_series_detail = [], vo_response_metadata = []\<rparr>"

definition eur_absence :: published_absence where
  "eur_absence = \<lparr>pa_instrument = ''FXEURCAD'', pa_observation_date = 738887, pa_reason = ''unpublished'', pa_attributes = []\<rparr>"

definition valet_records :: "valet_value parsed_record list" where
  "valet_records =
     [\<lparr>pr_value = ValetObservation usd_observation, pr_record_path = ''observations[0].FXUSDCAD'',
       pr_record_checksum = Some (value_checksum sample_sha (PDict [(''v'', PStr ''1.33'')]))\<rparr>,
      \<lparr>pr_value = ValetAbsence eur_absence, pr_record_path = ''observations[0].FXEURCAD'',
       pr_record_checksum = Some (value_checksum sample_sha (PDict []))\<rparr>,
      \<lparr>pr_value = ValetMalformed \<lparr>vm_symbol = Some ''X'', vm_date = Some 738887, vm_reason = ''value_not_string'', vm_details = []\<rparr>,
       pr_record_path = ''observations[0].X'', pr_record_checksum = Some (value_checksum sample_sha (PDict [(''v'', PInt 1)]))\<rparr>]"

lemma sample_valet: "valet_parse sample_codecs valet_payload = Inr valet_records"
  by code_simp

lemma sample_item_document:
  "\<exists>doc. load_document sample_codecs valet_payload = Inr doc \<and> map_of doc ''observations'' = Some (PList
     [PDict [(''d'', PStr ''2024-01-02''), (''FXUSDCAD'', PDict [(''v'', PStr ''1.33'')]), (''FXEURCAD'', PDict []), (''X'', PDict [(''v'', PInt 1)])]])"
proof -
  have "rmap (\<lambda>d. map_of d ''observations'') (load_document sample_codecs valet_payload) = Inr (Some (PList
     [PDict [(''d'', PStr ''2024-01-02''), (''FXUSDCAD'', PDict [(''v'', PStr ''1.33'')]), (''FXEURCAD'', PDict []), (''X'', PDict [(''v'', PInt 1)])]]))"
    by code_simp
  then show ?thesis by (auto simp: rmap_eq_Inr)
qed

lemma valet_parse_faithful_witness:
  "\<exists>doc obs i ps qs. load_document sample_codecs valet_payload = Inr doc \<and> map_of doc ''observations'' = Some (PList obs) \<and>
     i < length obs \<and> obs ! i = PDict ps \<and> map_of ps ''FXUSDCAD'' = Some (PDict qs)"
proof -
  have "hd valet_records \<in> set valet_records" "pr_value (hd valet_records) = ValetObservation usd_observation"
    by (simp_all add: valet_records_def)
  from valet_parse_faithful [OF sample_valet this] show ?thesis by (simp add: usd_observation_def) blast
qed

lemma valet_parse_complete_witness:
  "distinct (map pr_record_path valet_records) \<and>
     (\<exists>r\<in>set valet_records. pr_record_path r = record_path 0 (Some ''X'') \<and>
        pr_record_checksum r = Some (value_checksum sample_sha (PDict [(''v'', PInt 1)])))"
proof -
  obtain doc where doc: "load_document sample_codecs valet_payload = Inr doc" "map_of doc ''observations'' = Some (PList
     [PDict [(''d'', PStr ''2024-01-02''), (''FXUSDCAD'', PDict [(''v'', PStr ''1.33'')]), (''FXEURCAD'', PDict []), (''X'', PDict [(''v'', PInt 1)])]])"
    using sample_item_document by blast
  note all = valet_parse_complete [OF sample_valet doc]
  have "co_sha sample_codecs = sample_sha" by (simp add: sample_codecs_def)
  with all show ?thesis by simp
qed

lemma missing_dates_are_missing_witness:
  "classify_missing_dates [''FXUSDCAD'', ''FXEURCAD''] 738884 738887 valet_records [5, 6] [738885] =
     Inr (concat (map (\<lambda>(d, why). map (\<lambda>x. \<lparr>pa_instrument = x, pa_observation_date = d, pa_reason = why,
        pa_attributes = [(''calendar'', PStr ''canada_business'')]\<rparr>) [''FXUSDCAD'', ''FXEURCAD''])
        [(738884, ''not_due''), (738885, ''not_due''), (738886, ''omitted_expected_date'')]))"
proof -
  have "[738884..738887] = [738884, 738885, 738886, 738887::int]" by (simp add: upto_rec1)
  moreover have "738887 < max_ordinal" by (simp add: max_ordinal_def)
  ultimately show ?thesis
    by (simp add: missing_dates_are_missing valet_records_def usd_observation_def eur_absence_def weekday_def)
qed

lemma valet_raw_first_witness:
  "\<exists>x\<in>set (db_raw_responses (snd (fetch_store_parse (sample_codecs\<lparr>co_decode := \<lambda>b. Inl (ValueError ''utf-8'')\<rparr>) sample_sha_bytes
       default_storage_policy (sample_env 0 nan_server) default_http_policy 30 (\<lambda>n. 40) sample_request 1 10 2 claimed_db))).
     rr_body x = [91, 93]"
proof -
  have "rmap (\<lambda>fe. rp_body (fe_payload fe)) (http_fetch (sample_env 0 nan_server) default_http_policy sample_request) = Inr [91, 93] \<and>
      is_ok (rbind (http_fetch (sample_env 0 nan_server) default_http_policy sample_request)
        (\<lambda>fe. store_response sample_sha_bytes default_storage_policy 30 1 10 2 fe claimed_db))" by code_simp
  then obtain fe db1 where fe: "http_fetch (sample_env 0 nan_server) default_http_policy sample_request = Inr fe"
    "rp_body (fe_payload fe) = [91, 93]" "store_response sample_sha_bytes default_storage_policy 30 1 10 2 fe claimed_db = Inr db1"
    by (auto simp: rmap_eq_Inr rbind_eq_Inr is_ok_iff)
  from valet_raw_first [OF fe(1,3), of "sample_codecs\<lparr>co_decode := \<lambda>b. Inl (ValueError ''utf-8'')\<rparr>" "\<lambda>n. 40"] fe(2)
  show ?thesis by auto
qed

lemma valet_map_resolves_witness:
  "\<exists>m. valet_map [(''FXUSDCAD'', OneMapping usd_mapping)] (ValetObservation usd_observation) \<lparr>sl_raw_response_id = 30,
      sl_record_path = ''p'', sl_record_checksum = None\<rparr> = Inr m \<and> (\<exists>c. m = Mapped (FxCandidate c) \<and> fc_series_id c = 7)"
proof -
  let ?s = "\<lparr>sl_raw_response_id = 30, sl_record_path = ''p'', sl_record_checksum = None\<rparr>"
  have "is_ok (valet_map [(''FXUSDCAD'', OneMapping usd_mapping)] (ValetObservation usd_observation) ?s)" by code_simp
  then obtain m where m: "valet_map [(''FXUSDCAD'', OneMapping usd_mapping)] (ValetObservation usd_observation) ?s = Inr m"
    by (auto simp: is_ok_iff)
  from valet_map_resolves [OF m] m show ?thesis by (auto simp: usd_observation_def usd_mapping_def)
qed

lemma valet_absence_quarantined_witness:
  "\<exists>db'. process_record sample_sha \<lparr>bd_request = sample_request, bd_parse = valet_parse sample_codecs,
        bd_map = valet_map [(''FXEURCAD'', OneMapping usd_mapping)], bd_stable_keys = (\<lambda>s. None), bd_validate = (\<lambda>c. Inr sample_valid),
        bd_trigger = None\<rparr> 1 10 30 63763200000000000 (ky_records sample_keys 1) (valet_records ! 1) (empty_counts, claimed_db) =
      Inr (bump_quarantined empty_counts, db')"
proof -
  let ?b = "\<lparr>bd_request = sample_request, bd_parse = valet_parse sample_codecs, bd_map = valet_map [(''FXEURCAD'', OneMapping usd_mapping)],
     bd_stable_keys = (\<lambda>s. None), bd_validate = (\<lambda>c. Inr sample_valid), bd_trigger = None\<rparr>"
  let ?r = "valet_records ! 1"
  have "is_ok (rbind (store_record 41 30 (pr_record_path ?r) None (pr_record_checksum ?r) [] claimed_db) (\<lambda>(s, db1).
      rbind (find_raw_record 30 (pr_record_path ?r) (db_raw_records db1)) (\<lambda>raw.
      quarantine_add 51 1 10 raw ''ATTRIBUTEERROR'' ''map'' 63763200000000000 None [(''record_path'', PStr (pr_record_path ?r))] db1)))"
    by code_simp
  then obtain s db1 raw db2 where s: "store_record (rk_raw (ky_records sample_keys 1)) 30 (pr_record_path ?r) None (pr_record_checksum ?r) [] claimed_db = Inr (s, db1)"
    "find_raw_record 30 (pr_record_path ?r) (db_raw_records db1) = Inr raw"
    "quarantine_add (rk_quarantine (ky_records sample_keys 1)) 1 10 raw ''ATTRIBUTEERROR'' ''map'' 63763200000000000 None
       [(''record_path'', PStr (pr_record_path ?r))] db1 = Inr db2"
    by (auto simp: rbind_eq_Inr is_ok_iff sample_keys_def)
  have "bd_map ?b = valet_map [(''FXEURCAD'', OneMapping usd_mapping)]" "pr_value ?r = ValetAbsence eur_absence"
    by (simp_all add: valet_records_def)
  from valet_absence_quarantined [OF this s(1,2)] s(3) show ?thesis by (simp add: rmap_def)
qed

end
