(* ===== verification/Bis_Client.thy ===== *)
theory Bis_Client
  imports Provider_Codecs Http_Fetch
begin

text \<open>
  \<open>app/providers/bis/client.py\<close>: the requests for a list of series keys and a range of dates, cut into
  pieces of at most \<open>max_range_days\<close> days and \<open>max_series_per_request\<close> keys, and the wrapping of fetched and of
  bulk payloads.
\<close>

section \<open>The client\<close>

record bis_client =
  bc_dataset :: string
  bc_dataflow :: string
  bc_endpoint_template :: string
  bc_max_range_days :: int
  bc_max_series :: int
  bc_media_type :: string

definition mk_bis_client :: "bis_client \<Rightarrow> bis_client res" where
  "mk_bis_client c =
     (if bc_max_range_days c < 1 \<or> bc_max_series c < 1 then Inl (ValueError ''BIS request limits must be positive'') else Inr c)"

definition default_bis_client :: "string \<Rightarrow> string \<Rightarrow> bis_client" where
  "default_bis_client dataset dataflow = \<lparr>bc_dataset = dataset, bc_dataflow = dataflow, bc_endpoint_template = ''data/{dataflow}/{series}'',
     bc_max_range_days = 366, bc_max_series = 1, bc_media_type = ''application/vnd.sdmx.data+json;version=2.0.0''\<rparr>"

definition bis_request :: "bis_client \<Rightarrow> date \<Rightarrow> date \<Rightarrow> string list \<Rightarrow> fetch_request res" where
  "bis_request c s e picked =
     rmap (\<lambda>path. \<lparr>fr_dataset = bc_dataset c, fr_instruments = picked, fr_date_range = \<lparr>dr_start = s, dr_end = e\<rparr>,
                   fr_endpoint_name = ''bis_sdmx_data'', fr_path = ''/'' @ lstrip_char (CHR ''/'') path,
                   fr_parameters = [(''startPeriod'', Text (iso_date s)), (''endPeriod'', Text (iso_date e))]\<rparr>)
       (format_template [(''dataflow'', bc_dataflow c), (''series'', join ''+'' picked)] (bc_endpoint_template c))"

text \<open>\<open>keys[offset : offset + step]\<close> for the offsets in steps, of a positive step.\<close>

fun slices :: "nat \<Rightarrow> 'a list \<Rightarrow> 'a list list" where
  "slices n [] = []"
| "slices n (x # xs) = (x # take (n - 1) xs) # slices n (drop (n - 1) xs)"

text \<open>
  The loop over the pieces of the range.  Date arithmetic past the calendar raises; the constructor of
  \<open>DateRange\<close> is total here, since a piece never ends before it starts.  The constructor of the client excludes a
  step below one, for which the loop would not advance.
\<close>

function range_pieces :: "int \<Rightarrow> date \<Rightarrow> date \<Rightarrow> (date \<Rightarrow> date \<Rightarrow> 'a list res) \<Rightarrow> 'a list res" where
  "range_pieces step s e f =
     (if s > e \<or> step < 1 then Inr []
      else rbind (add_days s (step - 1)) (\<lambda>limit.
           (let piece_end = min e limit in
            rbind (f s piece_end) (\<lambda>xs.
            rbind (add_days piece_end 1) (\<lambda>start'.
            rmap ((@) xs) (range_pieces step start' e f))))))"
  by pat_completeness auto
termination
  by (relation "measure (\<lambda>(step, s, e, f). nat (e + 1 - s))") (auto simp: add_days_def split: if_splits)

definition bis_requests :: "bis_client \<Rightarrow> string list \<Rightarrow> date_range \<Rightarrow> fetch_request list res" where
  "bis_requests c series_keys period =
     (let keys = dedupe series_keys
      in rbind (rguard (keys \<noteq> []) (ProviderContractError ''BIS request requires at least one complete series key'' [])) (\<lambda>_.
         range_pieces (bc_max_range_days c) (dr_start period) (dr_end period)
           (\<lambda>s e. traverse (bis_request c s e) (slices (nat (bc_max_series c)) keys))))"

definition bis_fetch :: "http_env \<Rightarrow> http_policy \<Rightarrow> bis_client \<Rightarrow> fetch_request \<Rightarrow> fetch_result res" where
  "bis_fetch env p c request =
     rmap (\<lambda>fe. fe\<lparr>fe_payload := (fe_payload fe)\<lparr>rp_request :=
         mk_request_metadata (rm_method (rp_request (fe_payload fe))) (rm_endpoint_name (rp_request (fe_payload fe)))
           [(''start_date'', Text (iso_date (dr_start (fr_date_range request)))),
            (''end_date'', Text (iso_date (dr_end (fr_date_range request)))),
            (''format'', Text (bc_media_type c)), (''key'', Texts (fr_instruments request))]\<rparr>\<rparr>)
       (http_fetch env p request)"

text \<open>Each request of \<open>fetch_all\<close> meets its own transport.\<close>

definition bis_fetch_all ::
  "(nat \<Rightarrow> http_env) \<Rightarrow> http_policy \<Rightarrow> bis_client \<Rightarrow> string list \<Rightarrow> date_range \<Rightarrow> fetch_result list res" where
  "bis_fetch_all envs p c series_keys period =
     rbind (bis_requests c series_keys period) (\<lambda>requests.
       traverse (\<lambda>(i, request). bis_fetch (envs i) p c request) (enumerate 0 requests))"

definition bulk_payload :: "bytes \<Rightarrow> datetime \<Rightarrow> string \<Rightarrow> string option \<Rightarrow> fetch_result res" where
  "bulk_payload body retrieved_at media_type dataset_version =
     rmap (\<lambda>p. \<lparr>fe_payload = p, fe_retry = \<lparr>rt_attempts = 1, rt_delays = []\<rparr>\<rparr>)
       (mk_raw_payload body media_type 200 retrieved_at (mk_request_metadata ''GET'' ''bis_bulk_download'' [])
          (case dataset_version of None \<Rightarrow> [] | Some v \<Rightarrow> (if v = [] then [] else [(''dataset-version'', v)])))"

section \<open>Lemmas\<close>

lemma concat_slices: "1 \<le> n \<Longrightarrow> concat (slices n xs) = xs"
  by (induction n xs rule: slices.induct) simp_all

lemma slices_bound: "1 \<le> n \<Longrightarrow> g \<in> set (slices n xs) \<Longrightarrow> g \<noteq> [] \<and> length g \<le> n"
  by (induction n xs rule: slices.induct) auto

lemma slices_once:
  assumes "1 \<le> n" "distinct xs" "k \<in> set xs"
  shows "length (filter (\<lambda>g. k \<in> set g) (slices n xs)) = 1"
proof -
  have "length (filter (\<lambda>g. k \<in> set g) gs) = (if k \<in> set (concat gs) then 1 else 0)" if "distinct (concat gs)" for gs
    using that by (induction gs) auto
  from this [of "slices n xs"] show ?thesis using assms concat_slices [of n xs] by simp
qed

lemma range_pieces_count:
  assumes "1 \<le> step" "\<And>s' e' ys. f s' e' = Inr ys \<Longrightarrow> s' \<le> e' \<Longrightarrow> length (filter P ys) = (if s' \<le> d \<and> d \<le> e' then 1 else 0)"
  shows "range_pieces step s e f = Inr xs \<Longrightarrow> length (filter P xs) = (if s \<le> d \<and> d \<le> e then 1 else 0)"
  using assms
proof (induction step s e f arbitrary: xs rule: range_pieces.induct)
  case (1 step s e f)
  show ?case
  proof (cases "s > e")
    case False
    then obtain limit ys s' zs where p: "add_days s (step - 1) = Inr limit" "f s (min e limit) = Inr ys" "add_days (min e limit) 1 = Inr s'"
      "range_pieces step s' e f = Inr zs" "xs = ys @ zs"
      using 1(2,3) by (auto simp: rbind_eq_Inr rmap_eq_Inr Let_def simp del: range_pieces.simps simp: range_pieces.simps [of step s e f])
    have l: "s \<le> limit" "s' = min e limit + 1" using p(1,3) 1(3) by (auto simp: add_days_def split: if_splits)
    have "length (filter P zs) = (if s' \<le> d \<and> d \<le> e then 1 else 0)"
      by (rule 1(1) [OF _ p(1) refl p(2,3,4)]) (use 1 False in auto)
    moreover have "length (filter P ys) = (if s \<le> d \<and> d \<le> min e limit then 1 else 0)"
      by (rule 1(4) [OF p(2)]) (use l False in simp)
    ultimately show ?thesis using p(5) l False by auto
  qed (use 1(2) in \<open>simp add: range_pieces.simps [of step s e f]\<close>)
qed

lemma range_pieces_all:
  assumes "1 \<le> step" "\<And>s' e' ys y. f s' e' = Inr ys \<Longrightarrow> s \<le> s' \<Longrightarrow> s' \<le> e' \<Longrightarrow> e' \<le> e \<Longrightarrow> e' - s' + 1 \<le> step \<Longrightarrow> y \<in> set ys \<Longrightarrow> Q y"
  shows "range_pieces step s e f = Inr xs \<Longrightarrow> x \<in> set xs \<Longrightarrow> Q x"
  using assms
proof (induction step s e f arbitrary: xs rule: range_pieces.induct)
  case (1 step s e f)
  show ?case
  proof (cases "s > e")
    case False
    then obtain limit ys s' zs where p: "add_days s (step - 1) = Inr limit" "f s (min e limit) = Inr ys" "add_days (min e limit) 1 = Inr s'"
      "range_pieces step s' e f = Inr zs" "xs = ys @ zs"
      using 1(2,4) by (auto simp: rbind_eq_Inr rmap_eq_Inr Let_def simp del: range_pieces.simps simp: range_pieces.simps [of step s e f])
    have l: "s \<le> limit" "limit = s + (step - 1)" "s' = min e limit + 1" using p(1,3) 1(4) by (auto simp: add_days_def split: if_splits)
    consider "x \<in> set ys" | "x \<in> set zs" using 1(3) p(5) by auto
    then show ?thesis
    proof cases
      case 1
      show ?thesis by (rule "1.prems"(4) [OF p(2) _ _ _ _ 1]) (use l False in auto)
    next
      case 2
      show ?thesis
        by (rule "1.IH" [OF _ p(1) refl p(2,3,4) 2 "1.prems"(3)], use "1.prems"(3) False in simp, rule "1.prems"(4)) (use l False in auto)
    qed
  qed (use 1(2,3) in \<open>simp add: range_pieces.simps [of step s e f]\<close>)
qed

lemma range_pieces_ok:
  assumes "1 \<le> step" "1 \<le> s" "e + step \<le> max_ordinal" "\<And>s' e'. is_ok (f s' e')"
  shows "is_ok (range_pieces step s e f)"
  using assms
proof (induction step s e f rule: range_pieces.induct)
  case (1 step s e f)
  show ?case
  proof (cases "s > e")
    case False
    then have p: "add_days s (step - 1) = Inr (s + (step - 1))" "add_days (min e (s + (step - 1))) 1 = Inr (min e (s + (step - 1)) + 1)"
      using 1(2-4) by (auto simp: add_days_def valid_date_def)
    obtain ys where ys: "f s (min e (s + (step - 1))) = Inr ys" using 1(5) by (auto simp: is_ok_iff)
    have "is_ok (range_pieces step (min e (s + (step - 1)) + 1) e f)"
      by (rule 1(1) [OF _ p(1) refl ys p(2)]) (use 1 False in auto)
    moreover have "range_pieces step s e f = rmap ((@) ys) (range_pieces step (min e (s + (step - 1)) + 1) e f)"
      unfolding range_pieces.simps [of step s e f] using p ys False 1(2) by (simp add: Let_def del: range_pieces.simps)
    ultimately show ?thesis by (auto simp: is_ok_iff simp del: range_pieces.simps)
  qed (simp add: range_pieces.simps [of step s e f] is_ok_def)
qed

lemma bis_request_fields:
  "bis_request c s e picked = Inr q \<Longrightarrow> fr_instruments q = picked \<and> dr_start (fr_date_range q) = s \<and> dr_end (fr_date_range q) = e"
  by (auto simp: bis_request_def rmap_eq_Inr)

lemma traverse_requests:
  assumes "traverse (bis_request c s e) gs = Inr qs"
  shows "map fr_instruments qs = gs" "\<And>q. q \<in> set qs \<Longrightarrow> dr_start (fr_date_range q) = s \<and> dr_end (fr_date_range q) = e"
proof -
  have l: "list_all2 (\<lambda>g q. bis_request c s e g = Inr q) gs qs" using assms by (simp add: traverse_Inr_iff)
  then show "map fr_instruments qs = gs" by (induction rule: list_all2_induct) (auto dest: bis_request_fields)
  show "q \<in> set qs \<Longrightarrow> dr_start (fr_date_range q) = s \<and> dr_end (fr_date_range q) = e" for q
    using l by (induction rule: list_all2_induct) (auto dest: bis_request_fields)
qed

definition asks_for :: "string \<Rightarrow> date \<Rightarrow> fetch_request \<Rightarrow> bool" where
  "asks_for k d q \<longleftrightarrow> k \<in> set (fr_instruments q) \<and> dr_start (fr_date_range q) \<le> d \<and> d \<le> dr_end (fr_date_range q)"

section \<open>Properties\<close>


lemma bis_request_ok:
  "(\<And>s. is_ok (format_template [(''dataflow'', bc_dataflow c), (''series'', s)] (bc_endpoint_template c))) \<Longrightarrow> is_ok (bis_request c s e g)"
  by (auto simp: bis_request_def is_ok_iff rmap_eq_Inr)

lemma bis_requests_ok:
  assumes "mk_bis_client c = Inr c'" "keys \<noteq> []" "\<And>s. is_ok (format_template [(''dataflow'', bc_dataflow c), (''series'', s)] (bc_endpoint_template c))"
    "1 \<le> dr_start period" "dr_end period + bc_max_range_days c \<le> max_ordinal"
  shows "is_ok (bis_requests c keys period)"
proof -
  have "is_ok (traverse (bis_request c s e) gs)" for s e gs
  proof -
    have "traverse (bis_request c s e) gs = Inr (map (\<lambda>g. projr (bis_request c s e g)) gs)"
      by (rule traverse_ok_map) (use bis_request_ok [OF assms(3)] in \<open>metis is_ok_iff sum.sel(2)\<close>)
    then show ?thesis by simp
  qed
  then have "is_ok (range_pieces (bc_max_range_days c) (dr_start period) (dr_end period)
      (\<lambda>s e. traverse (bis_request c s e) (slices (nat (bc_max_series c)) (dedupe keys))))"
    using assms(1,4,5) by (intro range_pieces_ok) (auto simp: mk_bis_client_def split: if_splits)
  then show ?thesis using assms(2) by (simp add: bis_requests_def Let_def del: range_pieces.simps)
qed

text \<open>
  C25. The loop over the pieces ends with a result: for a template that can be filled in, a client within its limits and a
  range away from the last days of the calendar, the requests are built, however long the range is; a range within the
  limit of the client and its keys within theirs give a single request, for the whole range.
\<close>

theorem bis_requests_terminate:
  assumes "mk_bis_client c = Inr c'" "keys \<noteq> []" "\<And>s. is_ok (format_template [(''dataflow'', bc_dataflow c), (''series'', s)] (bc_endpoint_template c))"
    "1 \<le> dr_start period" "dr_start period \<le> dr_end period" "dr_end period + bc_max_range_days c \<le> max_ordinal"
  shows "\<exists>rs. bis_requests c keys period = Inr rs \<and>
    (dr_end period - dr_start period + 1 \<le> bc_max_range_days c \<and> int (length keys) \<le> bc_max_series c \<longrightarrow>
      (\<exists>q. rs = [q] \<and> dr_start (fr_date_range q) = dr_start period \<and> dr_end (fr_date_range q) = dr_end period \<and>
         fr_instruments q = dedupe keys))"
proof -
  let ?n = "nat (bc_max_series c)"
  let ?f = "\<lambda>s e. traverse (bis_request c s e) (slices ?n (dedupe keys))"
  have limits: "1 \<le> bc_max_range_days c" "1 \<le> bc_max_series c" "1 \<le> ?n" using assms(1) by (auto simp: mk_bis_client_def split: if_splits)
  obtain rs where rs: "bis_requests c keys period = Inr rs"
    using bis_requests_ok [OF assms(1-4,6)] by (auto simp: is_ok_iff)
  then have rp: "range_pieces (bc_max_range_days c) (dr_start period) (dr_end period) ?f = Inr rs"
    using assms(2) by (simp add: bis_requests_def Let_def del: range_pieces.simps)
  have "\<exists>q. rs = [q] \<and> dr_start (fr_date_range q) = dr_start period \<and> dr_end (fr_date_range q) = dr_end period \<and> fr_instruments q = dedupe keys"
    if small: "dr_end period - dr_start period + 1 \<le> bc_max_range_days c" "int (length keys) \<le> bc_max_series c"
  proof -
    have len: "length (dedupe keys) \<le> ?n"
      using small(2) card_length [of keys] distinct_card [OF distinct_dedupe [of keys]] limits(2) by simp
    obtain k ks where k: "dedupe keys = k # ks" using assms(2) by (cases "dedupe keys") auto
    then have one: "slices ?n (dedupe keys) = [dedupe keys]" using len by simp
    obtain q where q: "bis_request c (dr_start period) (dr_end period) (dedupe keys) = Inr q"
      using bis_request_ok [OF assms(3)] by (metis is_ok_iff)
    have d: "add_days (dr_start period) (bc_max_range_days c - 1) = Inr (dr_start period + (bc_max_range_days c - 1))"
      "min (dr_end period) (dr_start period + (bc_max_range_days c - 1)) = dr_end period" "add_days (dr_end period) 1 = Inr (dr_end period + 1)"
      using assms(4-6) small(1) limits(1) by (auto simp: add_days_def valid_date_def)
    have "range_pieces (bc_max_range_days c) (dr_end period + 1) (dr_end period) ?f = Inr []" by (subst range_pieces.simps) simp
    then have "range_pieces (bc_max_range_days c) (dr_start period) (dr_end period) ?f = Inr [q]"
      using assms(5) limits(1) d one q by (subst range_pieces.simps) (simp add: Let_def del: range_pieces.simps)
    then show ?thesis using rp bis_request_fields [OF q] by (auto simp del: range_pieces.simps)
  qed
  then show ?thesis using rs by blast
qed

section \<open>Applications\<close>

definition bis_sample :: bis_client where
  "bis_sample = (default_bis_client ''bis'' ''WS_CBPOL'')\<lparr>bc_max_range_days := 2, bc_max_series := 2\<rparr>"

lemma bis_sample_ok: "mk_bis_client bis_sample = Inr bis_sample"
    "is_ok (format_template [(''dataflow'', bc_dataflow bis_sample), (''series'', s)] (bc_endpoint_template bis_sample))"
proof -
  show "mk_bis_client bis_sample = Inr bis_sample" by code_simp
  have "format_template [(''dataflow'', bc_dataflow bis_sample), (''series'', s)] (bc_endpoint_template bis_sample) = Inr (''data/WS_CBPOL/'' @ s)"
    by (simp add: bis_sample_def default_bis_client_def rmap_def is_digit_def code_of_def)
  then show "is_ok (format_template [(''dataflow'', bc_dataflow bis_sample), (''series'', s)] (bc_endpoint_template bis_sample))" by simp
qed


lemma bis_requests_terminate_witness:
  "\<exists>q. bis_requests bis_sample [''D.CA'', ''D.US''] \<lparr>dr_start = 738000, dr_end = 738001\<rparr> = Inr [q] \<and> fr_instruments q = [''D.CA'', ''D.US'']"
proof -
  have "bc_max_range_days bis_sample = 2" "bc_max_series bis_sample = 2" by code_simp+
  with bis_requests_terminate [OF bis_sample_ok(1) _ bis_sample_ok(2), of "[''D.CA'', ''D.US'']" "\<lparr>dr_start = 738000, dr_end = 738001\<rparr>"]
  show ?thesis by (auto simp: max_ordinal_def dedupe_def)
qed

end
