(* ===== verification/Py_Csv.thy ===== *)
theory Py_Csv
  imports Prelude
begin

text \<open>
  The reader of Python's \<open>csv\<close> module in its default dialect (comma, double quote, doubled quotes, not strict)
  over the lines of \<open>io.StringIO(text)\<close>, which end at a line feed, and the header and rows \<open>DictReader\<close> makes of it.
\<close>

section \<open>The state machine\<close>

datatype csv_state = StartRecord | StartField | InField | InQuoted | QuoteInQuoted | EatNewline

record csv_reader =
  cr_state :: csv_state
  cr_field :: string
  cr_fields :: "string list"

definition csv_start :: csv_reader where
  "csv_start = \<lparr>cr_state = StartRecord, cr_field = [], cr_fields = []\<rparr>"

definition field_limit :: int where "field_limit = 131072"

definition add_char :: "char \<Rightarrow> csv_state \<Rightarrow> csv_reader \<Rightarrow> csv_reader res" where
  "add_char c st r =
     (if int (length (cr_field r)) \<ge> field_limit then Inl (CsvError ''field larger than field limit (131072)'')
      else Inr (r\<lparr>cr_state := st, cr_field := cr_field r @ [c]\<rparr>))"

definition save_field :: "csv_state \<Rightarrow> csv_reader \<Rightarrow> csv_reader" where
  "save_field st r = r\<lparr>cr_state := st, cr_field := [], cr_fields := cr_fields r @ [cr_field r]\<rparr>"

definition is_newline :: "char \<Rightarrow> bool" where
  "is_newline c \<longleftrightarrow> c = CHR 0x0A \<or> c = CHR 0x0D"

fun start_field :: "char option \<Rightarrow> csv_reader \<Rightarrow> csv_reader res" where
  "start_field None r = Inr (save_field StartRecord r)"
| "start_field (Some c) r =
     (if is_newline c then Inr (save_field EatNewline r)
      else if c = CHR 0x22 then Inr (r\<lparr>cr_state := InQuoted\<rparr>)
      else if c = CHR '','' then Inr (save_field StartField r)
      else add_char c InField r)"

text \<open>\<open>parse_process_char\<close>; \<open>None\<close> is the end of a line.\<close>

definition process_char :: "char option \<Rightarrow> csv_reader \<Rightarrow> csv_reader res" where
  "process_char ch r =
     (case cr_state r of
        StartRecord \<Rightarrow>
          (case ch of None \<Rightarrow> Inr r
           | Some c \<Rightarrow> (if is_newline c then Inr (r\<lparr>cr_state := EatNewline\<rparr>) else start_field ch r))
      | StartField \<Rightarrow> start_field ch r
      | InField \<Rightarrow>
          (case ch of None \<Rightarrow> Inr (save_field StartRecord r)
           | Some c \<Rightarrow> (if is_newline c then Inr (save_field EatNewline r)
                        else if c = CHR '','' then Inr (save_field StartField r)
                        else add_char c InField r))
      | InQuoted \<Rightarrow>
          (case ch of None \<Rightarrow> Inr r
           | Some c \<Rightarrow> (if c = CHR 0x22 then Inr (r\<lparr>cr_state := QuoteInQuoted\<rparr>) else add_char c InQuoted r))
      | QuoteInQuoted \<Rightarrow>
          (case ch of None \<Rightarrow> Inr (save_field StartRecord r)
           | Some c \<Rightarrow> (if c = CHR 0x22 then add_char c InQuoted r
                        else if c = CHR '','' then Inr (save_field StartField r)
                        else if is_newline c then Inr (save_field EatNewline r)
                        else add_char c InField r))
      | EatNewline \<Rightarrow>
          (case ch of None \<Rightarrow> Inr (r\<lparr>cr_state := StartRecord\<rparr>)
           | Some c \<Rightarrow> (if is_newline c then Inr r
                        else Inl (CsvError ''new-line character seen in unquoted field''))))"

definition process_line :: "string \<Rightarrow> csv_reader \<Rightarrow> csv_reader res" where
  "process_line line r = rbind (rfold (\<lambda>c. process_char (Some c)) line r) (process_char None)"

section \<open>Lines and rows\<close>

text \<open>The lines of a \<open>StringIO\<close>, each with its line feed.\<close>

fun lines_of :: "string \<Rightarrow> string list" where
  "lines_of [] = []"
| "lines_of (c # cs) =
     (if c = CHR 0x0A then [c] # lines_of cs
      else (case lines_of cs of [] \<Rightarrow> [[c]] | l # ls \<Rightarrow> (c # l) # ls))"

text \<open>
  \<open>next(reader)\<close> until it stops: the rows, and the exception that ended them, if one did.  A row ends when a line
  leaves the machine at the start of a record; at the end of the lines an unfinished quoted field is taken as it is.
\<close>

fun read_rows :: "csv_reader \<Rightarrow> string list \<Rightarrow> string list list \<times> exn option" where
  "read_rows r [] =
     (if cr_field r \<noteq> [] \<or> cr_state r = InQuoted then [cr_fields (save_field StartRecord r)] else [], None)"
| "read_rows r (l # ls) =
     (case process_line l r of
        Inl e \<Rightarrow> ([], Some e)
      | Inr r' \<Rightarrow>
          (if cr_state r' = StartRecord then map_prod (Cons (cr_fields r')) (\<lambda>e. e) (read_rows csv_start ls) else read_rows r' ls))"

definition csv_rows :: "string \<Rightarrow> string list list \<times> exn option" where
  "csv_rows s = read_rows csv_start (lines_of s)"

text \<open>
  A row of \<open>DictReader\<close>: the columns that have a cell or, past the end of the row, none; and the cells past
  the header, which stand under the key \<open>None\<close>.
\<close>

record dict_row =
  dw_cells :: "string option dict"
  dw_rest :: "string list"

definition dict_row_of :: "string list \<Rightarrow> string list \<Rightarrow> dict_row" where
  "dict_row_of header row =
     \<lparr>dw_cells = dict_of (zip header (map Some row @ replicate (length header - length row) None)),
      dw_rest = drop (length header) row\<rparr>"

text \<open>The rows after the header; blank ones are skipped.\<close>

definition dict_rows :: "string list \<Rightarrow> string list list \<Rightarrow> dict_row list" where
  "dict_rows header rows = map (dict_row_of header) (filter (\<lambda>row. row \<noteq> []) rows)"

lemma csv_examples:
  "csv_rows (''a,'' @ [CHR 0x22, CHR ''b'', CHR 0x22, CHR 0x22, CHR ''c'', CHR 0x22] @ '','' @ [CHR 0x0D, CHR 0x0A, CHR 0x0A] @
      ''d,'' @ [CHR 0x22, CHR ''e'', CHR 0x0A, CHR ''f'', CHR 0x22])
     = ([[''a'', [CHR ''b'', CHR 0x22, CHR ''c''], []], [], [''d'', [CHR ''e'', CHR 0x0A, CHR ''f'']]], None)"
  "snd (csv_rows [CHR ''a'', CHR 0x0D, CHR ''b'']) = Some (CsvError ''new-line character seen in unquoted field'')"
  by code_simp+

end
