(* ===== verification/Bis_Parser.thy ===== *)
theory Bis_Parser
  imports Bis_Client Py_Csv Normalization Pipeline
begin

text \<open>
  \<open>app/providers/bis/models.py\<close>, \<open>parser.py\<close> and \<open>mapper.py\<close>: BIS records from SDMX-JSON and from bulk CSV, and
  their mapping to policy-rate candidates.  A value read from JSON is a \<open>pyval\<close> (numbers are kept as text there), a
  missing cell of CSV is \<open>PNone\<close>.  An exception of the generator discards what it yielded before.  Attribute names
  that are not text are a \<open>TypeError\<close>; Python also accepts \<open>None\<close>, a boolean and NaN there.
\<close>

section \<open>Models\<close>

record bis_record =
  br_dataflow :: string
  br_series_key :: string
  br_economy :: pyval
  br_currency :: pyval
  br_frequency :: pyval
  br_unit :: pyval
  br_collection :: pyval
  br_date :: date
  br_value :: "decimal option"
  br_publication :: "instant option"
  br_dataset_version :: "string option"
  br_attributes :: "pyval dict"

record bis_mapping =
  bm_series_id :: uuid
  bm_dataflow :: string
  bm_series_key :: string
  bm_economy :: string
  bm_currency :: string
  bm_effective_from :: date
  bm_effective_to :: "date option"
  bm_enabled :: bool

definition complete_key :: "bis_mapping \<Rightarrow> string" where
  "complete_key m = bm_dataflow m @ '':'' @ bm_series_key m"

definition mapping_applies :: "bis_mapping \<Rightarrow> date \<Rightarrow> bool" where
  "mapping_applies m d \<longleftrightarrow> bm_effective_from m \<le> d \<and> (case bm_effective_to m of None \<Rightarrow> True | Some e \<Rightarrow> d \<le> e)"

record bis_parser =
  bp_dataflow :: string
  bp_dimension_order :: "string list"
  bp_currency :: "string option"
  bp_collection :: "string option"
  bp_unit :: "string option"

text \<open>What the parser takes from its surroundings: decompression, decoding, SHA-256 and \<open>str\<close> of containers.\<close>

record bis_codecs =
  bx_gunzip :: "bytes \<Rightarrow> bytes option"
  bx_utf8 :: "bytes \<Rightarrow> string res"
  bx_utf8_sig :: "bytes \<Rightarrow> string res"
  bx_sha :: "string \<Rightarrow> string"
  bx_str :: "pyval \<Rightarrow> string"

definition series_aliases :: "string dict" where
  "series_aliases = [(''FREQ'', ''frequency''), (''REF_AREA'', ''economy''), (''ECONOMY'', ''economy''), (''CURRENCY'', ''currency''),
     (''UNIT_MEASURE'', ''unit''), (''UNIT'', ''unit''), (''COLLECTION'', ''collection_indicator''),
     (''COLLECTION_INDICATOR'', ''collection_indicator''), (''INSTRUMENT'', ''instrument'')]"

section \<open>Values of Python\<close>

text \<open>\<open>value.get(key, default)\<close> and \<open>value[index]\<close> of values whose type is not checked first.\<close>

definition attr_error :: "string \<Rightarrow> exn" where
  "attr_error name = AttributeError (''object has no attribute '' @ name)"

definition as_dict :: "pyval \<Rightarrow> pyval dict res" where
  "as_dict v = (case v of PDict ps \<Rightarrow> Inr ps | _ \<Rightarrow> Inl (attr_error ''get''))"

definition value_get :: "pyval \<Rightarrow> string \<Rightarrow> pyval \<Rightarrow> pyval res" where
  "value_get v k dflt = rmap (\<lambda>ps. dict_get ps k dflt) (as_dict v)"

definition index_list :: "'a list \<Rightarrow> int \<Rightarrow> 'a res" where
  "index_list xs i =
     (if 0 \<le> i \<and> i < int (length xs) then Inr (xs ! nat i)
      else if - int (length xs) \<le> i \<and> i < 0 then Inr (xs ! nat (int (length xs) + i))
      else Inl (IndexError ''list index out of range''))"

definition subscript :: "pyval \<Rightarrow> int \<Rightarrow> pyval res" where
  "subscript v i = (case v of
     PList xs \<Rightarrow> index_list xs i
   | PTuple xs \<Rightarrow> index_list xs i
   | PStr s \<Rightarrow> rmap (\<lambda>c. PStr [c]) (index_list s i)
   | PDict ps \<Rightarrow> Inl (KeyError (show_int i))
   | _ \<Rightarrow> Inl (TypeError ''object is not subscriptable''))"

definition int_of_value :: "pyval \<Rightarrow> int res" where
  "int_of_value v = (case v of
     PInt i \<Rightarrow> Inr i
   | PBool b \<Rightarrow> Inr (if b then 1 else 0)
   | PStr s \<Rightarrow> (case int_of_text s of None \<Rightarrow> Inl (ValueError ''invalid literal for int()'') | Some i \<Rightarrow> Inr i)
   | PFloat r \<Rightarrow> (if r = ''nan'' then Inl (ValueError ''cannot convert float NaN to integer'')
                 else Inl (OverflowError ''cannot convert float infinity to integer''))
   | _ \<Rightarrow> Inl (TypeError ''int() argument must be a string or a number''))"

text \<open>\<open>member.get("id", member.get("name"))\<close>.\<close>

definition member_id :: "pyval \<Rightarrow> pyval res" where
  "member_id m = rmap (\<lambda>ps. dict_get ps ''id'' (dict_get ps ''name'' PNone)) (as_dict m)"

fun truthy :: "pyval \<Rightarrow> bool" where
  "truthy PNone = False"
| "truthy (PBool b) = b"
| "truthy (PInt i) = (i \<noteq> 0)"
| "truthy (PStr s) = (s \<noteq> [])"
| "truthy (PDict ps) = (ps \<noteq> [])"
| "truthy (PList xs) = (xs \<noteq> [])"
| "truthy (PTuple xs) = (xs \<noteq> [])"
| "truthy v = True"

section \<open>Representation\<close>

text \<open>\<open>repr\<close> of a record and of the values in it: what the record checksum digests.\<close>

definition repr_date :: "date \<Rightarrow> string" where
  "repr_date d = (case ord2ymd d of (y, m, n) \<Rightarrow> ''datetime.date('' @ show_int y @ '', '' @ show_int m @ '', '' @ show_int n @ '')'')"

definition repr_utc :: "instant \<Rightarrow> string" where
  "repr_utc t =
     (let us = t mod day_us; secs = us div 1000000; frac = us mod 1000000; s = secs mod 60 in
      (case ord2ymd (instant_date t) of (y, m, n) \<Rightarrow>
         ''datetime.datetime('' @ join '', '' (map show_int ([y, m, n, secs div 3600, secs div 60 mod 60]
            @ (if s = 0 \<and> frac = 0 then [] else [s]) @ (if frac = 0 then [] else [frac]))) @ '', tzinfo=datetime.timezone.utc)''))"

fun repr_value :: "(pyval \<Rightarrow> string) \<Rightarrow> pyval \<Rightarrow> string" where
  "repr_value to_str PNone = ''None''"
| "repr_value to_str (PBool b) = (if b then ''True'' else ''False'')"
| "repr_value to_str (PInt i) = show_int i"
| "repr_value to_str (PFloat r) = r"
| "repr_value to_str (PStr s) = repr_str s"
| "repr_value to_str (PDecimal d) = ''Decimal('' @ repr_str (dec_str d) @ '')''"
| "repr_value to_str (PDate d) = repr_date d"
| "repr_value to_str (PDict ps) = ''{'' @ join '', '' (map (\<lambda>(k, v). repr_str k @ '': '' @ repr_value to_str v) ps) @ ''}''"
| "repr_value to_str (PList xs) = ''['' @ join '', '' (map (repr_value to_str) xs) @ '']''"
| "repr_value to_str v = to_str v"

definition repr_record :: "(pyval \<Rightarrow> string) \<Rightarrow> bis_record \<Rightarrow> string" where
  "repr_record to_str r =
     ''BISRecord('' @ join '', ''
       [''dataflow='' @ repr_str (br_dataflow r), ''series_key='' @ repr_str (br_series_key r),
        ''economy='' @ repr_value to_str (br_economy r), ''currency='' @ repr_value to_str (br_currency r),
        ''frequency='' @ repr_value to_str (br_frequency r), ''unit='' @ repr_value to_str (br_unit r),
        ''collection_indicator='' @ repr_value to_str (br_collection r), ''observation_date='' @ repr_date (br_date r),
        ''value='' @ (case br_value r of None \<Rightarrow> ''None'' | Some d \<Rightarrow> repr_value to_str (PDecimal d)),
        ''publication_timestamp='' @ (case br_publication r of None \<Rightarrow> ''None'' | Some t \<Rightarrow> repr_utc t),
        ''dataset_version='' @ (case br_dataset_version r of None \<Rightarrow> ''None'' | Some s \<Rightarrow> repr_str s),
        ''attributes='' @ repr_value to_str (PDict (br_attributes r))] @ '')''"

definition bis_parsed :: "bis_codecs \<Rightarrow> string \<Rightarrow> bis_record \<Rightarrow> bis_record parsed_record" where
  "bis_parsed bx path r =
     \<lparr>pr_value = r, pr_record_path = path, pr_record_checksum = Some (bx_sha bx (repr_record (bx_str bx) r))\<rparr>"

section \<open>SDMX-JSON\<close>

type_synonym dimensions = "(string \<times> pyval list) list"

definition parse_error :: "string \<Rightarrow> exn" where
  "parse_error m = ProviderParseError m []"

definition dimension_item :: "string \<Rightarrow> pyval \<Rightarrow> (string \<times> pyval list) res" where
  "dimension_item level item = (case item of
     PDict ps \<Rightarrow>
       (case (map_of ps ''id'', map_of ps ''values'') of
          (Some (PStr name), Some (PList vs)) \<Rightarrow> Inr (name, vs)
        | _ \<Rightarrow> Inl (parse_error (''invalid BIS '' @ level @ '' dimension'')))
   | _ \<Rightarrow> Inl (parse_error (''invalid BIS '' @ level @ '' dimension'')))"

definition bis_dimensions :: "pyval option \<Rightarrow> string \<Rightarrow> dimensions res" where
  "bis_dimensions v level = (case v of
     Some (PList items) \<Rightarrow> traverse (dimension_item level) items
   | _ \<Rightarrow> Inl (parse_error (''BIS '' @ level @ '' dimensions must be an array'')))"

definition decode_member :: "bis_codecs \<Rightarrow> string \<times> string \<times> pyval list \<Rightarrow> (string \<times> pyval) res" where
  "decode_member bx = (\<lambda>(raw_index, name, vs).
     (case rbind (int_of_value (PStr raw_index)) (\<lambda>i. rbind (index_list vs i) member_id) of
        Inl e \<Rightarrow> Inl (parse_error ''invalid BIS dimension member index'')
      | Inr m \<Rightarrow> Inr (name, PStr (py_str (bx_str bx) m))))"

definition decode_key :: "bis_codecs \<Rightarrow> string \<Rightarrow> dimensions \<Rightarrow> pyval dict res" where
  "decode_key bx encoded dims =
     (let indices = split_on (CHR '':'') encoded
      in if length indices \<noteq> length dims then Inl (parse_error ''BIS dimension key length does not match structure'')
         else rmap dict_of (traverse (decode_member bx) (zip indices dims)))"

text \<open>
  An attribute whose \<open>id\<close> is no text gets no name of its own here: for the ids JSON has besides texts and
  containers (\<open>null\<close>, \<open>true\<close>, \<open>false\<close>, \<open>NaN\<close>) the code fails later, when it asks the name for \<open>upper\<close>, or not at all.
\<close>

definition attribute_definitions :: "pyval \<Rightarrow> string \<Rightarrow> (pyval \<times> pyval) list" where
  "attribute_definitions v level = (case v of
     PDict ps \<Rightarrow>
       (case map_of ps level of
          Some (PList items) \<Rightarrow>
            concat (map (\<lambda>item. case item of
               PDict qs \<Rightarrow> (case map_of qs ''id'' of None \<Rightarrow> [] | Some name \<Rightarrow> [(name, dict_get qs ''values'' (PTuple []))])
             | _ \<Rightarrow> []) items)
        | _ \<Rightarrow> [])
   | _ \<Rightarrow> [])"

fun member_fallback :: "exn \<Rightarrow> bool" where
  "member_fallback (IndexError m) = True"
| "member_fallback (TypeError m) = True"
| "member_fallback (AttributeError m) = True"
| "member_fallback e = is_value_error e"

definition attribute_value :: "pyval \<times> pyval \<Rightarrow> pyval \<Rightarrow> (string \<times> pyval) res" where
  "attribute_value = (\<lambda>(name, members) v.
     rbind (case rbind (int_of_value v) (\<lambda>i. rbind (subscript members i) member_id) of
              Inr m \<Rightarrow> Inr m
            | Inl e \<Rightarrow> (if member_fallback e then Inr v else Inl e)) (\<lambda>x.
     (case name of PStr n \<Rightarrow> Inr (n, x) | _ \<Rightarrow> Inl (TypeError ''unhashable type''))))"

definition decode_attributes :: "pyval \<Rightarrow> (pyval \<times> pyval) list \<Rightarrow> pyval dict res" where
  "decode_attributes v definitions = (case v of
     PList vs \<Rightarrow>
       rmap dict_of (traverse (\<lambda>(d, x). attribute_value d x) (filter (\<lambda>(d, x). x \<noteq> PNone) (zip definitions vs)))
   | _ \<Rightarrow> Inr [])"

definition first_of :: "pyval dict \<Rightarrow> string list \<Rightarrow> pyval option" where
  "first_of document keys =
     (let found = concat (map (\<lambda>source. case source of
            PDict ps \<Rightarrow> concat (map (\<lambda>k. case map_of ps k of None \<Rightarrow> [] | Some v \<Rightarrow> (if v = PNone then [] else [v])) keys)
          | _ \<Rightarrow> []) [dict_get document ''header'' (PDict []), dict_get document ''meta'' (PDict []), PDict document])
      in case found of [] \<Rightarrow> None | v # _ \<Rightarrow> Some v)"

definition timestamp_or_none :: "bis_codecs \<Rightarrow> pyval \<Rightarrow> instant option res" where
  "timestamp_or_none bx v =
     (if v = PNone \<or> v = PStr [] then Inr None
      else rmap (\<lambda>(t, s). Some t) (normalize_timestamp (bx_str bx) v ''publication_timestamp''))"

definition is_published_absence :: "pyval \<Rightarrow> bool" where
  "is_published_absence v = (case v of
     PNone \<Rightarrow> True | PStr s \<Rightarrow> str_lower (str_strip s) \<in> {''nan'', ''na'', ''n/a''} | _ \<Rightarrow> False)"

definition set_default :: "string \<Rightarrow> string option \<Rightarrow> pyval dict \<Rightarrow> pyval dict" where
  "set_default k v d = (case v of None \<Rightarrow> d | Some s \<Rightarrow> (if k \<in> fst ` set d then d else d @ [(k, PStr s)]))"

definition canonical_values :: "bis_parser \<Rightarrow> pyval dict \<Rightarrow> pyval dict" where
  "canonical_values bp named =
     set_default ''collection_indicator'' (bp_collection bp)
       (set_default ''unit'' (bp_unit bp)
         (set_default ''currency'' (bp_currency bp)
           (dict_of (map (\<lambda>(k, v). (dict_get series_aliases (str_upper k) (str_lower k), v)) named))))"

definition full_series_key :: "pyval dict \<Rightarrow> string list \<Rightarrow> string res" where
  "full_series_key named order =
     rbind (traverse (\<lambda>name. case map_of named name of
              None \<Rightarrow> Inl (parse_error ''configured BIS key dimension is absent'') | Some v \<Rightarrow> Inr v) order) (\<lambda>parts.
     rmap (join ''.'') (traverse (\<lambda>v. case v of PStr s \<Rightarrow> Inr s | _ \<Rightarrow> Inl (TypeError ''sequence item: expected str instance'')) parts))"

text \<open>What the loops over a document share: its structure and what its head says.\<close>

record bis_context =
  bq_series_dims :: dimensions
  bq_obs_dims :: dimensions
  bq_time :: nat
  bq_version :: "pyval option"
  bq_publication :: "instant option"
  bq_series_attrs :: "(pyval \<times> pyval) list"
  bq_obs_attrs :: "(pyval \<times> pyval) list"

definition observation_record ::
  "bis_codecs \<Rightarrow> bis_parser \<Rightarrow> bis_context \<Rightarrow> nat \<Rightarrow> string \<Rightarrow> pyval dict \<Rightarrow> pyval dict \<Rightarrow> pyval dict \<Rightarrow> string \<Rightarrow>
     string \<times> pyval \<Rightarrow> bis_record parsed_record res" where
  "observation_record bx bp q dataset encoded dims attrs canonical full_key = (\<lambda>(okey, obs).
     rbind (decode_key bx okey (bq_obs_dims q)) (\<lambda>obs_values.
     rbind (normalize_date (bx_str bx) (dict_get obs_values (fst (bq_obs_dims q ! bq_time q)) PNone) ''observation_date'') (\<lambda>d.
     (case obs of
        PList (raw # rest) \<Rightarrow>
          rbind (if is_published_absence raw then Inr None else rmap Some (normalize_decimal (bx_str bx) raw ''value'')) (\<lambda>v.
          rbind (decode_attributes (PList rest) (bq_obs_attrs q)) (\<lambda>obs_attrs.
          Inr (bis_parsed bx (''dataSets['' @ show_nat dataset @ ''].series['' @ encoded @ ''].observations['' @ okey @ '']'')
            \<lparr>br_dataflow = bp_dataflow bp, br_series_key = full_key, br_economy = dict_get canonical ''economy'' PNone,
             br_currency = dict_get canonical ''currency'' PNone, br_frequency = dict_get canonical ''frequency'' PNone,
             br_unit = dict_get canonical ''unit'' PNone, br_collection = dict_get canonical ''collection_indicator'' PNone,
             br_date = d, br_value = v, br_publication = bq_publication q,
             br_dataset_version = map_option (py_str (bx_str bx)) (bq_version q),
             br_attributes = dict_of (dims @ attrs @ obs_attrs)\<rparr>)))
      | _ \<Rightarrow> Inl (parse_error ''BIS observation must be a non-empty array'')))))"

definition required_values :: "string list" where
  "required_values = [''frequency'', ''economy'', ''currency'', ''unit'', ''collection_indicator'']"

definition series_records ::
  "bis_codecs \<Rightarrow> bis_parser \<Rightarrow> bis_context \<Rightarrow> nat \<Rightarrow> string \<times> pyval \<Rightarrow> bis_record parsed_record list res" where
  "series_records bx bp q dataset = (\<lambda>(encoded, series).
     rbind (decode_key bx encoded (bq_series_dims q)) (\<lambda>dims.
     rbind (rbind (value_get series ''attributes'' (PList [])) (\<lambda>v. decode_attributes v (bq_series_attrs q))) (\<lambda>attrs.
     (let named = dict_of (dims @ attrs); canonical = canonical_values bp named;
          order = (if bp_dimension_order bp = [] then map fst (bq_series_dims q) else bp_dimension_order bp)
      in rbind (rguard (list_all (\<lambda>k. k \<in> fst ` set canonical) required_values)
                  (parse_error ''BIS series is missing required named dimensions or attributes'')) (\<lambda>_.
         rbind (full_series_key named order) (\<lambda>full_key.
         rbind (value_get series ''observations'' (PDict [])) (\<lambda>observations.
         (case observations of
            PDict obs \<Rightarrow> traverse (observation_record bx bp q dataset encoded dims attrs canonical full_key) obs
          | _ \<Rightarrow> Inl (parse_error ''BIS observations must be an object'')))))))))"

definition dataset_records ::
  "bis_codecs \<Rightarrow> bis_parser \<Rightarrow> bis_context \<Rightarrow> nat \<times> pyval \<Rightarrow> bis_record parsed_record list res" where
  "dataset_records bx bp q = (\<lambda>(index, dataset).
     rbind (value_get dataset ''series'' (PDict [])) (\<lambda>collection.
     (case collection of
        PDict series \<Rightarrow> rmap concat (traverse (series_records bx bp q index) series)
      | _ \<Rightarrow> Inl (parse_error ''BIS dataSet series must be an object''))))"

definition bis_document :: "bis_codecs \<Rightarrow> raw_payload \<Rightarrow> pyval res" where
  "bis_document bx p =
     (let encoding = str_lower (dict_get (rp_metadata p) ''content-encoding'' [])
      in rbind (if encoding = ''gzip''
                then (case bx_gunzip bx (rp_body p) of
                        None \<Rightarrow> Inl (parse_error ''invalid gzip-encoded BIS response'') | Some b \<Rightarrow> Inr b)
                else if encoding \<noteq> [] \<and> encoding \<noteq> ''identity'' then Inl (parse_error ''unsupported BIS content encoding'')
                else Inr (rp_body p)) (\<lambda>body.
         rbind (bx_utf8 bx body) (\<lambda>json.
         (case read_document (\<lambda>s. Some (PStr s)) (\<lambda>s. Some (PStr s)) json of
            None \<Rightarrow> Inl (ValueError ''invalid JSON'') | Some v \<Rightarrow> Inr v))))"

definition time_positions :: "dimensions \<Rightarrow> nat list" where
  "time_positions dims = map fst (filter (\<lambda>(i, name, vs). str_upper name = ''TIME_PERIOD'') (enumerate 0 dims))"

definition bis_context_of ::
  "bis_codecs \<Rightarrow> raw_payload \<Rightarrow> pyval dict \<Rightarrow> pyval dict \<Rightarrow> bis_context res" where
  "bis_context_of bx p document content =
     rbind (value_get (dict_get content ''structure'' (PDict [])) ''dimensions'' (PDict [])) (\<lambda>structures.
     rbind (rbind (as_dict structures) (\<lambda>ps. bis_dimensions (map_of ps ''series'') ''series'')) (\<lambda>series_dims.
     rbind (rbind (as_dict structures) (\<lambda>ps. bis_dimensions (map_of ps ''observation'') ''observation'')) (\<lambda>obs_dims.
     rbind (rguard (series_dims \<noteq> []) (parse_error ''BIS structure is missing named series dimensions'')) (\<lambda>_.
     (case time_positions obs_dims of
        [time] \<Rightarrow>
          (let stated = first_of document [''datasetVersion'', ''version''];
               version = (case stated of
                  Some v \<Rightarrow> (if truthy v then Some v else map_option PStr (map_of (rp_metadata p) ''dataset-version''))
                | None \<Rightarrow> map_option PStr (map_of (rp_metadata p) ''dataset-version''))
           in rbind (timestamp_or_none bx (case first_of document [''publicationTimestamp''] of None \<Rightarrow> PNone | Some v \<Rightarrow> v)) (\<lambda>publication.
              rbind (value_get (dict_get content ''structure'' (PDict [])) ''attributes'' (PDict [])) (\<lambda>attributes.
              Inr \<lparr>bq_series_dims = series_dims, bq_obs_dims = obs_dims, bq_time = time, bq_version = version,
                   bq_publication = publication, bq_series_attrs = attribute_definitions attributes ''series'',
                   bq_obs_attrs = attribute_definitions attributes ''observation''\<rparr>)))
      | _ \<Rightarrow> Inl (parse_error ''BIS structure must define TIME_PERIOD exactly once''))))))"

definition parse_json :: "bis_codecs \<Rightarrow> bis_parser \<Rightarrow> raw_payload \<Rightarrow> bis_record parsed_record list res" where
  "parse_json bx bp p =
     rbind (bis_document bx p) (\<lambda>document.
     rbind (value_get document ''data'' document) (\<lambda>content.
     (case (document, content) of
        (PDict doc, PDict body) \<Rightarrow>
          rbind (bis_context_of bx p doc body) (\<lambda>q.
          (case map_of body ''dataSets'' of
             Some (PList datasets) \<Rightarrow> rmap concat (traverse (dataset_records bx bp q) (enumerate 0 datasets))
           | _ \<Rightarrow> Inl (parse_error ''BIS response is missing dataSets'')))
      | _ \<Rightarrow> Inl (parse_error ''BIS response data must be an object''))))"

section \<open>Bulk CSV\<close>

text \<open>A cell of a row; a missing cell is \<open>None\<close>, a column the header does not have a \<open>KeyError\<close>.\<close>

definition cell_value :: "string option \<Rightarrow> pyval" where
  "cell_value c = (case c of None \<Rightarrow> PNone | Some s \<Rightarrow> PStr s)"

definition row_at :: "string dict \<Rightarrow> dict_row \<Rightarrow> string \<Rightarrow> pyval res" where
  "row_at names row column =
     (case map_of names column of
        None \<Rightarrow> Inl (KeyError column)
      | Some name \<Rightarrow> (case map_of (dw_cells row) name of None \<Rightarrow> Inl (KeyError name) | Some c \<Rightarrow> Inr (cell_value c)))"

definition row_get :: "string dict \<Rightarrow> dict_row \<Rightarrow> string \<Rightarrow> pyval \<Rightarrow> pyval" where
  "row_get names row column dflt =
     (case map_of (dw_cells row) (dict_get names column []) of None \<Rightarrow> dflt | Some c \<Rightarrow> cell_value c)"

definition bulk_columns :: "string list" where
  "bulk_columns = [''FREQ'', ''REF_AREA'', ''CURRENCY'', ''UNIT_MEASURE'', ''COLLECTION'', ''TIME_PERIOD'', ''OBS_VALUE'']"

text \<open>The cells past the header stand under \<open>None\<close>, which has no \<open>upper\<close>; a dict of cells has the header keys first.\<close>

definition csv_attributes :: "string list \<Rightarrow> dict_row \<Rightarrow> pyval dict res" where
  "csv_attributes known row =
     (if dw_rest row \<noteq> [] then Inl (attr_error ''upper'')
      else Inr (map (\<lambda>(k, c). (k, cell_value c)) (filter (\<lambda>(k, c). str_upper k \<notin> set known \<and> c \<noteq> None \<and> c \<noteq> Some []) (dw_cells row))))"

definition csv_value :: "bis_codecs \<Rightarrow> pyval \<Rightarrow> decimal option res" where
  "csv_value bx v = (case v of
     PStr s \<Rightarrow> (if str_strip s = [] then Inr None else rmap Some (normalize_decimal (bx_str bx) v ''value''))
   | _ \<Rightarrow> Inl (attr_error ''strip''))"

definition csv_record ::
  "bis_codecs \<Rightarrow> bis_parser \<Rightarrow> string dict \<Rightarrow> string dict \<Rightarrow> nat \<times> dict_row \<Rightarrow> bis_record parsed_record res" where
  "csv_record bx bp metadata names = (\<lambda>(index, row).
     (let key_columns = (if bp_dimension_order bp = [] then [''FREQ'', ''REF_AREA''] else bp_dimension_order bp)
      in rbind (rmap dict_of (traverse (\<lambda>name. rmap (Pair name) (row_at names row name)) key_columns)) (\<lambda>dims.
         rbind (full_series_key dims key_columns) (\<lambda>full_key.
         rbind (row_at names row ''OBS_VALUE'') (\<lambda>value_text.
         rbind (csv_attributes (bulk_columns @ key_columns @ [''PUBLICATION_TIMESTAMP'', ''DATASET_VERSION'']) row) (\<lambda>attributes.
         rbind (row_at names row ''REF_AREA'') (\<lambda>economy.
         rbind (row_at names row ''CURRENCY'') (\<lambda>currency.
         rbind (row_at names row ''FREQ'') (\<lambda>freq.
         rbind (row_at names row ''UNIT_MEASURE'') (\<lambda>unit.
         rbind (row_at names row ''COLLECTION'') (\<lambda>indicator.
         rbind (rbind (row_at names row ''TIME_PERIOD'') (\<lambda>v. normalize_date (bx_str bx) v ''observation_date'')) (\<lambda>d.
         rbind (csv_value bx value_text) (\<lambda>v.
         rbind (timestamp_or_none bx (row_get names row ''PUBLICATION_TIMESTAMP'' (PStr []))) (\<lambda>publication.
         Inr (bis_parsed bx (''rows['' @ show_nat index @ '']'')
           \<lparr>br_dataflow = bp_dataflow bp, br_series_key = full_key, br_economy = economy, br_currency = currency,
            br_frequency = freq, br_unit = unit, br_collection = indicator, br_date = d, br_value = v,
            br_publication = publication,
            br_dataset_version = (case row_get names row ''DATASET_VERSION'' PNone of
               PStr s \<Rightarrow> (if s = [] then map_of metadata ''dataset-version'' else Some s)
             | _ \<Rightarrow> map_of metadata ''dataset-version''),
            br_attributes = dict_of (dims @ attributes)\<rparr>)))))))))))))))"

definition parse_csv :: "bis_codecs \<Rightarrow> bis_parser \<Rightarrow> raw_payload \<Rightarrow> bis_record parsed_record list res" where
  "parse_csv bx bp p =
     rbind (bx_utf8_sig bx (rp_body p)) (\<lambda>body.
     (case csv_rows body of
        ([], Some e) \<Rightarrow> Inl e
      | ([], None) \<Rightarrow> Inl (parse_error ''BIS bulk CSV has no header'')
      | (header # rows, broken) \<Rightarrow>
          (let names = dict_of (map (\<lambda>name. (str_upper name, name)) header)
           in rbind (rguard (list_all (\<lambda>c. c \<in> fst ` set names) bulk_columns)
                       (parse_error ''BIS bulk CSV is missing required named columns'')) (\<lambda>_.
              rbind (traverse (csv_record bx bp (rp_metadata p) names) (enumerate 2 (dict_rows header rows))) (\<lambda>records.
              (case broken of None \<Rightarrow> Inr records | Some e \<Rightarrow> Inl e))))))"

section \<open>The parser\<close>

fun is_contract_error :: "exn \<Rightarrow> bool" where
  "is_contract_error (KeyError m) = True"
| "is_contract_error (TypeError m) = True"
| "is_contract_error (CsvError m) = True"
| "is_contract_error e = is_value_error e"

definition bis_parse :: "bis_codecs \<Rightarrow> bis_parser \<Rightarrow> raw_payload \<Rightarrow> bis_record parsed_record list res" where
  "bis_parse bx bp p =
     (case (if str_contains ''csv'' (str_lower (rp_media_type p)) then parse_csv bx bp p else parse_json bx bp p) of
        Inr rs \<Rightarrow> Inr rs
      | Inl e \<Rightarrow> (if is_contract_error e
                  then Inl (ProviderParseError ''invalid BIS response contract'' [(''endpoint_name'', rm_endpoint_name (rp_request p))])
                  else Inl e))"

section \<open>Errors\<close>

text \<open>What the parser may leave to its caller: its own error, and the two it forgets.\<close>

definition expected_error :: "exn \<Rightarrow> bool" where
  "expected_error e \<longleftrightarrow> is_contract_error e \<or> (\<exists>m c. e = ProviderParseError m c) \<or> (\<exists>m. e = AttributeError m) \<or> (\<exists>m. e = OverflowError m)"

text \<open>A computation that raises nothing else.\<close>

definition careful :: "'a res \<Rightarrow> bool" where
  "careful m \<longleftrightarrow> (\<forall>e. m = Inl e \<longrightarrow> expected_error e)"

named_theorems careful_rules

lemma expected_simps [simp]: "expected_error (parse_error m)" "expected_error (ProviderParseError m c)" "expected_error (attr_error m)"
    "expected_error (KeyError m)" "expected_error (TypeError m)" "expected_error (ValueError m)" "expected_error (CsvError m)"
    "expected_error (OverflowError m)" "is_value_error e \<Longrightarrow> expected_error e"
  by (simp_all add: expected_error_def parse_error_def attr_error_def) (cases e, simp_all)

lemma careful_simps [simp]: "careful (Inr x)" "careful (Inl e) \<longleftrightarrow> expected_error e" "careful (rmap f m) \<longleftrightarrow> careful m"
    "careful (rguard b e) \<longleftrightarrow> b \<or> expected_error e"
  by (auto simp: careful_def rmap_eq_Inl)

lemma careful_rbind [careful_rules]: "careful m \<Longrightarrow> (\<And>x. m = Inr x \<Longrightarrow> careful (f x)) \<Longrightarrow> careful (rbind m f)"
  by (auto simp: careful_def rbind_eq_Inl)

lemma careful_traverse [careful_rules]: "(\<And>x. x \<in> set xs \<Longrightarrow> careful (f x)) \<Longrightarrow> careful (traverse f xs)"
  by (induction xs) (auto simp: careful_def split: sum.splits)

lemma careful_value [careful_rules]: "careful (Inr x)" "careful m \<Longrightarrow> careful (rmap f m)" "careful (Inl (attr_error w))"
  by simp_all

lemma careful_as_dict [careful_rules]: "careful (as_dict v)"
  by (simp add: as_dict_def split: pyval.split)

lemma careful_value_get [careful_rules]: "careful (value_get v k d)"
  by (simp add: value_get_def careful_as_dict)

lemma careful_dimensions [careful_rules]: "careful (bis_dimensions v level)"
  by (auto simp: bis_dimensions_def dimension_item_def split: option.split pyval.split intro!: careful_rules)

lemma careful_decode_key [careful_rules]: "careful (decode_key bx k dims)"
  by (auto simp: decode_key_def decode_member_def Let_def split: sum.split intro!: careful_rules)

lemma careful_int_of_value [careful_rules]: "careful (int_of_value v)"
  by (simp add: int_of_value_def split: pyval.split option.split)

lemma careful_attribute_value [careful_rules]: "careful (attribute_value d v)"
proof -
  have index: "\<exists>m. e = IndexError m" if "index_list xs i = Inl e" for xs :: "'x list" and i e
    using that by (auto simp: index_list_def split: if_splits)
  have "expected_error e \<or> member_fallback e" if "subscript m i = Inl e" for m i e
    using that by (cases m) (auto simp: subscript_def rmap_eq_Inl dest: index)
  moreover have "expected_error e" if "member_id x = Inl e" for x e
    using that careful_as_dict [of x] by (auto simp: member_id_def rmap_eq_Inl careful_def)
  ultimately have sub: "expected_error e \<or> member_fallback e" if "rbind (subscript m i) member_id = Inl e" for m i e
    using that unfolding rbind_eq_Inl by blast
  have "expected_error e \<or> member_fallback e" if "rbind (int_of_value v) (\<lambda>i. rbind (subscript m i) member_id) = Inl e" for m e
    using that sub careful_int_of_value [of v] unfolding rbind_eq_Inl [of "int_of_value v"] careful_def by blast
  then have "careful (case rbind (int_of_value v) (\<lambda>i. rbind (subscript m i) member_id) of
      Inr x \<Rightarrow> Inr x | Inl e \<Rightarrow> (if member_fallback e then Inr v else Inl e))" for m
    by (auto simp: careful_def split: sum.splits if_splits)
  moreover have "careful (case name of PStr n \<Rightarrow> Inr (n, x) | _ \<Rightarrow> Inl (TypeError w))" for name n w and x :: pyval
    by (cases name) simp_all
  ultimately show ?thesis unfolding attribute_value_def by (cases d) (simp only: prod.case careful_rbind)
qed

lemma careful_decode_attributes [careful_rules]: "careful (decode_attributes v ds)"
  by (auto simp: decode_attributes_def split: pyval.split intro!: careful_rules)

lemma careful_timestamp [careful_rules]: "careful (timestamp_or_none bx v)"
  by (auto simp: timestamp_or_none_def careful_def overflow_exn_def rmap_eq_Inl split: if_splits dest!: normalize_timestamp_errors)

lemma careful_date [careful_rules]: "careful (normalize_date to_str v f)"
  by (auto simp: careful_def dest!: normalize_date_error)

lemma careful_decimal [careful_rules]: "careful (normalize_decimal to_str v f)"
  by (auto simp: careful_def dest!: normalize_decimal_error)

lemma careful_full_key [careful_rules]: "careful (full_series_key named order)"
  by (auto simp: full_series_key_def split: option.split pyval.split intro!: careful_rules)

lemma careful_observation [careful_rules]: "careful (observation_record bx bp q i k d a c f x)"
  by (cases x) (auto simp: observation_record_def split: pyval.split list.split intro!: careful_rules)

lemma careful_series [careful_rules]: "careful (series_records bx bp q i s)"
  by (cases s) (auto simp: series_records_def Let_def split: pyval.split intro!: careful_rules)

lemma careful_dataset [careful_rules]: "careful (dataset_records bx bp q d)"
  by (cases d) (auto simp: dataset_records_def split: pyval.split intro!: careful_rules)

lemma careful_context [careful_rules]: "careful (bis_context_of bx p doc body)"
  by (auto simp: bis_context_of_def Let_def split: list.split intro!: careful_rules)

lemma careful_row_at [careful_rules]: "careful (row_at names row c)"
  by (simp add: row_at_def split: option.split)

lemma careful_csv_cells [careful_rules]: "careful (csv_attributes known row)" "careful (csv_value bx v)"
  by (auto simp: csv_attributes_def csv_value_def split: pyval.split intro!: careful_rules)

lemma careful_csv_record [careful_rules]: "careful (csv_record bx bp metadata names r)"
  unfolding csv_record_def Let_def split_beta by (intro careful_rules)

lemma process_char_error: "process_char c r = Inl e \<Longrightarrow> \<exists>m. e = CsvError m"
proof -
  have add: "\<exists>m. e = CsvError m" if "add_char x st y = Inl e" for x st y using that by (auto simp: add_char_def split: if_splits)
  have "\<exists>m. e = CsvError m" if "start_field x y = Inl e" for x y
    using that add by (cases "(x, y)" rule: start_field.cases) (auto split: if_splits)
  with add show "process_char c r = Inl e \<Longrightarrow> ?thesis"
    by (cases "cr_state r"; cases c) (force simp: process_char_def simp del: start_field.simps split: if_splits)+
qed

lemma read_rows_error: "read_rows r ls = (rows, Some e) \<Longrightarrow> expected_error e"
proof (induction r ls arbitrary: rows rule: read_rows.induct)
  case (2 r l ls)
  have fold: "rfold (\<lambda>c. process_char (Some c)) xs y = Inl e \<Longrightarrow> \<exists>m. e = CsvError m" for xs y
    by (induction xs arbitrary: y) (auto split: sum.splits dest: process_char_error)
  have "process_line l r = Inl e \<Longrightarrow> expected_error e"
    by (auto simp: process_line_def rbind_eq_Inl dest!: fold process_char_error)
  then show ?case using 2 by (cases "read_rows csv_start ls") (auto split: sum.splits if_splits)
qed simp

lemma careful_csv [careful_rules]:
  assumes "\<And>b. careful (bx_utf8_sig bx b)"
  shows "careful (parse_csv bx bp p)"
proof -
  have "careful (case csv_rows body of ([], Some e) \<Rightarrow> Inl e | ([], None) \<Rightarrow> Inl (parse_error m) | (header # rows, broken) \<Rightarrow> k header rows broken)"
    if "\<And>header rows broken. (\<forall>e. broken = Some e \<longrightarrow> expected_error e) \<Longrightarrow> careful (k header rows broken)" for body m and k :: "_ \<Rightarrow> _ \<Rightarrow> _ \<Rightarrow> bis_record parsed_record list res"
    using that read_rows_error [of csv_start "lines_of body"]
    by (auto simp: csv_rows_def split: prod.split list.split option.split)
  note rows = this
  show ?thesis unfolding parse_csv_def Let_def
    by (intro careful_rules assms, rule rows) (auto split: option.split intro!: careful_rules)
qed

lemma careful_json [careful_rules]: "(\<And>b. careful (bx_utf8 bx b)) \<Longrightarrow> careful (parse_json bx bp p)"
  by (auto simp: parse_json_def bis_document_def Let_def split: option.split pyval.split intro!: careful_rules)

section \<open>Records\<close>

lemma traverse_concat_map:
  "traverse f xs = Inr yss \<Longrightarrow> (\<And>x ys. x \<in> set xs \<Longrightarrow> f x = Inr ys \<Longrightarrow> map g ys = h x) \<Longrightarrow> map g (concat yss) = concat (map h xs)"
  by (induction xs arbitrary: yss) (auto split: sum.splits)

lemma traverse_map: "traverse f xs = Inr ys \<Longrightarrow> (\<And>x y. x \<in> set xs \<Longrightarrow> f x = Inr y \<Longrightarrow> g y = h x) \<Longrightarrow> map g ys = map h xs"
  by (induction xs arbitrary: ys) (auto split: sum.splits)

text \<open>The type tests of the parser, passed.\<close>

lemma passed_tests:
  "(case v of PDict ps \<Rightarrow> f ps | _ \<Rightarrow> Inl e) = Inr x \<longleftrightarrow> (\<exists>ps. v = PDict ps \<and> f ps = Inr x)"
  "(case v of PList xs \<Rightarrow> g xs | _ \<Rightarrow> Inl e) = Inr x \<longleftrightarrow> (\<exists>xs. v = PList xs \<and> g xs = Inr x)"
  "(case u of Some (PList xs) \<Rightarrow> g xs | _ \<Rightarrow> Inl e) = Inr x \<longleftrightarrow> (\<exists>xs. u = Some (PList xs) \<and> g xs = Inr x)"
  "(case xs of [] \<Rightarrow> Inl e | y # ys \<Rightarrow> h y ys) = Inr x \<longleftrightarrow> (\<exists>y ys. xs = y # ys \<and> h y ys = Inr x)"
  by ((cases v; simp)[1], (cases v; simp)[1], (auto split: option.splits pyval.splits)[1], (cases xs; simp)[1])

text \<open>What an SDMX-JSON document says, read without the parser: one entry per observation.\<close>

definition entries :: "pyval \<Rightarrow> pyval dict" where
  "entries v = (case v of PDict ps \<Rightarrow> ps | _ \<Rightarrow> [])"

definition child :: "pyval \<Rightarrow> string \<Rightarrow> pyval dict" where
  "child v k = entries (dict_get (entries v) k (PDict []))"

definition stated_value :: "(pyval \<Rightarrow> string) \<Rightarrow> pyval \<Rightarrow> decimal option" where
  "stated_value to_str obs = (case obs of
     PList (raw # rest) \<Rightarrow>
       (if is_published_absence raw then None
        else (case normalize_decimal to_str raw ''value'' of Inl e \<Rightarrow> None | Inr d \<Rightarrow> Some d))
   | _ \<Rightarrow> None)"

definition observation_path :: "nat \<Rightarrow> string \<Rightarrow> string \<Rightarrow> string" where
  "observation_path i k x = ''dataSets['' @ show_nat i @ ''].series['' @ k @ ''].observations['' @ x @ '']''"

definition series_entries :: "(pyval \<Rightarrow> string) \<Rightarrow> nat \<Rightarrow> string \<times> pyval \<Rightarrow> (string \<times> decimal option) list" where
  "series_entries to_str i = (\<lambda>(k, s). map (\<lambda>(x, obs). (observation_path i k x, stated_value to_str obs)) (child s ''observations''))"

definition document_entries :: "(pyval \<Rightarrow> string) \<Rightarrow> pyval dict \<Rightarrow> (string \<times> decimal option) list" where
  "document_entries to_str body =
     (case dict_get body ''dataSets'' PNone of
        PList datasets \<Rightarrow>
          concat (map (\<lambda>(i, ds). concat (map (series_entries to_str i) (child ds ''series''))) (enumerate 0 datasets))
      | _ \<Rightarrow> [])"

definition entry_of :: "bis_record parsed_record \<Rightarrow> string \<times> decimal option" where
  "entry_of r = (pr_record_path r, br_value (pr_value r))"

lemma value_get_entries: "value_get v k (PDict []) = Inr (PDict ps) \<Longrightarrow> child v k = ps"
  by (auto simp: value_get_def rmap_eq_Inr as_dict_def child_def entries_def split: pyval.splits)

lemma observation_entry:
  "observation_record bx bp q i k dims attrs canonical full (x, obs) = Inr r \<Longrightarrow>
     entry_of r = (observation_path i k x, stated_value (bx_str bx) obs)"
  by (auto simp: observation_record_def entry_of_def stated_value_def bis_parsed_def observation_path_def rbind_eq_Inr rmap_eq_Inr passed_tests
      split: if_splits)

lemma series_entry: "series_records bx bp q i s = Inr rs \<Longrightarrow> map entry_of rs = series_entries (bx_str bx) i s"
proof -
  obtain k v where s: "s = (k, v)" by (cases s)
  assume "series_records bx bp q i s = Inr rs"
  then obtain dims attrs canonical full obs where o: "value_get v ''observations'' (PDict []) = Inr (PDict obs)"
    "traverse (observation_record bx bp q i k dims attrs canonical full) obs = Inr rs"
    unfolding s series_records_def Let_def by (auto simp: rbind_eq_Inr passed_tests)
  show ?thesis unfolding s series_entries_def using value_get_entries [OF o(1)]
    by (simp, intro traverse_map [OF o(2)]) (auto simp: observation_entry)
qed

lemma parse_json_parts:
  assumes "parse_json bx bp p = Inr rs"
  obtains doc body q datasets rss where "bis_document bx p = Inr (PDict doc)" "dict_get doc ''data'' (PDict doc) = PDict body"
    "map_of body ''dataSets'' = Some (PList datasets)" "traverse (dataset_records bx bp q) (enumerate 0 datasets) = Inr rss" "rs = concat rss"
proof -
  obtain document content where d: "bis_document bx p = Inr document" "value_get document ''data'' document = Inr content"
    "(case (document, content) of
        (PDict doc, PDict body) \<Rightarrow>
          rbind (bis_context_of bx p doc body) (\<lambda>q.
          (case map_of body ''dataSets'' of
             Some (PList datasets) \<Rightarrow> rmap concat (traverse (dataset_records bx bp q) (enumerate 0 datasets))
           | _ \<Rightarrow> Inl (parse_error ''BIS response is missing dataSets'')))
      | _ \<Rightarrow> Inl (parse_error ''BIS response data must be an object'')) = Inr rs"
    using assms unfolding parse_json_def rbind_eq_Inr by blast
  obtain doc where doc: "document = PDict doc" using d(2) by (cases document) (auto simp: value_get_def as_dict_def)
  obtain body where body: "content = PDict body" using d(3) doc by (cases content) auto
  obtain q datasets where q: "map_of body ''dataSets'' = Some (PList datasets)"
    "rmap concat (traverse (dataset_records bx bp q) (enumerate 0 datasets)) = Inr rs"
    using d(3) doc body by (auto simp: rbind_eq_Inr passed_tests)
  have "dict_get doc ''data'' (PDict doc) = PDict body" using d(2) doc body by (simp add: value_get_def as_dict_def)
  then show thesis using that [OF _ _ q(1)] d(1) doc q(2) by (auto simp: rmap_eq_Inr)
qed

lemma parse_json_entries:
  assumes "parse_json bx bp p = Inr rs"
  obtains doc body where "bis_document bx p = Inr (PDict doc)" "dict_get doc ''data'' (PDict doc) = PDict body"
    "map entry_of rs = document_entries (bx_str bx) body"
proof -
  obtain doc body q datasets rss where d: "bis_document bx p = Inr (PDict doc)" "dict_get doc ''data'' (PDict doc) = PDict body"
    "map_of body ''dataSets'' = Some (PList datasets)" "traverse (dataset_records bx bp q) (enumerate 0 datasets) = Inr rss" "rs = concat rss"
    using parse_json_parts [OF assms] .
  have "map entry_of (concat rss) = concat (map (\<lambda>(i, ds). concat (map (series_entries (bx_str bx) i) (child ds ''series''))) (enumerate 0 datasets))"
  proof (rule traverse_concat_map [OF d(4)])
    fix x ys
    assume ys: "dataset_records bx bp q x = Inr ys"
    obtain i ds where x: "x = (i, ds)" by (cases x)
    obtain series yss where s: "value_get ds ''series'' (PDict []) = Inr (PDict series)"
      "traverse (series_records bx bp q i) series = Inr yss" "ys = concat yss"
      using ys x by (auto simp: dataset_records_def rbind_eq_Inr rmap_eq_Inr passed_tests)
    show "map entry_of ys = (\<lambda>(i, ds). concat (map (series_entries (bx_str bx) i) (child ds ''series''))) x"
      unfolding x s(3) prod.case value_get_entries [OF s(1)]
      by (rule traverse_concat_map [OF s(2)]) (rule series_entry)
  qed
  then have "map entry_of rs = document_entries (bx_str bx) body"
    using d(3,5) by (simp add: document_entries_def dict_get_def)
  with d(1,2) show thesis by (rule that)
qed

subsection \<open>Paths\<close>

lemma underscored_digits_chars: "underscored_digits u = Some ds \<Longrightarrow> c \<in> set u \<Longrightarrow> is_digit c \<or> c = CHR ''_''"
  by (induction u arbitrary: ds rule: underscored_digits.induct) (auto split: if_splits)

lemma str_strip_chars: "c \<in> set s \<Longrightarrow> c \<in> set (str_strip s) \<or> is_space c"
proof -
  have drop: "c \<in> set t \<Longrightarrow> c \<in> set (dropWhile is_space t) \<or> is_space c" for t
    by (metis UnE set_append set_takeWhileD takeWhile_dropWhile_id)
  show "c \<in> set s \<Longrightarrow> ?thesis" using drop [of s] drop [of "rev (dropWhile is_space s)"] by (auto simp: str_strip_def)
qed

lemma int_of_text_chars:
  assumes "int_of_text s = Some i"
  shows "CHR '']'' \<notin> set s"
proof
  let ?t = "str_strip s"
  assume "CHR '']'' \<in> set s"
  moreover have nd: "\<not> is_space (CHR '']'')" "\<not> is_digit (CHR '']'')" by code_simp+
  ultimately have t: "CHR '']'' \<in> set ?t" using str_strip_chars by blast
  obtain ds where ds: "underscored_digits (if prefix ''-'' ?t \<or> prefix ''+'' ?t then drop 1 ?t else ?t) = Some ds"
    using assms by (auto simp: int_of_text_def Let_def split: option.splits if_splits)
  have "CHR '']'' \<in> set (if prefix ''-'' ?t \<or> prefix ''+'' ?t then drop 1 ?t else ?t)"
    using t by (cases ?t) auto
  from underscored_digits_chars [OF ds this] nd show False by simp
qed

lemma split_on_chars: "c \<in> set s \<Longrightarrow> c \<noteq> sep \<Longrightarrow> \<exists>w\<in>set (split_on sep s). c \<in> set w"
  by (induction s) (auto split: list.splits)

lemma traverse_ok_elem: "is_ok (traverse f xs) \<Longrightarrow> x \<in> set xs \<Longrightarrow> is_ok (f x)"
  by (induction xs) (auto split: sum.splits)

lemma decode_key_chars:
  assumes "decode_key bx k dims = Inr d"
  shows "CHR '']'' \<notin> set k"
proof
  assume "CHR '']'' \<in> set k"
  then obtain w where w: "w \<in> set (split_on (CHR '':'') k)" "CHR '']'' \<in> set w"
    using split_on_chars [of "CHR '']''" k "CHR '':''"] by auto
  have len: "length (split_on (CHR '':'') k) = length dims" and tr: "is_ok (traverse (decode_member bx) (zip (split_on (CHR '':'') k) dims))"
    using assms by (auto simp: decode_key_def Let_def rmap_eq_Inr split: if_splits)
  obtain n vs where "(w, n, vs) \<in> set (zip (split_on (CHR '':'') k) dims)"
    using w(1) len by (metis in_set_impl_in_set_zip1 prod.exhaust)
  from traverse_ok_elem [OF tr this] have "is_ok (decode_member bx (w, n, vs))" .
  then obtain i where "int_of_text w = Some i"
    by (auto simp: is_ok_iff decode_member_def int_of_value_def split: sum.splits option.splits)
  from int_of_text_chars [OF this] w(2) show False by simp
qed

lemma bracket_unique:
  assumes "CHR '']'' \<notin> set k" "CHR '']'' \<notin> set k'" "k @ '']'' @ u = k' @ '']'' @ u'"
  shows "k = k' \<and> u = u'"
proof -
  have "takeWhile (\<lambda>c. c \<noteq> CHR '']'') (k @ '']'' @ u) = k" "takeWhile (\<lambda>c. c \<noteq> CHR '']'') (k' @ '']'' @ u') = k'"
    using assms(1,2) by (auto simp: takeWhile_append)
  then show ?thesis using assms(3) by auto
qed

lemma observation_path_inject:
  assumes "CHR '']'' \<notin> set k" "CHR '']'' \<notin> set k'" "observation_path i k x = observation_path j k' x'"
  shows "i = j \<and> k = k' \<and> x = x'"
proof -
  have nb: "CHR '']'' \<notin> set (show_nat n)" for n
  proof
    assume "CHR '']'' \<in> set (show_nat n)"
    then have "is_digit (CHR '']'')" by (rule show_nat_digits)
    moreover have "\<not> is_digit (CHR '']'')" by code_simp
    ultimately show False by simp
  qed
  have "show_nat i @ '']'' @ (''.series['' @ k @ '']'' @ (''.observations['' @ x @ '']'')) =
      show_nat j @ '']'' @ (''.series['' @ k' @ '']'' @ (''.observations['' @ x' @ '']''))"
    using assms(3) by (simp add: observation_path_def)
  from bracket_unique [OF nb nb this] have i: "i = j" "k @ '']'' @ (''.observations['' @ x @ '']'') = k' @ '']'' @ (''.observations['' @ x' @ '']'')"
    by simp_all
  from bracket_unique [OF assms(1,2) i(2)] i(1) show ?thesis by simp
qed

lemma distinct_concat_map:
  assumes "distinct (map key xs)" "\<And>x. x \<in> set xs \<Longrightarrow> distinct (h x)"
    and "\<And>x y a. x \<in> set xs \<Longrightarrow> y \<in> set xs \<Longrightarrow> a \<in> set (h x) \<Longrightarrow> a \<in> set (h y) \<Longrightarrow> key x = key y"
  shows "distinct (concat (map h xs))"
  using assms
proof (induction xs)
  case (Cons x xs)
  have "set (h x) \<inter> set (concat (map h xs)) = {}"
  proof (rule ccontr)
    assume "\<not> ?thesis"
    then obtain a y where "a \<in> set (h x)" "y \<in> set xs" "a \<in> set (h y)" by auto
    then have "key x = key y" by (intro Cons(4)) auto
    then show False using Cons(2) \<open>y \<in> set xs\<close> by (metis distinct.simps(2) image_eqI image_set list.simps(9))
  qed
  moreover have "distinct (concat (map h xs))" by (rule Cons(1)) (use Cons(2-4) in auto)
  ultimately show ?case using Cons(3) by simp
qed simp

lemma well_keyed_child: "well_keyed v \<Longrightarrow> well_keyed (PDict (child v k))"
proof -
  assume v: "well_keyed v"
  have e: "well_keyed (PDict (entries w))" if "well_keyed w" for w using that by (cases w) (simp_all add: entries_def)
  have "well_keyed (dict_get (entries v) k (PDict []))"
    using e [OF v] by (auto simp: dict_get_def split: option.splits dest: map_of_SomeD)
  then show ?thesis unfolding child_def by (rule e)
qed

lemma distinct_document_entries:
  assumes "well_keyed (PDict body)"
    and "\<And>datasets ds k s. dict_get body ''dataSets'' PNone = PList datasets \<Longrightarrow> ds \<in> set datasets \<Longrightarrow> (k, s) \<in> set (child ds ''series'') \<Longrightarrow> CHR '']'' \<notin> set k"
  shows "distinct (map fst (document_entries to_str body))"
proof (cases "dict_get body ''dataSets'' PNone")
  case (PList datasets)
  have wk: "well_keyed ds" if "ds \<in> set datasets" for ds
    using assms(1) PList that by (auto simp: dict_get_def split: option.splits dest!: map_of_SomeD)
  let ?paths = "\<lambda>i (k, s). map (\<lambda>(x, obs). observation_path i k x) (child s ''observations'')"
  have eq: "map fst (document_entries to_str body) =
      concat (map (\<lambda>(i, ds). concat (map (?paths i) (child ds ''series''))) (enumerate 0 datasets))"
    using PList by (simp add: document_entries_def series_entries_def map_concat comp_def split_def)
  have inj: "k = k' \<and> i = j \<and> x = x'" if "observation_path i k x = observation_path j k' x'" "ds \<in> set datasets" "ds' \<in> set datasets"
    "(k, s) \<in> set (child ds ''series'')" "(k', s') \<in> set (child ds' ''series'')" for i j k k' x x' ds ds' s s'
    using observation_path_inject [OF assms(2) [OF PList that(2,4)] assms(2) [OF PList that(3,5)] that(1)] by simp
  show ?thesis unfolding eq
  proof (rule distinct_concat_map [where key = fst])
    show "distinct (map fst (enumerate 0 datasets))" by simp
    fix y z a
    assume y: "y \<in> set (enumerate 0 datasets)"
    obtain i ds where yi: "y = (i, ds)" "ds \<in> set datasets"
      using y that [of "fst y" "snd y"] by (metis in_set_enumerate_eq add.right_neutral le0 minus_nat.diff_0 nth_mem prod.collapse)
    show "distinct (case y of (i, ds) \<Rightarrow> concat (map (?paths i) (child ds ''series'')))"
      unfolding yi(1) prod.case
    proof (rule distinct_concat_map [where key = fst])
      have c: "well_keyed (PDict (child ds ''series''))" by (rule well_keyed_child [OF wk [OF yi(2)]])
      then show "distinct (map fst (child ds ''series''))" by simp
      fix ks
      assume ks: "ks \<in> set (child ds ''series'')"
      obtain k s where k: "ks = (k, s)" by (cases ks)
      have "well_keyed s" using c ks k by auto
      then have "distinct (map fst (child s ''observations''))" using well_keyed_child by auto
      moreover have "inj_on (\<lambda>(x, obs). observation_path i k x) (set (child s ''observations''))"
        if "distinct (map fst (child s ''observations''))"
      proof (rule inj_onI)
        fix u w
        assume uw: "u \<in> set (child s ''observations'')" "w \<in> set (child s ''observations'')"
          "(case u of (x, obs) \<Rightarrow> observation_path i k x) = (case w of (x, obs) \<Rightarrow> observation_path i k x)"
        then have f: "fst u = fst w" using inj [of i k "fst u" i k "fst w" ds ds s s] yi(2) ks k by (auto simp: split_def)
        have "(fst u, snd u) \<in> set (child s ''observations'')" "(fst u, snd w) \<in> set (child s ''observations'')"
          using uw(1,2) by (simp, simp add: f)
        then have "snd u = snd w" by (rule eq_key_imp_eq_value [OF that])
        with f show "u = w" by (rule prod_eqI)
      qed
      ultimately show "distinct (?paths i ks)" unfolding k prod.case by (auto simp: distinct_map)
    next
      fix ks ks' a
      assume k: "ks \<in> set (child ds ''series'')" "ks' \<in> set (child ds ''series'')" and a: "a \<in> set (?paths i ks)" "a \<in> set (?paths i ks')"
      obtain x where x: "a = observation_path i (fst ks) x" using a(1) by (auto simp: split_def)
      obtain x' where x': "a = observation_path i (fst ks') x'" using a(2) by (auto simp: split_def)
      have "(fst ks, snd ks) \<in> set (child ds ''series'')" "(fst ks', snd ks') \<in> set (child ds ''series'')" using k by simp_all
      with inj [OF trans [OF x [symmetric] x'] yi(2) yi(2)] show "fst ks = fst ks'" by blast
    qed
    assume z: "z \<in> set (enumerate 0 datasets)"
      and a: "a \<in> set (case y of (i, ds) \<Rightarrow> concat (map (?paths i) (child ds ''series'')))"
        "a \<in> set (case z of (i, ds) \<Rightarrow> concat (map (?paths i) (child ds ''series'')))"
    obtain j ds' where zj: "z = (j, ds')" "ds' \<in> set datasets"
      using z that [of "fst z" "snd z"] by (metis in_set_enumerate_eq add.right_neutral le0 minus_nat.diff_0 nth_mem prod.collapse)
    obtain k s x where k: "(k, s) \<in> set (child ds ''series'')" "a = observation_path i k x"
      using a(1) unfolding yi(1) prod.case by (auto simp: split_def)
    obtain k' s' x' where k': "(k', s') \<in> set (child ds' ''series'')" "a = observation_path j k' x'"
      using a(2) unfolding zj(1) prod.case by (auto simp: split_def)
    from inj [OF trans [OF k(2) [symmetric] k'(2)] yi(2) zj(2) k(1) k'(1)] show "fst y = fst z" using yi(1) zj(1) by simp
  qed
qed (simp_all add: document_entries_def)

section \<open>Properties of the parser\<close>

lemma parse_json_distinct:
  assumes "parse_json bx bp p = Inr rs"
  shows "distinct (map pr_record_path rs)"
proof -
  obtain doc body q datasets rss where d: "bis_document bx p = Inr (PDict doc)" "dict_get doc ''data'' (PDict doc) = PDict body"
    "map_of body ''dataSets'' = Some (PList datasets)" "traverse (dataset_records bx bp q) (enumerate 0 datasets) = Inr rss" "rs = concat rss"
    using parse_json_parts [OF assms] .
  obtain doc' body' where e: "bis_document bx p = Inr (PDict doc')" "dict_get doc' ''data'' (PDict doc') = PDict body'"
    "map entry_of rs = document_entries (bx_str bx) body'" using parse_json_entries [OF assms] .
  have same: "body' = body" using d(1,2) e(1,2) by simp
  have "well_keyed (PDict doc)"
  proof -
    obtain json where "read_document (\<lambda>s. Some (PStr s)) (\<lambda>s. Some (PStr s)) json = Some (PDict doc)"
      using d(1) by (auto simp: bis_document_def rbind_eq_Inr Let_def split: option.splits)
    then show ?thesis by (rule read_document_well_keyed [rotated 2]) auto
  qed
  then have wk: "well_keyed (PDict body)"
  proof (cases "map_of doc ''data''")
    case (Some v)
    then show ?thesis using \<open>well_keyed (PDict doc)\<close> map_of_SomeD [OF Some] d(2) Some by (fastforce simp: dict_get_def)
  qed (use d(2) in \<open>simp add: dict_get_def\<close>)
  have "distinct (map fst (document_entries (bx_str bx) body))"
  proof (rule distinct_document_entries [OF wk])
    fix ds k s datasets'
    assume "dict_get body ''dataSets'' PNone = PList datasets'" "ds \<in> set datasets'"
    then have "ds \<in> set datasets" using d(3) by (simp add: dict_get_def)
    then obtain i where "(i, ds) \<in> set (enumerate 0 datasets)" by (metis enumerate_eq_zip in_set_impl_in_set_zip2 length_upt minus_nat.diff_0 add.left_neutral)
    then have "is_ok (dataset_records bx bp q (i, ds))" by (rule traverse_ok_elem [rotated]) (simp add: d(4))
    then obtain series yss where s: "value_get ds ''series'' (PDict []) = Inr (PDict series)"
      "traverse (series_records bx bp q i) series = Inr yss"
      by (auto simp: is_ok_iff dataset_records_def rbind_eq_Inr rmap_eq_Inr passed_tests)
    assume "(k, s) \<in> set (child ds ''series'')"
    then have "is_ok (series_records bx bp q i (k, s))"
      using traverse_ok_elem [of "series_records bx bp q i" series] s(2) value_get_entries [OF s(1)] by simp
    then obtain dims where "decode_key bx k (bq_series_dims q) = Inr dims" by (auto simp: is_ok_iff series_records_def rbind_eq_Inr)
    then show "CHR '']'' \<notin> set k" by (rule decode_key_chars)
  qed
  moreover have "map pr_record_path rs = map fst (map entry_of rs)" by (simp add: entry_of_def)
  ultimately show ?thesis using e(3) same by simp
qed

text \<open>
  C14. A JSON response is read completely or not at all: when the parser returns, its records are the observations of the
  document, all of them, in order, each with the value that is stated there, and no two share a path.
\<close>

theorem bis_json_complete:
  assumes "\<not> str_contains ''csv'' (str_lower (rp_media_type p))" "bis_parse bx bp p = Inr rs"
  shows "\<exists>doc body. bis_document bx p = Inr (PDict doc) \<and> dict_get doc ''data'' (PDict doc) = PDict body \<and>
    map entry_of rs = document_entries (bx_str bx) body \<and> distinct (map pr_record_path rs)"
proof -
  have "parse_json bx bp p = Inr rs" using assms by (simp add: bis_parse_def split: sum.splits if_splits)
  with parse_json_entries [OF this] parse_json_distinct [OF this] show ?thesis by metis
qed

text \<open>
  C29. A bulk file is read completely or not at all: when the parser returns, every row of the file that is not blank has
  exactly one record, in order, under its own number, with the date and the number its cells state, and no row is longer
  than the header.
\<close>

theorem bis_csv_complete:
  assumes "str_contains ''csv'' (str_lower (rp_media_type p))" "bis_parse bx bp p = Inr rs"
  shows "\<exists>body header rows. bx_utf8_sig bx (rp_body p) = Inr body \<and> csv_rows body = (header # rows, None) \<and>
    (let names = dict_of (map (\<lambda>name. (str_upper name, name)) header)
     in list_all2 (\<lambda>(i, row) r. pr_record_path r = ''rows['' @ show_nat i @ '']'' \<and> dw_rest row = [] \<and>
          (\<exists>s t. row_at names row ''OBS_VALUE'' = Inr (PStr s) \<and> row_at names row ''TIME_PERIOD'' = Inr t \<and>
             csv_value bx (PStr s) = Inr (br_value (pr_value r)) \<and>
             normalize_date (bx_str bx) t ''observation_date'' = Inr (br_date (pr_value r))))
        (enumerate 2 (dict_rows header rows)) rs)"
proof -
  have "parse_csv bx bp p = Inr rs" using assms by (simp add: bis_parse_def split: sum.splits if_splits)
  then obtain body where body: "bx_utf8_sig bx (rp_body p) = Inr body"
    "(case csv_rows body of ([], Some e) \<Rightarrow> Inl e | ([], None) \<Rightarrow> Inl (parse_error ''BIS bulk CSV has no header'')
      | (header # rows, broken) \<Rightarrow>
          (let names = dict_of (map (\<lambda>name. (str_upper name, name)) header)
           in rbind (rguard (list_all (\<lambda>c. c \<in> fst ` set names) bulk_columns)
                       (parse_error ''BIS bulk CSV is missing required named columns'')) (\<lambda>_.
              rbind (traverse (csv_record bx bp (rp_metadata p) names) (enumerate 2 (dict_rows header rows))) (\<lambda>records.
              (case broken of None \<Rightarrow> Inr records | Some e \<Rightarrow> Inl e))))) = Inr rs"
    unfolding parse_csv_def rbind_eq_Inr by blast
  obtain header rows where rows: "csv_rows body = (header # rows, None)"
    "traverse (csv_record bx bp (rp_metadata p) (dict_of (map (\<lambda>name. (str_upper name, name)) header))) (enumerate 2 (dict_rows header rows)) = Inr rs"
    using body(2) by (auto simp: Let_def rbind_eq_Inr split: prod.splits list.splits option.splits)
  have one: "pr_record_path r = ''rows['' @ show_nat i @ '']'' \<and> dw_rest row = [] \<and>
      (\<exists>s t. row_at names row ''OBS_VALUE'' = Inr (PStr s) \<and> row_at names row ''TIME_PERIOD'' = Inr t \<and>
         csv_value bx (PStr s) = Inr (br_value (pr_value r)) \<and> normalize_date (bx_str bx) t ''observation_date'' = Inr (br_date (pr_value r)))"
    if "csv_record bx bp metadata names (i, row) = Inr r" for metadata names i row r
  proof -
    have "\<exists>s. v = PStr s" if "csv_value bx v = Inr x" for v x using that by (cases v) (auto simp: csv_value_def)
    then show ?thesis using that
      unfolding csv_record_def Let_def prod.case rbind_eq_Inr by (elim exE conjE) (force simp: bis_parsed_def csv_attributes_def split: if_splits)
  qed
  have "list_all2 (\<lambda>(i, row) r. pr_record_path r = ''rows['' @ show_nat i @ '']'' \<and> dw_rest row = [] \<and>
      (\<exists>s t. row_at (dict_of (map (\<lambda>name. (str_upper name, name)) header)) row ''OBS_VALUE'' = Inr (PStr s) \<and>
         row_at (dict_of (map (\<lambda>name. (str_upper name, name)) header)) row ''TIME_PERIOD'' = Inr t \<and>
         csv_value bx (PStr s) = Inr (br_value (pr_value r)) \<and> normalize_date (bx_str bx) t ''observation_date'' = Inr (br_date (pr_value r))))
      (enumerate 2 (dict_rows header rows)) rs"
    using rows(2) unfolding traverse_Inr_iff by (rule list_all2_mono) (use one in auto)
  with body(1) rows(1) show ?thesis by (auto simp: Let_def)
qed


text \<open>
  A response that is JSON but no object is not reported as a broken contract: the parser asks the array for its
  members, and the \<open>AttributeError\<close> reaches the caller.
\<close>

theorem bis_array_escapes:
  assumes "\<not> str_contains ''csv'' (str_lower (rp_media_type p))" "bis_document bx p = Inr v" "\<forall>ps. v \<noteq> PDict ps"
  shows "bis_parse bx bp p = Inl (attr_error ''get'')"
proof -
  have "value_get v ''data'' v = Inl (attr_error ''get'')" using assms(3) by (cases v) (simp_all add: value_get_def as_dict_def)
  then show ?thesis using assms(1,2) by (simp add: bis_parse_def parse_json_def attr_error_def)
qed

section \<open>Applications\<close>

text \<open>Two days of one series, of which the second has no rate; and the same as a bulk file.\<close>

definition bis_json :: string where
  "bis_json = ''{\"data\":{\"structure\":{\"dimensions\":{\"series\":[{\"id\":\"FREQ\",\"values\":[{\"id\":\"D\"}]},{\"id\":\"REF_AREA\",\"values\":[{\"id\":\"CA\"}]}],\"observation\":[{\"id\":\"TIME_PERIOD\",\"values\":[{\"id\":\"2024-01-02\"},{\"id\":\"2024-01-03\"}]}]}},\"dataSets\":[{\"series\":{\"0:0\":{\"observations\":{\"0\":[\"5.00\"],\"1\":[\"NaN\"]}}}}]}}''"

definition sample_parser :: bis_parser where
  "sample_parser = \<lparr>bp_dataflow = ''WS_CBPOL'', bp_dimension_order = [''FREQ'', ''REF_AREA''], bp_currency = Some ''CAD'',
     bp_collection = Some ''E'', bp_unit = Some ''percent''\<rparr>"

definition bytes_of :: "string \<Rightarrow> bytes" where
  "bytes_of s = map (\<lambda>c. of_nat (code_of c)) s"

definition latin :: "bytes \<Rightarrow> string res" where
  "latin b = Inr (map (\<lambda>w. char_of (unat w)) b)"

definition sample_bx :: bis_codecs where
  "sample_bx = \<lparr>bx_gunzip = (\<lambda>b. None), bx_utf8 = latin, bx_utf8_sig = latin, bx_sha = sample_sha, bx_str = (\<lambda>v. [])\<rparr>"

definition bis_payload :: "string \<Rightarrow> string \<Rightarrow> raw_payload" where
  "bis_payload media s = sample_payload\<lparr>rp_body := bytes_of s, rp_media_type := media\<rparr>"

lemma latin_bytes_of: "latin (bytes_of s) = Inr s"
proof -
  have "char_of (unat (of_nat (code_of c) :: 8 word)) = c" for c
    by (simp add: code_of_def unat_of_nat take_bit_eq_mod)
  then show ?thesis by (simp add: latin_def bytes_of_def comp_def)
qed

definition sample_dimension :: "string \<Rightarrow> string list \<Rightarrow> pyval" where
  "sample_dimension n vs = PDict [(''id'', PStr n), (''values'', PList (map (\<lambda>v. PDict [(''id'', PStr v)]) vs))]"

definition bis_body :: "pyval dict" where
  "bis_body =
     [(''structure'', PDict [(''dimensions'', PDict
         [(''series'', PList [sample_dimension ''FREQ'' [''D''], sample_dimension ''REF_AREA'' [''CA'']]),
          (''observation'', PList [sample_dimension ''TIME_PERIOD'' [''2024-01-02'', ''2024-01-03'']])])]),
      (''dataSets'', PList [PDict [(''series'', PDict [(''0:0'', PDict [(''observations'', PDict
         [(''0'', PList [PStr ''5.00'']), (''1'', PList [PStr ''NaN''])])])])]])]"

lemma read_bis_json: "read_document (\<lambda>s. Some (PStr s)) (\<lambda>s. Some (PStr s)) bis_json = Some (PDict [(''data'', PDict bis_body)])"
  by code_simp

lemma sample_bis_document: "bis_document sample_bx (bis_payload ''application/json'' bis_json) = Inr (PDict [(''data'', PDict bis_body)])"
  by (simp add: bis_document_def sample_bx_def bis_payload_def sample_payload_def latin_bytes_of read_bis_json dict_get_def str_lower_def)

lemma sample_bis_context: "is_ok (bis_context_of sample_bx (bis_payload ''application/json'' []) [(''data'', PDict bis_body)] bis_body)"
  by code_simp

lemma sample_parse_json: "is_ok (parse_json sample_bx sample_parser (bis_payload ''application/json'' bis_json))"
  unfolding parse_json_def sample_bis_document rbind_simps by code_simp

lemma bis_json_complete_witness:
  "\<exists>rs. bis_parse sample_bx sample_parser (bis_payload ''application/json'' bis_json) = Inr rs \<and>
     map entry_of rs = [(''dataSets[0].series[0:0].observations[0]'', Some (Finite False 500 (- 2))),
       (''dataSets[0].series[0:0].observations[1]'', None)] \<and> distinct (map pr_record_path rs)"
proof -
  have json: "\<not> str_contains ''csv'' (str_lower (rp_media_type (bis_payload ''application/json'' bis_json)))"
    by (simp add: bis_payload_def) code_simp
  then obtain rs where rs: "bis_parse sample_bx sample_parser (bis_payload ''application/json'' bis_json) = Inr rs"
    using sample_parse_json by (auto simp: bis_parse_def is_ok_iff)
  have "document_entries (bx_str sample_bx) bis_body = [(''dataSets[0].series[0:0].observations[0]'', Some (Finite False 500 (- 2))),
       (''dataSets[0].series[0:0].observations[1]'', None)]" by code_simp
  moreover have "dict_get [(''data'', PDict bis_body)] ''data'' v = PDict bis_body" for v by (simp add: dict_get_def)
  ultimately show ?thesis using bis_json_complete [OF json rs] rs sample_bis_document by auto
qed

definition bis_csv :: "string \<Rightarrow> string" where
  "bis_csv row = ''FREQ,REF_AREA,CURRENCY,UNIT_MEASURE,COLLECTION,TIME_PERIOD,OBS_VALUE'' @ [CHR 0x0A] @ row"

definition csv_parser :: bis_parser where
  "csv_parser = \<lparr>bp_dataflow = ''WS_CBPOL'', bp_dimension_order = [], bp_currency = None, bp_collection = None, bp_unit = None\<rparr>"

lemma csv_media: "str_contains ''csv'' (str_lower (rp_media_type (bis_payload ''text/csv'' s)))"
  by (simp add: bis_payload_def) code_simp

definition csv_sample :: string where
  "csv_sample = bis_csv (''D,CA,CAD,368,E,2024-01-02,5'' @ [CHR 0x0A])"

lemma utf8_payload: "bx_utf8_sig sample_bx (rp_body (bis_payload m s)) = Inr s" "bx_utf8 sample_bx b = latin b" "bx_utf8_sig sample_bx b = latin b"
  by (simp_all add: sample_bx_def bis_payload_def latin_bytes_of)

lemma bis_csv_complete_witness:
  "\<exists>rs header rows. bis_parse sample_bx csv_parser (bis_payload ''text/csv'' csv_sample) = Inr rs \<and>
     csv_rows csv_sample = (header # rows, None) \<and> length rs = length (dict_rows header rows)"
proof -
  have "is_ok (parse_csv sample_bx csv_parser (bis_payload ''text/csv'' csv_sample))"
    unfolding parse_csv_def utf8_payload rbind_simps by code_simp
  then obtain rs where rs: "bis_parse sample_bx csv_parser (bis_payload ''text/csv'' csv_sample) = Inr rs"
    using csv_media by (auto simp: bis_parse_def is_ok_iff)
  show ?thesis using bis_csv_complete [OF csv_media rs] rs by (auto simp: utf8_payload(1) Let_def dest!: list_all2_lengthD)
qed

text \<open>A row with one cell more than the header, and a response that is an array: neither is reported as a broken contract.\<close>

lemma bis_malformed_escapes:
  "bis_parse sample_bx csv_parser (bis_payload ''text/csv'' (bis_csv (''D,CA,CAD,368,E,2024-01-02,5,x'' @ [CHR 0x0A]))) = Inl (AttributeError ''object has no attribute upper'')"
proof -
  have "parse_csv sample_bx csv_parser (bis_payload ''text/csv'' (bis_csv (''D,CA,CAD,368,E,2024-01-02,5,x'' @ [CHR 0x0A]))) = Inl (AttributeError ''object has no attribute upper'')"
    unfolding parse_csv_def utf8_payload rbind_simps by code_simp
  then show ?thesis using csv_media by (simp add: bis_parse_def)
qed

lemma sample_array: "bis_document sample_bx (bis_payload ''application/json'' ''[]'') = Inr (PList [])"
    "\<not> str_contains ''csv'' (str_lower (rp_media_type (bis_payload ''application/json'' ''[]'')))"
proof -
  have "read_document (\<lambda>s. Some (PStr s)) (\<lambda>s. Some (PStr s)) ''[]'' = Some (PList [])" by code_simp
  then show "bis_document sample_bx (bis_payload ''application/json'' ''[]'') = Inr (PList [])"
    by (simp add: bis_document_def sample_bx_def bis_payload_def sample_payload_def latin_bytes_of dict_get_def str_lower_def)
  show "\<not> str_contains ''csv'' (str_lower (rp_media_type (bis_payload ''application/json'' ''[]'')))"
    by (simp add: bis_payload_def) code_simp
qed

lemma bis_array_escapes_witness:
  "bis_parse sample_bx sample_parser (bis_payload ''application/json'' ''[]'') = Inl (attr_error ''get'')"
  by (rule bis_array_escapes [OF sample_array(2,1)]) simp


end
