(* ===== verification/Bis_Mapper.thy ===== *)
theory Bis_Mapper
  imports Bis_Parser
begin

text \<open>
  \<open>app/providers/bis/mapper.py\<close>: the mapping of a BIS record to the candidate of its series, or to the absence the
  provider published.  The snapshot holds the configured mappings, as objects, and the time of retrieval.
\<close>

section \<open>The mapper\<close>

record bis_snapshot =
  bs_series :: "bis_mapping list"
  bs_retrieved_at :: datetime

definition bis_matches :: "bis_record \<Rightarrow> bis_mapping \<Rightarrow> bool" where
  "bis_matches r m \<longleftrightarrow> bm_enabled m \<and> complete_key m = br_dataflow r @ '':'' @ br_series_key r \<and> mapping_applies m (br_date r)"

definition bis_resolve :: "bis_record \<Rightarrow> bis_mapping list \<Rightarrow> bis_mapping res" where
  "bis_resolve r configured =
     (case filter (bis_matches r) configured of
        [m] \<Rightarrow> (if PStr (bm_economy m) \<noteq> br_economy r \<or> PStr (bm_currency m) \<noteq> br_currency r
                then Inl (ProviderContractError ''BIS economy/currency mapping mismatch'' []) else Inr m)
      | _ \<Rightarrow> Inl (ProviderContractError ''BIS complete series key does not resolve uniquely'' []))"

definition bis_attributes :: "bis_record \<Rightarrow> pyval dict" where
  "bis_attributes r = dict_of (br_attributes r @
     [(''dataflow'', PStr (br_dataflow r)), (''series_key'', PStr (br_series_key r)), (''economy'', br_economy r),
      (''currency'', br_currency r), (''source_unit'', br_unit r), (''collection_indicator'', br_collection r),
      (''dataset_version'', case br_dataset_version r of None \<Rightarrow> PNone | Some s \<Rightarrow> PStr s)])"

definition bis_map :: "(pyval \<Rightarrow> string) \<Rightarrow> bis_snapshot \<Rightarrow> bis_record \<Rightarrow> source_locator \<Rightarrow> mapped res" where
  "bis_map to_str snapshot r source =
     rbind (bis_resolve r (bs_series snapshot)) (\<lambda>m.
     (case br_value r of
        None \<Rightarrow> Inr (Absent \<lparr>pa_instrument = complete_key m, pa_observation_date = br_date r, pa_reason = ''published_absence'',
                  pa_attributes = bis_attributes r\<rparr>)
      | Some v \<Rightarrow>
          rbind (normalize_rate_unit to_str (br_unit r)) (\<lambda>unit.
          rbind (normalize_frequency to_str (br_frequency r)) (\<lambda>freq.
          rbind (rguard (unit = PercentPerYear \<and> freq = FreqDaily) (ProviderContractError ''unsupported BIS policy-rate semantics'' [])) (\<lambda>_.
          rmap (\<lambda>c. Mapped (PolicyCandidate c))
            (mk_policy_candidate (bm_series_id m) (br_date r) v PercentPerYear FreqDaily RatePolicy (bs_retrieved_at snapshot) source
               None (map_option utc_datetime (br_publication r)) (bis_attributes r)))))))"

section \<open>Properties of the mapper\<close>

text \<open>
  What the mapper accepts belongs to exactly one enabled mapping that is in force on the date and agrees on economy
  and currency: a record without a value becomes the absence of that series, one with a value its policy-rate candidate,
  in per cent per year and daily, with the date and the value of the record.
\<close>

theorem bis_map_resolves:
  assumes "bis_map to_str snapshot r source = Inr m"
  shows "\<exists>x. filter (bis_matches r) (bs_series snapshot) = [x] \<and> br_economy r = PStr (bm_economy x) \<and> br_currency r = PStr (bm_currency x) \<and>
    (case br_value r of
       None \<Rightarrow> m = Absent \<lparr>pa_instrument = complete_key x, pa_observation_date = br_date r, pa_reason = ''published_absence'',
                  pa_attributes = bis_attributes r\<rparr>
     | Some v \<Rightarrow> (\<exists>c. m = Mapped (PolicyCandidate c) \<and> pc_series_id c = bm_series_id x \<and> pc_observation_date c = br_date r \<and>
                  pc_value c = v \<and> pc_unit c = PercentPerYear \<and> pc_frequency c = FreqDaily \<and> pc_source c = source \<and>
                  pc_publication c = br_publication r))"
proof -
  obtain x where x: "bis_resolve r (bs_series snapshot) = Inr x" using assms by (auto simp: bis_map_def rbind_eq_Inr)
  then have r: "filter (bis_matches r) (bs_series snapshot) = [x]" "br_economy r = PStr (bm_economy x)" "br_currency r = PStr (bm_currency x)"
    by (auto simp: bis_resolve_def split: list.splits if_splits)
  have pub: "candidate_utc_opt f (map_option utc_datetime q) = Inr u \<Longrightarrow> u = q" for f q u
    by (cases q) (auto simp: candidate_utc_opt_def candidate_utc_def rmap_eq_Inr to_utc_def utc_datetime_def split: if_splits)
  show ?thesis
  proof (cases "br_value r")
    case None
    then show ?thesis using assms x r by (simp add: bis_map_def)
  next
    case (Some v)
    then obtain c where "mk_policy_candidate (bm_series_id x) (br_date r) v PercentPerYear FreqDaily RatePolicy (bs_retrieved_at snapshot) source
               None (map_option utc_datetime (br_publication r)) (bis_attributes r) = Inr c" "m = Mapped (PolicyCandidate c)"
      using assms x by (auto simp: bis_map_def rbind_eq_Inr rmap_eq_Inr)
    then show ?thesis using r Some pub by (auto simp: mk_policy_candidate_def rbind_eq_Inr)
  qed
qed

text \<open>
  A rate the BIS published as absent is skipped: the pipeline keeps the raw record and counts and stores nothing
  else, neither an observation nor a quarantined row.
\<close>

theorem bis_absence_skipped:
  assumes "bd_map b = bis_map to_str snapshot" "br_value (pr_value item) = None" "is_ok (bis_resolve (pr_value item) (bs_series snapshot))"
    and "store_record (rk_raw k) response (pr_record_path item) None (pr_record_checksum item) [] db = Inr (source, db1)"
    and "find_raw_record response (pr_record_path item) (db_raw_records db1) = Inr raw"
  shows "process_record sha b run scope response now k item (counts, db) = Inr (counts, db1)"
  using assms by (auto simp: process_record_def is_ok_iff bis_map_def)

section \<open>Applications of the mapper\<close>


definition rate_record :: "decimal option \<Rightarrow> bis_record" where
  "rate_record v = \<lparr>br_dataflow = ''WS_CBPOL'', br_series_key = ''D.CA'', br_economy = PStr ''CA'', br_currency = PStr ''CAD'',
     br_frequency = PStr ''D'', br_unit = PStr ''percent'', br_collection = PStr ''E'', br_date = 738887, br_value = v,
     br_publication = None, br_dataset_version = None, br_attributes = []\<rparr>"

definition rate_snapshot :: bis_snapshot where
  "rate_snapshot = \<lparr>bs_series = [\<lparr>bm_series_id = 8, bm_dataflow = ''WS_CBPOL'', bm_series_key = ''D.CA'', bm_economy = ''CA'',
     bm_currency = ''CAD'', bm_effective_from = 693596, bm_effective_to = None, bm_enabled = True\<rparr>], bs_retrieved_at = sample_now\<rparr>"

definition rate_source :: source_locator where
  "rate_source = \<lparr>sl_raw_response_id = 30, sl_record_path = ''rows[2]'', sl_record_checksum = None\<rparr>"

lemma bis_map_resolves_witness:
  "\<exists>c. bis_map (\<lambda>v. []) rate_snapshot (rate_record (Some (Finite False 5 0))) rate_source = Inr (Mapped (PolicyCandidate c)) \<and>
     pc_series_id c = 8 \<and> pc_value c = Finite False 5 0"
proof -
  have "is_ok (bis_map (\<lambda>v. []) rate_snapshot (rate_record (Some (Finite False 5 0))) rate_source)" by code_simp
  then obtain m where m: "bis_map (\<lambda>v. []) rate_snapshot (rate_record (Some (Finite False 5 0))) rate_source = Inr m"
    by (auto simp: is_ok_iff)
  have one: "filter (bis_matches (rate_record (Some (Finite False 5 0)))) (bs_series rate_snapshot) = bs_series rate_snapshot" by code_simp
  obtain x c where x: "filter (bis_matches (rate_record (Some (Finite False 5 0)))) (bs_series rate_snapshot) = [x]"
    "m = Mapped (PolicyCandidate c)" "pc_series_id c = bm_series_id x" "pc_value c = Finite False 5 0"
    using bis_map_resolves [OF m] by (auto simp: rate_record_def)
  then have "bm_series_id x = 8" unfolding one by (auto simp: rate_snapshot_def)
  with x m show ?thesis by auto
qed

lemma bis_absence_skipped_witness:
  "\<exists>db'. process_record sample_sha \<lparr>bd_request = sample_request, bd_parse = bis_parse sample_bx csv_parser,
        bd_map = bis_map (\<lambda>v. []) rate_snapshot, bd_stable_keys = (\<lambda>s. None), bd_validate = (\<lambda>c. Inr sample_valid), bd_trigger = None\<rparr>
      1 10 30 63763200000000000 (ky_records sample_keys 1)
      \<lparr>pr_value = rate_record None, pr_record_path = ''rows[2]'', pr_record_checksum = None\<rparr> (empty_counts, claimed_db) = Inr (empty_counts, db')"
proof -
  let ?b = "\<lparr>bd_request = sample_request, bd_parse = bis_parse sample_bx csv_parser, bd_map = bis_map (\<lambda>v. []) rate_snapshot,
     bd_stable_keys = (\<lambda>s. None), bd_validate = (\<lambda>c. Inr sample_valid), bd_trigger = None\<rparr>"
  let ?r = "\<lparr>pr_value = rate_record None, pr_record_path = ''rows[2]'', pr_record_checksum = None\<rparr>"
  have "is_ok (rbind (store_record 41 30 ''rows[2]'' None None [] claimed_db) (\<lambda>(s, db1). find_raw_record 30 ''rows[2]'' (db_raw_records db1)))"
    by code_simp
  then obtain s db1 raw where s: "store_record (rk_raw (ky_records sample_keys 1)) 30 (pr_record_path ?r) None (pr_record_checksum ?r) [] claimed_db = Inr (s, db1)"
    "find_raw_record 30 (pr_record_path ?r) (db_raw_records db1) = Inr raw"
    by (auto simp: rbind_eq_Inr is_ok_iff sample_keys_def)
  have "is_ok (bis_resolve (rate_record None) (bs_series rate_snapshot))" by code_simp
  with bis_absence_skipped [OF _ _ _ s, where b = ?b and to_str = "\<lambda>v. []" and snapshot = rate_snapshot]
  show ?thesis by (auto simp: rate_record_def)
qed

end
