(* ===== verification/Reference_Sync.thy ===== *)
theory Reference_Sync
  imports Reference_Config Raw_Data
begin

text \<open>
  \<open>app/repositories/reference.py\<close> and \<open>app/application/reference.py\<close>: the reconciliation of the reference tables with a
  configuration.  Every table goes through the same steps: an item whose natural key is known overwrites its row, an
  unknown one is inserted, and rows the configuration does not name are switched off.  A configuration item is turned
  into the row it wants, its \<open>template\<close>; the key of a new row is drawn by the number of insertions so far.  The
  constraints are checked at the three flushes.
\<close>

section \<open>Counting\<close>

record tally =
  ty_inserted :: nat
  ty_updated :: nat
  ty_disabled :: nat

definition no_changes :: tally where
  "no_changes = \<lparr>ty_inserted = 0, ty_updated = 0, ty_disabled = 0\<rparr>"

section \<open>One table\<close>

text \<open>
  \<open>_upsert\<close>: \<open>known\<close> are the keys the lookup dictionary holds, \<open>overwrite\<close> sets the columns that differ.
\<close>

definition upsert ::
  "('r \<Rightarrow> 'k) \<Rightarrow> (uuid \<Rightarrow> 'r \<Rightarrow> 'r) \<Rightarrow> ('r \<Rightarrow> 'r \<Rightarrow> 'r) \<Rightarrow> ('r list \<Rightarrow> 'k list) \<Rightarrow> (nat \<Rightarrow> uuid) \<Rightarrow> 'r \<Rightarrow> tally \<times> 'r list \<Rightarrow> tally \<times> 'r list" where
  "upsert key with_id overwrite known new_id item = (\<lambda>(t, rows).
     (if key item \<notin> set (known rows)
      then (t\<lparr>ty_inserted := ty_inserted t + 1\<rparr>, rows @ [with_id (new_id (ty_inserted t)) item])
      else (let rows' = update_where (\<lambda>r. key r = key item) (overwrite item) rows
            in (if rows' = rows then t else t\<lparr>ty_updated := ty_updated t + 1\<rparr>, rows'))))"

text \<open>\<open>_disable\<close>.\<close>

definition disable_missing ::
  "('r \<Rightarrow> 'k) \<Rightarrow> ('r \<Rightarrow> bool) \<Rightarrow> ('r \<Rightarrow> 'r) \<Rightarrow> 'k list \<Rightarrow> tally \<times> 'r list \<Rightarrow> tally \<times> 'r list" where
  "disable_missing key active deactivate configured = (\<lambda>(t, rows).
     (let gone = (\<lambda>r. key r \<notin> set configured \<and> active r)
      in (t\<lparr>ty_disabled := ty_disabled t + length (filter gone rows)\<rparr>, update_where gone deactivate rows)))"

text \<open>
  \<open>_currencies\<close>, \<open>_economies\<close>, \<open>_datasets\<close> and \<open>_pairs\<close> enter the new rows into their dictionary; the series methods do not.
\<close>

definition sync_growing ::
  "('r \<Rightarrow> 'k) \<Rightarrow> (uuid \<Rightarrow> 'r \<Rightarrow> 'r) \<Rightarrow> ('r \<Rightarrow> 'r \<Rightarrow> 'r) \<Rightarrow> ('r \<Rightarrow> bool) \<Rightarrow> ('r \<Rightarrow> 'r) \<Rightarrow> (nat \<Rightarrow> uuid) \<Rightarrow> 'r list \<Rightarrow>
     tally \<times> 'r list \<Rightarrow> tally \<times> 'r list" where
  "sync_growing key with_id overwrite active deactivate new_id items s =
     disable_missing key active deactivate (map key items)
       (fold (upsert key with_id overwrite (map key) new_id) items s)"

definition sync_fixed ::
  "('r \<Rightarrow> 'k) \<Rightarrow> (uuid \<Rightarrow> 'r \<Rightarrow> 'r) \<Rightarrow> ('r \<Rightarrow> 'r \<Rightarrow> 'r) \<Rightarrow> ('r \<Rightarrow> bool) \<Rightarrow> ('r \<Rightarrow> 'r) \<Rightarrow> (nat \<Rightarrow> uuid) \<Rightarrow> 'r list \<Rightarrow>
     tally \<times> 'r list \<Rightarrow> tally \<times> 'r list" where
  "sync_fixed key with_id overwrite active deactivate new_id items s =
     disable_missing key active deactivate (map key items)
       (fold (upsert key with_id overwrite (\<lambda>rows. map key (snd s)) new_id) items s)"

section \<open>The rows of the tables\<close>

definition currency_template :: "currency_config \<Rightarrow> currency" where
  "currency_template x = \<lparr>cu_id = 0, cu_code = gc_code x, cu_name = gc_name x, cu_minor_units = gc_minor_units x, cu_is_active = gc_enabled x\<rparr>"

definition currency_overwrite :: "currency \<Rightarrow> currency \<Rightarrow> currency" where
  "currency_overwrite v r = r\<lparr>cu_name := cu_name v, cu_minor_units := cu_minor_units v, cu_is_active := cu_is_active v\<rparr>"

definition sync_currencies :: "(nat \<Rightarrow> uuid) \<Rightarrow> reference_config \<Rightarrow> tally \<times> currency list \<Rightarrow> tally \<times> currency list" where
  "sync_currencies new_id c =
     sync_growing cu_code (\<lambda>i r. r\<lparr>cu_id := i\<rparr>) currency_overwrite cu_is_active (\<lambda>r. r\<lparr>cu_is_active := False\<rparr>) new_id
       (map currency_template (cf_currencies c))"

definition economy_template :: "economy_config \<Rightarrow> economy" where
  "economy_template x = \<lparr>ec_id = 0, ec_code = ge_code x, ec_iso_country_code = ge_iso_country_code x, ec_name = ge_name x,
     ec_time_zone = ge_time_zone x, ec_economy_type = ge_economy_type x, ec_is_active = ge_enabled x\<rparr>"

definition economy_overwrite :: "economy \<Rightarrow> economy \<Rightarrow> economy" where
  "economy_overwrite v r = r\<lparr>ec_name := ec_name v, ec_iso_country_code := ec_iso_country_code v, ec_time_zone := ec_time_zone v,
     ec_economy_type := ec_economy_type v, ec_is_active := ec_is_active v\<rparr>"

definition sync_economies :: "(nat \<Rightarrow> uuid) \<Rightarrow> reference_config \<Rightarrow> tally \<times> economy list \<Rightarrow> tally \<times> economy list" where
  "sync_economies new_id c =
     sync_growing ec_code (\<lambda>i r. r\<lparr>ec_id := i\<rparr>) economy_overwrite ec_is_active (\<lambda>r. r\<lparr>ec_is_active := False\<rparr>) new_id
       (map economy_template (cf_economies c))"

definition dataset_template :: "dataset_config \<Rightarrow> provider_dataset" where
  "dataset_template x = \<lparr>ds_id = 0, ds_provider_code = gd_provider_code x, ds_dataset_code = gd_dataset_code x,
     ds_display_name = gd_display_name x, ds_configuration_reference = gd_configuration_reference x, ds_license_url = gd_license_url x,
     ds_license_notes = gd_license_notes x, ds_attribution_text = gd_attribution_text x,
     ds_redistribution_restrictions = Some (gd_redistribution_policy x), ds_approval_state = gd_approval_state x,
     ds_is_active = gd_enabled x\<rparr>"

definition dataset_overwrite :: "provider_dataset \<Rightarrow> provider_dataset \<Rightarrow> provider_dataset" where
  "dataset_overwrite v r = r\<lparr>ds_display_name := ds_display_name v, ds_configuration_reference := ds_configuration_reference v,
     ds_license_url := ds_license_url v, ds_license_notes := ds_license_notes v, ds_attribution_text := ds_attribution_text v,
     ds_redistribution_restrictions := ds_redistribution_restrictions v, ds_approval_state := ds_approval_state v,
     ds_is_active := ds_is_active v\<rparr>"

definition dataset_row_key :: "provider_dataset \<Rightarrow> string" where
  "dataset_row_key d = ds_provider_code d @ '':'' @ ds_dataset_code d"

definition sync_datasets :: "(nat \<Rightarrow> uuid) \<Rightarrow> reference_config \<Rightarrow> tally \<times> provider_dataset list \<Rightarrow> tally \<times> provider_dataset list" where
  "sync_datasets new_id c =
     sync_growing dataset_row_key (\<lambda>i r. r\<lparr>ds_id := i\<rparr>) dataset_overwrite ds_is_active (\<lambda>r. r\<lparr>ds_is_active := False\<rparr>) new_id
       (map dataset_template (cf_datasets c))"

text \<open>\<open>rows[name].id\<close>.\<close>

definition id_of :: "('r \<Rightarrow> string) \<Rightarrow> ('r \<Rightarrow> uuid) \<Rightarrow> 'r list \<Rightarrow> string \<Rightarrow> uuid res" where
  "id_of key row_id rows name = (case find (\<lambda>r. key r = name) rows of None \<Rightarrow> Inl (KeyError name) | Some r \<Rightarrow> Inr (row_id r))"

definition pair_template :: "currency list \<Rightarrow> fx_pair_config \<Rightarrow> fx_pair res" where
  "pair_template currencies x =
     rbind (id_of cu_code cu_id currencies (gp_base_currency x)) (\<lambda>base.
     rmap (\<lambda>quot. \<lparr>fp_id = 0, fp_base_currency_id = base, fp_quote_currency_id = quot, fp_symbol = gp_symbol x, fp_is_active = gp_enabled x\<rparr>)
       (id_of cu_code cu_id currencies (gp_quote_currency x)))"

definition pair_overwrite :: "fx_pair \<Rightarrow> fx_pair \<Rightarrow> fx_pair" where
  "pair_overwrite v r = r\<lparr>fp_base_currency_id := fp_base_currency_id v, fp_quote_currency_id := fp_quote_currency_id v,
     fp_is_active := fp_is_active v\<rparr>"

definition sync_pairs :: "(nat \<Rightarrow> uuid) \<Rightarrow> reference_config \<Rightarrow> currency list \<Rightarrow> tally \<times> fx_pair list \<Rightarrow> (tally \<times> fx_pair list) res" where
  "sync_pairs new_id c currencies s =
     rmap (\<lambda>items. sync_growing fp_symbol (\<lambda>i r. r\<lparr>fp_id := i\<rparr>) pair_overwrite fp_is_active (\<lambda>r. r\<lparr>fp_is_active := False\<rparr>) new_id items s)
       (traverse (pair_template currencies) (cf_fx_pairs c))"

text \<open>A relationship has no key of its own and is never switched off; only its end may change.\<close>

definition relationship_template :: "economy list \<Rightarrow> currency list \<Rightarrow> economy_currency_config \<Rightarrow> economy_currency res" where
  "relationship_template economies currencies x =
     rbind (id_of ec_code ec_id economies (gr_economy x)) (\<lambda>e.
     rmap (\<lambda>k. \<lparr>ey_economy_id = e, ey_currency_id = k, ey_effective_from = gr_effective_from x, ey_effective_to = gr_effective_to x\<rparr>)
       (id_of cu_code cu_id currencies (gr_currency x)))"

definition relationship_key :: "economy_currency \<Rightarrow> uuid \<times> uuid \<times> date" where
  "relationship_key r = (ey_economy_id r, ey_currency_id r, ey_effective_from r)"

definition relationship_overwrite :: "economy_currency \<Rightarrow> economy_currency \<Rightarrow> economy_currency" where
  "relationship_overwrite v r = r\<lparr>ey_effective_to := ey_effective_to v\<rparr>"

definition sync_relationships ::
  "reference_config \<Rightarrow> economy list \<Rightarrow> currency list \<Rightarrow> tally \<times> economy_currency list \<Rightarrow> (tally \<times> economy_currency list) res" where
  "sync_relationships c economies currencies s =
     rmap (\<lambda>items. sync_fixed relationship_key (\<lambda>i r. r) relationship_overwrite (\<lambda>r. False) (\<lambda>r. r) (\<lambda>n. 0) items s)
       (traverse (relationship_template economies currencies) (cf_economy_currencies c))"

text \<open>A JSON column changes only when its value does, the order of its keys aside.\<close>

definition json_update :: "pyval \<Rightarrow> pyval \<Rightarrow> pyval" where
  "json_update new old = (if unordered old = unordered new then old else new)"

definition fx_series_template :: "provider_dataset list \<Rightarrow> fx_pair list \<Rightarrow> fx_series_config \<Rightarrow> fx_series res" where
  "fx_series_template datasets pairs x =
     rbind (id_of dataset_row_key ds_id datasets (gf_dataset x)) (\<lambda>d.
     rmap (\<lambda>p. \<lparr>fs_id = 0, fs_provider_dataset_id = d, fs_provider_symbol = gf_provider_symbol x, fs_fx_pair_id = p,
         fs_frequency = gf_frequency x, fs_quote_type = gf_quote_type x, fs_source_metadata = PDict (gf_source_metadata x),
         fs_is_active = gf_enabled x\<rparr>)
       (id_of fp_symbol fp_id pairs (gf_pair x)))"

definition fx_series_key :: "fx_series \<Rightarrow> uuid \<times> string" where
  "fx_series_key r = (fs_provider_dataset_id r, fs_provider_symbol r)"

definition fx_series_overwrite :: "fx_series \<Rightarrow> fx_series \<Rightarrow> fx_series" where
  "fx_series_overwrite v r = r\<lparr>fs_fx_pair_id := fs_fx_pair_id v, fs_frequency := fs_frequency v, fs_quote_type := fs_quote_type v,
     fs_source_metadata := json_update (fs_source_metadata v) (fs_source_metadata r), fs_is_active := fs_is_active v\<rparr>"

definition sync_fx_series ::
  "(nat \<Rightarrow> uuid) \<Rightarrow> reference_config \<Rightarrow> provider_dataset list \<Rightarrow> fx_pair list \<Rightarrow> tally \<times> fx_series list \<Rightarrow> (tally \<times> fx_series list) res" where
  "sync_fx_series new_id c datasets pairs s =
     rmap (\<lambda>items. sync_fixed fx_series_key (\<lambda>i r. r\<lparr>fs_id := i\<rparr>) fx_series_overwrite fs_is_active (\<lambda>r. r\<lparr>fs_is_active := False\<rparr>) new_id items s)
       (traverse (fx_series_template datasets pairs) (cf_fx_series c))"

definition rate_series_template ::
  "provider_dataset list \<Rightarrow> economy list \<Rightarrow> currency list \<Rightarrow> rate_series_config \<Rightarrow> interest_rate_series res" where
  "rate_series_template datasets economies currencies x =
     rbind (id_of dataset_row_key ds_id datasets (gi_dataset x)) (\<lambda>d.
     rbind (id_of ec_code ec_id economies (gi_economy x)) (\<lambda>e.
     rmap (\<lambda>k. \<lparr>is_id = 0, is_provider_dataset_id = d, is_economy_id = e, is_currency_id = k, is_dataflow_key = gi_dataflow_key x,
         is_series_key = gi_series_key x, is_frequency = gi_frequency x, is_unit = gi_unit x, is_rate_type = gi_rate_type x,
         is_collection_indicator = gi_collection_indicator x, is_title = gi_title x, is_notes = gi_notes x,
         is_source_metadata = PDict (gi_source_metadata x), is_publication_metadata = PDict (gi_publication_metadata x),
         is_is_active = gi_enabled x\<rparr>)
       (id_of cu_code cu_id currencies (gi_currency x))))"

definition rate_series_key :: "interest_rate_series \<Rightarrow> uuid \<times> string \<times> string" where
  "rate_series_key r = (is_provider_dataset_id r, is_dataflow_key r, is_series_key r)"

definition rate_series_overwrite :: "interest_rate_series \<Rightarrow> interest_rate_series \<Rightarrow> interest_rate_series" where
  "rate_series_overwrite v r = r\<lparr>is_economy_id := is_economy_id v, is_currency_id := is_currency_id v, is_frequency := is_frequency v,
     is_unit := is_unit v, is_rate_type := is_rate_type v, is_collection_indicator := is_collection_indicator v,
     is_title := is_title v, is_notes := is_notes v,
     is_source_metadata := json_update (is_source_metadata v) (is_source_metadata r),
     is_publication_metadata := json_update (is_publication_metadata v) (is_publication_metadata r), is_is_active := is_is_active v\<rparr>"

definition sync_rate_series ::
  "(nat \<Rightarrow> uuid) \<Rightarrow> reference_config \<Rightarrow> provider_dataset list \<Rightarrow> economy list \<Rightarrow> currency list \<Rightarrow> tally \<times> interest_rate_series list \<Rightarrow>
     (tally \<times> interest_rate_series list) res" where
  "sync_rate_series new_id c datasets economies currencies s =
     rmap (\<lambda>items. sync_fixed rate_series_key (\<lambda>i r. r\<lparr>is_id := i\<rparr>) rate_series_overwrite is_is_active (\<lambda>r. r\<lparr>is_is_active := False\<rparr>)
         new_id items s)
       (traverse (rate_series_template datasets economies currencies) (cf_rate_series c))"

section \<open>The synchronization\<close>

definition first_flush_checks :: "currency list \<Rightarrow> economy list \<Rightarrow> checks" where
  "first_flush_checks currencies economies =
     concat (map currency_checks currencies) @ [(''currency_pkey'', distinct (map cu_id currencies)), (''currency_code_key'', distinct (map cu_code currencies))] @
     concat (map economy_checks economies) @ [(''economy_pkey'', distinct (map ec_id economies)), (''economy_code_key'', distinct (map ec_code economies))]"

definition second_flush_checks :: "provider_dataset list \<Rightarrow> fx_pair list \<Rightarrow> checks" where
  "second_flush_checks datasets pairs =
     concat (map provider_dataset_checks datasets) @
     [(''provider_dataset_pkey'', distinct (map ds_id datasets)),
      (''uq_provider_dataset_codes'', distinct (map (\<lambda>d. (ds_provider_code d, ds_dataset_code d)) datasets))] @
     concat (map fx_pair_checks pairs) @
     [(''fx_pair_pkey'', distinct (map fp_id pairs)), (''fx_pair_symbol_key'', distinct (map fp_symbol pairs)),
      (''uq_fx_pair_currencies'', distinct (map (\<lambda>p. (fp_base_currency_id p, fp_quote_currency_id p)) pairs))]"

definition third_flush_checks :: "economy_currency list \<Rightarrow> fx_series list \<Rightarrow> interest_rate_series list \<Rightarrow> checks" where
  "third_flush_checks relationships fx rates =
     concat (map economy_currency_checks relationships) @ [(''economy_currency_pkey'', distinct (map relationship_key relationships))] @
     concat (map fx_series_checks fx) @ [(''fx_series_pkey'', distinct (map fs_id fx)),
      (''uq_fx_series_provider_symbol'', distinct (map fx_series_key fx))] @
     concat (map interest_rate_series_checks rates) @ [(''interest_rate_series_pkey'', distinct (map is_id rates)),
      (''uq_interest_rate_series_key'', distinct (map rate_series_key rates))]"

definition synchronize :: "(nat \<Rightarrow> uuid) \<Rightarrow> reference_config \<Rightarrow> database \<Rightarrow> (tally \<times> database) res" where
  "synchronize new_id c db =
     (case sync_currencies new_id c (no_changes, db_currencies db) of (t1, currencies) \<Rightarrow>
     (case sync_economies new_id c (t1, db_economies db) of (t2, economies) \<Rightarrow>
     rbind (enforce (first_flush_checks currencies economies)) (\<lambda>_.
     (case sync_datasets new_id c (t2, db_datasets db) of (t3, datasets) \<Rightarrow>
     rbind (sync_pairs new_id c currencies (t3, db_fx_pairs db)) (\<lambda>(t4, pairs).
     rbind (enforce (second_flush_checks datasets pairs)) (\<lambda>_.
     rbind (sync_relationships c economies currencies (t4, db_economy_currencies db)) (\<lambda>(t5, relationships).
     rbind (sync_fx_series new_id c datasets pairs (t5, db_fx_series db)) (\<lambda>(t6, fx).
     rbind (sync_rate_series new_id c datasets economies currencies (t6, db_rate_series db)) (\<lambda>(t7, rates).
     rmap (\<lambda>_. (t7, db\<lparr>db_currencies := currencies, db_economies := economies, db_datasets := datasets, db_fx_pairs := pairs,
                       db_economy_currencies := relationships, db_fx_series := fx, db_rate_series := rates\<rparr>))
       (enforce (third_flush_checks relationships fx rates)))))))))))"

text \<open>The service adds the checksum of the configuration.\<close>

record sync_result =
  yr_changes :: tally
  yr_checksum :: string

definition sync_service :: "(nat \<Rightarrow> uuid) \<Rightarrow> reference_config \<Rightarrow> string \<Rightarrow> database \<Rightarrow> (sync_result \<times> database) res" where
  "sync_service new_id c checksum db =
     rmap (\<lambda>(t, db'). (\<lparr>yr_changes = t, yr_checksum = checksum\<rparr>, db')) (synchronize new_id c db)"

section \<open>The contract of a table\<close>

text \<open>
  What the reconciliation of a table relies on: overwriting and switching off keep the key and the id of a row,
  overwriting twice is overwriting once, and a row drawn from an item is what the item asks for.
\<close>

locale keyed_table =
  fixes key :: "'r \<Rightarrow> 'k"
    and row_id :: "'r \<Rightarrow> 'i"
    and with_id :: "uuid \<Rightarrow> 'r \<Rightarrow> 'r"
    and overwrite :: "'r \<Rightarrow> 'r \<Rightarrow> 'r"
    and active :: "'r \<Rightarrow> bool"
    and deactivate :: "'r \<Rightarrow> 'r"
  assumes key_with_id: "key (with_id i v) = key v"
    and key_overwrite: "key (overwrite v r) = key r"
    and key_deactivate: "key (deactivate r) = key r"
    and id_overwrite: "row_id (overwrite v r) = row_id r"
    and id_deactivate: "row_id (deactivate r) = row_id r"
    and overwrite_twice: "overwrite v (overwrite v r) = overwrite v r"
    and overwrite_drawn: "overwrite v (with_id i v) = with_id i v"
    and active_overwrite: "active (overwrite v r) = active v"
    and active_deactivate: "\<not> active (deactivate r)"
begin

lemmas laws = key_with_id key_overwrite key_deactivate id_overwrite id_deactivate overwrite_twice overwrite_drawn
  active_overwrite active_deactivate

text \<open>The rows a list of items asks for.\<close>

definition carried :: "'r list \<Rightarrow> 'r list \<Rightarrow> bool" where
  "carried items rows \<longleftrightarrow> (\<forall>v\<in>set items. key v \<in> key ` set rows \<and> (\<forall>r\<in>set rows. key r = key v \<longrightarrow> overwrite v r = r))"

definition settled :: "'r list \<Rightarrow> 'r list \<Rightarrow> bool" where
  "settled items rows \<longleftrightarrow> carried items rows \<and> (\<forall>r\<in>set rows. key r \<notin> key ` set items \<longrightarrow> \<not> active r)"

text \<open>Rows are neither deleted nor renamed.\<close>

definition extends :: "'r list \<Rightarrow> 'r list \<Rightarrow> bool" where
  "extends rows rows' \<longleftrightarrow> prefix (map (\<lambda>r. (row_id r, key r)) rows) (map (\<lambda>r. (row_id r, key r)) rows')"

lemma extends_refl: "extends rows rows"
  by (simp add: extends_def)

lemma extends_trans: "extends r s \<Longrightarrow> extends s t \<Longrightarrow> extends r t"
  unfolding extends_def by (rule prefix_order.trans)

lemma extends_update: "extends rows (update_where P f rows)" if "\<And>r. row_id (f r) = row_id r" "\<And>r. key (f r) = key r"
  unfolding extends_def by (subst map_update_where) (simp_all add: that)

lemma extends_append: "extends rows (rows @ new)"
  by (simp add: extends_def)

lemma key_set_update: "key ` set (update_where P f rows) = key ` set rows" if "\<And>r. key (f r) = key r"
  using map_update_where [of key f P rows, OF that] by (metis list.set_map)

subsection \<open>One item\<close>

lemma upsert_extends: "extends rows (snd (upsert key with_id overwrite known new_id v (t, rows)))"
  by (auto simp: laws upsert_def Let_def extends_refl extends_update extends_append)

text \<open>\<open>exact\<close>: the lookup dictionary agrees with the table on the key of the item.\<close>

lemma upsert_carried:
  assumes exact: "key v \<in> set (known rows) \<longleftrightarrow> key v \<in> key ` set rows"
    and before: "carried items rows" "key v \<notin> key ` set items"
  shows "carried (items @ [v]) (snd (upsert key with_id overwrite known new_id v (t, rows)))"
proof (cases "key v \<in> set (known rows)")
  case True
  let ?rows = "update_where (\<lambda>r. key r = key v) (overwrite v) rows"
  have keys: "key ` set ?rows = key ` set rows" by (rule key_set_update) (simp add: laws)
  have "overwrite w r = r" if "w \<in> set items" "r \<in> set ?rows" "key r = key w" for w r
    using that before by (auto simp: laws carried_def set_update_where image_iff split: if_splits)
  moreover have "overwrite v r = r" if "r \<in> set ?rows" "key r = key v" for r
    using that by (auto simp: laws set_update_where split: if_splits)
  ultimately have "carried (items @ [v]) ?rows"
    using before(1) True exact unfolding carried_def keys by auto
  then show ?thesis using True by (auto simp: laws upsert_def Let_def)
next
  case False
  have "overwrite w r = r" if "w \<in> set items" "r \<in> set rows \<or> r = with_id (new_id (ty_inserted t)) v" "key r = key w" for w r
    using that before by (auto simp: laws carried_def image_iff)
  moreover have "overwrite v r = r" if "r \<in> set rows \<or> r = with_id (new_id (ty_inserted t)) v" "key r = key v" for r
    using that False exact by (auto simp: laws image_iff)
  ultimately have "carried (items @ [v]) (rows @ [with_id (new_id (ty_inserted t)) v])"
    using before(1) unfolding carried_def by (auto simp: laws)
  then show ?thesis using False by (simp add: laws upsert_def)
qed

lemma upsert_fixpoint:
  assumes "carried items rows" "v \<in> set items" "key v \<in> set (known rows) \<longleftrightarrow> key v \<in> key ` set rows"
  shows "upsert key with_id overwrite known new_id v (t, rows) = (t, rows)"
proof -
  have "update_where (\<lambda>r. key r = key v) (overwrite v) rows = rows"
    using assms(1,2) unfolding update_where_def by (intro map_idI) (auto simp: laws carried_def)
  then show ?thesis using assms by (auto simp: laws upsert_def carried_def)
qed

subsection \<open>All items\<close>

lemma fold_extends: "extends (snd s) (snd (fold (upsert key with_id overwrite known new_id) items s))"
proof (induction items arbitrary: s)
  case (Cons v items)
  obtain t rows where s: "s = (t, rows)" by (cases s)
  show ?case unfolding s using extends_trans [OF upsert_extends Cons.IH] by simp
qed (simp add: laws extends_refl)

lemma growing_carried:
  "carried earlier (snd s) \<Longrightarrow> distinct (map key (earlier @ items)) \<Longrightarrow>
     carried (earlier @ items) (snd (fold (upsert key with_id overwrite (map key) new_id) items s))"
proof (induction items arbitrary: s earlier)
  case (Cons v items)
  obtain t rows where s: "s = (t, rows)" by (cases s)
  have "carried (earlier @ [v]) (snd (upsert key with_id overwrite (map key) new_id v s))"
    unfolding s by (rule upsert_carried) (use Cons.prems s in auto)
  from Cons.IH [OF this] Cons.prems(2) show ?case by simp
qed simp

text \<open>With distinct items the dictionaries of the series methods, which do not grow, make no difference.\<close>

lemma fixed_is_growing:
  assumes "distinct (map key items)" "\<And>v. v \<in> set items \<Longrightarrow> key v \<in> set ks \<longleftrightarrow> key v \<in> key ` set (snd s)"
  shows "fold (upsert key with_id overwrite (\<lambda>rows. ks) new_id) items s = fold (upsert key with_id overwrite (map key) new_id) items s"
  using assms
proof (induction items arbitrary: s)
  case (Cons v items)
  obtain t rows where s: "s = (t, rows)" by (cases s)
  have same: "upsert key with_id overwrite (\<lambda>rows. ks) new_id v s = upsert key with_id overwrite (map key) new_id v s"
    using Cons.prems(2) [of v] by (simp add: laws upsert_def s)
  have "key w \<in> key ` set (snd (upsert key with_id overwrite (map key) new_id v s)) \<longleftrightarrow> key w \<in> key ` set rows"
    if "w \<in> set items" for w
  proof -
    have "key w \<noteq> key v" using that Cons.prems(1) by (auto simp: laws image_iff)
    then show ?thesis by (simp add: laws upsert_def s Let_def key_set_update)
  qed
  then have "fold (upsert key with_id overwrite (\<lambda>rows. ks) new_id) items (upsert key with_id overwrite (map key) new_id v s) =
    fold (upsert key with_id overwrite (map key) new_id) items (upsert key with_id overwrite (map key) new_id v s)"
    using Cons.prems s by (intro Cons.IH) auto
  then show ?case by (simp add: laws same)
qed simp

lemma sync_fixed_growing:
  "distinct (map key items) \<Longrightarrow>
     sync_fixed key with_id overwrite active deactivate new_id items s = sync_growing key with_id overwrite active deactivate new_id items s"
  unfolding sync_fixed_def sync_growing_def by (subst fixed_is_growing) auto

theorem sync_extends: "extends (snd s) (snd (sync_growing key with_id overwrite active deactivate new_id items s))"
proof -
  obtain t rows where f: "fold (upsert key with_id overwrite (map key) new_id) items s = (t, rows)" by fastforce
  have "extends (snd s) rows" using fold_extends [of s "map key" new_id items] f by simp
  moreover have "extends rows (update_where Q deactivate rows)" for Q by (rule extends_update) (simp_all add: laws)
  ultimately show ?thesis by (simp add: laws sync_growing_def f disable_missing_def Let_def) (blast intro: extends_trans)
qed

theorem sync_settled:
  assumes "distinct (map key items)"
  shows "settled items (snd (sync_growing key with_id overwrite active deactivate new_id items s))"
proof -
  obtain t rows where f: "fold (upsert key with_id overwrite (map key) new_id) items s = (t, rows)" by fastforce
  let ?gone = "\<lambda>r. key r \<notin> set (map key items) \<and> active r"
  let ?rows = "update_where ?gone deactivate rows"
  have c: "carried items rows" using growing_carried [of "[]" s items new_id] assms f by (simp add: laws carried_def)
  have keys: "key ` set ?rows = key ` set rows" by (rule key_set_update) (simp add: laws)
  have "overwrite v r = r" if "v \<in> set items" "r \<in> set ?rows" "key r = key v" for v r
    using that c by (auto simp: laws carried_def set_update_where split: if_splits)
  then have "carried items ?rows" using c unfolding carried_def keys by blast
  moreover have "\<not> active r" if r: "r \<in> set ?rows" "key r \<notin> key ` set items" for r
  proof -
    obtain q where q: "q \<in> set rows" "r = (if ?gone q then deactivate q else q)" using r(1) by (auto simp only: set_update_where)
    show ?thesis
    proof (cases "?gone q")
      case True
      then show ?thesis using q(2) by (metis active_deactivate)
    next
      case False
      then show ?thesis using q(2) r(2) by auto
    qed
  qed
  ultimately show ?thesis by (simp add: laws settled_def sync_growing_def f disable_missing_def Let_def)
qed

theorem settled_fixpoint:
  assumes "settled items rows"
  shows "sync_growing key with_id overwrite active deactivate new_id items (t, rows) = (t, rows)"
proof -
  have c: "carried items rows" and off: "\<And>r. r \<in> set rows \<Longrightarrow> key r \<notin> key ` set items \<Longrightarrow> \<not> active r"
    using assms by (auto simp: laws settled_def)
  have "fold (upsert key with_id overwrite (map key) new_id) xs (t, rows) = (t, rows)" if "set xs \<subseteq> set items" for xs
    using that by (induction xs) (simp_all add: laws upsert_fixpoint [OF c])
  moreover have none: "filter (\<lambda>r. key r \<notin> set (map key items) \<and> active r) rows = []"
    using off by (auto simp: laws filter_empty_conv)
  moreover have "update_where (\<lambda>r. key r \<notin> set (map key items) \<and> active r) deactivate rows = rows"
    using none by (intro update_where_id) (auto simp: laws filter_empty_conv)
  ultimately show ?thesis by (simp add: laws sync_growing_def disable_missing_def Let_def del: set_map)
qed

text \<open>After a synchronization the active rows are those of the enabled items.\<close>

lemma settled_active:
  assumes "settled items rows"
  shows "key ` {r \<in> set rows. active r} = key ` {v \<in> set items. active v}"
proof -
  have match: "\<exists>v\<in>set items. key r = key v \<and> active v" if r: "r \<in> set rows" "active r" for r
  proof -
    obtain v where v: "v \<in> set items" "key r = key v" using assms r by (auto simp: laws settled_def)
    then have "overwrite v r = r" using assms r by (auto simp: laws settled_def carried_def)
    then have "active v" using r(2) active_overwrite [of v r] by simp
    then show ?thesis using v by blast
  qed
  have conv: "\<exists>r\<in>set rows. key r = key v \<and> active r" if v: "v \<in> set items" "active v" for v
  proof -
    obtain r where r: "r \<in> set rows" "key r = key v" using assms v by (auto simp: laws settled_def carried_def)
    then have "overwrite v r = r" using assms v by (auto simp: laws settled_def carried_def)
    then have "active r" using v(2) active_overwrite [of v r] by simp
    then show ?thesis using r by blast
  qed
  show ?thesis using match conv by (auto simp: laws image_iff) metis+
qed

end

lemma json_update_laws: "json_update v (json_update v r) = json_update v r" "json_update v v = v"
  by (simp_all add: json_update_def)

lemma series_overwrite_twice:
  "fx_series_overwrite v (fx_series_overwrite v r) = fx_series_overwrite v r"
  "rate_series_overwrite w (rate_series_overwrite w s) = rate_series_overwrite w s"
  by (cases r, simp add: fx_series_overwrite_def json_update_laws, cases s, simp add: rate_series_overwrite_def json_update_laws)

lemma series_overwrite_drawn:
  "fx_series_overwrite v (v\<lparr>fs_id := i\<rparr>) = v\<lparr>fs_id := i\<rparr>"
  "rate_series_overwrite w (w\<lparr>is_id := i\<rparr>) = w\<lparr>is_id := i\<rparr>"
  by (cases v, simp add: fx_series_overwrite_def json_update_laws, cases w, simp add: rate_series_overwrite_def json_update_laws)

text \<open>The tables of the schema keep the contract.\<close>

interpretation currency_table: keyed_table cu_code cu_id "\<lambda>i r. r\<lparr>cu_id := i\<rparr>" currency_overwrite cu_is_active "\<lambda>r. r\<lparr>cu_is_active := False\<rparr>"
  by unfold_locales (simp_all add: currency_overwrite_def)

interpretation economy_table: keyed_table ec_code ec_id "\<lambda>i r. r\<lparr>ec_id := i\<rparr>" economy_overwrite ec_is_active "\<lambda>r. r\<lparr>ec_is_active := False\<rparr>"
  by unfold_locales (simp_all add: economy_overwrite_def)

interpretation dataset_table: keyed_table dataset_row_key ds_id "\<lambda>i r. r\<lparr>ds_id := i\<rparr>" dataset_overwrite ds_is_active "\<lambda>r. r\<lparr>ds_is_active := False\<rparr>"
  by unfold_locales (simp_all add: dataset_overwrite_def dataset_row_key_def)

interpretation pair_table: keyed_table fp_symbol fp_id "\<lambda>i r. r\<lparr>fp_id := i\<rparr>" pair_overwrite fp_is_active "\<lambda>r. r\<lparr>fp_is_active := False\<rparr>"
  by unfold_locales (simp_all add: pair_overwrite_def)

interpretation relationship_table: keyed_table relationship_key relationship_key "\<lambda>i r. r" relationship_overwrite "\<lambda>r. False" "\<lambda>r. r"
  by unfold_locales (simp_all add: relationship_overwrite_def relationship_key_def)

interpretation fx_series_table: keyed_table fx_series_key fs_id "\<lambda>i r. r\<lparr>fs_id := i\<rparr>" fx_series_overwrite fs_is_active "\<lambda>r. r\<lparr>fs_is_active := False\<rparr>"
  by unfold_locales
    (simp_all only: series_overwrite_twice series_overwrite_drawn, simp_all add: fx_series_overwrite_def fx_series_key_def)

interpretation rate_series_table: keyed_table rate_series_key is_id "\<lambda>i r. r\<lparr>is_id := i\<rparr>" rate_series_overwrite is_is_active "\<lambda>r. r\<lparr>is_is_active := False\<rparr>"
  by unfold_locales
    (simp_all only: series_overwrite_twice series_overwrite_drawn, simp_all add: rate_series_overwrite_def rate_series_key_def)

section \<open>Distinct items\<close>

text \<open>The keys a validated configuration asks for are distinct; those with ids in them because ids are.\<close>

lemma traverse_keys: "traverse f xs = Inr ys \<Longrightarrow> (\<And>x y. f x = Inr y \<Longrightarrow> g y = h x) \<Longrightarrow> map g ys = map h xs"
  by (induction xs arbitrary: ys) (auto split: sum.splits)

lemma list_all2_in_set2: "list_all2 P xs ys \<Longrightarrow> y \<in> set ys \<Longrightarrow> \<exists>x\<in>set xs. P x y"
  by (induction rule: list_all2_induct) auto

lemma traverse_distinct:
  assumes "traverse f xs = Inr ys" "distinct (map h xs)"
    and inj: "\<And>x x' y y'. f x = Inr y \<Longrightarrow> f x' = Inr y' \<Longrightarrow> g y = g y' \<Longrightarrow> h x = h x'"
  shows "distinct (map g ys)"
  using assms(1,2)
proof (induction xs arbitrary: ys)
  case (Cons x xs)
  obtain y zs where y: "f x = Inr y" "traverse f xs = Inr zs" "ys = y # zs"
    using Cons.prems(1) by (auto split: sum.splits)
  have "g y \<noteq> g z" if z: "z \<in> set zs" for z
  proof -
    obtain x' where "x' \<in> set xs" "f x' = Inr z"
      using y(2) z unfolding traverse_Inr_iff by (meson list_all2_in_set2)
    then show ?thesis using inj [OF y(1)] Cons.prems(2) by (auto simp: image_iff)
  qed
  then show ?case using Cons.IH [OF y(2)] Cons.prems(2) y(3) by auto
qed simp

lemma id_of_inj:
  assumes "distinct (map row_id rows)" "id_of key row_id rows m = Inr i" "id_of key row_id rows n = Inr i"
  shows "m = n"
proof -
  obtain r s where rs: "find (\<lambda>r. key r = m) rows = Some r" "find (\<lambda>r. key r = n) rows = Some s" "row_id r = i" "row_id s = i"
    using assms(2,3) by (auto simp: id_of_def split: option.splits)
  then have "r \<in> set rows" "s \<in> set rows" "key r = m" "key s = n" using find_SomeD by fastforce+
  then show ?thesis using assms(1) rs(3,4) by (metis distinct_map inj_on_eq_iff)
qed

lemma add_unique_distinct:
  assumes "rfold f xs seen = Inr s'" "\<And>x t t'. f x t = Inr t' \<Longrightarrow> h x \<notin> set t \<and> t' = h x # t"
  shows "distinct (map h xs) \<and> set (map h xs) \<inter> set seen = {}"
  using assms(1)
proof (induction xs arbitrary: seen)
  case (Cons x xs)
  obtain t where t: "f x seen = Inr t" "rfold f xs t = Inr s'" using Cons.prems by (auto split: sum.splits)
  show ?case using assms(2) [OF t(1)] Cons.IH [OF t(2)] by auto
qed simp

lemma check_adjacent_distinct: "check_adjacent xs = Inr u \<Longrightarrow> sorted (map gr_effective_from xs) \<Longrightarrow>
    (\<And>x t. x \<in> set xs \<Longrightarrow> gr_effective_to x = Some t \<Longrightarrow> gr_effective_from x \<le> t) \<Longrightarrow> distinct (map gr_effective_from xs)"
proof (induction xs rule: check_adjacent.induct)
  case (1 p q rest)
  have ok: "check_adjacent (q # rest) = Inr u" "ends_before (gr_effective_to p) (gr_effective_from q)" "gr_effective_to p \<noteq> None"
    using "1.prems"(1) by (auto split: if_splits)
  obtain t where t: "gr_effective_to p = Some t" "t < gr_effective_from q"
    using ok by (auto simp: ends_before_def split: option.splits)
  have "gr_effective_from p < gr_effective_from q" using "1.prems"(3) [of p t] t by auto
  moreover have "distinct (map gr_effective_from (q # rest))" using "1.IH" ok "1.prems" by (auto split: if_splits)
  ultimately show ?case using "1.prems"(2) by fastforce
qed auto

definition period_key :: "economy_currency_config \<Rightarrow> string \<times> string \<times> date" where
  "period_key x = (gr_economy x, gr_currency x, gr_effective_from x)"

lemma distinct_by_group:
  assumes "\<And>k. distinct (map g (filter (\<lambda>x. h x = k) xs))"
  shows "distinct (map (\<lambda>x. (h x, g x)) xs)"
  using assms
proof (induction xs)
  case (Cons x xs)
  have "distinct (map g (filter (\<lambda>y. h y = k) xs))" for k using Cons.prems [of k] by (auto split: if_splits)
  moreover have "(h x, g x) \<notin> (\<lambda>x. (h x, g x)) ` set xs" using Cons.prems [of "h x"] by auto
  ultimately show ?case using Cons.IH by simp
qed simp

lemma validated_keys:
  assumes v: "validate_config zk c = Inr u"
  shows "distinct (map gc_code (cf_currencies c))" "distinct (map ge_code (cf_economies c))"
    "distinct (map dataset_key (cf_datasets c))" "distinct (map gp_symbol (cf_fx_pairs c))"
    "distinct (map period_key (cf_economy_currencies c))"
    "distinct (map (\<lambda>x. (gf_dataset x, gf_provider_symbol x)) (cf_fx_series c))"
    "distinct (map (\<lambda>x. (gi_dataset x, gi_dataflow_key x, gi_series_key x)) (cf_rate_series c))"
proof -
  have all: "distinct (map ge_code (cf_economies c))"
    "\<forall>x\<in>set (cf_economy_currencies c). check_economy_currency (map ge_code (cf_economies c)) (map gc_code (cf_currencies c)) x = Inr ()"
    "\<exists>s. rfold (check_fx_series c) (cf_fx_series c) [] = Inr s"
    "\<exists>s. rfold (check_rate_series c) (cf_rate_series c) [] = Inr s"
    using v unfolding validate_config_def by (simp_all add: res_simps)
  show "distinct (map gc_code (cf_currencies c))" "distinct (map dataset_key (cf_datasets c))"
    "distinct (map gp_symbol (cf_fx_pairs c))" "distinct (map ge_code (cf_economies c))"
    using validate_configD [OF v] all(1) by blast+
  let ?xs = "cf_economy_currencies c"
  have "distinct (map gr_effective_from (filter (\<lambda>x. relationship x = k) ?xs))" for k
  proof (cases "k \<in> relationship ` set ?xs")
    case True
    let ?ys = "sort_key gr_effective_from (filter (\<lambda>x. relationship x = k) ?xs)"
    have "check_adjacent ?ys = Inr ()"
      using validate_configD(7) [OF v] True by (auto simp: check_no_overlaps_def each_ok)
    moreover have "gr_effective_from x \<le> t" if "x \<in> set ?ys" "gr_effective_to x = Some t" for x t
    proof -
      have "check_economy_currency (map ge_code (cf_economies c)) (map gc_code (cf_currencies c)) x = Inr ()"
        using all(2) that(1) by simp
      then show ?thesis using that(2) by (auto simp: check_economy_currency_def ends_before_def res_simps)
    qed
    ultimately have "distinct (map gr_effective_from ?ys)" by (intro check_adjacent_distinct) auto
    then show ?thesis by (metis distinct_map distinct_sort set_sort mset_sort mset_eq_imp_distinct_iff mset_map)
  next
    case False
    then have "filter (\<lambda>x. relationship x = k) ?xs = []" by (auto simp: filter_empty_conv)
    then show ?thesis by simp
  qed
  from distinct_by_group [OF this] have "distinct (map (\<lambda>x. (relationship x, gr_effective_from x)) ?xs)" .
  then show "distinct (map period_key ?xs)"
    by (auto simp: distinct_map inj_on_def period_key_def relationship_def)
  have fx: "[gf_dataset x, gf_provider_symbol x] \<notin> set t \<and> t' = [gf_dataset x, gf_provider_symbol x] # t"
    if "check_fx_series c x t = Inr t'" for x t t'
    using that by (auto simp: check_fx_series_def add_unique_def res_simps split: if_splits)
  obtain s where "rfold (check_fx_series c) (cf_fx_series c) [] = Inr s" using all(3) by blast
  from add_unique_distinct [OF this fx] show "distinct (map (\<lambda>x. (gf_dataset x, gf_provider_symbol x)) (cf_fx_series c))"
    by (auto simp: distinct_map inj_on_def)
  have rate: "[gi_dataset x, gi_dataflow_key x, gi_series_key x] \<notin> set t \<and> t' = [gi_dataset x, gi_dataflow_key x, gi_series_key x] # t"
    if "check_rate_series c x t = Inr t'" for x t t'
    using that by (auto simp: check_rate_series_def add_unique_def res_simps split: if_splits)
  obtain s where "rfold (check_rate_series c) (cf_rate_series c) [] = Inr s" using all(4) by blast
  from add_unique_distinct [OF this rate]
  show "distinct (map (\<lambda>x. (gi_dataset x, gi_dataflow_key x, gi_series_key x)) (cf_rate_series c))"
    by (auto simp: distinct_map inj_on_def)
qed

lemma template_keys:
  "map cu_code (map currency_template xs) = map gc_code xs"
  "map ec_code (map economy_template ys) = map ge_code ys"
  "map dataset_row_key (map dataset_template zs) = map dataset_key zs"
  by (simp_all add: currency_template_def economy_template_def dataset_template_def dataset_row_key_def dataset_key_def)

lemma pair_template_keys: "traverse (pair_template cs) xs = Inr ps \<Longrightarrow> map fp_symbol ps = map gp_symbol xs"
  by (erule traverse_keys) (auto simp: pair_template_def res_simps)

lemma relationship_template_distinct:
  assumes "traverse (relationship_template es cs) xs = Inr rs" "distinct (map period_key xs)"
    and ids: "distinct (map ec_id es)" "distinct (map cu_id cs)"
  shows "distinct (map relationship_key rs)"
  using assms(1,2)
  by (rule traverse_distinct)
    (auto simp: relationship_template_def relationship_key_def period_key_def res_simps intro: id_of_inj [OF ids(1)] id_of_inj [OF ids(2)])

lemma fx_series_template_distinct:
  assumes "traverse (fx_series_template ds ps) xs = Inr fs" "distinct (map (\<lambda>x. (gf_dataset x, gf_provider_symbol x)) xs)"
    and ids: "distinct (map ds_id ds)"
  shows "distinct (map fx_series_key fs)"
  using assms(1,2)
  by (rule traverse_distinct) (auto simp: fx_series_template_def fx_series_key_def res_simps intro: id_of_inj [OF ids])

lemma rate_series_template_distinct:
  assumes "traverse (rate_series_template ds es cs) xs = Inr rs"
    "distinct (map (\<lambda>x. (gi_dataset x, gi_dataflow_key x, gi_series_key x)) xs)"
    and ids: "distinct (map ds_id ds)"
  shows "distinct (map rate_series_key rs)"
  using assms(1,2)
  by (rule traverse_distinct) (auto simp: rate_series_template_def rate_series_key_def res_simps intro: id_of_inj [OF ids])

section \<open>The whole synchronization\<close>

text \<open>
  \<open>reconciled c db\<close>: the reference tables of \<open>db\<close> say what the configuration says, table by table, and satisfy the schema.
\<close>

definition constraints_hold :: "database \<Rightarrow> bool" where
  "constraints_hold db \<longleftrightarrow> all_hold (first_flush_checks (db_currencies db) (db_economies db)) \<and>
     all_hold (second_flush_checks (db_datasets db) (db_fx_pairs db)) \<and>
     all_hold (third_flush_checks (db_economy_currencies db) (db_fx_series db) (db_rate_series db))"

definition reconciled :: "reference_config \<Rightarrow> database \<Rightarrow> bool" where
  "reconciled c db \<longleftrightarrow> constraints_hold db \<and>
     currency_table.settled (map currency_template (cf_currencies c)) (db_currencies db) \<and>
     economy_table.settled (map economy_template (cf_economies c)) (db_economies db) \<and>
     dataset_table.settled (map dataset_template (cf_datasets c)) (db_datasets db) \<and>
     (\<exists>items. traverse (pair_template (db_currencies db)) (cf_fx_pairs c) = Inr items \<and>
        pair_table.settled items (db_fx_pairs db)) \<and>
     (\<exists>items. traverse (relationship_template (db_economies db) (db_currencies db)) (cf_economy_currencies c) = Inr items \<and>
        relationship_table.settled items (db_economy_currencies db)) \<and>
     (\<exists>items. traverse (fx_series_template (db_datasets db) (db_fx_pairs db)) (cf_fx_series c) = Inr items \<and>
        fx_series_table.settled items (db_fx_series db)) \<and>
     (\<exists>items. traverse (rate_series_template (db_datasets db) (db_economies db) (db_currencies db)) (cf_rate_series c) = Inr items \<and>
        rate_series_table.settled items (db_rate_series db))"

lemma constraints_ids:
  "constraints_hold db \<Longrightarrow> distinct (map cu_id (db_currencies db)) \<and> distinct (map ec_id (db_economies db)) \<and>
     distinct (map ds_id (db_datasets db))"
  by (simp add: constraints_hold_def first_flush_checks_def second_flush_checks_def)

lemma synchronizeD:
  assumes "synchronize new_id c db = Inr (t, db')"
  shows "constraints_hold db'"
    "\<exists>t0. db_currencies db' = snd (sync_currencies new_id c (t0, db_currencies db))"
    "\<exists>t0. db_economies db' = snd (sync_economies new_id c (t0, db_economies db))"
    "\<exists>t0. db_datasets db' = snd (sync_datasets new_id c (t0, db_datasets db))"
    "\<exists>t0 s. sync_pairs new_id c (db_currencies db') (t0, db_fx_pairs db) = Inr s \<and> db_fx_pairs db' = snd s"
    "\<exists>t0 s. sync_relationships c (db_economies db') (db_currencies db') (t0, db_economy_currencies db) = Inr s \<and>
       db_economy_currencies db' = snd s"
    "\<exists>t0 s. sync_fx_series new_id c (db_datasets db') (db_fx_pairs db') (t0, db_fx_series db) = Inr s \<and> db_fx_series db' = snd s"
    "\<exists>t0 s. sync_rate_series new_id c (db_datasets db') (db_economies db') (db_currencies db') (t0, db_rate_series db) = Inr s \<and>
       db_rate_series db' = snd s"
    "\<exists>cs es ds ps rs fs is. db' = db\<lparr>db_currencies := cs, db_economies := es, db_datasets := ds, db_fx_pairs := ps,
       db_economy_currencies := rs, db_fx_series := fs, db_rate_series := is\<rparr>"
proof -
  obtain t1 cs where 1: "sync_currencies new_id c (no_changes, db_currencies db) = (t1, cs)" by fastforce
  obtain t2 es where 2: "sync_economies new_id c (t1, db_economies db) = (t2, es)" by fastforce
  obtain t3 ds where 3: "sync_datasets new_id c (t2, db_datasets db) = (t3, ds)" by fastforce
  obtain t4 ps t5 rs t6 fs t7 "is" where
    4: "sync_pairs new_id c cs (t3, db_fx_pairs db) = Inr (t4, ps)" and
    5: "sync_relationships c es cs (t4, db_economy_currencies db) = Inr (t5, rs)" and
    6: "sync_fx_series new_id c ds ps (t5, db_fx_series db) = Inr (t6, fs)" and
    7: "sync_rate_series new_id c ds es cs (t6, db_rate_series db) = Inr (t7, is)" and
    checks: "all_hold (first_flush_checks cs es)" "all_hold (second_flush_checks ds ps)" "all_hold (third_flush_checks rs fs is)" and
    db': "db' = db\<lparr>db_currencies := cs, db_economies := es, db_datasets := ds, db_fx_pairs := ps,
       db_economy_currencies := rs, db_fx_series := fs, db_rate_series := is\<rparr>"
    using assms unfolding synchronize_def 1 2 3 prod.case by (auto simp: res_simps enforce_ok)
  have tables: "db_currencies db' = cs" "db_economies db' = es" "db_datasets db' = ds" "db_fx_pairs db' = ps"
    "db_economy_currencies db' = rs" "db_fx_series db' = fs" "db_rate_series db' = is"
    by (simp_all add: db')
  show "constraints_hold db'" using checks by (simp add: constraints_hold_def tables)
  show "\<exists>t0. db_currencies db' = snd (sync_currencies new_id c (t0, db_currencies db))" by (metis 1 tables snd_conv)
  show "\<exists>t0. db_economies db' = snd (sync_economies new_id c (t0, db_economies db))" by (metis 2 tables snd_conv)
  show "\<exists>t0. db_datasets db' = snd (sync_datasets new_id c (t0, db_datasets db))" by (metis 3 tables snd_conv)
  show "\<exists>t0 s. sync_pairs new_id c (db_currencies db') (t0, db_fx_pairs db) = Inr s \<and> db_fx_pairs db' = snd s"
    by (metis 4 tables snd_conv)
  show "\<exists>t0 s. sync_relationships c (db_economies db') (db_currencies db') (t0, db_economy_currencies db) = Inr s \<and>
       db_economy_currencies db' = snd s"
    by (metis 5 tables snd_conv)
  show "\<exists>t0 s. sync_fx_series new_id c (db_datasets db') (db_fx_pairs db') (t0, db_fx_series db) = Inr s \<and> db_fx_series db' = snd s"
    by (metis 6 tables snd_conv)
  show "\<exists>t0 s. sync_rate_series new_id c (db_datasets db') (db_economies db') (db_currencies db') (t0, db_rate_series db) = Inr s \<and>
       db_rate_series db' = snd s"
    by (metis 7 tables snd_conv)
  show "\<exists>cs es ds ps rs fs is. db' = db\<lparr>db_currencies := cs, db_economies := es, db_datasets := ds, db_fx_pairs := ps,
       db_economy_currencies := rs, db_fx_series := fs, db_rate_series := is\<rparr>"
    using db' by blast
qed

lemma synchronize_reconciles:
  assumes v: "validate_config zk c = Inr ()" and ok: "synchronize new_id c db = Inr (t, db')"
  shows "reconciled c db'"
proof -
  note D = synchronizeD [OF ok] and K = validated_keys [OF v]
  note ids = constraints_ids [OF D(1)]
  have "currency_table.settled (map currency_template (cf_currencies c)) (db_currencies db')"
    using D(2) currency_table.sync_settled K(1) unfolding sync_currencies_def template_keys(1) [symmetric] by metis
  moreover have "economy_table.settled (map economy_template (cf_economies c)) (db_economies db')"
    using D(3) economy_table.sync_settled K(2) unfolding sync_economies_def template_keys(2) [symmetric] by metis
  moreover have "dataset_table.settled (map dataset_template (cf_datasets c)) (db_datasets db')"
    using D(4) dataset_table.sync_settled K(3) unfolding sync_datasets_def template_keys(3) [symmetric] by metis
  moreover obtain ps where ps: "traverse (pair_template (db_currencies db')) (cf_fx_pairs c) = Inr ps"
    "pair_table.settled ps (db_fx_pairs db')"
  proof -
    obtain t0 ps where p: "traverse (pair_template (db_currencies db')) (cf_fx_pairs c) = Inr ps"
      "db_fx_pairs db' = snd (sync_growing fp_symbol (\<lambda>i r. r\<lparr>fp_id := i\<rparr>) pair_overwrite fp_is_active
         (\<lambda>r. r\<lparr>fp_is_active := False\<rparr>) new_id ps (t0, db_fx_pairs db))"
      using D(5) unfolding sync_pairs_def rmap_eq_Inr by blast
    have "distinct (map fp_symbol ps)" using pair_template_keys [OF p(1)] K(4) by simp
    then show ?thesis using that p pair_table.sync_settled by metis
  qed
  moreover obtain rs where "traverse (relationship_template (db_economies db') (db_currencies db')) (cf_economy_currencies c) = Inr rs"
    "relationship_table.settled rs (db_economy_currencies db')"
  proof -
    obtain t0 rs where p: "traverse (relationship_template (db_economies db') (db_currencies db')) (cf_economy_currencies c) = Inr rs"
      "db_economy_currencies db' = snd (sync_fixed relationship_key (\<lambda>i r. r) relationship_overwrite (\<lambda>r. False) (\<lambda>r. r) (\<lambda>n. 0) rs
         (t0, db_economy_currencies db))"
      using D(6) unfolding sync_relationships_def rmap_eq_Inr by blast
    have d: "distinct (map relationship_key rs)" using relationship_template_distinct [OF p(1) K(5)] ids by blast
    show ?thesis using that [OF p(1)] relationship_table.sync_settled [OF d] p(2) relationship_table.sync_fixed_growing [OF d] by metis
  qed
  moreover obtain fs where "traverse (fx_series_template (db_datasets db') (db_fx_pairs db')) (cf_fx_series c) = Inr fs"
    "fx_series_table.settled fs (db_fx_series db')"
  proof -
    obtain t0 fs where p: "traverse (fx_series_template (db_datasets db') (db_fx_pairs db')) (cf_fx_series c) = Inr fs"
      "db_fx_series db' = snd (sync_fixed fx_series_key (\<lambda>i r. r\<lparr>fs_id := i\<rparr>) fx_series_overwrite fs_is_active
         (\<lambda>r. r\<lparr>fs_is_active := False\<rparr>) new_id fs (t0, db_fx_series db))"
      using D(7) unfolding sync_fx_series_def rmap_eq_Inr by blast
    have d: "distinct (map fx_series_key fs)" using fx_series_template_distinct [OF p(1) K(6)] ids by blast
    show ?thesis using that [OF p(1)] fx_series_table.sync_settled [OF d] p(2) fx_series_table.sync_fixed_growing [OF d] by metis
  qed
  moreover obtain "is" where
    "traverse (rate_series_template (db_datasets db') (db_economies db') (db_currencies db')) (cf_rate_series c) = Inr is"
    "rate_series_table.settled is (db_rate_series db')"
  proof -
    obtain t0 "is" where
      p: "traverse (rate_series_template (db_datasets db') (db_economies db') (db_currencies db')) (cf_rate_series c) = Inr is"
      "db_rate_series db' = snd (sync_fixed rate_series_key (\<lambda>i r. r\<lparr>is_id := i\<rparr>) rate_series_overwrite is_is_active
         (\<lambda>r. r\<lparr>is_is_active := False\<rparr>) new_id is (t0, db_rate_series db))"
      using D(8) unfolding sync_rate_series_def rmap_eq_Inr by blast
    have d: "distinct (map rate_series_key is)" using rate_series_template_distinct [OF p(1) K(7)] ids by blast
    show ?thesis using that [OF p(1)] rate_series_table.sync_settled [OF d] p(2) rate_series_table.sync_fixed_growing [OF d] by metis
  qed
  ultimately show ?thesis using D(1) unfolding reconciled_def by blast
qed

lemma reconciled_fixpoint:
  assumes v: "validate_config zk c = Inr ()" and ok: "reconciled c db"
  shows "synchronize new_id c db = Inr (no_changes, db)"
proof -
  note K = validated_keys [OF v]
  obtain ps rs fs "is" where R:
    "constraints_hold db"
    "currency_table.settled (map currency_template (cf_currencies c)) (db_currencies db)"
    "economy_table.settled (map economy_template (cf_economies c)) (db_economies db)"
    "dataset_table.settled (map dataset_template (cf_datasets c)) (db_datasets db)"
    "traverse (pair_template (db_currencies db)) (cf_fx_pairs c) = Inr ps" "pair_table.settled ps (db_fx_pairs db)"
    "traverse (relationship_template (db_economies db) (db_currencies db)) (cf_economy_currencies c) = Inr rs"
    "relationship_table.settled rs (db_economy_currencies db)"
    "traverse (fx_series_template (db_datasets db) (db_fx_pairs db)) (cf_fx_series c) = Inr fs"
    "fx_series_table.settled fs (db_fx_series db)"
    "traverse (rate_series_template (db_datasets db) (db_economies db) (db_currencies db)) (cf_rate_series c) = Inr is"
    "rate_series_table.settled is (db_rate_series db)"
    using ok unfolding reconciled_def by (elim conjE exE) simp
  note ids = constraints_ids [OF R(1)]
  have d: "distinct (map relationship_key rs)" "distinct (map fx_series_key fs)" "distinct (map rate_series_key is)"
    using relationship_template_distinct [OF R(7) K(5)] fx_series_template_distinct [OF R(9) K(6)]
      rate_series_template_distinct [OF R(11) K(7)] ids by blast+
  have "sync_currencies new_id c (t, db_currencies db) = (t, db_currencies db)" for t
    unfolding sync_currencies_def by (rule currency_table.settled_fixpoint) (rule R)
  moreover have "sync_economies new_id c (t, db_economies db) = (t, db_economies db)" for t
    unfolding sync_economies_def by (rule economy_table.settled_fixpoint) (rule R)
  moreover have "sync_datasets new_id c (t, db_datasets db) = (t, db_datasets db)" for t
    unfolding sync_datasets_def by (rule dataset_table.settled_fixpoint) (rule R)
  moreover have "sync_pairs new_id c (db_currencies db) (t, db_fx_pairs db) = Inr (t, db_fx_pairs db)" for t
    unfolding sync_pairs_def R(5) rmap_simps pair_table.settled_fixpoint [OF R(6)] ..
  moreover have "sync_relationships c (db_economies db) (db_currencies db) (t, db_economy_currencies db) = Inr (t, db_economy_currencies db)" for t
    unfolding sync_relationships_def R(7) rmap_simps relationship_table.sync_fixed_growing [OF d(1)]
      relationship_table.settled_fixpoint [OF R(8)] ..
  moreover have "sync_fx_series new_id c (db_datasets db) (db_fx_pairs db) (t, db_fx_series db) = Inr (t, db_fx_series db)" for t
    unfolding sync_fx_series_def R(9) rmap_simps fx_series_table.sync_fixed_growing [OF d(2)]
      fx_series_table.settled_fixpoint [OF R(10)] ..
  moreover have "sync_rate_series new_id c (db_datasets db) (db_economies db) (db_currencies db) (t, db_rate_series db) =
      Inr (t, db_rate_series db)" for t
    unfolding sync_rate_series_def R(11) rmap_simps rate_series_table.sync_fixed_growing [OF d(3)]
      rate_series_table.settled_fixpoint [OF R(12)] ..
  moreover have "enforce (first_flush_checks (db_currencies db) (db_economies db)) = Inr ()"
    "enforce (second_flush_checks (db_datasets db) (db_fx_pairs db)) = Inr ()"
    "enforce (third_flush_checks (db_economy_currencies db) (db_fx_series db) (db_rate_series db)) = Inr ()"
    using R(1) by (simp_all add: constraints_hold_def enforce_ok)
  ultimately show ?thesis by (simp add: synchronize_def)
qed

lemma traverse_image:
  assumes "traverse f xs = Inr ys" "\<And>x y. f x = Inr y \<Longrightarrow> a y = b x"
  shows "g ` {y \<in> set ys. a y} = {g y | x y. x \<in> set xs \<and> b x \<and> f x = Inr y}"
  using assms(1)
proof (induction xs arbitrary: ys)
  case (Cons x xs)
  obtain y zs where y: "f x = Inr y" "traverse f xs = Inr zs" "ys = y # zs" using Cons.prems by (auto split: sum.splits)
  have "g ` {z \<in> set ys. a z} = (if b x then {g y} else {}) \<union> g ` {z \<in> set zs. a z}"
    using assms(2) [OF y(1)] y(3) by auto
  also have "\<dots> = {g y | x' y. x' \<in> set (x # xs) \<and> b x' \<and> f x' = Inr y}" unfolding Cons.IH [OF y(2)] using y(1) by auto
  finally show ?case .
qed simp

section \<open>Properties\<close>

text \<open>
  C17. Synchronizing is idempotent: a validated configuration that has been synchronized changes nothing when it is
  synchronized again, whatever ids the second run would draw, and counts no insertion, update or deactivation.
\<close>

theorem synchronize_idempotent:
  assumes "validate_config zk c = Inr ()" "synchronize new_id c db = Inr (t, db')"
  shows "synchronize new_id' c db' = Inr (no_changes, db')"
  by (rule reconciled_fixpoint [OF assms(1) synchronize_reconciles [OF assms]])

text \<open>
  C16. What a synchronization leaves active is what the configuration enables: the active rows of every table are, by
  their natural keys, the enabled items, and every other row is switched off.
\<close>

theorem synchronize_activates_configuration:
  assumes v: "validate_config zk c = Inr ()" and ok: "synchronize new_id c db = Inr (t, db')"
  shows "cu_code ` {r \<in> set (db_currencies db'). cu_is_active r} = gc_code ` {x \<in> set (cf_currencies c). gc_enabled x} \<and>
    ec_code ` {r \<in> set (db_economies db'). ec_is_active r} = ge_code ` {x \<in> set (cf_economies c). ge_enabled x} \<and>
    dataset_row_key ` {r \<in> set (db_datasets db'). ds_is_active r} = dataset_key ` {x \<in> set (cf_datasets c). gd_enabled x} \<and>
    fp_symbol ` {r \<in> set (db_fx_pairs db'). fp_is_active r} = gp_symbol ` {x \<in> set (cf_fx_pairs c). gp_enabled x} \<and>
    fx_series_key ` {r \<in> set (db_fx_series db'). fs_is_active r} =
      {fx_series_key r | x r. x \<in> set (cf_fx_series c) \<and> gf_enabled x \<and>
         fx_series_template (db_datasets db') (db_fx_pairs db') x = Inr r} \<and>
    rate_series_key ` {r \<in> set (db_rate_series db'). is_is_active r} =
      {rate_series_key r | x r. x \<in> set (cf_rate_series c) \<and> gi_enabled x \<and>
         rate_series_template (db_datasets db') (db_economies db') (db_currencies db') x = Inr r}"
proof -
  obtain ps fs "is" where R:
    "currency_table.settled (map currency_template (cf_currencies c)) (db_currencies db')"
    "economy_table.settled (map economy_template (cf_economies c)) (db_economies db')"
    "dataset_table.settled (map dataset_template (cf_datasets c)) (db_datasets db')"
    "traverse (pair_template (db_currencies db')) (cf_fx_pairs c) = Inr ps" "pair_table.settled ps (db_fx_pairs db')"
    "traverse (fx_series_template (db_datasets db') (db_fx_pairs db')) (cf_fx_series c) = Inr fs"
    "fx_series_table.settled fs (db_fx_series db')"
    "traverse (rate_series_template (db_datasets db') (db_economies db') (db_currencies db')) (cf_rate_series c) = Inr is"
    "rate_series_table.settled is (db_rate_series db')"
    using synchronize_reconciles [OF v ok] unfolding reconciled_def by (elim conjE exE) simp
  have pairs: "fp_symbol ` {r \<in> set ps. fp_is_active r} = gp_symbol ` {x \<in> set (cf_fx_pairs c). gp_enabled x}"
  proof -
    have "map (\<lambda>r. (fp_symbol r, fp_is_active r)) ps = map (\<lambda>x. (gp_symbol x, gp_enabled x)) (cf_fx_pairs c)"
      using R(4) by (rule traverse_keys) (auto simp: pair_template_def res_simps)
    from arg_cong [where f = set, OF this] show ?thesis by (auto simp: image_iff set_eq_iff) metis+
  qed
  have currencies: "cu_code ` {v \<in> set (map currency_template (cf_currencies c)). cu_is_active v} = gc_code ` {x \<in> set (cf_currencies c). gc_enabled x}"
    and economies: "ec_code ` {v \<in> set (map economy_template (cf_economies c)). ec_is_active v} = ge_code ` {x \<in> set (cf_economies c). ge_enabled x}"
    and datasets: "dataset_row_key ` {v \<in> set (map dataset_template (cf_datasets c)). ds_is_active v} = dataset_key ` {x \<in> set (cf_datasets c). gd_enabled x}"
    by (force simp: currency_template_def economy_template_def dataset_template_def dataset_row_key_def dataset_key_def image_iff)+
  have fx: "fx_series_key ` {r \<in> set fs. fs_is_active r} = {fx_series_key r | x r. x \<in> set (cf_fx_series c) \<and> gf_enabled x \<and>
      fx_series_template (db_datasets db') (db_fx_pairs db') x = Inr r}"
    using R(6) by (rule traverse_image) (auto simp: fx_series_template_def res_simps)
  have rates: "rate_series_key ` {r \<in> set is. is_is_active r} = {rate_series_key r | x r. x \<in> set (cf_rate_series c) \<and> gi_enabled x \<and>
      rate_series_template (db_datasets db') (db_economies db') (db_currencies db') x = Inr r}"
    using R(8) by (rule traverse_image) (auto simp: rate_series_template_def res_simps)
  show ?thesis
    unfolding currency_table.settled_active [OF R(1)] economy_table.settled_active [OF R(2)] dataset_table.settled_active [OF R(3)]
      pair_table.settled_active [OF R(5)] fx_series_table.settled_active [OF R(7)] rate_series_table.settled_active [OF R(9)]
    using currencies economies datasets pairs fx rates by blast
qed

text \<open>
  A synchronization deletes nothing and renames nothing: in every reference table the earlier rows keep their place,
  their id and their natural key, and all tables of runs, payloads and observations are untouched.
\<close>

theorem synchronize_keeps_rows:
  assumes v: "validate_config zk c = Inr ()" and ok: "synchronize new_id c db = Inr (t, db')"
  shows "prefix (map (\<lambda>r. (cu_id r, cu_code r)) (db_currencies db)) (map (\<lambda>r. (cu_id r, cu_code r)) (db_currencies db')) \<and>
    prefix (map (\<lambda>r. (ec_id r, ec_code r)) (db_economies db)) (map (\<lambda>r. (ec_id r, ec_code r)) (db_economies db')) \<and>
    prefix (map (\<lambda>r. (ds_id r, dataset_row_key r)) (db_datasets db)) (map (\<lambda>r. (ds_id r, dataset_row_key r)) (db_datasets db')) \<and>
    prefix (map (\<lambda>r. (fp_id r, fp_symbol r)) (db_fx_pairs db)) (map (\<lambda>r. (fp_id r, fp_symbol r)) (db_fx_pairs db')) \<and>
    prefix (map relationship_key (db_economy_currencies db)) (map relationship_key (db_economy_currencies db')) \<and>
    prefix (map (\<lambda>r. (fs_id r, fx_series_key r)) (db_fx_series db)) (map (\<lambda>r. (fs_id r, fx_series_key r)) (db_fx_series db')) \<and>
    prefix (map (\<lambda>r. (is_id r, rate_series_key r)) (db_rate_series db)) (map (\<lambda>r. (is_id r, rate_series_key r)) (db_rate_series db')) \<and>
    db_runs db' = db_runs db \<and> db_scopes db' = db_scopes db \<and> db_raw_responses db' = db_raw_responses db \<and>
    db_raw_records db' = db_raw_records db \<and> db_fx db' = db_fx db \<and> db_policy db' = db_policy db \<and>
    db_quarantine db' = db_quarantine db \<and> db_quality db' = db_quality db"
proof -
  note D = synchronizeD [OF ok] and K = validated_keys [OF v]
  note ids = constraints_ids [OF D(1)]
  have 1: "currency_table.extends (db_currencies db) (db_currencies db')"
    using D(2) currency_table.sync_extends unfolding sync_currencies_def by (metis snd_conv)
  have 2: "economy_table.extends (db_economies db) (db_economies db')"
    using D(3) economy_table.sync_extends unfolding sync_economies_def by (metis snd_conv)
  have 3: "dataset_table.extends (db_datasets db) (db_datasets db')"
    using D(4) dataset_table.sync_extends unfolding sync_datasets_def by (metis snd_conv)
  have 4: "pair_table.extends (db_fx_pairs db) (db_fx_pairs db')"
    using D(5) pair_table.sync_extends unfolding sync_pairs_def rmap_eq_Inr by (metis snd_conv)
  have 5: "relationship_table.extends (db_economy_currencies db) (db_economy_currencies db')"
    using D(6) relationship_table.sync_extends relationship_table.sync_fixed_growing relationship_template_distinct [OF _ K(5)] ids
    unfolding sync_relationships_def rmap_eq_Inr by (metis snd_conv)
  have 6: "fx_series_table.extends (db_fx_series db) (db_fx_series db')"
    using D(7) fx_series_table.sync_extends fx_series_table.sync_fixed_growing fx_series_template_distinct [OF _ K(6)] ids
    unfolding sync_fx_series_def rmap_eq_Inr by (metis snd_conv)
  have 7: "rate_series_table.extends (db_rate_series db) (db_rate_series db')"
    using D(8) rate_series_table.sync_extends rate_series_table.sync_fixed_growing rate_series_template_distinct [OF _ K(7)] ids
    unfolding sync_rate_series_def rmap_eq_Inr by (metis snd_conv)
  have 8: "prefix (map relationship_key (db_economy_currencies db)) (map relationship_key (db_economy_currencies db'))"
    using map_mono_prefix [OF 5 [unfolded relationship_table.extends_def], of fst] by (simp add: comp_def)
  obtain cs es ds ps rs fs "is" where db': "db' = db\<lparr>db_currencies := cs, db_economies := es, db_datasets := ds, db_fx_pairs := ps,
       db_economy_currencies := rs, db_fx_series := fs, db_rate_series := is\<rparr>" using D(9) by blast
  have rest: "db_runs db' = db_runs db" "db_scopes db' = db_scopes db" "db_raw_responses db' = db_raw_responses db"
    "db_raw_records db' = db_raw_records db" "db_fx db' = db_fx db" "db_policy db' = db_policy db"
    "db_quarantine db' = db_quarantine db" "db_quality db' = db_quality db"
    unfolding db' by simp_all
  show ?thesis
    using 1 2 3 4 6 7 8 rest
    unfolding currency_table.extends_def economy_table.extends_def dataset_table.extends_def pair_table.extends_def
      fx_series_table.extends_def rate_series_table.extends_def by blast
qed

text \<open>The applications start from a table with a currency the configuration no longer names.\<close>

definition sample_ids :: "nat \<Rightarrow> uuid" where
  "sample_ids n = (if n = 0 then 1 else if n = 1 then 2 else if n = 2 then 3 else if n = 3 then 4 else if n = 4 then 5 else 6)"

definition stale_database :: database where
  "stale_database = empty_database\<lparr>db_currencies :=
     [\<lparr>cu_id = 99, cu_code = ''EUR'', cu_name = ''Euro'', cu_minor_units = Some 2, cu_is_active = True\<rparr>]\<rparr>"

lemma sample_sync_ok: "is_ok (synchronize sample_ids sample_config stale_database)"
  by code_simp

lemma sample_sync: "\<exists>t db'. synchronize sample_ids sample_config stale_database = Inr (t, db')"
  using sample_sync_ok by (auto simp: is_ok_iff)

lemma synchronize_idempotent_witness:
  "\<exists>t db'. synchronize sample_ids sample_config stale_database = Inr (t, db') \<and>
     synchronize (\<lambda>n. 7) sample_config db' = Inr (no_changes, db')"
  using sample_sync synchronize_idempotent [OF sample_config_valid] by blast

lemma synchronize_activates_configuration_witness:
  "\<exists>t db'. synchronize sample_ids sample_config stale_database = Inr (t, db') \<and>
     cu_code ` {r \<in> set (db_currencies db'). cu_is_active r} = {''USD'', ''CAD''}"
proof -
  obtain t db' where ok: "synchronize sample_ids sample_config stale_database = Inr (t, db')" using sample_sync by blast
  have "gc_code ` {x \<in> set (cf_currencies sample_config). gc_enabled x} = {''USD'', ''CAD''}"
  proof -
    have "gc_code ` {x \<in> set (cf_currencies sample_config). gc_enabled x} = set (map gc_code (filter gc_enabled (cf_currencies sample_config)))"
      by simp
    also have "\<dots> = {''USD'', ''CAD''}" by (simp add: sample_config_def)
    finally show ?thesis .
  qed
  then show ?thesis using ok synchronize_activates_configuration [OF sample_config_valid ok] by (intro exI [of _ t] exI [of _ db']) simp
qed

lemma synchronize_keeps_rows_witness:
  "\<exists>t db'. synchronize sample_ids sample_config stale_database = Inr (t, db') \<and>
     prefix [(99, ''EUR'')] (map (\<lambda>r. (cu_id r, cu_code r)) (db_currencies db'))"
proof -
  obtain t db' where ok: "synchronize sample_ids sample_config stale_database = Inr (t, db')" using sample_sync by blast
  have "map (\<lambda>r. (cu_id r, cu_code r)) (db_currencies stale_database) = [(99, ''EUR'')]" by (simp add: stale_database_def)
  then show ?thesis using ok synchronize_keeps_rows [OF sample_config_valid ok] by auto
qed

end
