(* ===== verification/Worker.thy ===== *)
theory Worker
  imports Pipeline
begin

text \<open>
  The worker process: \<open>app/application/worker_runtime.py\<close> and the \<open>recover\<close> of \<open>app/worker.py\<close>.  The worker recovers
  the runs whose lease has expired and then polls: it executes pending runs one after the other, and waits when there is
  none.  Its life is a step relation, in which transactions of other processes (\<open>ledger_event\<close>) come between its own
  steps; \<open>run_next\<close> is one step.  Clock readings and provider replies are functions of the turn.
\<close>

section \<open>Options and start\<close>

record worker_options =
  wo_poll_interval :: pyfloat
  wo_lease_timeout :: int

definition float_within :: "rat \<Rightarrow> rat \<Rightarrow> pyfloat \<Rightarrow> bool" where
  "float_within lo hi x = (case x of Num r \<Rightarrow> lo \<le> r \<and> r \<le> hi | _ \<Rightarrow> False)"

definition mk_worker_options :: "worker_options \<Rightarrow> worker_options res" where
  "mk_worker_options w =
     rbind (rguard (float_within (1/10) 300 (wo_poll_interval w))
              (ValueError ''worker poll interval must be between 0.1 and 300 seconds'')) (\<lambda>_.
     rmap (\<lambda>_. w) (rguard (wo_lease_timeout w > 0) (ValueError ''worker lease timeout must be positive'')))"

definition worker_clock :: "datetime \<Rightarrow> instant res" where
  "worker_clock now = to_utc (ValueError ''worker clock must return a timezone-aware timestamp'') now"

text \<open>What \<open>run\<close> does before its loop; \<open>recovery\<close> is one transaction.\<close>

definition worker_start :: "worker_options \<Rightarrow> datetime \<Rightarrow> database \<Rightarrow> database res" where
  "worker_start w now db =
     rbind (worker_clock now) (\<lambda>current.
     rbind (rguard (valid_instant (current - wo_lease_timeout w)) overflow_exn) (\<lambda>_.
     rmap snd (recover_expired (current - wo_lease_timeout w) (utc_datetime current) db)))"

section \<open>The loop\<close>

record 'r worker_env =
  we_world :: "nat \<Rightarrow> uuid \<Rightarrow> 'r world"
  we_claim :: "nat \<Rightarrow> datetime"
  we_beat :: "nat \<Rightarrow> datetime"
  we_finish :: "nat \<Rightarrow> datetime"

definition worker_turn ::
  "(string \<Rightarrow> string) \<Rightarrow> (bytes \<Rightarrow> string) \<Rightarrow> 'r worker_env \<Rightarrow> nat \<Rightarrow> database \<Rightarrow> uuid option res \<times> database" where
  "worker_turn sha sha_bytes env n db = run_next sha sha_bytes (we_world env n) (we_claim env n) (we_beat env n) (we_finish env n) db"

datatype worker_phase = Polling | Waiting | Stopped | Crashed exn

record worker_state =
  wt_phase :: worker_phase
  wt_turn :: nat
  wt_db :: database

text \<open>
  \<open>stop\<close> is seen at the head of the loop and ends a wait; an exception of \<open>run_next\<close> leaves the loop.
\<close>

inductive worker_step :: "(string \<Rightarrow> string) \<Rightarrow> (bytes \<Rightarrow> string) \<Rightarrow> 'r worker_env \<Rightarrow> worker_state \<Rightarrow> worker_state \<Rightarrow> bool"
  for sha sha_bytes env where
  work: "worker_turn sha sha_bytes env n db = (Inr (Some i), db') \<Longrightarrow>
    worker_step sha sha_bytes env \<lparr>wt_phase = Polling, wt_turn = n, wt_db = db\<rparr> \<lparr>wt_phase = Polling, wt_turn = Suc n, wt_db = db'\<rparr>"
| idle: "worker_turn sha sha_bytes env n db = (Inr None, db') \<Longrightarrow>
    worker_step sha sha_bytes env \<lparr>wt_phase = Polling, wt_turn = n, wt_db = db\<rparr> \<lparr>wt_phase = Waiting, wt_turn = Suc n, wt_db = db'\<rparr>"
| crash: "worker_turn sha sha_bytes env n db = (Inl e, db') \<Longrightarrow>
    worker_step sha sha_bytes env \<lparr>wt_phase = Polling, wt_turn = n, wt_db = db\<rparr> \<lparr>wt_phase = Crashed e, wt_turn = n, wt_db = db'\<rparr>"
| wake: "worker_step sha sha_bytes env \<lparr>wt_phase = Waiting, wt_turn = n, wt_db = db\<rparr> \<lparr>wt_phase = Polling, wt_turn = n, wt_db = db\<rparr>"
| stop: "p \<in> {Polling, Waiting} \<Longrightarrow>
    worker_step sha sha_bytes env \<lparr>wt_phase = p, wt_turn = n, wt_db = db\<rparr> \<lparr>wt_phase = Stopped, wt_turn = n, wt_db = db\<rparr>"
| other: "ledger_step ev db = Inr db' \<Longrightarrow>
    worker_step sha sha_bytes env \<lparr>wt_phase = p, wt_turn = n, wt_db = db\<rparr> \<lparr>wt_phase = p, wt_turn = n, wt_db = db'\<rparr>"

inductive_simps worker_step_stopped: "worker_step sha sha_bytes env \<lparr>wt_phase = Stopped, wt_turn = n, wt_db = db\<rparr> s'"
inductive_simps worker_step_crashed: "worker_step sha sha_bytes env \<lparr>wt_phase = Crashed e, wt_turn = n, wt_db = db\<rparr> s'"

abbreviation worker_steps :: "(string \<Rightarrow> string) \<Rightarrow> (bytes \<Rightarrow> string) \<Rightarrow> 'r worker_env \<Rightarrow> worker_state \<Rightarrow> worker_state \<Rightarrow> bool" where
  "worker_steps sha sha_bytes env \<equiv> (worker_step sha sha_bytes env)\<^sup>*\<^sup>*"

text \<open>The loop on its own until it waits, in at most \<open>k\<close> turns; \<open>None\<close> when the turns run out or \<open>run_next\<close> raises.\<close>

fun poll_until_idle ::
  "(string \<Rightarrow> string) \<Rightarrow> (bytes \<Rightarrow> string) \<Rightarrow> 'r worker_env \<Rightarrow> nat \<Rightarrow> nat \<Rightarrow> database \<Rightarrow> (nat \<times> database) option" where
  "poll_until_idle sha sha_bytes env 0 n db = None"
| "poll_until_idle sha sha_bytes env (Suc k) n db =
     (case worker_turn sha sha_bytes env n db of
        (Inr (Some i), db') \<Rightarrow> poll_until_idle sha sha_bytes env k (Suc n) db'
      | (Inr None, db') \<Rightarrow> Some (Suc n, db')
      | (Inl e, db') \<Rightarrow> None)"

section \<open>One run and the others\<close>

text \<open>\<open>only_run i\<close>: no row of another run changes.\<close>

definition only_run :: "uuid \<Rightarrow> database \<Rightarrow> database \<Rightarrow> bool" where
  "only_run i db db' \<longleftrightarrow> map run_id (db_runs db') = map run_id (db_runs db) \<and>
     filter (\<lambda>r. run_id r \<noteq> i) (db_runs db') = filter (\<lambda>r. run_id r \<noteq> i) (db_runs db)"

lemma only_run_trans: "only_run i a b \<Longrightarrow> only_run i b c \<Longrightarrow> only_run i a c"
  by (simp add: only_run_def)

lemma only_run_same: "db_runs db' = db_runs db \<Longrightarrow> only_run i db db'"
  by (simp add: only_run_def)

lemma only_run_update: "(\<And>x. run_id (f x) = run_id x) \<Longrightarrow> only_run i db (update_run i f db)"
proof -
  assume id: "\<And>x. run_id (f x) = run_id x"
  have "filter (\<lambda>r. run_id r \<noteq> i) (update_where (\<lambda>r. run_id r = i) f xs) = filter (\<lambda>r. run_id r \<noteq> i) xs" for xs
    by (induction xs) (auto simp: id)
  then show ?thesis by (simp add: only_run_def update_run_def map_update_where id)
qed

lemma scope_complete_runs: "scope_complete s st now counts extra db = Inr db' \<Longrightarrow> db_runs db' = db_runs db"
  by (erule scope_complete_cases) (simp add: flush_ingestion_ok update_scope_def)

lemma begin_scope_runs: "begin_scope now run scope db = Inr (acquired, db') \<Longrightarrow> db_runs db' = db_runs db"
  by (auto simp: begin_scope_def scope_start_def rbind_eq_Inr rmap_eq_Inr flush_ingestion_ok update_scope_def
      dest: scope_complete_runs split: option.splits if_splits)

lemma handle_failure_runs: "handle_failure now scope e db = (r, db') \<Longrightarrow> db_runs db' = db_runs db"
  by (auto simp: handle_failure_def fail_scope_def dest: scope_complete_runs split: sum.splits option.splits if_splits)

lemma execute_scope_runs:
  assumes "execute_scope sha sha_bytes w run scope db = (r, db')" "untriggered w"
  shows "db_runs db' = db_runs db"
  using assms
  by (auto simp: execute_scope_def dest!: begin_scope_runs handle_failure_runs scope_complete_runs
      split: sum.splits prod.splits bool.splits dest: run_scope_effect)

lemma heartbeat_only: "heartbeat i now db = Inr db' \<Longrightarrow> only_run i db db'"
  by (auto simp: heartbeat_def rbind_eq_Inr rmap_eq_Inr flush_ingestion_ok intro!: only_run_update)

lemma execute_scopes_only:
  assumes "\<And>s. untriggered (w s)" "execute_scopes sha sha_bytes w i ids db = (r, db')"
  shows "only_run i db db'"
  using assms(2)
proof (induction ids arbitrary: db)
  case (Cons s ids)
  obtain r1 db1 where 1: "execute_scope sha sha_bytes (w s) i s db = (r1, db1)" by fastforce
  have o1: "only_run i db db1" using execute_scope_runs [OF 1 assms(1)] by (rule only_run_same)
  show ?case
  proof (cases "r1")
    case (Inl e)
    then show ?thesis using Cons.prems 1 o1 by simp
  next
    case (Inr u)
    show ?thesis
    proof (cases "heartbeat i (rd_beat (wd_readings (w s))) db1")
      case (Inl e)
      then show ?thesis using Cons.prems 1 Inr o1 by simp
    next
      case h: (Inr db2)
      then have "execute_scopes sha sha_bytes w i ids db2 = (r, db')" using Cons.prems 1 Inr by simp
      from Cons.IH [OF this] show ?thesis using o1 heartbeat_only [OF h] only_run_trans by blast
    qed
  qed
qed (simp add: only_run_same)

lemma claim_only: "claim_next now db = Inr (Some i, db') \<Longrightarrow> only_run i db db'"
  by (auto simp: claim_next_def rbind_eq_Inr rmap_eq_Inr flush_ingestion_ok intro!: only_run_update split: option.splits)

lemma finish_only: "finish_run now i db = Inr db' \<Longrightarrow> only_run i db db'"
  by (auto simp: finish_run_def run_finalize_def rbind_eq_Inr rmap_eq_Inr flush_ingestion_ok intro!: only_run_update)

lemma run_next_only:
  assumes "run_next sha sha_bytes w claim_at beat_at finish_at db = (Inr (Some i), db')" "\<And>s. untriggered (w s)"
  shows "only_run i db db'"
proof -
  obtain db1 db2 db3 where 1: "claim_next claim_at db = Inr (Some i, db1)" "heartbeat i beat_at db1 = Inr db2"
    "execute_scopes sha sha_bytes w i (map sc_id (list_for_run i db2)) db2 = (Inr (), db3)" "finish_run finish_at i db3 = Inr db'"
    using assms(1) by (auto simp: run_next_def split: sum.splits option.splits prod.splits)
  show ?thesis
    using claim_only [OF 1(1)] heartbeat_only [OF 1(2)] execute_scopes_only [OF assms(2) 1(3)] finish_only [OF 1(4)]
    by (blast intro: only_run_trans)
qed

lemma claim_next_succeeds:
  assumes ok: "ledger_ok db" and r: "next_pending db = Some r" and now: "run_utc now = Inr ts"
  shows "\<exists>db'. claim_next now db = Inr (Some (run_id r), db')"
proof -
  let ?f = "\<lambda>x. x\<lparr>run_status := ''running'', run_started_at := Some ts, run_heartbeat_at := Some ts\<rparr>"
  note rd = next_pendingD [OF r]
  have "all_hold (ingestion_run_checks r)" using ingestion_checksD(1) [OF ledger_okD(1) [OF ok]] rd by blast
  then have "all_hold (ingestion_run_checks (?f r))" using rd by (simp add: ingestion_run_checks_def lifecycle_ok_def)
  then have "flush_ingestion (update_run (run_id r) ?f db) = Inr (update_run (run_id r) ?f db)"
    by (intro update_run_flush [OF ok]) (use rd in auto)
  then show ?thesis using r now by (simp add: claim_next_def)
qed

text \<open>The runs that still wait for a worker.\<close>

definition waiting :: "database \<Rightarrow> ingestion_run list" where
  "waiting db = filter (\<lambda>r. run_status r = ''pending'') (db_runs db)"

text \<open>Clocks of a worker read aware timestamps, and its bindings start no further evaluation.\<close>

definition sane_env :: "'r worker_env \<Rightarrow> bool" where
  "sane_env env \<longleftrightarrow> (\<forall>n. (\<exists>ts. run_utc (we_claim env n) = Inr ts) \<and> (\<exists>ts. run_utc (we_beat env n) = Inr ts) \<and>
     (\<exists>ts. run_utc (we_finish env n) = Inr ts) \<and> (\<forall>s. untriggered (we_world env n s) \<and>
     (\<exists>ts. run_utc (rd_fail (wd_readings (we_world env n s))) = Inr ts) \<and>
     (\<exists>ts. run_utc (rd_beat (wd_readings (we_world env n s))) = Inr ts)))"

lemma next_pending_None: "next_pending db = None \<longleftrightarrow> waiting db = []"
proof -
  have "sort_key f xs = [] \<longleftrightarrow> xs = []" for f :: "ingestion_run \<Rightarrow> instant \<times> nat" and xs
    by (metis length_0_conv length_sort)
  then show ?thesis by (auto simp: next_pending_def waiting_def split: list.splits)
qed

lemma terminal_not_pending: "is_terminal r \<Longrightarrow> run_status r \<noteq> ''pending''"
  by (auto simp: is_terminal_def terminal_run_statuses_def)

lemma only_run_row: "only_run i db db' \<Longrightarrow> run_id r \<noteq> i \<Longrightarrow> r \<in> set (db_runs db') \<longleftrightarrow> r \<in> set (db_runs db)"
proof -
  assume o1: "only_run i db db'" and r: "run_id r \<noteq> i"
  have "r \<in> set (filter (\<lambda>r. run_id r \<noteq> i) (db_runs db')) \<longleftrightarrow> r \<in> set (filter (\<lambda>r. run_id r \<noteq> i) (db_runs db))"
    using o1 by (simp only: only_run_def)
  then show ?thesis using r by simp
qed

text \<open>One turn with a run waiting: it takes one run off the list, ends it and leaves the other rows alone.\<close>

lemma worker_turn_works:
  assumes env: "sane_env env" and ok: "ledger_ok db" and some: "waiting db \<noteq> []"
  shows "\<exists>i db' r. worker_turn sha sha_bytes env n db = (Inr (Some i), db') \<and> ledger_ok db' \<and> only_run i db db' \<and>
    r \<in> set (waiting db) \<and> run_id r = i \<and> run_get i db' \<noteq> None \<and> is_terminal (the (run_get i db')) \<and>
    closed_run db' (the (run_get i db')) \<and> length (waiting db') < length (waiting db)"
proof -
  obtain r where r: "next_pending db = Some r" using some next_pending_None by (cases "next_pending db") auto
  let ?i = "run_id r"
  note e = env [unfolded sane_env_def, rule_format, of n]
  obtain t1 t2 t3 where clocks: "run_utc (we_claim env n) = Inr t1" "run_utc (we_beat env n) = Inr t2" "run_utc (we_finish env n) = Inr t3"
    using e by blast
  obtain db1 where 1: "claim_next (we_claim env n) db = Inr (Some ?i, db1)" using claim_next_succeeds [OF ok r clocks(1)] by blast
  obtain db' x where x: "worker_turn sha sha_bytes env n db = (Inr (Some ?i), db')" "run_get ?i db' = Some x" "is_terminal x"
    "closed_run db' x" "ledger_ok db'"
    using run_next_terminal [where w = "we_world env n" and sha = sha and sha_bytes = sha_bytes, OF ok 1 clocks(2,3)] e
    unfolding worker_turn_def by blast
  have o1: "only_run ?i db db'" using run_next_only x(1) e unfolding worker_turn_def by blast
  have waits: "r \<in> set (waiting db)" using next_pendingD [OF r] by (simp add: waiting_def)
  have "run_status y \<noteq> ''pending''" if "y \<in> set (db_runs db')" "run_id y = ?i" for y
    using unique_run [OF x(5) that(1), of x] run_getD [OF x(2)] that(2) terminal_not_pending [OF x(3)] by auto
  then have "waiting db' = filter (\<lambda>r. run_status r = ''pending'') (filter (\<lambda>r. run_id r \<noteq> ?i) (db_runs db'))"
    unfolding waiting_def filter_filter by (intro filter_cong) auto
  also have "\<dots> = filter (\<lambda>r. run_id r \<noteq> ?i) (waiting db)"
    using o1 by (simp add: only_run_def waiting_def conj_commute)
  finally have "length (waiting db') < length (waiting db)"
    using length_filter_less [OF waits, of "\<lambda>r. run_id r \<noteq> ?i"] by simp
  then show ?thesis using x o1 waits by (intro exI [of _ ?i] exI [of _ db'] exI [of _ r]) simp
qed

lemma worker_turn_idle:
  "waiting db = [] \<Longrightarrow> worker_turn sha sha_bytes env n db = (Inr None, db)"
  by (simp add: worker_turn_def run_next_def claim_next_def next_pending_None [THEN iffD2])

lemma poll_until_idle_drains:
  assumes env: "sane_env env"
  shows "ledger_ok db \<Longrightarrow> length (waiting db) \<le> k \<Longrightarrow>
    \<exists>m db'. poll_until_idle sha sha_bytes env (Suc k) n db = Some (m, db') \<and> ledger_ok db' \<and> waiting db' = [] \<and>
      worker_steps sha sha_bytes env \<lparr>wt_phase = Polling, wt_turn = n, wt_db = db\<rparr> \<lparr>wt_phase = Waiting, wt_turn = m, wt_db = db'\<rparr> \<and>
      (\<forall>r\<in>set (db_runs db). run_status r \<noteq> ''pending'' \<longrightarrow> r \<in> set (db_runs db')) \<and>
      (\<forall>r\<in>set (waiting db). \<exists>x\<in>set (db_runs db'). run_id x = run_id r \<and> is_terminal x \<and> closed_run db' x)"
proof (induction k arbitrary: n db)
  case 0
  then have "waiting db = []" by simp
  from worker_turn_idle [OF this] have t: "worker_turn sha sha_bytes env n db = (Inr None, db)" for n .
  show ?case using 0 \<open>waiting db = []\<close> t worker_step.idle [OF t] by (intro exI [of _ "Suc n"] exI [of _ db]) auto
next
  case (Suc k)
  show ?case
  proof (cases "waiting db = []")
    case True
    from worker_turn_idle [OF this] have t: "worker_turn sha sha_bytes env n db = (Inr None, db)" for n .
    show ?thesis using Suc.prems True t worker_step.idle [OF t] by (intro exI [of _ "Suc n"] exI [of _ db]) auto
  next
    case False
    obtain i db1 r where 1: "worker_turn sha sha_bytes env n db = (Inr (Some i), db1)" "ledger_ok db1" "only_run i db db1"
      "r \<in> set (waiting db)" "run_id r = i" "run_get i db1 \<noteq> None" "is_terminal (the (run_get i db1))"
      "closed_run db1 (the (run_get i db1))" "length (waiting db1) < length (waiting db)"
      using worker_turn_works [OF env Suc.prems(1) False] by blast
    have "length (waiting db1) \<le> k" using 1(9) Suc.prems(2) by simp
    from Suc.IH [OF 1(2) this, of "Suc n"] obtain m db' where 2:
      "poll_until_idle sha sha_bytes env (Suc k) (Suc n) db1 = Some (m, db')" "ledger_ok db'" "waiting db' = []"
      "worker_steps sha sha_bytes env \<lparr>wt_phase = Polling, wt_turn = Suc n, wt_db = db1\<rparr> \<lparr>wt_phase = Waiting, wt_turn = m, wt_db = db'\<rparr>"
      "\<forall>r\<in>set (db_runs db1). run_status r \<noteq> ''pending'' \<longrightarrow> r \<in> set (db_runs db')"
      "\<forall>r\<in>set (waiting db1). \<exists>x\<in>set (db_runs db'). run_id x = run_id r \<and> is_terminal x \<and> closed_run db' x" by blast
    let ?x = "the (run_get i db1)"
    have x: "?x \<in> set (db_runs db1)" "run_id ?x = i" using 1(6) run_getD by auto
    then have x': "?x \<in> set (db_runs db')" using 2(5) terminal_not_pending [OF 1(7)] by blast
    have cx: "closed_run db' ?x" using ledger_okD(3) [OF 2(2)] x' 1(7) by blast
    have kept: "r' \<in> set (db_runs db')" if r': "r' \<in> set (db_runs db)" "run_status r' \<noteq> ''pending''" for r'
    proof -
      have "run_id r' \<noteq> i" using unique_run [OF Suc.prems(1) r'(1)] 1(4,5) r'(2) by (auto simp: waiting_def)
      then have "r' \<in> set (db_runs db1)" using only_run_row [OF 1(3)] r'(1) by blast
      then show ?thesis using 2(5) r'(2) by blast
    qed
    have ended: "\<exists>x\<in>set (db_runs db'). run_id x = run_id r' \<and> is_terminal x \<and> closed_run db' x" if r': "r' \<in> set (waiting db)" for r'
    proof (cases "run_id r' = i")
      case True
      then show ?thesis using x' x(2) 1(7) cx by blast
    next
      case False
      then have "r' \<in> set (waiting db1)" using only_run_row [OF 1(3) False] r' by (simp add: waiting_def)
      then show ?thesis using 2(6) by blast
    qed
    have "worker_steps sha sha_bytes env \<lparr>wt_phase = Polling, wt_turn = n, wt_db = db\<rparr> \<lparr>wt_phase = Waiting, wt_turn = m, wt_db = db'\<rparr>"
      using converse_rtranclp_into_rtranclp [OF worker_step.work [OF 1(1)] 2(4)] .
    then show ?thesis using 1(1) 2(1-3) kept ended by (intro exI [of _ m] exI [of _ db']) simp
  qed
qed

text \<open>Whatever the other processes do, a worker with sane clocks keeps the ledger and does not crash.\<close>

lemma worker_step_ok:
  assumes "worker_step sha sha_bytes env s s'" "sane_env env" "ledger_ok (wt_db s)"
  shows "ledger_ok (wt_db s') \<and> (\<forall>e. wt_phase s' = Crashed e \<longrightarrow> wt_phase s = Crashed e)"
  using assms
proof (cases rule: worker_step.cases)
  case (work n db i db')
  then have "waiting db \<noteq> []" using worker_turn_idle [of db sha sha_bytes env n] by auto
  then show ?thesis using worker_turn_works [OF assms(2), of db sha sha_bytes n] work assms(3) by auto
next
  case (idle n db db')
  then have "waiting db = []" using worker_turn_works [OF assms(2), of db sha sha_bytes n] assms(3) by (cases "waiting db = []") auto
  then show ?thesis using worker_turn_idle [of db sha sha_bytes env n] idle assms(3) by auto
next
  case (crash n db e db')
  then show ?thesis
    using worker_turn_works [OF assms(2), of db sha sha_bytes n] worker_turn_idle [of db sha sha_bytes env n] assms(3)
    by (cases "waiting db = []") auto
next
  case (other ev db db' p n)
  then show ?thesis using ledger_step_inv assms(3) by auto
qed auto

section \<open>Properties\<close>

text \<open>
  C7. The worker drains the queue: with one more turn than there are pending runs its loop comes to rest, and
  then no run is pending, every run that was has ended with its scopes closed and counted, and the rows of all
  other runs are as before; the turns are steps of the worker.
\<close>

theorem worker_drains_queue:
  assumes "sane_env env" "ledger_ok db"
  shows "\<exists>m db'. poll_until_idle sha sha_bytes env (Suc (length (waiting db))) n db = Some (m, db') \<and> ledger_ok db' \<and> waiting db' = [] \<and>
    worker_steps sha sha_bytes env \<lparr>wt_phase = Polling, wt_turn = n, wt_db = db\<rparr> \<lparr>wt_phase = Waiting, wt_turn = m, wt_db = db'\<rparr> \<and>
    (\<forall>r\<in>set (db_runs db). run_status r \<noteq> ''pending'' \<longrightarrow> r \<in> set (db_runs db')) \<and>
    (\<forall>r\<in>set (waiting db). \<exists>x\<in>set (db_runs db'). run_id x = run_id r \<and> is_terminal x \<and> closed_run db' x)"
  using poll_until_idle_drains [OF assms order_refl] .



text \<open>A worker that was asked to stop, or crashed, takes no further turn.\<close>

theorem ended_worker_rests:
  assumes "worker_steps sha sha_bytes env \<lparr>wt_phase = p, wt_turn = n, wt_db = db\<rparr> s" "p = Stopped \<or> (\<exists>e. p = Crashed e)"
  shows "wt_phase s = p \<and> wt_turn s = n"
  using assms(1)
proof (induction rule: rtranclp_induct)
  case (step y z)
  then have "y = \<lparr>wt_phase = p, wt_turn = n, wt_db = wt_db y\<rparr>" by simp
  then show ?case using step(2) assms(2) by (metis worker_state.select_convs(1,2) worker_step_crashed worker_step_stopped)
qed simp

section \<open>Applications\<close>

definition sample_env_of :: "nat worker_env" where
  "sample_env_of = \<lparr>we_world = \<lambda>n. sample_world, we_claim = \<lambda>n. sample_now, we_beat = \<lambda>n. sample_now, we_finish = \<lambda>n. sample_now\<rparr>"

definition queue_db :: database where
  "queue_db = ledger_run (take 2 two_runs) ledger_db"

lemma sample_env_sane: "sane_env sample_env_of"
  using sample_now_utc sample_clock by (simp add: sane_env_def sample_env_of_def)

lemma queue_db_waiting: "map run_id (waiting queue_db) = [1, 2]" "ledger_ok queue_db"
proof -
  show "map run_id (waiting queue_db) = [1, 2]" by code_simp
  show "ledger_ok queue_db" unfolding queue_db_def by (rule ledger_run_ok [OF ledger_db_no_runs])
qed

lemma worker_drains_queue_witness:
  "\<exists>m db'. poll_until_idle sample_sha sample_sha_bytes sample_env_of 3 0 queue_db = Some (m, db') \<and>
     (\<exists>x\<in>set (db_runs db'). run_id x = 2 \<and> is_terminal x \<and> closed_run db' x)"
proof -
  have l: "Suc (length (waiting queue_db)) = 3" using arg_cong [where f = length, OF queue_db_waiting(1)] by simp
  obtain r where r: "r \<in> set (waiting queue_db)" "run_id r = 2"
    using queue_db_waiting(1) by (cases "waiting queue_db"; cases "tl (waiting queue_db)") auto
  show ?thesis
    using worker_drains_queue [OF sample_env_sane queue_db_waiting(2), where sha = sample_sha and sha_bytes = sample_sha_bytes and n = 0] r
    unfolding l by fastforce
qed


end
