(* ===== verification/Runtime.thy ===== *)
theory Runtime
  imports Valet Bis_Mapper Bis_Client Worker
begin

text \<open>
  \<open>app/application/runtime_bindings.py\<close>: what the worker runs a scope with.  For a scope the factory looks its series up
  in the tables and in the configuration and puts client, parser, mapper, snapshot and validation of the provider
  together.  Here the parts of the model meet: commands, tables, configuration, providers and pipeline.
\<close>

section \<open>Settings and transport\<close>

definition dataset_settings :: "reference_config \<Rightarrow> string \<Rightarrow> provider_settings res" where
  "dataset_settings c key =
     rbind (next_item (\<lambda>d. dataset_key d = key) (cf_datasets c)) (\<lambda>d.
     (case gd_settings d of None \<Rightarrow> Inl (AssertionError []) | Some s \<Rightarrow> Inr s))"

text \<open>The transport of a scope is its policy; the client is created, and closed after its one request.\<close>

definition scope_transport :: "reference_config \<Rightarrow> string \<Rightarrow> http_policy res" where
  "scope_transport c key =
     rbind (dataset_settings c key) (\<lambda>s.
     rbind (mk_http_policy (default_http_policy\<lparr>hp_read_timeout := gs_timeout_seconds s, hp_max_attempts := gs_max_attempts s\<rparr>)) (\<lambda>p.
     rmap (\<lambda>_. p) (check_base_url (gs_base_url s) False)))"

definition expect :: "'a option \<Rightarrow> exn \<Rightarrow> 'a res" where
  "expect x e = (case x of None \<Rightarrow> Inl e | Some y \<Rightarrow> Inr y)"

lemma expect_ok [res_simps]: "expect x e = Inr y \<longleftrightarrow> x = Some y"
  by (auto simp: expect_def split: option.splits)

section \<open>Bindings\<close>

text \<open>The two providers produce records of their own; a binding meets only those of its own parser.\<close>

datatype provider_record = ValetRecord valet_value | BisRecord bis_record

definition wrap_records :: "('a \<Rightarrow> 'b) \<Rightarrow> 'a parsed_record list \<Rightarrow> 'b parsed_record list" where
  "wrap_records f = map (\<lambda>r. \<lparr>pr_value = f (pr_value r), pr_record_path = pr_record_path r, pr_record_checksum = pr_record_checksum r\<rparr>)"

definition fx_dataset_key :: string where "fx_dataset_key = ''bank_of_canada:valet_daily_fx''"
definition bis_dataset_key :: string where "bis_dataset_key = ''bis:bis_policy_rates_daily''"

text \<open>The request, in a helper of its own: the first of those the client builds.\<close>

definition fx_request :: "reference_config \<Rightarrow> provider_settings \<Rightarrow> fx_series \<Rightarrow> ingestion_scope \<Rightarrow> fetch_request res" where
  "fx_request c settings series scope =
     rbind (scope_transport c fx_dataset_key) (\<lambda>p.
     rbind (mk_date_range (sc_start scope) (sc_end scope)) (\<lambda>period.
     rbind (valet_build_requests settings True [fs_provider_symbol series] period) (\<lambda>requests. index_list requests 0)))"

definition fx_binding :: "codecs \<Rightarrow> reference_config \<Rightarrow> ingestion_scope \<Rightarrow> database \<Rightarrow> provider_record binding res" where
  "fx_binding co c scope db =
     rbind (dataset_settings c fx_dataset_key) (\<lambda>settings.
     rbind (expect (find (\<lambda>r. fs_id r = sc_series scope) (db_fx_series db)) (ValueError ''FX scope references missing series'')) (\<lambda>series.
     rbind (expect (find (\<lambda>r. fp_id r = fs_fx_pair_id series) (db_fx_pairs db)) (AssertionError [])) (\<lambda>pair.
     rbind (expect (find (\<lambda>r. cu_id r = fp_base_currency_id pair) (db_currencies db)) (AssertionError [])) (\<lambda>base.
     rbind (expect (find (\<lambda>r. cu_id r = fp_quote_currency_id pair) (db_currencies db)) (AssertionError [])) (\<lambda>quot.
     rbind (next_item (\<lambda>x. gf_provider_symbol x = fs_provider_symbol series) (cf_fx_series c)) (\<lambda>configured.
     rbind (fx_request c settings series scope) (\<lambda>request.
     (let mapping = \<lparr>vs_series_id = fs_id series, vs_provider_symbol = fs_provider_symbol series, vs_pair_symbol = gf_pair configured,
            vs_base_currency = cu_code base, vs_quote_currency = cu_code quot, vs_enabled = True, vs_source_metadata = []\<rparr>
      in Inr \<lparr>bd_request = request,
           bd_parse = (\<lambda>p. rmap (wrap_records ValetRecord) (valet_parse co p)),
           bd_map = (\<lambda>r source. case r of
              ValetRecord v \<Rightarrow> valet_map [(fs_provider_symbol series, OneMapping mapping)] v source
            | BisRecord b \<Rightarrow> Inl (AttributeError ''BISRecord object has no attribute provider_symbol'')),
           bd_stable_keys = [fs_id series \<mapsto> gf_stable_key configured],
           bd_validate = (\<lambda>x. case x of
              FxCandidate f \<Rightarrow> validate_fx_candidate f (cu_code base) (cu_code quot) [fs_id series] default_thresholds [] True
            | PolicyCandidate f \<Rightarrow> Inl (AttributeError ''PolicyRateCandidate object has no attribute quote_type'')),
           bd_trigger = None\<rparr>))))))))"

definition scope_bis_client :: "provider_settings \<Rightarrow> interest_rate_series \<Rightarrow> bis_client" where
  "scope_bis_client settings series =
     (default_bis_client bis_dataset_key (is_dataflow_key series))\<lparr>bc_endpoint_template := gs_endpoint_template settings,
        bc_max_range_days := gs_max_range_days settings, bc_media_type := ''application/vnd.sdmx.data+json;version=1.0.0''\<rparr>"

definition bis_scope_request :: "reference_config \<Rightarrow> provider_settings \<Rightarrow> interest_rate_series \<Rightarrow> ingestion_scope \<Rightarrow> fetch_request res" where
  "bis_scope_request c settings series scope =
     rbind (scope_transport c bis_dataset_key) (\<lambda>p.
     rbind (mk_bis_client (scope_bis_client settings series)) (\<lambda>client.
     rbind (mk_date_range (sc_start scope) (sc_end scope)) (\<lambda>period.
     rbind (bis_requests client [is_series_key series] period) (\<lambda>requests. index_list requests 0))))"

definition bis_binding ::
  "bis_codecs \<Rightarrow> datetime \<Rightarrow> reference_config \<Rightarrow> ingestion_scope \<Rightarrow> database \<Rightarrow> provider_record binding res" where
  "bis_binding bx now c scope db =
     rbind (dataset_settings c bis_dataset_key) (\<lambda>settings.
     rbind (expect (find (\<lambda>r. is_id r = sc_series scope) (db_rate_series db)) (ValueError ''policy scope references missing series'')) (\<lambda>series.
     rbind (next_item (\<lambda>x. gi_dataflow_key x = is_dataflow_key series \<and> gi_series_key x = is_series_key series) (cf_rate_series c)) (\<lambda>configured.
     rbind (bis_scope_request c settings series scope) (\<lambda>request.
     (let mapping = \<lparr>bm_series_id = is_id series, bm_dataflow = is_dataflow_key series, bm_series_key = is_series_key series,
            bm_economy = gi_economy configured, bm_currency = gi_currency configured, bm_effective_from = ymd2ord 1900 1 1,
            bm_effective_to = None, bm_enabled = True\<rparr>;
          parser = \<lparr>bp_dataflow = is_dataflow_key series, bp_dimension_order = [''FREQ'', ''REF_AREA''],
            bp_currency = Some (gi_currency configured), bp_collection = Some (gi_collection_indicator configured),
            bp_unit = Some ''percent''\<rparr>
      in Inr \<lparr>bd_request = request,
           bd_parse = (\<lambda>p. rmap (wrap_records BisRecord) (bis_parse bx parser p)),
           bd_map = (\<lambda>r source. case r of
              BisRecord b \<Rightarrow> bis_map (bx_str bx) \<lparr>bs_series = [mapping], bs_retrieved_at = now\<rparr> b source
            | ValetRecord v \<Rightarrow> Inl (AttributeError ''object has no attribute dataflow'')),
           bd_stable_keys = [is_id series \<mapsto> gi_stable_key configured],
           bd_validate = (\<lambda>x. case x of
              PolicyCandidate f \<Rightarrow> validate_policy_rate_candidate f [is_id series] default_thresholds [] True
            | FxCandidate f \<Rightarrow> Inl (AttributeError ''FxObservationCandidate object has no attribute unit'')),
           bd_trigger = None\<rparr>)))))"

definition runtime_binding ::
  "codecs \<Rightarrow> bis_codecs \<Rightarrow> datetime \<Rightarrow> reference_config \<Rightarrow> ingestion_run \<Rightarrow> ingestion_scope \<Rightarrow> database \<Rightarrow> provider_record binding res" where
  "runtime_binding co bx now c run scope db =
     (if sc_type scope = ''fx'' then fx_binding co c scope db else bis_binding bx now c scope db)"

section \<open>Lemmas\<close>

lemma first_piece:
  assumes "range_pieces step s e f = Inr xs" "s \<le> e" "e - s + 1 \<le> step"
  shows "\<exists>ys zs. f s e = Inr ys \<and> xs = ys @ zs"
proof -
  obtain limit ys zs where p: "add_days s (step - 1) = Inr limit" "f s (min e limit) = Inr ys" "xs = ys @ zs"
    using assms by (auto simp: rbind_eq_Inr rmap_eq_Inr Let_def simp del: range_pieces.simps simp: range_pieces.simps [of step s e f])
  then have "min e limit = e" using assms(3) by (auto simp: add_days_def split: if_splits)
  with p show ?thesis by auto
qed

lemma dedupe_single [simp]: "dedupe [x] = [x]"
  by (simp add: dedupe_def)

lemma first_request:
  assumes "traverse f xs = Inr ys" "index_list ys 0 = Inr y"
  shows "\<exists>x\<in>set xs. f x = Inr y"
proof -
  obtain zs where "ys = y # zs" using assms(2) by (cases ys) (auto simp: index_list_def)
  then show ?thesis using assms(1) unfolding traverse_Inr_iff by (auto simp: list_all2_Cons2)
qed

lemma bis_scope_request_range:
  assumes "bis_scope_request c settings series scope = Inr q" "sc_end scope - sc_start scope + 1 \<le> gs_max_range_days settings"
  shows "fr_date_range q = \<lparr>dr_start = sc_start scope, dr_end = sc_end scope\<rparr>"
proof -
  let ?client = "scope_bis_client settings series" and ?period = "\<lparr>dr_start = sc_start scope, dr_end = sc_end scope\<rparr>"
  have fields: "bc_max_range_days ?client = gs_max_range_days settings" "bc_max_series ?client = 1"
    by (simp_all add: scope_bis_client_def default_bis_client_def)
  obtain rs where rs: "bis_requests ?client [is_series_key series] ?period = Inr rs" "index_list rs 0 = Inr q" "sc_start scope \<le> sc_end scope"
    using assms(1) by (auto simp: bis_scope_request_def rbind_eq_Inr mk_bis_client_def mk_date_range_def split: if_splits)
  then have "range_pieces (gs_max_range_days settings) (sc_start scope) (sc_end scope)
      (\<lambda>s e. traverse (bis_request ?client s e) [[is_series_key series]]) = Inr rs"
    by (simp add: bis_requests_def Let_def fields del: range_pieces.simps)
  from first_piece [OF this rs(3) assms(2)] obtain p zs
    where p: "bis_request ?client (sc_start scope) (sc_end scope) [is_series_key series] = Inr p" "rs = p # zs"
    unfolding traverse_Inr_iff by (auto simp: list_all2_Cons1)
  then show ?thesis using rs(2) by (auto simp: index_list_def bis_request_def rmap_eq_Inr)
qed

lemma fx_request_range:
  assumes "fx_request c settings series scope = Inr q"
  shows "fr_date_range q = \<lparr>dr_start = sc_start scope, dr_end = sc_end scope\<rparr>"
proof -
  let ?period = "\<lparr>dr_start = sc_start scope, dr_end = sc_end scope\<rparr>"
  obtain rs where rs: "valet_build_requests settings True [fs_provider_symbol series] ?period = Inr rs" "index_list rs 0 = Inr q"
    using assms by (auto simp: fx_request_def rbind_eq_Inr mk_date_range_def split: if_splits)
  then obtain symbols where "traverse (valet_request settings ?period) [symbols] = Inr rs"
    unfolding valet_build_requests_def Let_def rbind_eq_Inr by auto
  from first_request [OF this rs(2)] show ?thesis by (auto simp: valet_request_def rmap_eq_Inr)
qed

lemma valet_map_series:
  assumes "valet_map [(symbol, OneMapping mapping)] v source = Inr (Mapped x)"
  shows "candidate_series x = vs_series_id mapping"
  using assms by (auto simp: valet_map_def rbind_eq_Inr rmap_eq_Inr resolve_series_def mk_fx_candidate_def
      split: valet_value.splits list.splits if_splits)

lemma bis_map_series:
  assumes "bis_map to_str \<lparr>bs_series = [mapping], bs_retrieved_at = now\<rparr> r source = Inr (Mapped x)"
  shows "candidate_series x = bm_series_id mapping"
  using assms by (auto simp: bis_map_def rbind_eq_Inr rmap_eq_Inr bis_resolve_def mk_policy_candidate_def
      split: option.splits list.splits if_splits)

lemma find_id: "find (\<lambda>r. f r = x) rs = Some y \<Longrightarrow> f y = x"
  by (auto simp: find_Some_iff)

definition binding_sound :: "provider_record binding \<Rightarrow> uuid \<Rightarrow> bool" where
  "binding_sound b series \<longleftrightarrow> bd_trigger b = None \<and> bd_stable_keys b series \<noteq> None \<and>
     (\<forall>r source x. bd_map b r source = Inr (Mapped x) \<longrightarrow> candidate_series x = series)"


section \<open>Properties\<close>

lemma fx_binding_sound:
  assumes "fx_binding co c scope db = Inr b"
  shows "binding_sound b (sc_series scope) \<and> fr_date_range (bd_request b) = \<lparr>dr_start = sc_start scope, dr_end = sc_end scope\<rparr>"
  using assms by (auto simp: fx_binding_def binding_sound_def rbind_eq_Inr expect_ok Let_def dest!: valet_map_series find_id
      fx_request_range split: provider_record.splits)

lemma bis_binding_sound:
  assumes "bis_binding bx now c scope db = Inr b"
    and "\<And>s. dataset_settings c bis_dataset_key = Inr s \<Longrightarrow> sc_end scope - sc_start scope + 1 \<le> gs_max_range_days s"
  shows "binding_sound b (sc_series scope) \<and> fr_date_range (bd_request b) = \<lparr>dr_start = sc_start scope, dr_end = sc_end scope\<rparr>"
  using assms by (auto simp: bis_binding_def binding_sound_def rbind_eq_Inr expect_ok Let_def dest!: bis_map_series find_id
      bis_scope_request_range split: provider_record.splits)

lemma validated_range:
  assumes "validate_command c m = Inr ()" "dataset_settings c (command_dataset_key m) = Inr s"
  shows "dr_end (cm_range m) - dr_start (cm_range m) + 1 \<le> gs_max_range_days s"
  using assms by (auto simp: validate_command_def dataset_settings_def rbind_eq_Inr rguard_def next_item_ok Let_def split: option.splits if_splits)


section \<open>Applications\<close>

definition binding_db :: database where
  "binding_db = empty_database\<lparr>
     db_currencies := [\<lparr>cu_id = 3, cu_code = ''USD'', cu_name = ''US dollar'', cu_minor_units = Some 2, cu_is_active = True\<rparr>,
       \<lparr>cu_id = 4, cu_code = ''CAD'', cu_name = ''Canadian dollar'', cu_minor_units = Some 2, cu_is_active = True\<rparr>],
     db_fx_pairs := [\<lparr>fp_id = 5, fp_base_currency_id = 3, fp_quote_currency_id = 4, fp_symbol = ''USDCAD'', fp_is_active = True\<rparr>],
     db_fx_series := [\<lparr>fs_id = 7, fs_provider_dataset_id = 2, fs_provider_symbol = ''FXUSDCAD'', fs_fx_pair_id = 5, fs_frequency = ''daily'',
       fs_quote_type = ''reference'', fs_source_metadata = PNone, fs_is_active = True\<rparr>]\<rparr>"

definition binding_scope :: ingestion_scope where
  "binding_scope = (the (scope_get 10 claimed_db))\<lparr>sc_type := ''fx'', sc_series := 7, sc_start := 738000, sc_end := 738002\<rparr>"

definition binding_command :: start_command where
  "binding_command = \<lparr>cm_provider = BankOfCanada, cm_dataset = ValetDailyFx, cm_trigger = Manual,
     cm_range = \<lparr>dr_start = 738000, dr_end = 738002\<rparr>, cm_requested = None, cm_parent = None\<rparr>"


end
