(* ===== verification/Py_Float.thy ===== *)
theory Py_Float
  imports Prelude Complex_Main
begin

text \<open>
  Floats as the exact numbers they denote: rounding to an integer, halves to the even one, and the format \<open>:g\<close>, six
  significant digits with the zeros at the end cut off.
\<close>

definition round_even :: "rat \<Rightarrow> int" where
  "round_even r =
     (let f = \<lfloor>r\<rfloor>; d = r - of_int f
      in if d < 1/2 then f else if d > 1/2 then f + 1 else if even f then f else f + 1)"

lemma round_even_mono: "of_int n \<le> r \<Longrightarrow> n \<le> round_even r"
proof -
  assume "of_int n \<le> r"
  then have "n \<le> \<lfloor>r\<rfloor>" by (simp add: le_floor_iff)
  then show ?thesis by (auto simp: round_even_def Let_def)
qed

lemma round_even_le: "r \<le> of_int n \<Longrightarrow> round_even r \<le> n"
proof -
  assume r: "r \<le> of_int n"
  then have "\<lfloor>r\<rfloor> \<le> n" by (metis floor_mono floor_of_int)
  moreover have "r = of_int n" if "\<lfloor>r\<rfloor> = n" using that r by linarith
  ultimately show ?thesis by (cases "\<lfloor>r\<rfloor> = n") (auto simp: round_even_def Let_def)
qed

text \<open>The exponent of the first digit of a positive number, and its six digits.\<close>

definition leading_exponent :: "rat \<Rightarrow> int" where
  "leading_exponent a =
     (if 1 \<le> a then int (length (show_int \<lfloor>a\<rfloor>)) - 1 else - int (length (show_int (\<lceil>1 / a\<rceil> - 1))))"

definition six_digits :: "rat \<Rightarrow> int \<times> string" where
  "six_digits a =
     (let x = leading_exponent a; m = round_even (a * 10 powi (5 - x))
      in if m = 1000000 then (x + 1, ''100000'') else (x, show_int m))"

definition with_fraction :: "string \<Rightarrow> string \<Rightarrow> string" where
  "with_fraction whole rest = (let f = rstrip_char (CHR ''0'') rest in whole @ (if f = [] then [] else ''.'' @ f))"

definition format_g :: "rat \<Rightarrow> string" where
  "format_g v =
     (if v = 0 then ''0''
      else (let (x, ds) = six_digits \<bar>v\<bar>
            in (if v < 0 then ''-'' else []) @
               (if - 4 \<le> x \<and> x < 0 then with_fraction ''0'' (replicate (nat (- x - 1)) (CHR ''0'') @ ds)
                else if 0 \<le> x \<and> x < 6 then with_fraction (take (nat x + 1) ds) (drop (nat x + 1) ds)
                else with_fraction (take 1 ds) (drop 1 ds) @ ''e'' @ (if x < 0 then ''-'' else ''+'') @ show_pad 2 (nat \<bar>x\<bar>))))"

text \<open>Evaluation by the simplifier.\<close>

lemma digit_chars:
  "digit_char 0 = CHR ''0''" "digit_char (Suc 0) = CHR ''1''" "digit_char 1 = CHR ''1''" "digit_char 2 = CHR ''2''" "digit_char 3 = CHR ''3''" "digit_char 4 = CHR ''4''"
  "digit_char 5 = CHR ''5''" "digit_char 6 = CHR ''6''" "digit_char 7 = CHR ''7''" "digit_char 8 = CHR ''8''" "digit_char 9 = CHR ''9''"
  by code_simp+

lemma show_nat_literal:
  "show_nat 0 = [digit_char 0]" "show_nat (Suc 0) = [digit_char 1]" "show_nat 1 = [digit_char 1]"
  "show_nat (numeral n) = (if numeral n < (10::nat) then [digit_char (numeral n)] else show_nat (numeral n div 10) @ [digit_char (numeral n mod 10)])"
  by (simp_all add: show_nat.simps [of 0] show_nat.simps [of "Suc 0"] show_nat.simps [of "numeral n"])

lemma floor_literal: "\<lfloor>numeral a / numeral b :: rat\<rfloor> = numeral a div numeral b"
  by (metis floor_divide_of_int_eq of_int_numeral)

lemma show_pad_2: "show_pad 2 n = [digit_char (n div 10 mod 10), digit_char (n mod 10)]"
  by (simp add: numeral_2_eq_2)

lemmas format_g_eval = format_g_def six_digits_def leading_exponent_def round_even_def with_fraction_def rstrip_char_def show_int_def
  digit_chars show_nat_literal floor_literal show_pad_2 Let_def

lemma format_g_examples:
  "map format_g [1/100, 1/10, 1/2, 1, 5, 30, 60, 300, 900] = [''0.01'', ''0.1'', ''0.5'', ''1'', ''5'', ''30'', ''60'', ''300'', ''900'']"
  by (simp add: format_g_eval)

lemma format_g_roundings:
  "map format_g [123456, 1234567, 9999995, 1/3, 1/100000, - (25/10)] =
     [''123456'', ''1.23457e+06'', ''1e+07'', ''0.333333'', ''1e-05'', ''-2.5'']"
  by (simp add: format_g_eval)

end
