(* ===== verification/Processes.thy ===== *)
theory Processes
  imports Runtime Scheduling Py_Float
begin

text \<open>
  The processes: \<open>app/config/settings.py\<close> (the settings, read from the environment), the start of the worker in
  \<open>app/worker.py\<close> and the loop of \<open>app/scheduler.py\<close>.  The environment is a map of variables; loading the YAML
  file is an argument.  Floats are the exact numbers their texts denote.
\<close>

section \<open>Settings\<close>

record settings =
  st_database_url :: string
  st_log_level :: string
  st_reference_config_path :: string
  st_worker_poll_interval :: pyfloat
  st_worker_lease_timeout :: timedelta
  st_scheduler_poll_interval :: pyfloat
  st_scheduler_enabled :: bool
  st_metrics_enabled :: bool

type_synonym environment = "string \<rightharpoonup> string"

definition env_get :: "environment \<Rightarrow> string \<Rightarrow> string \<Rightarrow> string" where
  "env_get env name d = (case env name of None \<Rightarrow> d | Some s \<Rightarrow> s)"

definition valid_log_levels :: "string list" where
  "valid_log_levels = [''CRITICAL'', ''DEBUG'', ''ERROR'', ''INFO'', ''WARNING'']"

text \<open>The bounds come with the text that a float has in the message.\<close>

definition bounded_float :: "environment \<Rightarrow> string \<Rightarrow> string \<Rightarrow> string \<times> rat \<Rightarrow> string \<times> rat \<Rightarrow> pyfloat res" where
  "bounded_float env name d lo hi =
     (case parse_float (env_get env name d) of
        None \<Rightarrow> Inl (ValueError (name @ '' must be numeric''))
      | Some x \<Rightarrow>
          (if float_within (snd lo) (snd hi) x then Inr x
           else Inl (ValueError (name @ '' must be between '' @ fst lo @ '' and '' @ fst hi))))"

definition env_boolean :: "environment \<Rightarrow> string \<Rightarrow> bool \<Rightarrow> bool res" where
  "env_boolean env name d =
     (case env name of
        None \<Rightarrow> Inr d
      | Some raw \<Rightarrow>
          (if str_lower raw \<notin> set [''true'', ''false'', ''1'', ''0''] then Inl (ValueError (name @ '' must be true or false''))
           else Inr (str_lower raw \<in> set [''true'', ''1''])))"

text \<open>\<open>timedelta(seconds=x)\<close>: to the nearest microsecond, halves to the even one.\<close>

definition seconds_delta :: "pyfloat \<Rightarrow> timedelta res" where
  "seconds_delta x = (case x of Num r \<Rightarrow> Inr (round_even (r * 1000000)) | NotANumber \<Rightarrow> Inl (ValueError ''cannot convert float NaN to integer'')
     | _ \<Rightarrow> Inl (OverflowError ''cannot convert float infinity to integer''))"

definition settings_from_env :: "environment \<Rightarrow> settings res" where
  "settings_from_env env =
     (let database_url = str_strip (env_get env ''DATABASE_URL'' ''postgresql+psycopg://localhost/fx_analyzer'');
          log_level = str_upper (str_strip (env_get env ''LOG_LEVEL'' ''INFO''));
          path = str_strip (env_get env ''REFERENCE_CONFIG_PATH'' ''config/reference-data.yaml'')
      in rbind (rguard (database_url \<noteq> []) (ValueError ''DATABASE_URL must not be empty'')) (\<lambda>_.
         rbind (rguard (log_level \<in> set valid_log_levels)
                  (ValueError (''LOG_LEVEL must be one of: '' @ join '', '' valid_log_levels))) (\<lambda>_.
         rbind (rguard (path \<noteq> []) (ValueError ''REFERENCE_CONFIG_PATH must not be empty'')) (\<lambda>_.
         rbind (bounded_float env ''WORKER_POLL_INTERVAL'' ''5.0'' (''0.1'', 1/10) (''300.0'', 300)) (\<lambda>poll.
         rbind (rbind (bounded_float env ''WORKER_LEASE_TIMEOUT'' ''300.0'' (''1.0'', 1) (''86400.0'', 86400)) seconds_delta) (\<lambda>lease.
         rbind (bounded_float env ''SCHEDULER_POLL_INTERVAL'' ''60.0'' (''1.0'', 1) (''3600.0'', 3600)) (\<lambda>tick.
         rbind (env_boolean env ''SCHEDULER_ENABLED'' True) (\<lambda>scheduler.
         rbind (env_boolean env ''METRICS_ENABLED'' False) (\<lambda>metrics.
         Inr \<lparr>st_database_url = database_url, st_log_level = log_level, st_reference_config_path = path,
           st_worker_poll_interval = poll, st_worker_lease_timeout = lease, st_scheduler_poll_interval = tick,
           st_scheduler_enabled = scheduler, st_metrics_enabled = metrics\<rparr>)))))))))"

section \<open>The worker process\<close>

definition settings_options :: "settings \<Rightarrow> worker_options" where
  "settings_options s = \<lparr>wo_poll_interval = st_worker_poll_interval s, wo_lease_timeout = st_worker_lease_timeout s\<rparr>"

text \<open>\<open>run_worker\<close> up to the loop of the worker.\<close>

definition run_worker :: "(string \<Rightarrow> reference_config res) \<Rightarrow> environment \<Rightarrow> datetime \<Rightarrow> database \<Rightarrow> (reference_config \<times> worker_options \<times> database) res" where
  "run_worker load env now db =
     rbind (settings_from_env env) (\<lambda>s.
     rbind (load (st_reference_config_path s)) (\<lambda>c.
     rbind (mk_worker_options (settings_options s)) (\<lambda>w.
     rmap (\<lambda>db'. (c, w, db')) (worker_start w now db))))"

section \<open>The scheduler process\<close>

text \<open>
  A tick is one transaction: the due commands in their order, each submitted.  \<open>keys\<close> supplies the keys of
  the run and of the scopes the \<open>n\<close>-th command creates.
\<close>

type_synonym tick_keys = "nat \<Rightarrow> uuid \<times> (nat \<Rightarrow> uuid)"

definition submit_all ::
  "tick_keys \<Rightarrow> string \<Rightarrow> string \<Rightarrow> reference_config \<Rightarrow> (nat \<times> scheduled_command) list \<Rightarrow> database \<Rightarrow> database res" where
  "submit_all keys code_version checksum c =
     rfold (\<lambda>(n, sd) db. rmap snd (submit (fst (keys n)) (snd (keys n)) code_version checksum c sd db))"

definition scheduler_tick ::
  "zones \<Rightarrow> string \<Rightarrow> string \<Rightarrow> reference_config \<Rightarrow> tick_keys \<Rightarrow> datetime \<Rightarrow> database \<Rightarrow> database res" where
  "scheduler_tick zones code_version checksum c keys now db =
     rbind (due_commands zones c now) (\<lambda>commands. submit_all keys code_version checksum c (enumerate 0 commands) db)"

text \<open>The loop, for the clock readings of its ticks: an exception rolls its tick back and ends the process.\<close>

fun scheduler_loop ::
  "zones \<Rightarrow> string \<Rightarrow> string \<Rightarrow> reference_config \<Rightarrow> (tick_keys \<times> datetime) list \<Rightarrow> database \<Rightarrow> unit res \<times> database" where
  "scheduler_loop zones code_version checksum c [] db = (Inr (), db)"
| "scheduler_loop zones code_version checksum c ((keys, now) # ticks) db =
     (case scheduler_tick zones code_version checksum c keys now db of
        Inl e \<Rightarrow> (Inl e, db)
      | Inr db' \<Rightarrow> scheduler_loop zones code_version checksum c ticks db')"

definition run_scheduler ::
  "(string \<Rightarrow> (reference_config \<times> string) res) \<Rightarrow> zones \<Rightarrow> environment \<Rightarrow> (tick_keys \<times> datetime) list \<Rightarrow> database \<Rightarrow> unit res \<times> database" where
  "run_scheduler load zones env ticks db =
     (case settings_from_env env of
        Inl e \<Rightarrow> (Inl e, db)
      | Inr s \<Rightarrow>
          (if \<not> st_scheduler_enabled s then (Inr (), db)
           else (case load (st_reference_config_path s) of
                   Inl e \<Rightarrow> (Inl e, db)
                 | Inr (c, checksum) \<Rightarrow> scheduler_loop zones (env_get env ''CODE_VERSION'' ''unknown'') checksum c ticks db)))"

section \<open>Lemmas\<close>

lemma bounded_float_within: "bounded_float env name d lo hi = Inr x \<Longrightarrow> float_within (snd lo) (snd hi) x"
  by (auto simp: bounded_float_def split: option.splits if_splits)

lemma lease_bounds:
  assumes "float_within 1 86400 x" "seconds_delta x = Inr t"
  shows "1000000 \<le> t" "t \<le> day_us"
  using assms by (auto simp: float_within_def seconds_delta_def day_us_def split: pyfloat.splits intro!: round_even_mono round_even_le)

lemma seconds_delta_total: "float_within lo hi x \<Longrightarrow> is_ok (seconds_delta x)"
  by (auto simp: float_within_def seconds_delta_def is_ok_def split: pyfloat.splits)

text \<open>What a submitted command leaves: its dataset has a run that covers it.\<close>

definition covered :: "scheduled_command \<Rightarrow> database \<Rightarrow> bool" where
  "covered sd db \<longleftrightarrow> (\<exists>d. find (\<lambda>d. ds_provider_code d = provider_value (cm_provider (sd_command sd)) \<and>
       ds_dataset_code d = dataset_value (cm_dataset (sd_command sd))) (db_datasets db) = Some d \<and>
     list_ex (covering_run (ds_id d) (cm_range (sd_command sd))) (db_runs db))"

lemma covered_unchanged: "covered sd db \<Longrightarrow> submit i f code csum c sd db = Inr (False, db)"
  by (auto simp: covered_def submit_def)

lemma submit_grows:
  assumes "submit i f code csum c sd db = Inr (b, db')"
  shows "db_datasets db' = db_datasets db \<and> prefix (db_runs db) (db_runs db')"
  using assms by (auto simp: submit_def rmap_eq_Inr split: option.splits if_splits elim!: run_create_rows)

lemma covered_grows: "covered sd db \<Longrightarrow> db_datasets db' = db_datasets db \<Longrightarrow> prefix (db_runs db) (db_runs db') \<Longrightarrow> covered sd db'"
  by (auto simp: covered_def prefix_def)

lemma submit_covers:
  assumes "submit i f code csum c sd db = Inr (b, db')" "dr_start (cm_range (sd_command sd)) \<le> dr_end (cm_range (sd_command sd))"
  shows "covered sd db'"
proof -
  obtain d where d: "find (\<lambda>d. ds_provider_code d = provider_value (cm_provider (sd_command sd)) \<and>
      ds_dataset_code d = dataset_value (cm_dataset (sd_command sd))) (db_datasets db) = Some d"
    using assms(1) by (auto simp: submit_def split: option.splits)
  show ?thesis
  proof (cases "list_ex (covering_run (ds_id d) (cm_range (sd_command sd))) (db_runs db)")
    case True
    then show ?thesis using assms(1) d by (auto simp: submit_def covered_def)
  next
    case False
    then have "run_create i f code csum (sd_evaluated_at sd) c (sd_command sd) db = Inr db'"
      using assms(1) d by (auto simp: submit_def rmap_eq_Inr)
    then show ?thesis
    proof (rule run_create_rows)
      fix d' :: provider_dataset
      assume c: "command_dataset (sd_command sd) db = Inr d'" "db_datasets db' = db_datasets db"
        "db_runs db' = db_runs db @ [new_run i (sd_command sd) (ds_id d') csum code (sd_evaluated_at sd)]"
      have "d' = d" using c(1) d by (auto simp: command_dataset_def split: if_splits)
      then show ?thesis using d c(2,3) assms(2) by (simp add: covered_def covering_run_def new_run_def)
    qed
  qed
qed

lemma submit_all_covers:
  assumes "submit_all keys code csum c xs db = Inr db'"
    and "\<And>sd. sd \<in> snd ` set xs \<Longrightarrow> dr_start (cm_range (sd_command sd)) \<le> dr_end (cm_range (sd_command sd))"
  shows "db_datasets db' = db_datasets db \<and> prefix (db_runs db) (db_runs db') \<and> (\<forall>sd\<in>snd ` set xs. covered sd db')"
  using assms
proof (induction xs arbitrary: db)
  case (Cons x xs)
  obtain n sd where x: "x = (n, sd)" by fastforce
  obtain b db1 where s: "submit (fst (keys n)) (snd (keys n)) code csum c sd db = Inr (b, db1)" "submit_all keys code csum c xs db1 = Inr db'"
    using Cons.prems(1) x by (auto simp: submit_all_def rmap_eq_Inr split: sum.splits)
  have ih: "db_datasets db' = db_datasets db1 \<and> prefix (db_runs db1) (db_runs db') \<and> (\<forall>sd\<in>snd ` set xs. covered sd db')"
    by (rule Cons.IH [OF s(2)]) (use Cons.prems(2) in auto)
  have "covered sd db1" by (rule submit_covers [OF s(1)]) (use Cons.prems(2) x in auto)
  then have "covered sd db'" using ih covered_grows by blast
  then show ?case using ih submit_grows [OF s(1)] x by auto
qed (simp add: submit_all_def)

lemma submit_all_covered:
  "(\<And>sd. sd \<in> snd ` set xs \<Longrightarrow> covered sd db) \<Longrightarrow> submit_all keys code csum c xs db = Inr db"
  by (induction xs) (auto simp: submit_all_def covered_unchanged rmap_def)

lemma traverse_member: "traverse f xs = Inr ys \<Longrightarrow> y \<in> set ys \<Longrightarrow> \<exists>x\<in>set xs. f x = Inr y"
proof -
  assume "traverse f xs = Inr ys" "y \<in> set ys"
  then have "list_all2 (\<lambda>x y. f x = Inr y) xs ys" "y \<in> set ys" by (simp_all add: traverse_Inr_iff)
  then show ?thesis by (induction rule: list_all2_induct) auto
qed

lemma due_commands_ordered:
  assumes "due_commands zones c t = Inr cmds" "sd \<in> set cmds"
  shows "dr_start (cm_range (sd_command sd)) \<le> dr_end (cm_range (sd_command sd))"
proof -
  obtain cals ps now cs where 1: "traverse (due_command zones c cals ps now) scheduled_sources = Inr cs" "sd \<in> set (concat cs)"
    using assms by (auto simp: due_commands_def rbind_eq_Inr rmap_eq_Inr)
  then obtain cmds' where "cmds' \<in> set cs" "sd \<in> set cmds'" by auto
  then obtain provider dataset kind where 2: "due_command zones c cals ps now (provider, dataset, kind) = Inr cmds'" "sd \<in> set cmds'"
    using traverse_member [OF 1(1)] by (metis prod_cases3)
  show ?thesis
    by (rule due_command_props [OF 2]) (simp split: if_splits)
qed

lemma submit_ledger:
  assumes "submit i f code csum c sd db = Inr (b, db')" "ledger_ok db"
  shows "ledger_ok db'"
  using assms by (auto simp: submit_def rmap_eq_Inr split: option.splits if_splits dest: run_create_inv)

section \<open>Properties\<close>

text \<open>
  Settings the program accepts are settings it can run with: the constructor of the worker's options never rejects
  them, the lease lasts between a second and a day, the scheduler waits between a second and an hour, and the database
  address, the path of the configuration and the logging level are proper values.
\<close>

theorem accepted_settings_usable:
  assumes "settings_from_env env = Inr s"
  shows "mk_worker_options (settings_options s) = Inr (settings_options s) \<and>
    1000000 \<le> st_worker_lease_timeout s \<and> st_worker_lease_timeout s \<le> day_us \<and>
    float_within 1 3600 (st_scheduler_poll_interval s) \<and>
    st_database_url s \<noteq> [] \<and> st_reference_config_path s \<noteq> [] \<and> st_log_level s \<in> set valid_log_levels"
proof -
  obtain poll lease tick where 1: "bounded_float env ''WORKER_POLL_INTERVAL'' ''5.0'' (''0.1'', 1/10) (''300.0'', 300) = Inr poll"
    "bounded_float env ''WORKER_LEASE_TIMEOUT'' ''300.0'' (''1.0'', 1) (''86400.0'', 86400) = Inr lease"
    "seconds_delta lease = Inr (st_worker_lease_timeout s)"
    "bounded_float env ''SCHEDULER_POLL_INTERVAL'' ''60.0'' (''1.0'', 1) (''3600.0'', 3600) = Inr tick"
    "st_worker_poll_interval s = poll" "st_scheduler_poll_interval s = tick"
    "st_database_url s \<noteq> []" "st_reference_config_path s \<noteq> []" "st_log_level s \<in> set valid_log_levels"
    using assms unfolding settings_from_env_def Let_def rbind_eq_Inr rguard_def by (auto split: if_splits simp del: set_simps)
  note within = bounded_float_within [OF 1(1), simplified] bounded_float_within [OF 1(2), simplified] bounded_float_within [OF 1(4), simplified]
  note lease = lease_bounds [OF within(2) 1(3)]
  have "mk_worker_options (settings_options s) = Inr (settings_options s)"
    using within(1) lease(1) 1(5) by (simp add: mk_worker_options_def settings_options_def rmap_def)
  then show ?thesis using 1 within lease by simp
qed


text \<open>
  The scheduler keeps the ledger: however many ticks it makes and wherever it stops, the tables of runs and scopes stay
  well formed, and no run or dataset is changed or removed, only runs are added.
\<close>

theorem scheduler_keeps_ledger:
  assumes "ledger_ok db" "scheduler_loop zones code csum c ticks db = (r, db')"
  shows "ledger_ok db' \<and> prefix (db_runs db) (db_runs db') \<and> db_datasets db' = db_datasets db"
  using assms
proof (induction ticks arbitrary: db)
  case (Cons tick ticks)
  obtain keys now where tick: "tick = (keys, now)" by fastforce
  show ?case
  proof (cases "scheduler_tick zones code csum c keys now db")
    case (Inr db1)
    then obtain cmds where cmds: "due_commands zones c now = Inr cmds" "submit_all keys code csum c (enumerate 0 cmds) db = Inr db1"
      by (auto simp: scheduler_tick_def rbind_eq_Inr)
    have snd: "snd ` set (enumerate 0 cmds) = set cmds" by (metis list.set_map map_snd_enumerate)
    have grows: "db_datasets db1 = db_datasets db" "prefix (db_runs db) (db_runs db1)"
      using submit_all_covers [OF cmds(2)] due_commands_ordered [OF cmds(1)] snd by auto
    have "ledger_ok db1"
      by (rule rfold_invariant [where ?I = ledger_ok, OF cmds(2) [unfolded submit_all_def] Cons.prems(1)]) (auto simp: rmap_eq_Inr dest: submit_ledger)
    from Cons.IH [OF this] show ?thesis using Cons.prems(2) tick Inr grows prefix_order.order_trans by fastforce
  qed (use Cons.prems tick in simp)
qed simp

section \<open>Applications\<close>

definition sample_environment :: environment where
  "sample_environment = [''LOG_LEVEL'' \<mapsto> '' debug'', ''WORKER_LEASE_TIMEOUT'' \<mapsto> ''1.5'', ''SCHEDULER_ENABLED'' \<mapsto> ''False'']"

lemma accepted_settings_usable_witness:
  "\<exists>s. settings_from_env sample_environment = Inr s \<and> st_worker_lease_timeout s = 1500000 \<and>
     mk_worker_options (settings_options s) = Inr (settings_options s)"
proof -
  have "rmap st_worker_lease_timeout (settings_from_env sample_environment) = Inr 1500000" by code_simp
  then obtain s where s: "settings_from_env sample_environment = Inr s" "st_worker_lease_timeout s = 1500000" by (auto simp: rmap_eq_Inr)
  then show ?thesis using accepted_settings_usable [OF s(1)] by blast
qed

definition sample_tick_keys :: tick_keys where
  "sample_tick_keys n = (of_nat (100 * n + 1), \<lambda>k. of_nat (100 * n + 10 + k))"

lemma sample_tick_created:
  "rmap (\<lambda>db. length (db_runs db)) (scheduler_tick sample_zones ''v1'' ''sum'' sample_config sample_tick_keys sample_tick ledger_db) = Inr 1"
  by code_simp


lemma scheduler_keeps_ledger_witness:
  "ledger_ok (snd (scheduler_loop sample_zones ''v1'' ''sum'' sample_config [(sample_tick_keys, sample_tick), (\<lambda>n. (7, \<lambda>k. 8), sample_tick)]
     claimed_db))"
proof -
  have "ledger_ok claimed_db" unfolding claimed_db_def by (rule ledger_run_ok [OF ledger_db_no_runs])
  from scheduler_keeps_ledger [OF this prod.collapse [symmetric]] show ?thesis by blast
qed

end
