(* ===== verification/Api.thy ===== *)
theory Api
  imports Operations Scheduling Py_Datetime
begin

text \<open>
  The HTTP interface: \<open>app/api\<close> (routers, serialization, errors, dependencies) and the routes of \<open>app/main.py\<close>.
  A request arrives typed, as the framework hands it to the route; what the framework itself refuses is the
  bound on the page size.  The answer is a status, a JSON body and, for a new run, the \<open>Location\<close>.  The middleware's
  id is part of the environment of the request.
\<close>

section \<open>Serialization\<close>

definition utc_iso :: "instant option \<Rightarrow> pyval" where
  "utc_iso t = (case t of None \<Rightarrow> PNone | Some x \<Rightarrow> PStr (iso_instant x))"

definition opt_text :: "string option \<Rightarrow> pyval" where
  "opt_text s = (case s of None \<Rightarrow> PNone | Some x \<Rightarrow> PStr x)"

definition observation_body :: "observation_view \<Rightarrow> pyval" where
  "observation_body w = PDict
     [(''observation_id'', PStr (uuid_str (ow_observation_id w))), (''version_id'', PStr (uuid_str (ow_version_id w))),
      (''version_number'', PInt (ow_version_number w)),
      (''instrument'', PDict [(''type'', PStr (ow_instrument_type w)), (''symbol'', PStr (ow_instrument_symbol w))]),
      (''observation_date'', PStr (iso_date (ow_observation_date w))), (''value'', PStr (format_f (ow_value w))),
      (''unit'', PStr (ow_unit w)), (''classification'', PStr (ow_classification w)), (''tenor'', opt_text (ow_tenor w)),
      (''provider'', PStr (ow_provider w)), (''provider_series'', PStr (ow_provider_series w)),
      (''provider_publication_timestamp'', utc_iso (ow_publication w)),
      (''retrieved_at'', utc_iso (Some (ow_retrieved_at w))), (''valid_from'', utc_iso (Some (ow_valid_from w))),
      (''valid_to'', utc_iso (ow_valid_to w)), (''is_current'', PBool (ow_is_current w)),
      (''validation'', PDict [(''state'', PStr (ow_validation_state w)), (''flags'', ow_validation_flags w)]),
      (''provenance'', PDict [(''run_id'', PStr (uuid_str (ow_run_id w))), (''raw_record_id'', PStr (uuid_str (ow_raw_record_id w)))])]"

definition page_body :: "observation_page \<Rightarrow> pyval" where
  "page_body p = PDict [(''items'', PList (map observation_body (fst p))), (''next_cursor'', opt_text (snd p))]"

text \<open>\<open>api_json_value\<close> by the kind of the column; a value of a JSON column is returned as it is.\<close>

datatype column = CText string | CUuid uuid | CDate date | CInstant instant | CDecimal decimal | CJson pyval

fun api_json_value :: "column \<Rightarrow> pyval" where
  "api_json_value (CInstant t) = utc_iso (Some t)"
| "api_json_value (CDecimal d) = PStr (format_f d)"
| "api_json_value (CDate d) = PStr (iso_date d)"
| "api_json_value (CUuid u) = PStr (uuid_str u)"
| "api_json_value (CText s) = PStr s"
| "api_json_value (CJson v) = v"

definition quality_columns :: "quality_result \<Rightarrow> (string \<times> column) list" where
  "quality_columns q =
     [(''id'', CUuid (ql_id q)), (''run_id'', case ql_run q of None \<Rightarrow> CJson PNone | Some r \<Rightarrow> CUuid r),
      (''instrument_type'', CText (ql_instrument_type q)), (''instrument_id'', CUuid (ql_instrument_id q)),
      (''rule_code'', CText (ql_rule_code q)), (''quality_state'', CText (ql_quality_state q)), (''severity'', CText (ql_severity q)),
      (''affected_start'', CDate (ql_affected_start q)), (''affected_end'', CDate (ql_affected_end q)),
      (''evaluated_at'', CInstant (ql_evaluated_at q)), (''details'', CJson (PDict (ql_details q)))]"

definition quality_body :: "quality_result \<Rightarrow> pyval" where
  "quality_body q = PDict (map (\<lambda>(name, c). (name, api_json_value c)) (quality_columns q))"

definition run_body :: "ingestion_run \<Rightarrow> pyval dict" where
  "run_body r =
     [(''id'', PStr (uuid_str (run_id r))), (''parent_run_id'', case run_parent r of None \<Rightarrow> PNone | Some p \<Rightarrow> PStr (uuid_str p)),
      (''trigger_type'', PStr (run_trigger r)), (''requested_start'', PStr (iso_date (run_start r))),
      (''requested_end'', PStr (iso_date (run_end r))), (''status'', PStr (run_status r)),
      (''requested_at'', utc_iso (Some (run_requested_at r))), (''started_at'', utc_iso (run_started_at r)),
      (''finished_at'', utc_iso (run_finished_at r)), (''heartbeat_at'', utc_iso (run_heartbeat_at r)),
      (''counts'', PDict [(''fetched_count'', PInt (ct_fetched (run_counts r))), (''inserted_count'', PInt (ct_inserted (run_counts r))),
         (''unchanged_count'', PInt (ct_unchanged (run_counts r))), (''revised_count'', PInt (ct_revised (run_counts r))),
         (''quarantined_count'', PInt (ct_quarantined (run_counts r))), (''failed_count'', PInt (ct_failed (run_counts r)))]),
      (''error'', if given (run_error_code r)
         then PDict [(''code'', opt_text (run_error_code r)), (''summary'', opt_text (run_error_summary r))] else PNone)]"

definition scope_body :: "ingestion_scope \<Rightarrow> pyval" where
  "scope_body s = PDict
     [(''id'', PStr (uuid_str (sc_id s))), (''type'', PStr (sc_type s)), (''series_id'', PStr (uuid_str (sc_series s))),
      (''start_date'', PStr (iso_date (sc_start s))), (''end_date'', PStr (iso_date (sc_end s))),
      (''attempt_number'', PInt (sc_attempt s)), (''status'', PStr (sc_status s)),
      (''started_at'', utc_iso (sc_started_at s)), (''finished_at'', utc_iso (sc_finished_at s)), (''error_code'', opt_text (sc_error_code s))]"

definition run_row_body :: "run_row \<Rightarrow> pyval" where
  "run_row_body = (\<lambda>(r, provider, dataset). PDict (run_body r @ [(''provider'', PStr provider), (''dataset'', PStr dataset)]))"

definition count_body :: "quarantine_count \<Rightarrow> pyval" where
  "count_body q = PDict [(''reason_code'', PStr (qc_reason_code q)), (''stage'', PStr (qc_stage q)),
     (''resolution_state'', PStr (qc_resolution_state q)), (''count'', PInt (int (qc_count q)))]"

section \<open>Answers and errors\<close>

record api_response =
  as_status :: int
  as_body :: pyval
  as_location :: "string option"

definition error_response :: "string \<Rightarrow> int \<Rightarrow> string \<Rightarrow> string \<Rightarrow> pyval dict \<Rightarrow> api_response" where
  "error_response request_id status code message details =
     \<lparr>as_status = status, as_body = PDict [(''error'', PDict [(''code'', PStr code), (''message'', PStr message),
        (''request_id'', PStr request_id), (''details'', PDict details)])], as_location = None\<rparr>"

text \<open>The handlers; the framework takes that of the nearest class.\<close>

fun error_answer :: "string \<Rightarrow> exn \<Rightarrow> api_response" where
  "error_answer rid (QueryValidationError code m field) =
     error_response rid 422 code m (if given field then [(''field'', opt_text field)] else [])"
| "error_answer rid (AmbiguousQueryError code m) = error_response rid 422 code m []"
| "error_answer rid (ResourceNotFoundError m) = error_response rid 404 ''NOT_FOUND'' m []"
| "error_answer rid (ScopeConflictError m) = error_response rid 409 ''OVERLAPPING_INGESTION_SCOPE'' m []"
| "error_answer rid (ServiceUnavailableError m) = error_response rid 503 ''SERVICE_UNAVAILABLE'' m []"
| "error_answer rid e = error_response rid 500 ''INTERNAL_ERROR'' ''an unexpected error occurred'' []"

declare error_answer.simps [simp del]

definition request_validation :: "string \<Rightarrow> pyval \<Rightarrow> api_response" where
  "request_validation rid errors =
     error_response rid 422 ''REQUEST_VALIDATION_ERROR'' ''request validation failed'' [(''errors'', errors)]"

definition answer :: "string \<Rightarrow> pyval res \<Rightarrow> api_response" where
  "answer rid r = (case r of Inl e \<Rightarrow> error_answer rid e | Inr v \<Rightarrow> \<lparr>as_status = 200, as_body = v, as_location = None\<rparr>)"

text \<open>\<open>get_reference_config\<close>.\<close>

definition reference_dependency :: "reference_config res \<Rightarrow> reference_config res" where
  "reference_dependency loaded = (case loaded of
     Inl (ConfigurationError m) \<Rightarrow> Inl (ServiceUnavailableError ''reference configuration is unavailable'') | _ \<Rightarrow> loaded)"

text \<open>The id of a request: the client's header or a new one, cut to 128 characters.\<close>

definition request_id :: "string option \<Rightarrow> uuid \<Rightarrow> string" where
  "request_id header fresh = take 128 (case header of None \<Rightarrow> uuid_str fresh | Some h \<Rightarrow> h)"

section \<open>Routes\<close>

datatype api_request =
    FxHistory string date date "datetime option" "string option" int
  | FxLatest string "datetime option"
  | PolicyHistory date date "string option" "string option" "string option" "datetime option" "string option" int
  | PolicyLatest "string option" "string option" "string option" "datetime option"
  | StartRun string string string date date "string list option"
  | RunDetail uuid
  | ListRuns "string option" "string option" "date option" "date option" "string option" int
  | DataQuality "string option" "uuid option" "date option" "date option"
  | QuarantineCounts "uuid option" "string option" "string option"
  | Liveness
  | Readiness

record api_env =
  ae_decode :: "bytes \<Rightarrow> string res"
  ae_today :: date
  ae_now :: instant
  ae_run_key :: uuid
  ae_scope_keys :: "nat \<Rightarrow> uuid"
  ae_checksum :: string
  ae_config :: "reference_config res"
  ae_request_id :: string
  ae_errors :: pyval
  ae_answers :: bool
  ae_head :: "bool option"

definition limited :: "api_env \<Rightarrow> int \<Rightarrow> int \<Rightarrow> api_response \<Rightarrow> api_response" where
  "limited env limit page_size r =
     (if 1 \<le> page_size \<and> page_size \<le> limit then r else request_validation (ae_request_id env) (ae_errors env))"

definition found :: "string \<Rightarrow> observation_view option \<Rightarrow> pyval res" where
  "found message w = (case w of None \<Rightarrow> Inl (ResourceNotFoundError message) | Some x \<Rightarrow> Inr (observation_body x))"

definition start_run ::
  "api_env \<Rightarrow> string \<Rightarrow> string \<Rightarrow> string \<Rightarrow> date \<Rightarrow> date \<Rightarrow> string list option \<Rightarrow> database \<Rightarrow> api_response \<times> database" where
  "start_run env provider dataset trigger s e series db =
     (case rbind (reference_dependency (ae_config env)) (\<lambda>c.
             enqueue (ae_run_key env) (ae_scope_keys env) ''unknown'' (ae_checksum env) (ae_now env) c provider dataset trigger s e
               (if series = Some [] then None else series) db) of
        Inl x \<Rightarrow> (error_answer (ae_request_id env) x, db)
      | Inr (i, db') \<Rightarrow>
          (case run_get i db' of
             None \<Rightarrow> (error_answer (ae_request_id env) (AttributeError []), db')
           | Some r \<Rightarrow> (\<lparr>as_status = 202, as_body = PDict (run_body r),
                         as_location = Some (''/api/v1/ingestion-runs/'' @ uuid_str i)\<rparr>, db')))"

text \<open>The framework resolves the configuration before it looks at the parameters.\<close>

definition with_config :: "api_env \<Rightarrow> (reference_config \<Rightarrow> api_response) \<Rightarrow> api_response" where
  "with_config env f = (case reference_dependency (ae_config env) of Inl e \<Rightarrow> error_answer (ae_request_id env) e | Inr c \<Rightarrow> f c)"

definition checks_body :: "bool \<times> readiness_checks \<Rightarrow> pyval" where
  "checks_body = (\<lambda>(ready, checks). PDict [(''status'', PStr (if ready then ''ready'' else ''not_ready'')),
     (''checks'', PDict [(''database'', PBool (rc_database checks)), (''migrations'', PBool (rc_migrations checks)),
        (''configuration'', PBool (rc_configuration checks)), (''references'', PBool (rc_references checks))])])"

definition ready_response :: "api_env \<Rightarrow> database \<Rightarrow> api_response" where
  "ready_response env db = with_config env (\<lambda>c.
     (let r = readiness (ae_answers env) (ae_head env) c db
      in \<lparr>as_status = (if fst r then 200 else 503), as_body = checks_body r, as_location = None\<rparr>))"

definition fx_history_route :: "api_env \<Rightarrow> string \<Rightarrow> date \<Rightarrow> date \<Rightarrow> datetime option \<Rightarrow> string option \<Rightarrow> int \<Rightarrow> database \<Rightarrow> api_response" where
  "fx_history_route env pair s e as_of cursor page_size db = limited env 500 page_size
     (answer (ae_request_id env) (rmap page_body (fx_history (ae_decode env) (ae_today env) (ae_now env) pair s e as_of page_size db cursor)))"

definition fx_latest_route :: "api_env \<Rightarrow> string \<Rightarrow> datetime option \<Rightarrow> database \<Rightarrow> api_response" where
  "fx_latest_route env pair as_of db =
     answer (ae_request_id env) (rbind (fx_latest (ae_now env) pair as_of db) (found ''FX observation not found''))"

definition policy_history_route ::
  "api_env \<Rightarrow> date \<Rightarrow> date \<Rightarrow> string option \<Rightarrow> string option \<Rightarrow> string option \<Rightarrow> datetime option \<Rightarrow> string option \<Rightarrow> int \<Rightarrow> database \<Rightarrow>
     api_response" where
  "policy_history_route env s e series economy currency as_of cursor page_size db = limited env 500 page_size
     (answer (ae_request_id env) (rmap page_body
        (policy_history (ae_decode env) (ae_today env) (ae_now env) s e series economy currency as_of page_size db cursor)))"

definition policy_latest_route ::
  "api_env \<Rightarrow> string option \<Rightarrow> string option \<Rightarrow> string option \<Rightarrow> datetime option \<Rightarrow> database \<Rightarrow> api_response" where
  "policy_latest_route env series economy currency as_of db =
     answer (ae_request_id env) (rbind (policy_latest (ae_now env) series economy currency as_of db)
       (found ''policy-rate observation not found''))"

definition run_detail_route :: "api_env \<Rightarrow> uuid \<Rightarrow> database \<Rightarrow> api_response" where
  "run_detail_route env i db = with_config env (\<lambda>c. answer (ae_request_id env)
     (rmap (\<lambda>(r, scopes). PDict (run_body r @ [(''scopes'', PList (map scope_body scopes))])) (run_detail i db)))"

definition runs_route ::
  "api_env \<Rightarrow> string option \<Rightarrow> string option \<Rightarrow> date option \<Rightarrow> date option \<Rightarrow> string option \<Rightarrow> int \<Rightarrow> database \<Rightarrow> api_response" where
  "runs_route env status provider s e cursor page_size db = with_config env (\<lambda>c. limited env 200 page_size
     (answer (ae_request_id env)
        (rmap (\<lambda>(rows, next_cursor). PDict [(''items'', PList (map run_row_body rows)), (''next_cursor'', opt_text next_cursor)])
          (list_runs (ae_decode env) (ae_today env) status provider s e page_size db cursor))))"

definition quality_route :: "api_env \<Rightarrow> string option \<Rightarrow> uuid option \<Rightarrow> date option \<Rightarrow> date option \<Rightarrow> database \<Rightarrow> api_response" where
  "quality_route env itype iid s e db = with_config env (\<lambda>c. answer (ae_request_id env)
     (rmap (\<lambda>rows. PDict [(''items'', PList (map quality_body rows))]) (quality_listing (ae_today env) itype iid s e db)))"

definition counts_route :: "api_env \<Rightarrow> uuid option \<Rightarrow> string option \<Rightarrow> string option \<Rightarrow> database \<Rightarrow> api_response" where
  "counts_route env run reason_filter stage db = with_config env (\<lambda>c. answer (ae_request_id env)
     (rmap (\<lambda>rows. PDict [(''items'', PList (map count_body rows))]) (quarantine_counts run reason_filter stage db)))"

definition liveness_route :: api_response where
  "liveness_route = \<lparr>as_status = 200, as_body = PDict [(''status'', PStr ''ok'')], as_location = None\<rparr>"

lemmas routes = fx_history_route_def fx_latest_route_def policy_history_route_def policy_latest_route_def run_detail_route_def runs_route_def
  quality_route_def counts_route_def liveness_route_def

fun read_response :: "api_env \<Rightarrow> api_request \<Rightarrow> database \<Rightarrow> api_response" where
  "read_response env (FxHistory pair s e as_of cursor page_size) db = fx_history_route env pair s e as_of cursor page_size db"
| "read_response env (FxLatest pair as_of) db = fx_latest_route env pair as_of db"
| "read_response env (PolicyHistory s e series economy currency as_of cursor page_size) db =
     policy_history_route env s e series economy currency as_of cursor page_size db"
| "read_response env (PolicyLatest series economy currency as_of) db = policy_latest_route env series economy currency as_of db"
| "read_response env (RunDetail i) db = run_detail_route env i db"
| "read_response env (ListRuns status provider s e cursor page_size) db = runs_route env status provider s e cursor page_size db"
| "read_response env (DataQuality itype iid s e) db = quality_route env itype iid s e db"
| "read_response env (QuarantineCounts run reason_filter stage) db = counts_route env run reason_filter stage db"
| "read_response env Liveness db = liveness_route"
| "read_response env Readiness db = ready_response env db"
| "read_response env (StartRun provider dataset trigger s e series) db = fst (start_run env provider dataset trigger s e series db)"

definition serve :: "api_env \<Rightarrow> api_request \<Rightarrow> database \<Rightarrow> api_response \<times> database" where
  "serve env q db = (case q of
     StartRun provider dataset trigger s e series \<Rightarrow> start_run env provider dataset trigger s e series db
   | _ \<Rightarrow> (read_response env q db, db))"

section \<open>JSON values\<close>

text \<open>A value the encoder of the standard library writes without help.\<close>

fun is_json :: "pyval \<Rightarrow> bool" where
  "is_json (PList vs) = list_all is_json vs"
| "is_json (PDict ps) = list_all (\<lambda>(k, v). is_json v) ps"
| "is_json (PTuple vs) = False"
| "is_json (PDecimal d) = False"
| "is_json (PDatetime t) = False"
| "is_json (PDate d) = False"
| "is_json (PEnum s) = False"
| "is_json v = True"

named_theorems json

lemma utc_iso_json [json]: "is_json (utc_iso t)"
  by (simp add: utc_iso_def split: option.split)

lemma opt_text_json [json]: "is_json (opt_text s)"
  by (simp add: opt_text_def split: option.split)

lemma observation_json [json]: "is_json (observation_body w) \<longleftrightarrow> is_json (ow_validation_flags w)"
  by (simp add: observation_body_def json)

lemma run_json [json]: "list_all (\<lambda>(k, v). is_json v) (run_body r)"
  by (simp add: run_body_def json split: option.split)

lemma scope_json [json]: "is_json (scope_body s)"
  by (simp add: scope_body_def json)

lemma run_row_json [json]: "is_json (run_row_body r)"
  by (cases r) (simp add: run_row_body_def json)

lemma count_json [json]: "is_json (count_body q)"
  by (simp add: count_body_def)

lemma quality_json [json]: "is_json (quality_body q) \<longleftrightarrow> is_json (PDict (ql_details q))"
  by (simp add: quality_body_def quality_columns_def json split: option.split)

lemma checks_json [json]: "is_json (checks_body c)"
  by (simp add: checks_body_def split: prod.split)

lemma error_json [json]: "is_json (as_body (error_answer rid e))"
  by (cases e) (simp_all add: error_answer.simps error_response_def json)

lemma page_json: "is_json (page_body p) \<longleftrightarrow> (\<forall>w\<in>set (fst p). is_json (ow_validation_flags w))"
  by (auto simp: page_body_def json list_all_iff)

text \<open>What the JSON columns of the database hold.\<close>

definition stored_json :: "database \<Rightarrow> bool" where
  "stored_json db \<longleftrightarrow> (\<forall>v\<in>set (ot_versions (db_fx db)). is_json (ov_flags v)) \<and> (\<forall>v\<in>set (ot_versions (db_policy db)). is_json (ov_flags v)) \<and>
     (\<forall>q\<in>set (db_quality db). is_json (PDict (ql_details q)))"

lemma fx_rows_json: "stored_json db \<Longrightarrow> r \<in> set (fx_query ts db) \<Longrightarrow> is_json (ow_validation_flags (fx_view r))"
  by (auto simp: stored_json_def fx_query_def shown_versions_def versions_of_def)

lemma policy_rows_json: "stored_json db \<Longrightarrow> r \<in> set (policy_query ts db) \<Longrightarrow> is_json (ow_validation_flags (policy_view r))"
  by (auto simp: stored_json_def policy_query_def shown_versions_def versions_of_def)

lemma list_page_views: "w \<in> set (fst (list_page key view vk n keep rows)) \<Longrightarrow> \<exists>r\<in>set rows. w = view r"
  by (auto simp: list_page_def page_of_def Let_def dest!: in_set_takeD) blast+

lemma newest_row_member: "newest_row rows = Some r \<Longrightarrow> r \<in> set rows"
proof -
  assume "newest_row rows = Some r"
  then have "r \<in> set (rev (sort_key latest_order rows))" unfolding newest_row_def by (cases "rev (sort_key latest_order rows)") auto
  then show ?thesis by simp
qed

lemma newest_view: "Some w = map_option view (newest_row (filter P rows)) \<Longrightarrow> \<exists>r\<in>set rows. w = view r"
proof (cases "newest_row (filter P rows)")
  case (Some r)
  moreover assume "Some w = map_option view (newest_row (filter P rows))"
  ultimately have "w = view r" "r \<in> set (filter P rows)" using newest_row_member [OF Some] by simp_all
  then show ?thesis by auto
qed simp

lemma answer_json: "(\<And>v. r = Inr v \<Longrightarrow> is_json v) \<Longrightarrow> is_json (as_body (answer rid r))"
  by (auto simp: answer_def json split: sum.split)

lemma limited_json: "is_json (ae_errors env) \<Longrightarrow> is_json (as_body r) \<Longrightarrow> is_json (as_body (limited env n k r))"
  by (simp add: limited_def request_validation_def error_response_def)

lemma with_config_json: "(\<And>c. is_json (as_body (f c))) \<Longrightarrow> is_json (as_body (with_config env f))"
  by (auto simp: with_config_def json split: sum.split)

lemma start_run_json: "is_json (as_body (fst (start_run env provider dataset trigger s e series db)))"
  by (auto simp: start_run_def json split: sum.split prod.split option.split)

lemma fx_history_json:
  "stored_json db \<Longrightarrow> fx_history dt today now pair s e as_of n db cursor = Inr p \<Longrightarrow> is_json (page_body p)"
  by (auto simp: page_json fx_history_def rbind_eq_Inr rmap_eq_Inr dest!: list_page_views dest: fx_rows_json)

lemma policy_history_json:
  "stored_json db \<Longrightarrow> policy_history dt today now s e series economy currency as_of n db cursor = Inr p \<Longrightarrow> is_json (page_body p)"
  by (auto simp: page_json policy_history_def rbind_eq_Inr rmap_eq_Inr dest!: list_page_views dest: policy_rows_json)

lemma fx_latest_json:
  assumes "stored_json db" "fx_latest now pair as_of db = Inr (Some w)"
  shows "is_json (observation_body w)"
proof -
  obtain ts symbol where "Some w = map_option fx_view (newest_row (filter (\<lambda>(o1, v, sr, p, _). fp_symbol p = symbol) (fx_query ts db)))"
    using assms(2) by (auto simp: fx_latest_def rbind_eq_Inr rmap_eq_Inr)
  from newest_view [OF this] show ?thesis using fx_rows_json [OF assms(1)] by (auto simp: json)
qed

lemma policy_latest_json:
  assumes "stored_json db" "policy_latest now series economy currency as_of db = Inr (Some w)"
  shows "is_json (observation_body w)"
proof -
  obtain wanted ts where f: "policy_filters series economy currency = Inr wanted" "query_as_of now as_of = Inr ts"
    using assms(2) unfolding policy_latest_def rbind_eq_Inr by blast
  then obtain i where "matching_series wanted db = [i]" using assms(2) by (auto simp: policy_latest_def split: list.splits)
  then have "Some w = map_option policy_view (newest_row (filter (\<lambda>(o1, v, sr, _). is_id sr = i) (policy_query ts db)))"
    using assms(2) f by (simp add: policy_latest_def eq_commute [of "Some w"])
  from newest_view [OF this] show ?thesis using policy_rows_json [OF assms(1)] by (auto simp: json)
qed

lemma first_per_key_subset: "set (first_per_key k seen xs) \<subseteq> set xs"
  by (induction k seen xs rule: first_per_key.induct) auto

lemma quality_listing_json:
  "stored_json db \<Longrightarrow> quality_listing today itype iid s e db = Inr rows \<Longrightarrow> q \<in> set rows \<Longrightarrow> is_json (quality_body q)"
  using first_per_key_subset
  by (fastforce simp: quality_listing_def rbind_eq_Inr Let_def json stored_json_def split: if_splits dest!: in_set_takeD)

definition read_statuses :: "int set" where
  "read_statuses = {200, 404, 409, 422, 500, 503}"

lemma error_status: "as_status (error_answer rid e) \<in> {404, 409, 422, 500, 503}"
  by (cases e) (simp_all add: error_answer.simps error_response_def)

lemma answer_status: "as_status (answer rid r) \<in> read_statuses"
  using error_status by (auto simp: answer_def read_statuses_def split: sum.split)

lemma limited_status: "as_status r \<in> read_statuses \<Longrightarrow> as_status (limited env n k r) \<in> read_statuses"
  by (simp add: limited_def request_validation_def error_response_def read_statuses_def)

lemma with_config_status: "(\<And>c. as_status (f c) \<in> read_statuses) \<Longrightarrow> as_status (with_config env f) \<in> read_statuses"
  using error_status [of "ae_request_id env"]
  by (cases "reference_dependency (ae_config env)") (auto simp only: with_config_def sum.case read_statuses_def)

lemma ready_status: "as_status (ready_response env db) \<in> read_statuses"
  unfolding ready_response_def by (rule with_config_status) (simp add: read_statuses_def Let_def)

lemma find_appended: "distinct (map f (xs @ [r])) \<Longrightarrow> find (\<lambda>x. f x = f r) (xs @ [r]) = Some r"
  by (induction xs) auto

lemma run_create_found:
  assumes "run_create i f code csum ts c m db = Inr db'"
  shows "\<exists>r. run_get i db' = Some r \<and> db_runs db' = db_runs db @ [r] \<and> run_id r = i \<and> run_status r = ''pending'' \<and> run_requested_at r = ts"
proof -
  obtain d :: provider_dataset where s: "store_run (new_run i m (ds_id d) csum code ts) f m (requested_scopes c m (ds_id d) db) db = Inr db'"
    using assms by (auto simp: run_create_def rbind_eq_Inr)
  let ?r = "new_run i m (ds_id d) csum code ts"
  have runs: "db_runs db' = db_runs db @ [?r]" using store_run_rows [OF s] by simp
  obtain db1 where "run_add ?r db = Inr db1" using s by (auto simp: store_run_def rbind_eq_Inr)
  then have "all_hold (ingestion_checks db1)" "db_runs db1 = db_runs db @ [?r]" by (auto simp: run_add_def flush_ingestion_ok)
  then have "distinct (map run_id (db_runs db @ [?r]))" using ingestion_checksD(3) by metis
  moreover have "run_id ?r = i" by (simp add: new_run_def)
  ultimately have "find (\<lambda>x. run_id x = i) (db_runs db @ [?r]) = Some ?r" using find_appended [of run_id "db_runs db" ?r] by simp
  then show ?thesis using runs by (auto simp: run_get_def new_run_def)
qed

lemma enqueue_creates:
  assumes "enqueue i f code csum ts c provider dataset trigger s e series db = Inr (j, db')"
  shows "j = i \<and> (\<exists>m. run_create i f code csum ts c m db = Inr db')"
proof (cases "rbind (http_command provider dataset trigger s e series) (\<lambda>m. run_create i f code csum ts c m db)")
  case (Inr x)
  then show ?thesis using assms by (auto simp: enqueue_def rbind_eq_Inr)
qed (use assms in \<open>auto simp: enqueue_def rbind_eq_Inr\<close>)

section \<open>Properties\<close>



text \<open>What a client reads out of an observation.\<close>

fun field :: "string \<Rightarrow> pyval \<Rightarrow> pyval" where
  "field k (PDict ps) = (case map_of ps k of None \<Rightarrow> PNone | Some v \<Rightarrow> v)"
| "field k v = PNone"

fun text_of :: "pyval \<Rightarrow> string" where
  "text_of (PStr s) = s"
| "text_of v = []"

definition read_time_field :: "pyval \<Rightarrow> datetime option" where
  "read_time_field v = parse_iso_datetime (text_of v)"

definition read_observation ::
  "pyval \<Rightarrow> (uuid res \<times> uuid res \<times> date option \<times> decimal option) \<times> datetime option \<times> datetime option \<times> datetime option \<times> datetime option" where
  "read_observation b =
     ((parse_uuid (text_of (field ''observation_id'' b)), parse_uuid (text_of (field ''version_id'' b)),
       parse_iso_date (text_of (field ''observation_date'' b)), parse_decimal (text_of (field ''value'' b))),
      read_time_field (field ''retrieved_at'' b), read_time_field (field ''valid_from'' b),
      read_time_field (field ''valid_to'' b), read_time_field (field ''provider_publication_timestamp'' b))"

lemma parse_format_f: "is_finite v \<Longrightarrow> \<exists>d. parse_decimal (format_f v) = Some d \<and> is_finite d \<and> dec_eq d v"
proof -
  assume "is_finite v"
  then obtain s c e where v: "v = Finite s c e" by (rule is_finiteE)
  show ?thesis unfolding v
  proof (rule format_f_parts [of s c e])
    fix ip fp
    assume f: "format_f (Finite s c e) = (if s then ''-'' else []) @ ip @ (if fp = [] then [] else ''.'' @ fp)" "ip \<noteq> []"
      "list_all is_digit ip" "list_all is_digit fp"
      "(of_nat (read_digits (ip @ fp)) :: rat) * 10 powi (- int (length fp)) = of_nat c * 10 powi e"
    show "\<exists>d. parse_decimal (format_f (Finite s c e)) = Some d \<and> is_finite d \<and> dec_eq d (Finite s c e)"
      unfolding f(1) parse_plain [OF f(3,2,4)] using f(5) by (auto simp: dec_eq_iff)
  qed
qed

lemma read_utc_iso: "valid_instant t \<Longrightarrow> read_time_field (utc_iso (Some t)) = Some (utc_datetime t)"
  by (simp add: read_time_field_def utc_iso_def parse_iso_instant)

lemma read_utc_iso_opt:
  "(\<And>t. x = Some t \<Longrightarrow> valid_instant t) \<Longrightarrow> read_time_field (utc_iso x) = map_option utc_datetime x"
proof (cases x)
  case None
  have "parse_iso_datetime [] = None" by code_simp
  then show ?thesis using None by (simp add: read_time_field_def utc_iso_def)
qed (simp add: read_utc_iso)

text \<open>
  C13. Serialization loses nothing of an observation: from the JSON a client reads back the two ids, the date, the exact value
  and the four timestamps, an open end and a missing publication included.
\<close>

theorem observation_round_trip:
  assumes "valid_date (ow_observation_date w)" "is_finite (ow_value w)" "valid_instant (ow_retrieved_at w)" "valid_instant (ow_valid_from w)"
    "\<And>t. ow_valid_to w = Some t \<Longrightarrow> valid_instant t" "\<And>t. ow_publication w = Some t \<Longrightarrow> valid_instant t"
  shows "\<exists>v. read_observation (observation_body w) =
      ((Inr (ow_observation_id w), Inr (ow_version_id w), Some (ow_observation_date w), Some v),
       Some (utc_datetime (ow_retrieved_at w)), Some (utc_datetime (ow_valid_from w)),
       map_option utc_datetime (ow_valid_to w), map_option utc_datetime (ow_publication w)) \<and> is_finite v \<and> dec_eq v (ow_value w)"
  using parse_format_f [OF assms(2)] assms
  by (simp add: read_observation_def observation_body_def read_utc_iso read_utc_iso_opt parse_iso_date_iso_date)

section \<open>Applications\<close>

definition sample_api_env :: api_env where
  "sample_api_env = \<lparr>ae_decode = ascii_text, ae_today = 738100, ae_now = 63763300000000000, ae_run_key = 1, ae_scope_keys = (\<lambda>n. 10 + of_nat n),
     ae_checksum = ''sum'', ae_config = Inr sample_config, ae_request_id = ''r1'', ae_errors = PList [], ae_answers = True,
     ae_head = Some True\<rparr>"



definition sample_view :: observation_view where
  "sample_view = \<lparr>ow_observation_id = 5, ow_version_id = 6, ow_version_number = 2, ow_instrument_type = ''fx_pair'',
     ow_instrument_symbol = ''USDCAD'', ow_observation_date = 738887, ow_value = Finite False 133 (-2), ow_unit = ''CAD_per_USD'',
     ow_classification = ''reference'', ow_tenor = None, ow_provider = ''bank_of_canada'', ow_provider_series = ''FXUSDCAD'',
     ow_publication = None, ow_retrieved_at = 63763300000000000, ow_valid_from = 63763300500000000, ow_valid_to = Some 63763400000000000,
     ow_is_current = False, ow_validation_state = ''valid'', ow_validation_flags = PList [], ow_run_id = 1, ow_raw_record_id = 40\<rparr>"

lemma observation_round_trip_witness:
  "\<exists>v. fst (read_observation (observation_body sample_view)) = (Inr 5, Inr 6, Some 738887, Some v) \<and> dec_eq v (Finite False 133 (-2))"
proof -
  have "valid_date (ow_observation_date sample_view)" "is_finite (ow_value sample_view)" "valid_instant (ow_retrieved_at sample_view)"
    "valid_instant (ow_valid_from sample_view)" "\<And>t. ow_valid_to sample_view = Some t \<Longrightarrow> valid_instant t"
    "\<And>t. ow_publication sample_view = Some t \<Longrightarrow> valid_instant t"
    by (auto simp: sample_view_def valid_date_def valid_instant_def max_ordinal_def max_instant_def day_us_def)
  from observation_round_trip [OF this] show ?thesis by (auto simp: sample_view_def)
qed

end
