(* ===== verification/Observability.thy ===== *)
theory Observability
  imports Ingestion_Runs
begin

text \<open>
  \<open>app/observability/logging.py\<close>: the documents of the log formatter, whose redaction of texts is that of the run
  repository with other words.
\<close>

section \<open>Redaction\<close>

text \<open>
  \<open>re.sub\<close> of a pattern that matches no empty text: \<open>m\<close> gives the replacement of a match at the start of a text and the
  rest after it.
\<close>

function resub :: "(string \<Rightarrow> (string \<times> string) option) \<Rightarrow> string \<Rightarrow> string" where
  "resub m s =
     (case m s of
        Some (w, r) \<Rightarrow> (if length r < length s then w @ resub m r else [])
      | None \<Rightarrow> (case s of [] \<Rightarrow> [] | c # cs \<Rightarrow> c # resub m cs))"
  by auto

termination resub
  by (relation "measure (\<lambda>(m, s). length s)") auto

declare resub.simps [simp del]

definition match_scheme :: "string list \<Rightarrow> string \<Rightarrow> string option" where
  "match_scheme schemes s = first_match (\<lambda>(w, r). if r = [] \<or> is_space (hd r) then None else Some (drop_nonspace r)) s schemes"

definition match_word :: "string list \<Rightarrow> string \<Rightarrow> (string \<times> string) option" where
  "match_word ws s = first_match (\<lambda>(w, r). map_option (Pair w) (after_separator r)) s ws"

definition url_pass :: "string list \<Rightarrow> string \<Rightarrow> (string \<times> string) option" where
  "url_pass schemes s = map_option (Pair ''[redacted-url]'') (match_scheme schemes s)"

definition secret_pass :: "string list \<Rightarrow> string \<Rightarrow> (string \<times> string) option" where
  "secret_pass ws s = map_option (\<lambda>(w, r). (w @ ''=[redacted]'', r)) (match_word ws s)"

definition cut_urls :: "string list \<Rightarrow> string \<Rightarrow> string" where
  "cut_urls schemes = resub (url_pass schemes)"

definition cut_secrets :: "string list \<Rightarrow> string \<Rightarrow> string" where
  "cut_secrets ws = resub (secret_pass ws)"

section \<open>Log documents\<close>

definition log_fields :: "string list" where
  "log_fields = [''request_id'', ''run_id'', ''scope_id'', ''provider'', ''dataset'', ''event'', ''duration_seconds'', ''outcome'']"

definition forbidden_words :: "string list" where
  "forbidden_words = [''authorization'', ''cookie'', ''credential'', ''password'', ''secret'', ''token'', ''api_key'', ''payload'',
     ''body'', ''sql'', ''url'']"

definition log_schemes :: "string list" where
  "log_schemes = [''postgresql://'', ''postgres://'', ''https://'', ''http://'']"

definition log_words :: "string list" where
  "log_words = [''authorization'', ''cookie'', ''password'', ''secret'', ''token'', ''api_key'', ''api-key'', ''apikey'']"

definition sanitize_text :: "string \<Rightarrow> string" where
  "sanitize_text s = cut_secrets log_words (cut_urls log_schemes (take 1000 (replace_char (CHR 0x0A) '' '' s)))"

fun sanitize_value :: "pyval \<Rightarrow> pyval" where
  "sanitize_value (PDict ps) =
     PDict (map (\<lambda>(k, v). (k, sanitize_value v)) (filter (\<lambda>(k, v). \<not> contains_any forbidden_words (str_lower k)) ps))"
| "sanitize_value (PList vs) = PList (take 100 (map sanitize_value vs))"
| "sanitize_value (PTuple vs) = PList (take 100 (map sanitize_value vs))"
| "sanitize_value (PStr s) = PStr (sanitize_text s)"
| "sanitize_value v = v"

text \<open>A log record: its message, its extra attributes and the class name of its exception.\<close>

record log_record =
  lr_level :: string
  lr_logger :: string
  lr_message :: string
  lr_extra :: "pyval dict"
  lr_exception :: "string option"

definition log_document :: "instant \<Rightarrow> log_record \<Rightarrow> pyval dict" where
  "log_document now r =
     [(''timestamp'', PStr (iso_instant now)), (''level'', PStr (lr_level r)), (''logger'', PStr (lr_logger r)),
      (''message'', PStr (sanitize_text (lr_message r)))]
     @ concat (map (\<lambda>f. case map_of (lr_extra r) f of None \<Rightarrow> [] | Some PNone \<Rightarrow> [] | Some v \<Rightarrow> [(f, sanitize_value v)]) log_fields)
     @ (case map_of (lr_extra r) ''error_context'' of Some (PDict ps) \<Rightarrow> [(''error_context'', sanitize_value (PDict ps))] | _ \<Rightarrow> [])
     @ (case lr_exception r of None \<Rightarrow> [] | Some e \<Rightarrow> [(''error_type'', PStr e)])"

section \<open>What redaction leaves\<close>

text \<open>A URL of one of the schemes starts here.\<close>

definition scheme_at :: "string list \<Rightarrow> string \<Rightarrow> bool" where
  "scheme_at ps s \<longleftrightarrow> (\<exists>p\<in>set ps. str_lower (take (length p) s) = p \<and> length p < length s \<and> \<not> is_space (s ! length p))"

definition url_free :: "string list \<Rightarrow> string \<Rightarrow> bool" where
  "url_free ps s \<longleftrightarrow> (\<forall>t. suffix t s \<longrightarrow> \<not> scheme_at ps t)"

text \<open>A scheme ends in a slash; a replacement has none, ends in a bracket and is longer than a scheme.\<close>

definition scheme_ok :: "string \<Rightarrow> bool" where
  "scheme_ok p \<longleftrightarrow> p \<noteq> [] \<and> last p = CHR ''/'' \<and> CHR '']'' \<notin> set p \<and> length p \<le> 13"

definition replacement_ok :: "string \<Rightarrow> bool" where
  "replacement_ok w \<longleftrightarrow> CHR ''/'' \<notin> set w \<and> last w = CHR '']'' \<and> 13 \<le> length w"

lemma to_lower_fixed: "\<not> is_lower_ascii d \<Longrightarrow> to_lower c = d \<Longrightarrow> c = d"
proof -
  have "is_upper_ascii c \<Longrightarrow> is_lower_ascii (char_of (code_of c + 32))"
    by (simp add: is_upper_ascii_def is_lower_ascii_def code_of_def)
  then show "\<not> is_lower_ascii d \<Longrightarrow> to_lower c = d \<Longrightarrow> c = d" by (auto simp: to_lower_def split: if_splits)
qed

lemma to_lower_slash: "to_lower c = CHR ''/'' \<Longrightarrow> c = CHR ''/''"
proof -
  have "\<not> is_lower_ascii (CHR ''/'')" by code_simp
  then show "to_lower c = CHR ''/'' \<Longrightarrow> ?thesis" by (rule to_lower_fixed)
qed

lemma to_lower_bracket: "to_lower (CHR '']'') = CHR '']''"
  by code_simp

lemma slash_prefix:
  assumes "str_lower (take (length q) x) = q" "q \<noteq> []" "last q = CHR ''/''"
  shows "CHR ''/'' \<in> set (take (length q) x)"
proof -
  have "CHR ''/'' \<in> set q" using assms(2,3) by (metis last_in_set)
  then have "CHR ''/'' \<in> to_lower ` set (take (length q) x)" using assms(1) by (metis str_lower_def set_map)
  then show ?thesis using to_lower_slash by force
qed

lemma replaced_no_scheme:
  assumes "replacement_ok w" "list_all scheme_ok ps" "suffix v w" "v \<noteq> []"
  shows "\<not> scheme_at ps (v @ x)"
proof
  assume "scheme_at ps (v @ x)"
  then obtain p where p: "p \<in> set ps" "str_lower (take (length p) (v @ x)) = p" by (auto simp: scheme_at_def)
  then have ok: "p \<noteq> []" "last p = CHR ''/''" "CHR '']'' \<notin> set p" using assms(2) by (auto simp: list_all_iff scheme_ok_def)
  show False
  proof (cases "length p \<le> length v")
    case True
    then have "CHR ''/'' \<in> set v" using slash_prefix [OF p(2) ok(1,2)] by (auto dest: in_set_takeD)
    then show ?thesis using assms(1,3) by (meson replacement_ok_def set_mono_suffix subsetD)
  next
    case False
    obtain u where "w = u @ v" using assms(3) by (auto simp: suffix_def)
    then have "last v = CHR '']''" using assms(1,4) by (simp add: replacement_ok_def)
    then have "CHR '']'' \<in> set v" using assms(4) by (metis last_in_set)
    then have "to_lower (CHR '']'') \<in> to_lower ` set (take (length p) (v @ x))" using False by auto
    then have "CHR '']'' \<in> to_lower ` set (take (length p) (v @ x))" unfolding to_lower_bracket .
    then show ?thesis using p(2) ok(3) by (metis set_map str_lower_def)
  qed
qed

text \<open>
  A redaction: what it consumes at the start of a text starts with no space, and what it puts there is a proper replacement.
\<close>

locale redaction =
  fixes m :: "string \<Rightarrow> (string \<times> string) option"
  assumes pass: "m s = Some (w, r) \<Longrightarrow> suffix r s \<and> r \<noteq> s \<and> \<not> is_space (hd s) \<and> replacement_ok w"
begin

lemma passD:
  assumes "m s = Some (w, r)"
  shows "suffix r s" "length r < length s" "\<not> is_space (hd s)" "replacement_ok w" "s \<noteq> []"
proof -
  show 1: "suffix r s" "\<not> is_space (hd s)" "replacement_ok w" using pass [OF assms] by auto
  have "r \<noteq> s" using pass [OF assms] by auto
  then show "length r < length s" using 1(1) by (auto simp: suffix_def)
  then show "s \<noteq> []" by auto
qed

lemma resub_split:
  obtains (match) w r where "m s = Some (w, r)" "resub m s = w @ resub m r" | (stop) "m s = None" "s = []" "resub m s = []"
    | (skip) c cs where "m s = None" "s = c # cs" "resub m s = c # resub m cs"
proof (cases "m s")
  case None
  show thesis
  proof (cases s)
    case Nil
    then show thesis using None by (intro stop) (simp_all, (subst resub.simps, simp)?)
  next
    case (Cons c cs)
    then show thesis using None by (intro skip [of c cs]) (simp_all, (subst resub.simps, simp)?)
  qed
next
  case (Some p)
  obtain w r where "p = (w, r)" by fastforce
  then show thesis using Some passD(2) [of s w r] by (intro match [of w r]) (simp_all, (subst resub.simps, simp)?)
qed

text \<open>What the output starts with up to a slash, and a character that is no space, the input starts with too.\<close>

lemma resub_ahead:
  "str_lower (take (length q) (resub m s)) = q \<Longrightarrow> length q < length (resub m s) \<Longrightarrow> \<not> is_space (resub m s ! length q) \<Longrightarrow>
    q = [] \<or> last q = CHR ''/'' \<Longrightarrow> length q \<le> 13 \<Longrightarrow>
    str_lower (take (length q) s) = q \<and> length q < length s \<and> \<not> is_space (s ! length q)"
proof (induction q arbitrary: s)
  case Nil
  from resub_split [of s] show ?case
  proof cases
    case (match w r)
    then show ?thesis using passD(3,5) [OF match(1)] by (simp add: str_lower_def hd_conv_nth)
  qed (use Nil in \<open>auto simp: str_lower_def\<close>)
next
  case (Cons a q)
  from resub_split [of s] show ?case
  proof cases
    case (match w r)
    have w: "replacement_ok w" by (rule passD(4) [OF match(1)])
    then have "take (length (a # q)) (resub m s) = take (length (a # q)) w"
      unfolding match(2) using Cons.prems(5) by (simp add: replacement_ok_def)
    then have "CHR ''/'' \<in> set (take (length (a # q)) w)" using slash_prefix [OF Cons.prems(1)] Cons.prems(4) by simp
    then show ?thesis using w by (auto simp: replacement_ok_def dest: in_set_takeD)
  next
    case stop
    then show ?thesis using Cons.prems(2) by simp
  next
    case (skip c cs)
    have "str_lower (take (length q) cs) = q \<and> length q < length cs \<and> \<not> is_space (cs ! length q)"
      by (rule Cons.IH) (use Cons.prems skip in \<open>auto simp: str_lower_def split: if_splits\<close>)
    then show ?thesis using Cons.prems(1) skip by (simp add: str_lower_def)
  qed
qed

lemma resub_url_free:
  assumes "list_all scheme_ok ps"
  shows "(\<And>t. suffix t s \<Longrightarrow> m t = None \<Longrightarrow> \<not> scheme_at ps t) \<Longrightarrow> url_free ps (resub m s)"
proof (induction "length s" arbitrary: s rule: less_induct)
  case less
  from resub_split [of s] show ?case
  proof cases
    case (match w r)
    note ok = passD [OF match(1)]
    have r: "url_free ps (resub m r)"
      by (rule less.hyps [OF ok(2)]) (rule less.prems [OF suffix_order.order_trans [OF _ ok(1)]])
    show ?thesis unfolding url_free_def match(2)
    proof (intro allI impI)
      fix t
      assume "suffix t (w @ resub m r)"
      then have "suffix t (resub m r) \<or> (\<exists>v. t = v @ resub m r \<and> suffix v w)" unfolding suffix_append by blast
      then consider "suffix t (resub m r)" | v where "t = v @ resub m r" "v \<noteq> []" "suffix v w" by (metis append_Nil suffix_order.order_refl)
      then show "\<not> scheme_at ps t"
      proof cases
        case 1
        then show ?thesis using r by (simp add: url_free_def)
      next
        case 2
        show ?thesis unfolding 2(1) by (rule replaced_no_scheme [OF ok(4) assms 2(3,2)])
      qed
    qed
  next
    case stop
    then show ?thesis by (simp add: url_free_def scheme_at_def)
  next
    case (skip c cs)
    have r: "url_free ps (resub m cs)"
      by (rule less.hyps) (use less.prems skip(2) in \<open>auto simp: suffix_Cons\<close>)
    have "\<not> scheme_at ps (c # resub m cs)"
    proof
      assume "scheme_at ps (c # resub m cs)"
      then obtain p where p: "p \<in> set ps" "str_lower (take (length p) (c # resub m cs)) = p" "length p < length (c # resub m cs)"
        "\<not> is_space ((c # resub m cs) ! length p)" by (auto simp: scheme_at_def)
      have ok: "scheme_ok p" using assms p(1) by (auto simp: list_all_iff)
      then obtain a q where q: "p = a # q" by (cases p) (auto simp: scheme_ok_def)
      have "str_lower (take (length q) cs) = q \<and> length q < length cs \<and> \<not> is_space (cs ! length q)"
        by (rule resub_ahead) (use p ok q in \<open>auto simp: str_lower_def scheme_ok_def split: if_splits\<close>)
      then have "scheme_at ps (c # cs)" using p(1,2) q unfolding scheme_at_def by (intro bexI [of _ p]) (simp_all add: str_lower_def)
      then show False using less.prems [of s] skip by simp
    qed
    then show ?thesis using r unfolding url_free_def skip(3) by (auto simp: suffix_Cons)
  qed
qed

end

section \<open>The passes\<close>

lemma first_match_Some:
  "first_match k s ws = Some y \<Longrightarrow> \<exists>w\<in>set ws. \<exists>r. skip_prefix w s = Some r \<and> k (take (length w) s, r) = Some y"
  by (induction k s ws rule: first_match.induct) (auto split: option.splits)

lemma first_match_None:
  "first_match k s ws = None \<Longrightarrow> w \<in> set ws \<Longrightarrow> skip_prefix w s = Some r \<Longrightarrow> k (take (length w) s, r) = None"
  by (induction k s ws rule: first_match.induct) (auto split: option.splits)

lemma skip_prefixD: "skip_prefix p s = Some r \<Longrightarrow> str_lower (take (length p) s) = p \<and> length p \<le> length s \<and> r = drop (length p) s"
  by (auto simp: skip_prefix_def split: if_splits)

lemma suffix_drop_nonspace: "suffix (drop_nonspace r) r"
  by (simp add: drop_nonspace_def suffix_dropWhile)

text \<open>A word in lower case that starts with no space starts no text with a space.\<close>

lemma skip_prefix_head:
  assumes "skip_prefix p s = Some r" "p \<noteq> []" "\<not> is_space (hd p)"
  shows "s \<noteq> [] \<and> \<not> is_space (hd s)"
proof -
  have s: "str_lower (take (length p) s) = p" "s \<noteq> []" using skip_prefixD [OF assms(1)] assms(2) by auto
  have "to_lower (hd s) = hd p"
    using s assms(2) by (cases s; cases p) (auto simp: str_lower_def)
  moreover have "is_space c \<Longrightarrow> to_lower c = c" for c by (auto simp: to_lower_def is_space_def is_upper_ascii_def Let_def)
  ultimately show ?thesis using s(2) assms(3) by metis
qed

definition plain_words :: "string list \<Rightarrow> bool" where
  "plain_words ws \<longleftrightarrow> list_all (\<lambda>w. 5 \<le> length w \<and> \<not> is_space (hd w) \<and> CHR ''/'' \<notin> set w) ws"

lemma url_pass_redacts:
  assumes "list_all (\<lambda>p. scheme_ok p \<and> \<not> is_space (hd p)) ps" "url_pass ps s = Some (w, r)"
  shows "suffix r s \<and> r \<noteq> s \<and> \<not> is_space (hd s) \<and> replacement_ok w"
proof -
  have m: "w = ''[redacted-url]''" "match_scheme ps s = Some r" using assms(2) by (auto simp: url_pass_def)
  obtain p u where p: "p \<in> set ps" "skip_prefix p s = Some u" "u \<noteq> []" "r = drop_nonspace u"
    using first_match_Some [OF m(2) [unfolded match_scheme_def]] by (auto split: if_splits)
  note sp = skip_prefixD [OF p(2)]
  have h: "s \<noteq> [] \<and> \<not> is_space (hd s)" using skip_prefix_head [OF p(2)] assms(1) p(1) by (auto simp: list_all_iff scheme_ok_def)
  have "suffix r u" unfolding p(4) by (rule suffix_drop_nonspace)
  moreover have "suffix u s" using sp by (simp add: suffix_drop)
  moreover have "length u < length s" using sp assms(1) p(1) h by (auto simp: list_all_iff scheme_ok_def)
  ultimately have "suffix r s" "r \<noteq> s" by (auto dest: suffix_order.order_trans suffix_length_le)
  moreover have "replacement_ok ''[redacted-url]''" by code_simp
  ultimately show ?thesis using h m(1) by simp
qed

lemma url_pass_finds: "url_pass ps s = None \<Longrightarrow> \<not> scheme_at ps s"
proof
  assume "url_pass ps s = None" and "scheme_at ps s"
  then have m: "match_scheme ps s = None" by (simp add: url_pass_def)
  note \<open>scheme_at ps s\<close>
  then obtain p where p: "p \<in> set ps" "str_lower (take (length p) s) = p" "length p < length s" "\<not> is_space (s ! length p)"
    by (auto simp: scheme_at_def)
  then have "skip_prefix p s = Some (drop (length p) s)" by (simp add: skip_prefix_def)
  from first_match_None [OF m [unfolded match_scheme_def] p(1) this] p(3,4) show False by (simp add: hd_drop_conv_nth split: if_splits)
qed

lemma secret_pass_redacts:
  assumes "plain_words ws" "secret_pass ws s = Some (w, r)"
  shows "suffix r s \<and> r \<noteq> s \<and> \<not> is_space (hd s) \<and> replacement_ok w"
proof -
  obtain v where v: "w = v @ ''=[redacted]''" "match_word ws s = Some (v, r)" using assms(2) by (auto simp: secret_pass_def)
  obtain p u where p: "p \<in> set ws" "skip_prefix p s = Some u" "v = take (length p) s" "after_separator u = Some r"
    using first_match_Some [OF v(2) [unfolded match_word_def]] by auto
  have pw: "5 \<le> length p" "\<not> is_space (hd p)" "CHR ''/'' \<notin> set p" using assms(1) p(1) by (auto simp: plain_words_def list_all_iff)
  then have ne: "p \<noteq> []" by auto
  note sp = skip_prefixD [OF p(2)] and h = skip_prefix_head [OF p(2) ne pw(2)]
  obtain c r' where a: "dropWhile is_space u = c # r'" "r = drop_nonspace (dropWhile is_space r')"
    using p(4) by (auto simp: after_separator_def split: list.splits if_splits)
  have "suffix r r'" unfolding a(2) by (meson suffix_drop_nonspace suffix_dropWhile suffix_order.order_trans)
  moreover have "suffix r' u" using a(1) suffix_dropWhile [of is_space u] by (auto dest: suffix_ConsD)
  moreover have "suffix u s" using sp by (simp add: suffix_drop)
  ultimately have "suffix r s" by (meson suffix_order.order_trans)
  moreover have "length r < length s" using after_separator_length [OF p(4)] sp by auto
  moreover have "v \<noteq> []" "hd v = hd s" using p(3) h ne by (auto simp: hd_take)
  moreover have "CHR ''/'' \<notin> set v"
  proof
    assume "CHR ''/'' \<in> set v"
    then have "to_lower (CHR ''/'') \<in> set p" using sp p(3) by (metis image_eqI set_map str_lower_def)
    moreover have "to_lower (CHR ''/'') = CHR ''/''" by code_simp
    ultimately show False using pw(3) by simp
  qed
  moreover have "length v = length p" using p(3) sp by simp
  ultimately show ?thesis
    using h v(1) pw(1) by (auto simp: replacement_ok_def)
qed

lemma url_free_suffix: "url_free ps s \<Longrightarrow> suffix t s \<Longrightarrow> \<not> scheme_at ps t"
  by (simp add: url_free_def)

lemma scheme_at_append: "scheme_at ps t \<Longrightarrow> scheme_at ps (t @ u)"
proof -
  assume "scheme_at ps t"
  then obtain p where "p \<in> set ps" "str_lower (take (length p) t) = p" "length p < length t" "\<not> is_space (t ! length p)"
    by (auto simp: scheme_at_def)
  then show ?thesis unfolding scheme_at_def by (intro bexI [of _ p]) (simp_all add: nth_append)
qed

lemma url_free_take: "url_free ps s \<Longrightarrow> url_free ps (take n s)"
  unfolding url_free_def
proof (intro allI impI)
  fix t
  assume s: "\<forall>t. suffix t s \<longrightarrow> \<not> scheme_at ps t" and t: "suffix t (take n s)"
  have "suffix (t @ drop n s) s" using t by (metis append_assoc append_take_drop_id suffix_def)
  then show "\<not> scheme_at ps t" using s scheme_at_append by blast
qed

text \<open>The redaction of the run repository in terms of the passes.\<close>

definition error_schemes :: "string list" where
  "error_schemes = [''https://'', ''http://'']"

lemma match_url_scheme: "match_url s = match_scheme error_schemes s"
proof (cases "skip_prefix ''https://'' s")
  case (Some r)
  have "skip_prefix ''http://'' s = None"
  proof (rule ccontr)
    assume "skip_prefix ''http://'' s \<noteq> None"
    then have u: "str_lower (take 7 s) = ''http://''" using skip_prefixD [of "''http://''" s] by (auto simp: eval_nat_numeral)
    have "str_lower (take 8 s) = ''https://''" using skip_prefixD [OF Some] by (simp add: eval_nat_numeral)
    then have "take 5 (str_lower (take 8 s)) = ''https''" by simp
    moreover have "take 5 (str_lower (take 8 s)) = take 5 (str_lower (take 7 s))" by (simp add: str_lower_def take_map)
    ultimately show False using u by simp
  qed
  then show ?thesis using Some by (simp add: match_url_def match_scheme_def error_schemes_def)
next
  case None
  then show ?thesis by (auto simp: match_url_def match_scheme_def error_schemes_def split: option.split)
qed

lemma redact_urls_passes: "redact_urls s = cut_urls error_schemes s"
proof (induction s rule: redact_urls.induct)
  case (1 s)
  show ?case
  proof (cases "match_url s")
    case None
    show ?thesis
    proof (cases s)
      case Nil
      then show ?thesis using None unfolding cut_urls_def by (subst redact_urls.simps, subst resub.simps) (simp add: match_url_scheme url_pass_def)
    next
      case (Cons c cs)
      then show ?thesis using None 1(1) [OF None Cons] unfolding cut_urls_def
        by (subst redact_urls.simps, subst resub.simps) (simp add: match_url_scheme url_pass_def)
    qed
  next
    case (Some r)
    then show ?thesis using 1(2) match_url_length [OF Some] unfolding cut_urls_def match_url_scheme url_pass_def
      by (subst redact_urls.simps, subst resub.simps) (simp add: match_url_scheme url_pass_def)
  qed
qed

lemma redact_secrets_passes: "redact_secrets s = cut_secrets secret_words s"
proof (induction s rule: redact_secrets.induct)
  case (1 s)
  have m: "match_secret s = match_word secret_words s" for s by (simp add: match_secret_def match_word_def)
  show ?case
  proof (cases "match_secret s")
    case None
    show ?thesis
    proof (cases s)
      case Nil
      then show ?thesis using None unfolding cut_secrets_def by (subst redact_secrets.simps, subst resub.simps) (simp add: m secret_pass_def)
    next
      case (Cons c cs)
      then show ?thesis using None 1(1) [OF None Cons] unfolding cut_secrets_def
        by (subst redact_secrets.simps, subst resub.simps) (simp add: m secret_pass_def)
    qed
  next
    case (Some p)
    obtain w r where p: "p = (w, r)" by fastforce
    then show ?thesis using 1(2) [OF Some [unfolded p] refl] match_secret_length [OF Some [unfolded p]] Some unfolding cut_secrets_def m
      by (subst redact_secrets.simps, subst resub.simps) (simp add: m secret_pass_def)
  qed
qed

section \<open>Properties of redaction\<close>

lemma scheme_facts:
  "list_all (\<lambda>p. scheme_ok p \<and> \<not> is_space (hd p)) log_schemes" "plain_words log_words"
  "list_all (\<lambda>p. scheme_ok p \<and> \<not> is_space (hd p)) error_schemes" "plain_words secret_words"
  "list_all scheme_ok log_schemes" "list_all scheme_ok error_schemes"
  by code_simp+

interpretation log_urls: redaction "url_pass log_schemes"
  by unfold_locales (rule url_pass_redacts [OF scheme_facts(1)])

interpretation log_secrets: redaction "secret_pass log_words"
  by unfold_locales (rule secret_pass_redacts [OF scheme_facts(2)])

interpretation error_urls: redaction "url_pass error_schemes"
  by unfold_locales (rule url_pass_redacts [OF scheme_facts(3)])

interpretation error_secrets: redaction "secret_pass secret_words"
  by unfold_locales (rule secret_pass_redacts [OF scheme_facts(4)])

lemma redacted_errors: "url_free error_schemes (cut_secrets secret_words (cut_urls error_schemes s))"
  unfolding cut_secrets_def cut_urls_def
  by (rule error_secrets.resub_url_free [OF scheme_facts(6)],
      rule url_free_suffix [OF error_urls.resub_url_free [OF scheme_facts(6) url_pass_finds]])

lemma redacted_logs: "url_free log_schemes (cut_secrets log_words (cut_urls log_schemes s))"
  unfolding cut_secrets_def cut_urls_def
  by (rule log_secrets.resub_url_free [OF scheme_facts(5)],
      rule url_free_suffix [OF log_urls.resub_url_free [OF scheme_facts(5) url_pass_finds]])


lemma sanitize_text_url_free: "url_free log_schemes (sanitize_text s)"
  unfolding sanitize_text_def by (rule redacted_logs)

text \<open>A value that holds no forbidden key and no URL, at whatever depth.\<close>

fun clean :: "pyval \<Rightarrow> bool" where
  "clean (PDict ps) \<longleftrightarrow> list_all (\<lambda>(k, v). \<not> contains_any forbidden_words (str_lower k) \<and> clean v) ps"
| "clean (PList vs) \<longleftrightarrow> length vs \<le> 100 \<and> list_all clean vs"
| "clean (PTuple vs) \<longleftrightarrow> length vs \<le> 100 \<and> list_all clean vs"
| "clean (PStr s) \<longleftrightarrow> url_free log_schemes s"
| "clean v \<longleftrightarrow> True"

lemma sanitize_value_clean: "clean (sanitize_value v)"
  by (induction v rule: sanitize_value.induct) (auto simp: list_all_iff sanitize_text_url_free dest!: in_set_takeD)

text \<open>
  What is logged is bounded to the allow-list and clean: besides the four fields the logging library and the formatter fill
  in, a document has the message, the known fields and the error context only, and none of these holds a forbidden key
  or a URL at any depth, or more than a hundred items in a list.
\<close>

theorem log_documents_clean:
  "list_all (\<lambda>(k, v). k \<in> set [''timestamp'', ''level'', ''logger'', ''error_type''] \<or>
     k \<in> set (''message'' # ''error_context'' # log_fields) \<and> clean v) (log_document now r)"
proof -
  have fields: "list_all (\<lambda>(k, v). k \<in> set log_fields \<and> clean v)
      (concat (map (\<lambda>f. case map_of (lr_extra r) f of None \<Rightarrow> [] | Some PNone \<Rightarrow> [] | Some v \<Rightarrow> [(f, sanitize_value v)]) fs))"
    if "set fs \<subseteq> set log_fields" for fs
    using that by (induction fs) (auto simp: sanitize_value_clean simp del: sanitize_value.simps split: option.split pyval.split)
  have errctx: "list_all (\<lambda>(k, v). k = ''error_context'' \<and> clean v)
      (case map_of (lr_extra r) ''error_context'' of Some (PDict ps) \<Rightarrow> [(''error_context'', sanitize_value (PDict ps))] | _ \<Rightarrow> [])"
    by (simp add: sanitize_value_clean del: sanitize_value.simps split: option.split pyval.split)
  show ?thesis unfolding log_document_def list_all_append
  proof (intro conjI)
    show "list_all (\<lambda>(k, v). k \<in> set [''timestamp'', ''level'', ''logger'', ''error_type''] \<or>
        k \<in> set (''message'' # ''error_context'' # log_fields) \<and> clean v)
      [(''timestamp'', PStr (iso_instant now)), (''level'', PStr (lr_level r)), (''logger'', PStr (lr_logger r)),
       (''message'', PStr (sanitize_text (lr_message r)))]"
      using sanitize_text_url_free by simp
  qed ((rule list.pred_mono_strong [OF fields [OF order_refl]], force),
      (rule list.pred_mono_strong [OF errctx], force), simp split: option.split)
qed

end
