(* ===== verification/Metrics.thy ===== *)
theory Metrics
  imports Py_Float "HOL-Library.Multiset" "HOL-Library.Product_Lexorder" "HOL-Library.List_Lexorder" "HOL-Library.Char_ord"
begin

text \<open>
  \<open>app/observability/metrics.py\<close>: the metrics registry, a dictionary from names with labels to values, with its fixed
  label schema, and the text it renders.  Values are exact numbers; the lock makes each operation one step.
\<close>

section \<open>The schema\<close>

definition allowed_metrics :: "(string \<times> string list) list" where
  "allowed_metrics =
     [(''fx_analyzer_ingestion_runs_total'', [''provider'', ''dataset'', ''status'']),
      (''fx_analyzer_ingestion_run_duration_seconds'', [''provider'', ''dataset'']),
      (''fx_analyzer_provider_requests_total'', [''provider'', ''outcome'', ''status_class'']),
      (''fx_analyzer_provider_request_duration_seconds'', [''provider'']),
      (''fx_analyzer_provider_retries_total'', [''provider'', ''reason'']),
      (''fx_analyzer_observations_total'', [''provider'', ''outcome'']),
      (''fx_analyzer_quarantined_records_total'', [''provider'', ''reason'']),
      (''fx_analyzer_quality_state'', [''instrument'', ''state'']),
      (''fx_analyzer_worker_active_runs'', [])]"

definition histograms :: "string list" where
  "histograms = [''fx_analyzer_ingestion_run_duration_seconds'', ''fx_analyzer_provider_request_duration_seconds'']"

text \<open>The boundaries; the last one is infinite.\<close>

definition histogram_buckets :: "rat option list" where
  "histogram_buckets = map Some [1/100, 1/10, 1/2, 1, 5, 30, 60, 300, 900] @ [None]"

section \<open>The registry\<close>

type_synonym metric_key = "string \<times> (string \<times> string) list"
type_synonym registry = "(metric_key \<times> rat) list"

definition metric_get :: "metric_key \<Rightarrow> registry \<Rightarrow> rat" where
  "metric_get k reg = (case map_of reg k of None \<Rightarrow> 0 | Some v \<Rightarrow> v)"

definition metric_add :: "metric_key \<Rightarrow> rat \<Rightarrow> registry \<Rightarrow> registry" where
  "metric_add k v reg = AList.update k (metric_get k reg + v) reg"

definition label_tuple :: "string dict \<Rightarrow> string list \<Rightarrow> (string \<times> string) list" where
  "label_tuple labels items = sort (map (\<lambda>i. (i, case map_of labels i of None \<Rightarrow> [] | Some v \<Rightarrow> v)) items)"

definition metric_schema :: "string \<Rightarrow> string dict \<Rightarrow> string list res" where
  "metric_schema name labels =
     (case map_of allowed_metrics name of
        None \<Rightarrow> Inl (ValueError ''metric name or labels are not in the low-cardinality schema'')
      | Some items \<Rightarrow> rmap (\<lambda>_. items) (rguard (fst ` set labels = set items)
          (ValueError ''metric name or labels are not in the low-cardinality schema'')))"

definition metric_update :: "bool \<Rightarrow> string \<Rightarrow> string \<Rightarrow> rat \<Rightarrow> string dict \<Rightarrow> registry \<Rightarrow> registry res" where
  "metric_update replace base name v labels reg =
     rmap (\<lambda>items. let k = (name, label_tuple labels items) in if replace then AList.update k v reg else metric_add k v reg)
       (metric_schema base labels)"

definition boundary_text :: "rat option \<Rightarrow> string" where
  "boundary_text b = (case b of None \<Rightarrow> ''+Inf'' | Some x \<Rightarrow> format_g x)"

definition below :: "rat \<Rightarrow> rat option \<Rightarrow> bool" where
  "below v b = (case b of None \<Rightarrow> True | Some x \<Rightarrow> v \<le> x)"

definition bucket_key :: "string \<Rightarrow> string dict \<Rightarrow> string list \<Rightarrow> rat option \<Rightarrow> metric_key" where
  "bucket_key name labels items b = (name @ ''_bucket'', label_tuple ((''le'', boundary_text b) # labels) (items @ [''le'']))"

definition metric_increment :: "string \<Rightarrow> rat \<Rightarrow> string dict \<Rightarrow> registry \<Rightarrow> registry res" where
  "metric_increment name amount labels = metric_update False name name amount labels"

definition metric_gauge :: "string \<Rightarrow> rat \<Rightarrow> string dict \<Rightarrow> registry \<Rightarrow> registry res" where
  "metric_gauge name v labels = metric_update True name name v labels"

definition metric_observe :: "string \<Rightarrow> rat \<Rightarrow> string dict \<Rightarrow> registry \<Rightarrow> registry res" where
  "metric_observe name v labels reg =
     rbind (rguard (name \<in> set histograms) (ValueError ''metric is not a histogram'')) (\<lambda>_.
     rbind (metric_update False name (name @ ''_sum'') v labels reg) (\<lambda>reg1.
     rbind (metric_update False name (name @ ''_count'') 1 labels reg1) (\<lambda>reg2.
     rmap (\<lambda>items. fold (\<lambda>b. if below v b then metric_add (bucket_key name labels items b) 1 else id) histogram_buckets reg2)
       (metric_schema name labels))))"

section \<open>Rendering\<close>

definition escape_label :: "string \<Rightarrow> string" where
  "escape_label s = replace_char (CHR 0x0A) [CHR 0x5C, CHR ''n''] (replace_char (CHR 0x22) [CHR 0x5C, CHR 0x22]
     (replace_char (CHR 0x5C) [CHR 0x5C, CHR 0x5C] s))"

definition render_row :: "metric_key \<times> rat \<Rightarrow> string" where
  "render_row = (\<lambda>((name, labels), v).
     name @ (if labels = [] then [] else ''{'' @ join '','' (map (\<lambda>(k, x). k @ [CHR ''='', CHR 0x22] @ escape_label x @ [CHR 0x22]) labels) @ ''}'')
     @ '' '' @ format_g v)"

definition render :: "registry \<Rightarrow> string" where
  "render reg = concat (map (\<lambda>row. render_row row @ [CHR 0x0A]) (sort_key fst reg))"

section \<open>Operations\<close>

datatype metric_op = Increment string rat "string dict" | Observe string rat "string dict" | Gauge string rat "string dict" | Clear

fun metric_step :: "metric_op \<Rightarrow> registry \<Rightarrow> registry res" where
  "metric_step (Increment n v ls) reg = metric_increment n v ls reg"
| "metric_step (Observe n v ls) reg = metric_observe n v ls reg"
| "metric_step (Gauge n v ls) reg = metric_gauge n v ls reg"
| "metric_step Clear reg = Inr []"

text \<open>An operation that raises leaves the registry as it was.\<close>

fun metric_run :: "metric_op list \<Rightarrow> registry \<Rightarrow> registry" where
  "metric_run [] reg = reg"
| "metric_run (x # xs) reg = metric_run xs (case metric_step x reg of Inl e \<Rightarrow> reg | Inr reg' \<Rightarrow> reg')"

section \<open>Histograms as lists of values\<close>

text \<open>What was observed since the last reset: the histogram, its labels and the value.\<close>

definition sample_of :: "metric_op \<Rightarrow> (string \<times> (string \<times> string) list \<times> rat) list" where
  "sample_of op = (case op of
     Observe n v ls \<Rightarrow> (if n \<in> set histograms then (case metric_schema n ls of Inr items \<Rightarrow> [(n, label_tuple ls items, v)] | Inl e \<Rightarrow> []) else [])
   | _ \<Rightarrow> [])"

fun samples :: "metric_op list \<Rightarrow> (string \<times> (string \<times> string) list \<times> rat) list \<Rightarrow> (string \<times> (string \<times> string) list \<times> rat) list" where
  "samples [] xs = xs"
| "samples (op # ops) xs = samples ops (if op = Clear then [] else xs @ sample_of op)"

definition observed_values :: "string \<Rightarrow> (string \<times> string) list \<Rightarrow> (string \<times> (string \<times> string) list \<times> rat) list \<Rightarrow> rat list" where
  "observed_values n l xs = map (\<lambda>(n, l, v). v) (filter (\<lambda>(n', l', v). n' = n \<and> l' = l) xs)"

definition bucket_of :: "string \<Rightarrow> (string \<times> string) list \<Rightarrow> rat option \<Rightarrow> metric_key" where
  "bucket_of n l b = (n @ ''_bucket'', sort ((''le'', boundary_text b) # l))"

definition plain_labels :: "(string \<times> string) list \<Rightarrow> bool" where
  "plain_labels l \<longleftrightarrow> sorted l \<and> ''le'' \<notin> fst ` set l"

text \<open>The registry shows the list: its sum, its length, and per boundary the number of values within it.\<close>

definition shows_samples :: "registry \<Rightarrow> (string \<times> (string \<times> string) list \<times> rat) list \<Rightarrow> bool" where
  "shows_samples reg xs \<longleftrightarrow> (\<forall>n\<in>set histograms. \<forall>l. plain_labels l \<longrightarrow>
     metric_get (n @ ''_sum'', l) reg = sum_list (observed_values n l xs) \<and>
     metric_get (n @ ''_count'', l) reg = of_nat (length (observed_values n l xs)) \<and>
     (\<forall>b\<in>set histogram_buckets. metric_get (bucket_of n l b) reg = of_nat (length (filter (\<lambda>v. below v b) (observed_values n l xs)))))"

lemma metric_get_update [simp]: "metric_get k (AList.update k' v reg) = (if k = k' then v else metric_get k reg)"
  by (simp add: metric_get_def update_conv')

lemma metric_get_add [simp]: "metric_get k (metric_add k' v reg) = metric_get k reg + (if k = k' then v else 0)"
  by (simp add: metric_add_def)

lemma metric_get_fold:
  "metric_get k (fold (\<lambda>b. if P b then metric_add (f b) 1 else id) bs reg) = metric_get k reg + of_nat (length (filter (\<lambda>b. P b \<and> f b = k) bs))"
  by (induction bs arbitrary: reg) auto

lemma label_tuple_plain: "''le'' \<notin> set items \<Longrightarrow> plain_labels (label_tuple ls items)"
  by (auto simp: plain_labels_def label_tuple_def)

lemma schema_items: "metric_schema n ls = Inr items \<Longrightarrow> (n, items) \<in> set allowed_metrics \<and> ''le'' \<notin> set items"
proof -
  assume "metric_schema n ls = Inr items"
  then have "(n, items) \<in> set allowed_metrics" by (auto simp: metric_schema_def rmap_eq_Inr dest: map_of_SomeD split: option.splits)
  moreover have "list_all (\<lambda>(n, items). ''le'' \<notin> set items) allowed_metrics" by code_simp
  ultimately show ?thesis by (auto simp: list_all_iff)
qed

lemma sort_mset: "mset xs = mset ys \<Longrightarrow> sort xs = sort ys"
  by (rule properties_for_sort) simp_all

lemma bucket_key_of:
  assumes "''le'' \<notin> set items"
  shows "bucket_key n ls items b = bucket_of n (label_tuple ls items) b"
proof -
  let ?f = "\<lambda>m i. (i, case map_of m i of None \<Rightarrow> [] | Some v \<Rightarrow> v)"
  have e: "map (?f ((''le'', boundary_text b) # ls)) items = map (?f ls) items"
  proof (rule map_cong [OF refl])
    fix i
    assume "i \<in> set items"
    then have "i \<noteq> ''le''" using assms by metis
    then show "?f ((''le'', boundary_text b) # ls) i = ?f ls i" by simp
  qed
  have "mset (map (?f ((''le'', boundary_text b) # ls)) (items @ [''le''])) = mset ((''le'', boundary_text b) # label_tuple ls items)"
    unfolding map_append e by (simp add: label_tuple_def)
  then have "sort (map (?f ((''le'', boundary_text b) # ls)) (items @ [''le''])) = sort ((''le'', boundary_text b) # label_tuple ls items)"
    by (rule sort_mset)
  then show ?thesis unfolding bucket_key_def bucket_of_def label_tuple_def [of _ "items @ [''le'']"] by (rule arg_cong)
qed

lemma bucket_of_inject:
  assumes "plain_labels l" "plain_labels l'"
  shows "bucket_of n l b = bucket_of n' l' b' \<longleftrightarrow> n = n' \<and> l = l' \<and> boundary_text b = boundary_text b'"
proof -
  have "l = l' \<and> t = t'" if e: "mset ((''le'', t) # l) = mset ((''le'', t') # l')" for t t'
  proof -
    have "(''le'', t) \<in># mset ((''le'', t') # l')" using e by (metis list.set_intros(1) set_mset_mset)
    then have t: "t = t'" using assms(2) by (auto simp: plain_labels_def image_iff)
    then have "mset l = mset l'" using e by simp
    then show ?thesis using assms t by (metis plain_labels_def properties_for_sort sorted_sort_id)
  qed
  note inj = this
  show ?thesis
  proof
    assume "bucket_of n l b = bucket_of n' l' b'"
    then have "n = n'" "sort ((''le'', boundary_text b) # l) = sort ((''le'', boundary_text b') # l')" by (auto simp only: bucket_of_def prod.inject append_same_eq)
    moreover from this(2) have "mset ((''le'', boundary_text b) # l) = mset ((''le'', boundary_text b') # l')" using mset_sort by metis
    ultimately show "n = n' \<and> l = l' \<and> boundary_text b = boundary_text b'" using inj by blast
  qed (simp add: bucket_of_def)
qed

lemma boundary_text_inject: "b \<in> set histogram_buckets \<Longrightarrow> b' \<in> set histogram_buckets \<Longrightarrow> boundary_text b = boundary_text b' \<longleftrightarrow> b = b'"
proof -
  have "map boundary_text histogram_buckets = [''0.01'', ''0.1'', ''0.5'', ''1'', ''5'', ''30'', ''60'', ''300'', ''900'', ''+Inf'']"
    using format_g_examples by (simp add: histogram_buckets_def boundary_text_def)
  then have "distinct (map boundary_text histogram_buckets)" by simp
  then show "b \<in> set histogram_buckets \<Longrightarrow> b' \<in> set histogram_buckets \<Longrightarrow> ?thesis" by (auto simp: distinct_map inj_on_def)
qed

lemma buckets_distinct: "distinct histogram_buckets"
  by (simp add: histogram_buckets_def)

text \<open>The names of the series of a histogram are no names of the schema, and different from each other.\<close>

lemma series_names:
  "list_all (\<lambda>n. list_all (\<lambda>m. m @ ''_sum'' \<noteq> n \<and> m @ ''_count'' \<noteq> n \<and> m @ ''_bucket'' \<noteq> n) histograms) (map fst allowed_metrics)"
  "list_all (\<lambda>n. list_all (\<lambda>m. m @ ''_sum'' \<noteq> n @ ''_count'' \<and> m @ ''_sum'' \<noteq> n @ ''_bucket'' \<and> m @ ''_count'' \<noteq> n @ ''_bucket'') histograms) histograms"
  by code_simp+

lemma other_series:
  assumes "metric_update r n n v ls reg = Inr reg'" "m \<in> set histograms"
  shows "metric_get (m @ ''_sum'', l) reg' = metric_get (m @ ''_sum'', l) reg"
    "metric_get (m @ ''_count'', l) reg' = metric_get (m @ ''_count'', l) reg"
    "metric_get (bucket_of m l b) reg' = metric_get (bucket_of m l b) reg"
proof -
  obtain items where i: "metric_schema n ls = Inr items"
    "reg' = (if r then AList.update (n, label_tuple ls items) v reg else metric_add (n, label_tuple ls items) v reg)"
    using assms(1) by (auto simp: metric_update_def rmap_eq_Inr Let_def)
  have "n \<in> set (map fst allowed_metrics)" using schema_items [OF i(1)] by force
  then have "m @ ''_sum'' \<noteq> n \<and> m @ ''_count'' \<noteq> n \<and> m @ ''_bucket'' \<noteq> n" using series_names(1) assms(2) by (simp only: list_all_iff) blast
  then show "metric_get (m @ ''_sum'', l) reg' = metric_get (m @ ''_sum'', l) reg"
    "metric_get (m @ ''_count'', l) reg' = metric_get (m @ ''_count'', l) reg"
    "metric_get (bucket_of m l b) reg' = metric_get (bucket_of m l b) reg"
    unfolding i(2) by (simp_all add: bucket_of_def)
qed

lemma filter_one: "distinct bs \<Longrightarrow> b0 \<in> set bs \<Longrightarrow> length (filter (\<lambda>b. P b \<and> b = b0) bs) = (if P b0 then 1 else 0)"
proof (induction bs)
  case (Cons b bs)
  then show ?case by (cases "b = b0") (auto simp: filter_empty_conv)
qed simp

lemma observe_effect:
  assumes ok: "metric_observe n v ls reg = Inr reg'" and m: "m \<in> set histograms" and l: "plain_labels l"
  shows "\<exists>items. n \<in> set histograms \<and> metric_schema n ls = Inr items \<and>
    metric_get (m @ ''_sum'', l) reg' = metric_get (m @ ''_sum'', l) reg + (if m = n \<and> l = label_tuple ls items then v else 0) \<and>
    metric_get (m @ ''_count'', l) reg' = metric_get (m @ ''_count'', l) reg + (if m = n \<and> l = label_tuple ls items then 1 else 0) \<and>
    (\<forall>b\<in>set histogram_buckets. metric_get (bucket_of m l b) reg' =
       metric_get (bucket_of m l b) reg + (if m = n \<and> l = label_tuple ls items \<and> below v b then 1 else 0))"
proof -
  obtain items where i: "n \<in> set histograms" "metric_schema n ls = Inr items"
    using ok by (auto simp: metric_observe_def metric_update_def rbind_eq_Inr rmap_eq_Inr rguard_def split: if_splits)
  let ?L = "label_tuple ls items"
  let ?reg2 = "metric_add (n @ ''_count'', ?L) 1 (metric_add (n @ ''_sum'', ?L) v reg)"
  have le: "''le'' \<notin> set items" using schema_items [OF i(2)] by blast
  have "fold (\<lambda>b. if below v b then metric_add (bucket_key n ls items b) 1 else id) histogram_buckets ?reg2 = reg'"
    using ok i by (simp add: metric_observe_def metric_update_def rmap_def rguard_def Let_def)
  then have reg': "reg' = fold (\<lambda>b. if below v b then metric_add (bucket_of n ?L b) 1 else id) histogram_buckets ?reg2"
    unfolding bucket_key_of [OF le] by (rule sym)
  have names: "m @ ''_sum'' \<noteq> n @ ''_count''" "m @ ''_sum'' \<noteq> n @ ''_bucket''" "m @ ''_count'' \<noteq> n @ ''_bucket''"
    "n @ ''_sum'' \<noteq> m @ ''_count''" "n @ ''_sum'' \<noteq> m @ ''_bucket''" "n @ ''_count'' \<noteq> m @ ''_bucket''"
    using series_names(2) i(1) m by (simp_all only: list_all_iff) blast+
  have none: "filter (\<lambda>b. below v b \<and> bucket_of n ?L b = (m @ ''_sum'', l)) bs = []"
    "filter (\<lambda>b. below v b \<and> bucket_of n ?L b = (m @ ''_count'', l)) bs = []" for bs
    using names(2,3) by (auto simp only: filter_empty_conv bucket_of_def prod.inject)
  have sum: "metric_get (m @ ''_sum'', l) reg' = metric_get (m @ ''_sum'', l) reg + (if m = n \<and> l = ?L then v else 0)"
    and count: "metric_get (m @ ''_count'', l) reg' = metric_get (m @ ''_count'', l) reg + (if m = n \<and> l = ?L then 1 else 0)"
    unfolding reg' metric_get_fold none using names(1,4) by auto
  have "metric_get (bucket_of m l b) reg' =
      metric_get (bucket_of m l b) reg + (if m = n \<and> l = ?L \<and> below v b then 1 else 0)" if b: "b \<in> set histogram_buckets" for b
  proof -
    have "bucket_of n ?L x = bucket_of m l b \<longleftrightarrow> n = m \<and> ?L = l \<and> x = b" if "x \<in> set histogram_buckets" for x
      using bucket_of_inject [OF label_tuple_plain [OF le] l] boundary_text_inject [OF that b] by simp
    then have "filter (\<lambda>x. below v x \<and> bucket_of n ?L x = bucket_of m l b) histogram_buckets =
        filter (\<lambda>x. (below v x \<and> n = m \<and> ?L = l) \<and> x = b) histogram_buckets" by (intro filter_cong) auto
    moreover have "metric_get (bucket_of m l b) ?reg2 = metric_get (bucket_of m l b) reg" using names(5,6) by (auto simp: bucket_of_def)
    ultimately have "metric_get (bucket_of m l b) reg' = metric_get (bucket_of m l b) reg + of_nat (if below v b \<and> n = m \<and> ?L = l then 1 else 0)"
      unfolding reg' metric_get_fold by (simp only: filter_one [OF buckets_distinct b])
    then show ?thesis by auto
  qed
  then show ?thesis using i sum count by blast
qed

lemma step_shows:
  assumes "shows_samples reg xs" "metric_step op reg = Inr reg'"
  shows "shows_samples reg' (if op = Clear then [] else xs @ sample_of op)"
proof (cases op)
  case (Increment n v ls)
  then have "metric_update False n n v ls reg = Inr reg'" using assms(2) by (simp add: metric_increment_def)
  from other_series [OF this] show ?thesis using assms(1) Increment by (simp add: shows_samples_def sample_of_def)
next
  case (Gauge n v ls)
  then have "metric_update True n n v ls reg = Inr reg'" using assms(2) by (simp add: metric_gauge_def)
  from other_series [OF this] show ?thesis using assms(1) Gauge by (simp add: shows_samples_def sample_of_def)
next
  case Clear
  then show ?thesis using assms(2) by (auto simp: shows_samples_def observed_values_def metric_get_def)
next
  case (Observe n v ls)
  then have ob: "metric_observe n v ls reg = Inr reg'" using assms(2) by simp
  show ?thesis unfolding shows_samples_def
  proof (intro ballI allI impI)
    fix m l
    assume m: "m \<in> set histograms" and l: "plain_labels l"
    obtain items where e: "n \<in> set histograms" "metric_schema n ls = Inr items"
      "metric_get (m @ ''_sum'', l) reg' = metric_get (m @ ''_sum'', l) reg + (if m = n \<and> l = label_tuple ls items then v else 0)"
      "metric_get (m @ ''_count'', l) reg' = metric_get (m @ ''_count'', l) reg + (if m = n \<and> l = label_tuple ls items then 1 else 0)"
      "\<forall>b\<in>set histogram_buckets. metric_get (bucket_of m l b) reg' =
         metric_get (bucket_of m l b) reg + (if m = n \<and> l = label_tuple ls items \<and> below v b then 1 else 0)"
      using observe_effect [OF ob m l] by blast
    have xs: "(if op = Clear then [] else xs @ sample_of op) = xs @ [(n, label_tuple ls items, v)]"
      using Observe e(1,2) by (simp add: sample_of_def)
    have vals: "observed_values m l (xs @ [(n, label_tuple ls items, v)]) =
        observed_values m l xs @ (if m = n \<and> l = label_tuple ls items then [v] else [])" by (auto simp: observed_values_def)
    show "metric_get (m @ ''_sum'', l) reg' = sum_list (observed_values m l (if op = Clear then [] else xs @ sample_of op)) \<and>
       metric_get (m @ ''_count'', l) reg' = of_nat (length (observed_values m l (if op = Clear then [] else xs @ sample_of op))) \<and>
       (\<forall>b\<in>set histogram_buckets. metric_get (bucket_of m l b) reg' =
          of_nat (length (filter (\<lambda>v. below v b) (observed_values m l (if op = Clear then [] else xs @ sample_of op)))))"
      unfolding xs vals using assms(1) m l e(3-5)
      by (cases "m = n \<and> l = label_tuple ls items") (simp_all only: shows_samples_def, simp_all, blast?)
  qed
qed

text \<open>An operation that raises observes nothing.\<close>

lemma failed_step: "metric_step op reg = Inl e \<Longrightarrow> op \<noteq> Clear \<and> sample_of op = []"
  by (cases op) (auto simp: sample_of_def metric_observe_def metric_update_def rmap_def rguard_def split: sum.splits if_splits)

lemma run_shows: "shows_samples reg xs \<Longrightarrow> shows_samples (metric_run ops reg) (samples ops xs)"
proof (induction ops arbitrary: reg xs)
  case (Cons op ops)
  show ?case
  proof (cases "metric_step op reg")
    case (Inl e)
    then show ?thesis using Cons failed_step [OF Inl] by simp
  next
    case (Inr reg')
    then show ?thesis using Cons.IH [OF step_shows [OF Cons.prems Inr]] by simp
  qed
qed simp

section \<open>Properties\<close>


text \<open>Counters above six digits are rendered rounded: increments between two such texts do not show.\<close>

theorem large_counters_rendered_rounded:
  "render [((''fx_analyzer_worker_active_runs'', []), 1000001)] = render [((''fx_analyzer_worker_active_runs'', []), 1000002)]"
  by (simp add: render_def render_row_def format_g_eval)

end
