(* ===== verification/Spec2Isabelle.thy ===== *)
theory Spec2Isabelle
  imports Normalization Quality Scheduling Operations Http_Fetch Pipeline Valet Bis_Client Bis_Mapper Reference_Sync
    Runtime Worker Processes Api Observability Metrics
begin

text \<open>
  \<^bold>\<open>A model of the FX and policy-rate ingestion service in\<close> \<open>src/app\<close>.

  \<^bold>\<open>The program.\<close>  The service fetches daily foreign-exchange rates of the Bank of Canada and central-bank policy
  rates of the BIS, keeps the exact provider responses, and stores every observation as a timeline of versions, so that
  what was known at an instant can be read again later.  A scheduler process plans one command per provider when an
  observation falls due; a command becomes a run with one scope per series; a worker process claims runs, and for each
  scope fetches, stores the response, parses, maps, validates and persists the records; an HTTP interface reads
  observations, runs and quality, and accepts commands.  All parts share one database, and the components below are
  joined in the model as they are there: every operation takes the database state and returns it, or an exception.

  \<^bold>\<open>How the model reads.\<close>  \<open>Prelude\<close> holds the Python exceptions (\<open>exn\<close>), results (\<open>res\<close>, an exception or a value)
  and the shared lemmas.  A dataclass or table row is a \<open>record\<close>, an enum a \<open>datatype\<close>, an id a number, a date its
  ordinal (\<open>date.toordinal()\<close>), an instant its microseconds since year 1 with the bounds of \<open>datetime\<close>, a decimal its
  sign, coefficient and exponent, a text a list of characters with codes below 256.  A transaction that raises leaves
  the database it started with: the callers that go on after an exception use the state before it, and only those parts
  of a step that commit on their own survive (\<open>store_response\<close> within \<open>execute\<close>).

  \<^bold>\<open>Theories and sources\<close> (paths under \<open>src/app\<close>).

  \<^item> Standard library: \<open>Py_Time\<close> and \<open>Py_Datetime\<close> (dates, ISO texts and their parser), \<open>Py_Decimal\<close>, \<open>Py_Float\<close> (the
    format \<open>:g\<close>), \<open>Py_Json\<close> (canonical output), \<open>Json_Reader\<close> (\<open>json.loads\<close>), \<open>Py_Csv\<close>, \<open>Py_Base64\<close>.
  \<^item> Domain: \<open>Domain_Model\<close> (\<open>domain/enums.py\<close>, \<open>provider.py\<close>, \<open>candidates.py\<close>), \<open>Normalization\<close>, \<open>Fingerprints\<close>
    and \<open>Validation\<close> (the files of these names).
  \<^item> Configuration: \<open>Reference_Config\<close> (\<open>config/reference.py\<close>), \<open>Reference_Sync\<close> (\<open>repositories/reference.py\<close> and
    \<open>application/reference.py\<close>), \<open>Processes\<close> (\<open>config/settings.py\<close>, the mains of \<open>worker.py\<close> and \<open>scheduler.py\<close>).
  \<^item> Database: \<open>Database_Models\<close> (\<open>database/models.py\<close>: one record per table, its checks as a list), \<open>Transactions\<close> (the
    locales \<open>guarded_store\<close>, \<open>bitemporal_store\<close> and \<open>append_only_store\<close>).
  \<^item> Observations: \<open>Versioning\<close> (\<open>repositories/observations.py\<close>), \<open>Timelines\<close> (its invariant, interpreted in the
    bitemporal interface for both families).
  \<^item> Runs: \<open>Ingestion_Runs\<close> (\<open>repositories/ingestion_runs.py\<close>, \<open>application/ingestion/commands.py\<close>, \<open>run_manager.py\<close>,
    \<open>scope_coordinator.py\<close>), \<open>Run_Lifecycle\<close> (the ledger as a state machine over one event per transaction).
  \<^item> Providers: \<open>Http_Fetch\<close> (\<open>providers/http.py\<close>, \<open>base.py\<close>), \<open>Provider_Codecs\<close>, \<open>Valet\<close>
    (\<open>providers/bank_of_canada\<close>), \<open>Bis_Client\<close>, \<open>Bis_Parser\<close> and \<open>Bis_Mapper\<close> (\<open>providers/bis\<close>).
  \<^item> Ingestion: \<open>Raw_Data\<close> (\<open>application/ingestion/raw_data.py\<close>, \<open>repositories/raw_data.py\<close>, \<open>quarantine.py\<close>), \<open>Pipeline\<close>
    (\<open>application/ingestion/orchestrator.py\<close>), \<open>Runtime\<close> (\<open>application/runtime_bindings.py\<close>), \<open>Worker\<close>
    (\<open>application/worker_runtime.py\<close>, \<open>worker.py\<close>).
  \<^item> Quality and planning: \<open>Expectations\<close>, \<open>Quality\<close> (\<open>application/quality\<close>, \<open>repositories/quality.py\<close>), \<open>Scheduling\<close>
    (\<open>application/scheduling.py\<close>), and the scheduler loop in \<open>Processes\<close>.
  \<^item> Interface: \<open>Cursors\<close> and \<open>Observation_Queries\<close> (\<open>application/queries/observations.py\<close>), \<open>Operations\<close>
    (\<open>application/queries/operations.py\<close>), \<open>Api\<close> (\<open>api\<close>, the routes and handlers of \<open>main.py\<close>).
  \<^item> Observability: \<open>Metrics\<close> and \<open>Observability\<close> (\<open>observability/metrics.py\<close>, \<open>logging.py\<close>).

  \<^bold>\<open>What is shown.\<close>

  \<^item> Storage: version timelines stay gap-free with one open version, reads as of an instant are reproducible, persisting
    is idempotent and never rejected by a constraint for valid input, equal fingerprints come from equal observations.
  \<^item> Runs: running scopes of different runs never overlap, a terminal run is closed and counted, closed rows never change,
    lease recovery closes exactly the expired runs.  These are invariants of \<open>ledger_ok\<close> over all sequences of
    transactions, through the interpretations \<open>ledger\<close> and \<open>history\<close>.
  \<^item> Execution: a claimed run always ends terminal, the counters of a scope are what it stored, stored responses survive
    later failures, the worker drains the queue and keeps the ledger under any interleaving with other processes, and a
    binding requests exactly the dates of its scope.
  \<^item> Providers: fetching is bounded in attempts, size and delay and reports errors without request data; the three parsers
    are complete and faithful or fail with the errors named; the BIS requests partition keys and dates.
  \<^item> Configuration and planning: a synchronization activates what the configuration enables and is idempotent;
    expectations are the business days of the policy; \<open>complete\<close> means what it says; planned commands are due, and
    a scheduler tick can be repeated.
  \<^item> Interface: following cursors lists every observation once, requests change nothing but by adding one pending
    run, answers are JSON from which an observation can be read back.
  \<^item> Observability: histograms count what was observed; no stored error summary holds a URL.

  Where the code does not do what its surroundings expect, a theorem says what it does: planning stops for a policy not
  yet in force (\<open>future_policy_stops_scheduler\<close>), absences of the Bank of Canada are quarantined
  (\<open>valet_absence_quarantined\<close>), parser and cursor errors that escape translation (\<open>bis_array_escapes\<close>,
  \<open>unreadable_cursor\<close>), errors classified by their wording (\<open>enqueue_misclassified\<close>), a delay that is no number
  (\<open>nan_delay_ignores_budget\<close>), counters rendered to six digits (\<open>large_counters_rendered_rounded\<close>).

  \<^bold>\<open>Bounds and fuel.\<close>  The JSON reader recurses with fuel twice the length of the text and two
  (\<open>read_document_fuel\<close>: any larger fuel gives the same).  The loop over missing dates has one step per date and one
  for the last test; the fetch loop has one step per configured attempt, and never runs out.
  \<open>walk_pages\<close> follows cursors for one page more than there are rows, each page but the last being full.  The worker
  loop \<open>poll_until_idle\<close> gets a number of turns and returns nothing when they do not suffice; one more than the waiting
  runs always does.  All other loops are recursions with termination proofs: over the dates of a
  range (\<open>expectations_loop\<close>, \<open>range_pieces\<close>) or the length of the text (\<open>resub\<close>, \<open>redact_urls\<close>).  Adding a day at
  the last date of the calendar raises \<open>OverflowError\<close>, as it does in the code.

  \<^bold>\<open>Parameters.\<close>  What lies outside \<open>src\<close> is an argument of the definitions that use it: the exchanges of the HTTP library,
  SHA-256, gzip and UTF-8 (a record of codecs), float texts, the time zone database, the parser of mail dates, clocks,
  random numbers and fresh ids.  Theorems that need a law of theirs, such as fresh ids or ASCII decoding, state it as a
  hypothesis, and their witnesses instantiate it.

  \<^bold>\<open>Not modelled.\<close>  Reading the YAML file and its checksum (a third-party parser), SQLAlchemy sessions and engine, row
  and advisory locks (an operation runs alone in its transaction), column lengths and rounding of numeric columns, the
  heartbeat task that runs beside an execution (heartbeats are events of the ledger instead), parsing of requests into
  typed values by the web framework, the access log and the metrics route, the configuration command line, schema
  migrations, tests and deployment files.
\<close>

end
